(* ===== verification/Prelude.thy ===== *)
theory Prelude
  imports
    Main
    "HOL-Library.AList"
    "HOL-Library.Word"
    "HOL-Library.Signed_Division"
begin

text \<open>
  The shared vocabulary of the development.

  \<^item> C++ failures (\<open>cpp_error\<close>) and the result type \<open>cpp_error + 'a\<close> with its
    bind \<open>rbind\<close> and the failing loop \<open>rfold\<close>.
  \<^item> The containers that \<^verbatim>\<open>src/common/include/types.hpp\<close> names \<open>map\<close> and \<open>set\<close>:
    they are \<open>std::unordered_map\<close> and \<open>std::unordered_set\<close>, whose iteration
    order is not specified. They are lists here, the list being the iteration order; every
    lemma holds for every order of the elements, and an insertion puts a new element at the end.
  \<^item> The fragment of \<open>std::string\<close>, \<open>std::getline\<close>, \<open>std::to_string\<close> and
    \<open>std::stoi\<close> that the program calls.
  \<^item> Generic interfaces as locales: \<open>roundtrip\<close> (encoders and decoders) and
    \<open>step_system\<close> (invariants of event loops).
\<close>

named_theorems container_simps \<open>unordered containers as lists\<close>
named_theorems string_simps \<open>std::string operations\<close>
named_theorems result_simps \<open>the result type and its bind\<close>

subsection \<open>Failures as values\<close>

datatype cpp_error =
    OutOfRange       \<comment> \<open>\<open>std::out_of_range\<close>, or an index past the end of a container\<close>
  | NullDeref        \<comment> \<open>a null pointer is dereferenced\<close>
  | DivByZero        \<comment> \<open>integer remainder by zero\<close>
  | InvalidArgument  \<comment> \<open>\<open>std::invalid_argument\<close>, thrown by \<open>std::stoi\<close>\<close>
  | IterInvalid      \<comment> \<open>an end or an invalidated iterator is used\<close>
  | Uninitialised    \<comment> \<open>an indeterminate value is used\<close>
  | NoReturn         \<comment> \<open>a loop does not end\<close>
  | Overflow         \<comment> \<open>signed arithmetic leaves the range of its type\<close>

type_synonym 'a res = "cpp_error + 'a"

definition rbind :: "'e + 'a \<Rightarrow> ('a \<Rightarrow> 'e + 'b) \<Rightarrow> 'e + 'b" where
  "rbind r f = (case r of Inl e \<Rightarrow> Inl e | Inr a \<Rightarrow> f a)"

lemma rbind_simps [simp, result_simps]:
  "rbind (Inl e) f = Inl e"
  "rbind (Inr a) f = f a"
  by (simp_all add: rbind_def)

lemma rbind_Inr_right: "rbind x Inr = x"
  by (cases x) simp_all

lemma rbind_eq_Inr [result_simps]:
  "rbind r f = Inr b \<longleftrightarrow> (\<exists>a. r = Inr a \<and> f a = Inr b)"
  by (cases r) auto

lemma rbind_eq_Inl [result_simps]:
  "rbind r f = Inl e \<longleftrightarrow> r = Inl e \<or> (\<exists>a. r = Inr a \<and> f a = Inl e)"
  by (cases r) auto

text \<open>A loop whose body may fail stops at the first failure.\<close>

fun rfold :: "('s \<Rightarrow> 'x \<Rightarrow> 'e + 's) \<Rightarrow> 's \<Rightarrow> 'x list \<Rightarrow> 'e + 's" where
  "rfold f s [] = Inr s"
| "rfold f s (x # xs) = rbind (f s x) (\<lambda>s'. rfold f s' xs)"

lemma rfold_append [result_simps]:
  "rfold f s (xs @ ys) = rbind (rfold f s xs) (\<lambda>s'. rfold f s' ys)"
proof (induction xs arbitrary: s)
  case (Cons x xs)
  then show ?case by (cases "f s x") auto
qed simp

lemma rfold_invariant:
  assumes "rfold f s xs = Inr s'" and "P s"
    and "\<And>s x s'. x \<in> set xs \<Longrightarrow> P s \<Longrightarrow> f s x = Inr s' \<Longrightarrow> P s'"
  shows "P s'"
  using assms
proof (induction xs arbitrary: s)
  case (Cons x xs)
  then obtain t where t: "f s x = Inr t" "rfold f t xs = Inr s'"
    by (auto simp: rbind_eq_Inr)
  then have "P t" using Cons.prems by auto
  with t(2) show ?case using Cons.prems(3) by (auto intro: Cons.IH)
qed simp

lemma rfold_total:
  assumes "P s" and "\<And>s x. x \<in> set xs \<Longrightarrow> P s \<Longrightarrow> \<exists>s'. f s x = Inr s' \<and> P s'"
  shows "\<exists>s'. rfold f s xs = Inr s' \<and> P s'"
  using assms
proof (induction xs arbitrary: s)
  case (Cons x xs)
  then obtain t where "f s x = Inr t" "P t" by (metis list.set_intros(1))
  then show ?case using Cons.IH [of t] Cons.prems(2) by auto
qed simp

lemma rfold_collect:
  assumes "\<forall>x\<in>set xs. \<exists>y. f x = Inr y \<and> Q x y"
  shows "\<exists>ys. rfold (\<lambda>acc x. rbind (f x) (\<lambda>y. Inr (acc @ [y]))) acc xs = Inr (acc @ ys) \<and> list_all2 Q xs ys"
  using assms
proof (induction xs arbitrary: acc)
  case (Cons x xs)
  obtain y where y: "f x = Inr y" "Q x y" using Cons.prems by auto
  obtain ys where "rfold (\<lambda>acc x. rbind (f x) (\<lambda>y. Inr (acc @ [y]))) (acc @ [y]) xs = Inr (acc @ [y] @ ys)"
    "list_all2 Q xs ys" using Cons.IH [of "acc @ [y]"] Cons.prems by auto
  with y show ?case by (intro exI [of _ "y # ys"]) simp
qed simp

subsection \<open>Unordered maps\<close>

type_synonym ('k, 'v) umap = "('k \<times> 'v) list"

abbreviation um_wf :: "('k, 'v) umap \<Rightarrow> bool" where
  "um_wf m \<equiv> distinct (map fst m)"

abbreviation um_has :: "'k \<Rightarrow> ('k, 'v) umap \<Rightarrow> bool" where
  "um_has k m \<equiv> map_of m k \<noteq> None"

abbreviation um_put :: "'k \<Rightarrow> 'v \<Rightarrow> ('k, 'v) umap \<Rightarrow> ('k, 'v) umap" where
  "um_put \<equiv> AList.update"

abbreviation um_erase :: "'k \<Rightarrow> ('k, 'v) umap \<Rightarrow> ('k, 'v) umap" where
  "um_erase \<equiv> AList.delete"

text \<open>\<open>m[k]\<close> yields the value stored at \<open>k\<close>, or stores and yields a
  value-initialised one: \<open>um_get\<close> is the value, \<open>um_touch\<close> the map afterwards.\<close>

definition um_get :: "'v \<Rightarrow> 'k \<Rightarrow> ('k, 'v) umap \<Rightarrow> 'v" where
  "um_get d k m = (case map_of m k of Some v \<Rightarrow> v | None \<Rightarrow> d)"

definition um_touch :: "'v \<Rightarrow> 'k \<Rightarrow> ('k, 'v) umap \<Rightarrow> ('k, 'v) umap" where
  "um_touch d k m = (case map_of m k of Some _ \<Rightarrow> m | None \<Rightarrow> m @ [(k, d)])"

text \<open>Updating a component of \<open>m[k]\<close>.\<close>

definition um_alter :: "'v \<Rightarrow> ('v \<Rightarrow> 'v) \<Rightarrow> 'k \<Rightarrow> ('k, 'v) umap \<Rightarrow> ('k, 'v) umap" where
  "um_alter d f k m = um_put k (f (um_get d k m)) m"

declare map_of_eq_Some_iff [simp del]

lemma um_get_Some [simp, container_simps]: "map_of m k = Some v \<Longrightarrow> um_get d k m = v"
  by (simp add: um_get_def)

lemma um_get_None [simp, container_simps]: "map_of m k = None \<Longrightarrow> um_get d k m = d"
  by (simp add: um_get_def)

lemma map_of_um_put [simp, container_simps]: "map_of (um_put k v m) = (map_of m)(k \<mapsto> v)"
  by (rule update_conv')

lemma map_of_um_erase [simp, container_simps]: "map_of (um_erase k m) = (map_of m)(k := None)"
  by (rule delete_conv')

lemma map_of_um_touch [container_simps]:
  "map_of (um_touch d k m) = (map_of m)(k \<mapsto> um_get d k m)"
  by (rule ext) (auto simp: um_touch_def um_get_def map_add_def split: option.splits)

lemma map_of_um_alter [simp, container_simps]:
  "map_of (um_alter d f k m) = (map_of m)(k \<mapsto> f (um_get d k m))"
  by (simp add: um_alter_def)

lemma um_get_put [simp, container_simps]:
  "um_get d k' (um_put k v m) = (if k' = k then v else um_get d k' m)"
  by (simp add: um_get_def)

lemma um_get_erase [simp, container_simps]:
  "um_get d k' (um_erase k m) = (if k' = k then d else um_get d k' m)"
  by (simp add: um_get_def)

lemma um_get_touch [simp, container_simps]: "um_get d k' (um_touch d k m) = um_get d k' m"
  by (simp add: um_get_def map_of_um_touch split: option.splits)

lemma um_get_alter [simp, container_simps]:
  "um_get d k' (um_alter d f k m) = (if k' = k then f (um_get d k m) else um_get d k' m)"
  by (simp add: um_get_def)

lemma um_wf_put [simp, container_simps]: "um_wf m \<Longrightarrow> um_wf (um_put k v m)"
  by (rule distinct_update)

lemma um_wf_erase [simp, container_simps]: "um_wf m \<Longrightarrow> um_wf (um_erase k m)"
  by (rule distinct_delete)

lemma um_wf_touch [simp, container_simps]: "um_wf m \<Longrightarrow> um_wf (um_touch d k m)"
  by (auto simp: um_touch_def map_of_eq_None_iff split: option.splits)

lemma um_touch_id [simp, container_simps]: "um_has k m \<Longrightarrow> um_touch d k m = m"
  by (auto simp: um_touch_def split: option.splits)

lemma um_wf_alter [simp, container_simps]: "um_wf m \<Longrightarrow> um_wf (um_alter d f k m)"
  by (simp add: um_alter_def)

lemma dom_um_put [container_simps]: "fst ` set (um_put k v m) = insert k (fst ` set m)"
  by (simp add: dom_update)

lemma um_has_iff [container_simps]: "um_has k m \<longleftrightarrow> k \<in> fst ` set m"
  by (simp add: map_of_eq_None_iff)

lemma um_wf_filter [simp]: "um_wf m \<Longrightarrow> um_wf (filter P m)"
  by (rule distinct_map_filter)

lemma map_of_filter:
  "um_wf m \<Longrightarrow> map_of (filter P m) k = (case map_of m k of None \<Rightarrow> None | Some v \<Rightarrow> if P (k, v) then Some v else None)"
proof (induction m)
  case (Cons e m)
  obtain k' v' where e: "e = (k', v')" by (cases e)
  have "k' \<notin> fst ` set m" using Cons.prems e by simp
  then have "map_of (filter P m) k' = None" by (auto simp: map_of_eq_None_iff)
  then show ?case using Cons e by (auto split: option.splits)
qed simp

lemma map_of_map_snd: "map_of (map (\<lambda>(k, v). (k, f v)) m) k = map_option f (map_of m k)"
  by (induction m) auto

subsection \<open>Unordered sets\<close>

type_synonym 'a uset = "'a list"

definition us_insert :: "'a \<Rightarrow> 'a uset \<Rightarrow> 'a uset" where
  "us_insert x xs = (if x \<in> set xs then xs else xs @ [x])"

definition us_erase :: "'a \<Rightarrow> 'a uset \<Rightarrow> 'a uset" where
  "us_erase x xs = filter (\<lambda>y. y \<noteq> x) xs"

definition us_of_list :: "'a list \<Rightarrow> 'a uset" where
  "us_of_list xs = fold us_insert xs []"

lemma set_us_insert [simp, container_simps]: "set (us_insert x xs) = insert x (set xs)"
  by (auto simp: us_insert_def)

lemma distinct_us_insert [simp, container_simps]: "distinct xs \<Longrightarrow> distinct (us_insert x xs)"
  by (simp add: us_insert_def)

lemma us_insert_not_Nil [simp, container_simps]: "us_insert x xs \<noteq> []"
  by (auto simp: us_insert_def)

lemma set_us_erase [simp, container_simps]: "set (us_erase x xs) = set xs - {x}"
  by (auto simp: us_erase_def)

lemma distinct_us_erase [simp, container_simps]: "distinct xs \<Longrightarrow> distinct (us_erase x xs)"
  by (simp add: us_erase_def)

lemma set_fold_us_insert [simp, container_simps]: "set (fold us_insert xs ys) = set xs \<union> set ys"
  by (induction xs arbitrary: ys) auto

lemma distinct_fold_us_insert [simp, container_simps]:
  "distinct ys \<Longrightarrow> distinct (fold us_insert xs ys)"
  by (induction xs arbitrary: ys) auto

lemma set_us_of_list [simp, container_simps]: "set (us_of_list xs) = set xs"
  by (simp add: us_of_list_def)

lemma distinct_us_of_list [simp, container_simps]: "distinct (us_of_list xs)"
  by (simp add: us_of_list_def)

lemma us_of_list_id: "distinct (ys @ xs) \<Longrightarrow> fold us_insert xs ys = ys @ xs"
  by (induction xs arbitrary: ys) (auto simp: us_insert_def)

lemma us_of_list_distinct [simp, container_simps]: "distinct xs \<Longrightarrow> us_of_list xs = xs"
  using us_of_list_id [of "[]" xs] by (simp add: us_of_list_def)

lemma length_us_eq_iff:
  assumes "distinct xs" and "distinct ys" and "set xs \<subseteq> set ys"
  shows "length xs = length ys \<longleftrightarrow> set xs = set ys"
  using assms by (metis List.finite_set card_subset_eq distinct_card)

subsection \<open>Strings\<close>

text \<open>\<open>index_of c s\<close> is \<open>s.find(c)\<close> for a one-character needle, \<open>None\<close> standing for
  \<open>npos\<close>; \<open>str_find\<close> starts at a position.\<close>

fun index_of :: "'a \<Rightarrow> 'a list \<Rightarrow> nat option" where
  "index_of c [] = None"
| "index_of c (x # xs) = (if x = c then Some 0 else map_option Suc (index_of c xs))"

definition str_find :: "char \<Rightarrow> nat \<Rightarrow> string \<Rightarrow> nat option" where
  "str_find c pos s = map_option ((+) pos) (index_of c (drop pos s))"

text \<open>\<open>s.substr(pos, n)\<close>: throws when \<open>pos\<close> is past the end; \<open>None\<close> is \<open>npos\<close>.\<close>

definition substr :: "string \<Rightarrow> nat \<Rightarrow> nat option \<Rightarrow> string res" where
  "substr s pos cnt =
     (if length s < pos then Inl OutOfRange
      else Inr (case cnt of None \<Rightarrow> drop pos s | Some n \<Rightarrow> take n (drop pos s)))"

lemma index_of_None [string_simps]: "index_of c s = None \<longleftrightarrow> c \<notin> set s"
  by (induction s) auto

lemma index_of_append [string_simps]:
  "c \<notin> set s \<Longrightarrow> index_of c (s @ t) = map_option ((+) (length s)) (index_of c t)"
  by (induction s; cases "index_of c t") auto

lemma index_of_delim [simp, string_simps]:
  "c \<notin> set s \<Longrightarrow> index_of c (s @ c # t) = Some (length s)"
  by (simp add: index_of_append)

text \<open>The \<open>split\<close> of \<^verbatim>\<open>src/common/include/common.hpp\<close> and other loops call
  \<open>std::getline\<close>: it reads up to the delimiter and fails once the stream is exhausted, so a
  trailing empty item is not produced.\<close>

function getlines :: "char \<Rightarrow> string \<Rightarrow> string list" where
  "getlines d s =
     (if s = [] then []
      else takeWhile (\<lambda>c. c \<noteq> d) s # getlines d (drop 1 (dropWhile (\<lambda>c. c \<noteq> d) s)))"
  by pat_completeness auto
termination
proof (relation "measure (\<lambda>(d, s). length s)", goal_cases)
  case (2 d s)
  then have "length (dropWhile (\<lambda>c. c \<noteq> d) s) - 1 < length s"
    using length_dropWhile_le [of "\<lambda>c. c \<noteq> d" s] by (cases s) auto
  then show ?case by simp
qed simp

declare getlines.simps [simp del]

lemma getlines_Nil [simp, string_simps]: "getlines d [] = []"
  by (simp add: getlines.simps)

lemma getlines_item [string_simps]:
  "d \<notin> set x \<Longrightarrow> getlines d (x @ d # rest) = x # getlines d rest"
proof -
  assume d: "d \<notin> set x"
  then have "\<And>c. c \<in> set x \<Longrightarrow> c \<noteq> d" by auto
  then show ?thesis
    by (subst getlines.simps) (simp add: takeWhile_append2 dropWhile_append2)
qed

lemma getlines_last [string_simps]: "d \<notin> set x \<Longrightarrow> x \<noteq> [] \<Longrightarrow> getlines d x = [x]"
proof -
  assume d: "d \<notin> set x" and x: "x \<noteq> []"
  from d have "takeWhile (\<lambda>c. c \<noteq> d) x = x" "dropWhile (\<lambda>c. c \<noteq> d) x = []"
    by (auto intro: takeWhile_eq_all_conv [THEN iffD2])
  with x show ?thesis by (simp add: getlines.simps [of d x] del: dropWhile_eq_Nil_conv)
qed

text \<open>Joining with the delimiter before every item but the first, as the message builders do.\<close>

fun join_with :: "char \<Rightarrow> string list \<Rightarrow> string" where
  "join_with d [] = []"
| "join_with d [x] = x"
| "join_with d (x # y # ys) = x @ d # join_with d (y # ys)"

lemma getlines_join_with [string_simps]:
  "xs \<noteq> [] \<Longrightarrow> \<forall>x\<in>set xs. d \<notin> set x \<Longrightarrow> last xs \<noteq> [] \<Longrightarrow> getlines d (join_with d xs) = xs"
  by (induction d xs rule: join_with.induct) (auto simp: getlines_item getlines_last split: if_splits)

subsection \<open>Numbers as text\<close>

definition digit_char :: "nat \<Rightarrow> char" where
  "digit_char n = char_of (48 + n)"

definition is_digit :: "char \<Rightarrow> bool" where
  "is_digit c = (48 \<le> (of_char c :: nat) \<and> (of_char c :: nat) \<le> 57)"

definition digit_val :: "char \<Rightarrow> nat" where
  "digit_val c = of_char c - 48"

text \<open>\<open>std::to_string\<close> of an unsigned value.\<close>

fun to_string :: "nat \<Rightarrow> string" where
  "to_string n = (if n < 10 then [digit_char n] else to_string (n div 10) @ [digit_char (n mod 10)])"

declare to_string.simps [simp del]

definition digits_val :: "string \<Rightarrow> nat" where
  "digits_val s = foldl (\<lambda>a c. 10 * a + digit_val c) 0 s"

definition is_space :: "char \<Rightarrow> bool" where
  "is_space c = (let n = (of_char c :: nat) in n = 32 \<or> 9 \<le> n \<and> n \<le> 13)"

text \<open>\<open>std::stoi\<close>: leading white space, an optional sign, then as many digits as there are;
  no digit at all or a value outside \<open>int\<close> throws.\<close>

definition stoi :: "string \<Rightarrow> int res" where
  "stoi s =
     (let t = dropWhile is_space s;
          neg = (t \<noteq> [] \<and> hd t = CHR ''-'');
          u = (if t \<noteq> [] \<and> (hd t = CHR ''-'' \<or> hd t = CHR ''+'') then tl t else t);
          ds = takeWhile is_digit u;
          v = (if neg then - int (digits_val ds) else int (digits_val ds))
      in if ds = [] then Inl InvalidArgument
         else if v < - (2 ^ 31) \<or> 2 ^ 31 \<le> v then Inl OutOfRange
         else Inr v)"

lemma of_char_digit_char [simp]: "n < 10 \<Longrightarrow> (of_char (digit_char n) :: nat) = 48 + n"
  by (simp add: digit_char_def)

lemma is_digit_digit_char [simp]: "n < 10 \<Longrightarrow> is_digit (digit_char n)"
  by (simp add: is_digit_def)

lemma digit_val_digit_char [simp]: "n < 10 \<Longrightarrow> digit_val (digit_char n) = n"
  by (simp add: digit_val_def)

lemma to_string_not_Nil [simp, string_simps]: "to_string n \<noteq> []"
  by (subst to_string.simps) simp

lemma to_string_digits [string_simps]: "c \<in> set (to_string n) \<Longrightarrow> is_digit c"
proof (induction n rule: to_string.induct)
  case (1 n)
  then show ?case by (subst (asm) (2) to_string.simps) (auto split: if_splits)
qed

lemma digits_val_snoc: "digits_val (s @ [c]) = 10 * digits_val s + digit_val c"
  by (simp add: digits_val_def)

lemma digits_val_to_string [simp, string_simps]: "digits_val (to_string n) = n"
proof (induction n rule: to_string.induct)
  case (1 n)
  show ?case
  proof (cases "n < 10")
    case True
    then show ?thesis by (subst to_string.simps) (simp add: digits_val_def)
  next
    case False
    with 1 show ?thesis by (subst to_string.simps) (simp add: digits_val_snoc)
  qed
qed

lemma to_string_inj [simp]: "to_string m = to_string n \<longleftrightarrow> m = n"
  by (metis digits_val_to_string)

lemma not_digit_delims [simp]:
  "\<not> is_digit (CHR ''|'')" "\<not> is_digit (CHR '':'')" "\<not> is_digit (CHR ''_'')"
  "\<not> is_digit (CHR ''-'')" "\<not> is_digit (CHR ''+'')" "\<not> is_digit (CHR '' '')"
  by (simp_all add: is_digit_def)

lemma delim_notin_to_string [simp, string_simps]:
  "\<not> is_digit c \<Longrightarrow> c \<notin> set (to_string n)"
  using to_string_digits by blast

lemma digit_not_space: "is_digit c \<Longrightarrow> \<not> is_space c"
  by (auto simp: is_digit_def is_space_def Let_def)

lemma takeWhile_digits_to_string:
  assumes "rest = [] \<or> \<not> is_digit (hd rest)"
  shows "takeWhile is_digit (to_string n @ rest) = to_string n"
proof -
  have "takeWhile is_digit (to_string n @ rest) = to_string n @ takeWhile is_digit rest"
    by (rule takeWhile_append2) (rule to_string_digits)
  also have "takeWhile is_digit rest = []"
    using assms by (cases rest) auto
  finally show ?thesis by simp
qed

lemma stoi_to_string:
  assumes "n < 2 ^ 31" and "rest = [] \<or> \<not> is_digit (hd rest)"
  shows "stoi (to_string n @ rest) = Inr (int n)"
proof -
  obtain c cs where c: "to_string n = c # cs"
    by (cases "to_string n") auto
  then have d: "is_digit c" using to_string_digits [of c n] by simp
  then have ns: "\<not> is_space c" and sg: "c \<noteq> CHR ''-''" "c \<noteq> CHR ''+''"
    using digit_not_space not_digit_delims by auto
  from ns c have dw: "dropWhile is_space (to_string n @ rest) = to_string n @ rest"
    by simp
  have hd: "hd (to_string n @ rest) = c" using c by simp
  show ?thesis
    using assms(1) takeWhile_digits_to_string [OF assms(2), of n] sg
    by (simp add: stoi_def Let_def dw hd)
qed

lemma stoi_to_string' [simp, string_simps]: "n < 2 ^ 31 \<Longrightarrow> stoi (to_string n) = Inr (int n)"
  using stoi_to_string [of n "[]"] by simp

subsection \<open>Two generic interfaces\<close>

text \<open>An encoder and a decoder that is its left inverse on the encodable values.\<close>

locale roundtrip =
  fixes encode :: "'a \<Rightarrow> 'b" and decode :: "'b \<Rightarrow> 'a" and ok :: "'a \<Rightarrow> bool"
  assumes decode_encode: "ok x \<Longrightarrow> decode (encode x) = x"
begin

lemma encode_inj: "ok x \<Longrightarrow> ok y \<Longrightarrow> encode x = encode y \<Longrightarrow> x = y"
  using decode_encode by metis

lemma encode_inj_on: "inj_on encode {x. ok x}"
  by (rule inj_onI) (auto intro: encode_inj)

lemma map_decode_encode: "\<forall>x\<in>set xs. ok x \<Longrightarrow> map decode (map encode xs) = xs"
  by (induction xs) (auto simp: decode_encode)

end

text \<open>An event loop: every event that is handled without failure keeps the invariant, so every
  state after any sequence of handled events satisfies it.\<close>

fun run_events :: "('s \<Rightarrow> 'e \<Rightarrow> 'err + ('s \<times> 'o list)) \<Rightarrow> 's \<Rightarrow> 'e list \<Rightarrow> 'err + ('s \<times> 'o list)" where
  "run_events handle s [] = Inr (s, [])"
| "run_events handle s (e # es) =
     rbind (handle s e) (\<lambda>(s', out).
     rbind (run_events handle s' es) (\<lambda>(s'', out'). Inr (s'', out @ out')))"

lemma run_events_Cons_Inr:
  "run_events handle s (e # es) = Inr (s'', out'') \<longleftrightarrow>
     (\<exists>s' out out'. handle s e = Inr (s', out) \<and> run_events handle s' es = Inr (s'', out') \<and>
        out'' = out @ out')"
  by (auto simp: rbind_eq_Inr)

lemma run_events_append:
  "run_events handle s (es @ fs) =
     rbind (run_events handle s es) (\<lambda>(s', out).
     rbind (run_events handle s' fs) (\<lambda>(s'', out'). Inr (s'', out @ out')))"
proof (induction es arbitrary: s)
  case Nil
  show ?case by (cases "run_events handle s fs") auto
next
  case (Cons e es)
  show ?case
  proof (cases "handle s e")
    case (Inr r)
    obtain t out where r: "r = (t, out)" by fastforce
    show ?thesis
    proof (cases "run_events handle t es")
      case (Inr q)
      obtain u out' where "q = (u, out')" by fastforce
      with Inr \<open>handle s e = Inr r\<close> r show ?thesis
        by (cases "run_events handle u fs") (auto simp: Cons.IH)
    qed (simp add: \<open>handle s e = Inr r\<close> r Cons.IH)
  qed simp
qed

locale step_system =
  fixes handle :: "'s \<Rightarrow> 'e \<Rightarrow> 'err + ('s \<times> 'o list)"
    and inv :: "'s \<Rightarrow> bool"
  assumes handle_inv: "inv s \<Longrightarrow> handle s e = Inr (s', out) \<Longrightarrow> inv s'"
begin

lemma run_inv: "inv s \<Longrightarrow> run_events handle s es = Inr (s', out) \<Longrightarrow> inv s'"
proof (induction es arbitrary: s out)
  case (Cons e es)
  then obtain t o1 o2 where "handle s e = Inr (t, o1)" "run_events handle t es = Inr (s', o2)"
    by (auto simp: rbind_eq_Inr)
  then show ?case using Cons.IH Cons.prems(1) handle_inv by blast
qed simp

end

end
