(* ===== verification/Messages.thy ===== *)
theory Messages
  imports Prelude
begin

text \<open>
  The protocol buffer messages of \<^verbatim>\<open>src/common/proto/\<close> as records, one field per field of
  the message, in the order of the declarations, and the enumerations as datatypes. The proto3
  enumerations are open: a value that no constant names is kept, and the handlers have branches for
  it, so the enumerations that the handlers test have an \<open>Unknown\<close> constructor.
  The unset value of a field (the empty string, 0, the first constant) is the proto3 default, and
  every message has its all-default value \<open>no_\<dots>\<close>.

  The encoding of a message to bytes is done by the protocol buffer library. A message that is
  serialised only to be sent and parsed again is therefore passed as a value (\<open>wire\<close>); where the
  bytes are stored inside another message (the \<open>primitive\<close> of a trigger) the encoder and the
  decoder are the argument \<open>prim_codec\<close> of the definitions that use them.
\<close>

type_synonym Address = string
type_synonym Key = string
type_synonym Bucket = string
type_synonym Session = string
type_synonym bytes = string

subsection \<open>common.proto\<close>

datatype KVSError =
  SUCCESS | BUCKET_NE | KEY_NE | SESSION_NE | KVS_ND | TYPE_NM | BUCKET_EXIST | REQ_TIMEOUT

record BucketKeyTuple =
  bkt_bucket :: string
  bkt_key :: string
  bkt_session :: string
  bkt_payload :: bytes

record BucketKeyAddress =
  bka_bucket :: string
  bka_key :: string
  bka_session :: string
  bka_ips :: "string list"
  bka_payload :: bytes

definition no_BucketKeyTuple :: BucketKeyTuple where
  "no_BucketKeyTuple = \<lparr>bkt_bucket = [], bkt_key = [], bkt_session = [], bkt_payload = []\<rparr>"

definition no_BucketKeyAddress :: BucketKeyAddress where
  "no_BucketKeyAddress =
     \<lparr>bka_bucket = [], bka_key = [], bka_session = [], bka_ips = [], bka_payload = []\<rparr>"

subsection \<open>operation.proto\<close>

datatype DependencyType = DIRECT | MANY_TO_ONE | K_OUT_OF_N | PERIODIC | UnknownDependency int

record DataDependency =
  dd_type :: DependencyType
  dd_src_functions :: "string list"
  dd_tgt_functions :: "string list"
  dd_description :: bytes

record AppRegistration =
  ar_app_name :: string
  ar_functions :: "string list"
  ar_dependencies :: "DataDependency list"

record Argument =
  arg_body :: bytes
  arg_arg_flag :: int
  arg_data_address :: string

record FunctionRequest =
  fr_name :: string
  fr_arguments :: "Argument list"

record FunctionCall =
  fc_app_name :: string
  fc_requests :: "FunctionRequest list"
  fc_source :: string
  fc_request_id :: string
  fc_resp_address :: string
  fc_session_id :: string
  fc_sync_data_status :: bool

record FunctionCallResponse =
  fcr_app_name :: string
  fcr_request_id :: string
  fcr_output :: bytes
  fcr_error_no :: int

record CoordSync =
  cs_public_ip :: string
  cs_private_ip :: string
  cs_thread_id :: "32 word"

record CoordQuery =
  cq_application :: string
  cq_request_id :: string

record CoordResponse =
  cr_coord_ip :: string
  cr_thread_id :: "32 word"
  cr_request_id :: string

datatype BucketOperationType = CREATE_BUCKET | DELETE_BUCKET | UnknownBucketOp int

datatype TriggerOperationType = ADD_TRIGGER | DELETE_TRIGGER | UnknownTriggerOp int

datatype PrimitiveType =
    IMMEDIATE | BY_NAME | BY_BATCH_SIZE | BY_SET | DYNAMIC_GROUP | REDUNDANT | BY_TIME
  | UnknownPrimitive int

record BucketOperationRequest =
  bor_operation_type :: BucketOperationType
  bor_app_name :: string
  bor_bucket_name :: string
  bor_request_id :: string
  bor_response_address :: string

record BucketOperationResponse =
  bos_bucket_name :: string
  bos_response_id :: string
  bos_error :: KVSError

record RerunHint =
  rh_source_function :: string
  rh_source_key :: string
  rh_timeout :: "32 word"

record TriggerOperationRequest =
  tor_operation_type :: TriggerOperationType
  tor_app_name :: string
  tor_bucket_name :: string
  tor_trigger_name :: string
  tor_trigger_option :: int
  tor_primitive_type :: PrimitiveType
  tor_primitive :: bytes
  tor_request_id :: string
  tor_response_address :: string
  tor_hints :: "RerunHint list"

record TriggerOperationResponse =
  tos_bucket_name :: string
  tos_trigger_name :: string
  tos_response_id :: string
  tos_error :: KVSError

record UpdateStatusMessage =
  us_ip :: string
  us_avail_executors :: int
  us_functions :: "string list"

record TriggerEntity =
  te_bucket_name :: string
  te_trigger_name :: string
  te_trigger_option :: int
  te_primitive_type :: PrimitiveType
  te_primitive :: bytes
  te_session :: string
  te_hints :: "RerunHint list"

record UpdateCoordMsg =
  ucm_ip :: string
  ucm_thread_id :: "32 word"
  ucm_app_name :: string
  ucm_functions :: "string list"
  ucm_dependencies :: "DataDependency list"
  ucm_triggers :: "TriggerEntity list"
  ucm_msg_type :: int

definition no_Argument :: Argument where
  "no_Argument = \<lparr>arg_body = [], arg_arg_flag = 0, arg_data_address = []\<rparr>"

definition no_FunctionCall :: FunctionCall where
  "no_FunctionCall = \<lparr>fc_app_name = [], fc_requests = [], fc_source = [], fc_request_id = [],
     fc_resp_address = [], fc_session_id = [], fc_sync_data_status = False\<rparr>"

definition no_FunctionCallResponse :: FunctionCallResponse where
  "no_FunctionCallResponse = \<lparr>fcr_app_name = [], fcr_request_id = [], fcr_output = [], fcr_error_no = 0\<rparr>"

definition no_BucketOperationResponse :: BucketOperationResponse where
  "no_BucketOperationResponse = \<lparr>bos_bucket_name = [], bos_response_id = [], bos_error = SUCCESS\<rparr>"

definition no_TriggerOperationResponse :: TriggerOperationResponse where
  "no_TriggerOperationResponse =
     \<lparr>tos_bucket_name = [], tos_trigger_name = [], tos_response_id = [], tos_error = SUCCESS\<rparr>"

definition no_TriggerEntity :: TriggerEntity where
  "no_TriggerEntity = \<lparr>te_bucket_name = [], te_trigger_name = [], te_trigger_option = 0,
     te_primitive_type = IMMEDIATE, te_primitive = [], te_session = [], te_hints = []\<rparr>"

definition no_UpdateCoordMsg :: UpdateCoordMsg where
  "no_UpdateCoordMsg = \<lparr>ucm_ip = [], ucm_thread_id = 0, ucm_app_name = [], ucm_functions = [],
     ucm_dependencies = [], ucm_triggers = [], ucm_msg_type = 0\<rparr>"

subsection \<open>The serialised primitives of triggers\<close>

text \<open>One encoder and one decoder per primitive message; the fields of a primitive are the
  arguments of its encoder.\<close>

record prim_codec =
  ser_immediate :: "string \<Rightarrow> bytes"
  par_immediate :: "bytes \<Rightarrow> string"
  ser_by_name :: "string \<times> string \<Rightarrow> bytes"
  par_by_name :: "bytes \<Rightarrow> string \<times> string"
  ser_by_batch_size :: "string \<times> 32 word \<Rightarrow> bytes"
  par_by_batch_size :: "bytes \<Rightarrow> string \<times> 32 word"
  ser_by_set :: "string \<times> string list \<Rightarrow> bytes"
  par_by_set :: "bytes \<Rightarrow> string \<times> string list"
  ser_dynamic_group :: "string \<times> string list \<Rightarrow> bytes"
  par_dynamic_group :: "bytes \<Rightarrow> string \<times> string list"
  ser_redundant :: "string \<times> 32 word \<times> 32 word \<Rightarrow> bytes"
  par_redundant :: "bytes \<Rightarrow> string \<times> 32 word \<times> 32 word"
  ser_by_time :: "string \<times> 32 word \<Rightarrow> bytes"
  par_by_time :: "bytes \<Rightarrow> string \<times> 32 word"

text \<open>What the program relies on: \<open>ParseFromString\<close> of the output of
  \<open>SerializeToString\<close> of a message is that message.\<close>

definition codec_ok :: "prim_codec \<Rightarrow> bool" where
  "codec_ok c \<longleftrightarrow>
     (\<forall>f. par_immediate c (ser_immediate c f) = f) \<and>
     (\<forall>m. par_by_name c (ser_by_name c m) = m) \<and>
     (\<forall>m. par_by_batch_size c (ser_by_batch_size c m) = m) \<and>
     (\<forall>m. par_by_set c (ser_by_set c m) = m) \<and>
     (\<forall>m. par_dynamic_group c (ser_dynamic_group c m) = m) \<and>
     (\<forall>m. par_redundant c (ser_redundant c m) = m) \<and>
     (\<forall>m. par_by_time c (ser_by_time c m) = m)"

subsection \<open>kvs.proto\<close>

record KeyQueryRequest =
  kqr_response_address :: string
  kqr_addresses :: "BucketKeyAddress list"
  kqr_request_id :: string

record KeyQueryResponse =
  kqs_addresses :: "BucketKeyAddress list"
  kqs_error :: KVSError
  kqs_response_id :: string

record KeyNotifyRequest =
  knr_response_address :: string
  knr_addresses :: "BucketKeyAddress list"
  knr_active_trigger_names :: "string list"
  knr_request_id :: string

subsection \<open>anna.proto\<close>

datatype RequestType = RT_UNSPECIFIED | GET | PUT

datatype LatticeType = NONE | LWW | SET | SINGLE_CAUSAL | MULTI_CAUSAL | ORDERED_SET | PRIORITY

datatype AnnaError = NO_ERROR | KEY_DNE | WRONG_THREAD | TIMEOUT | LATTICE | NO_SERVERS

record KeyTuple =
  kt_key :: string
  kt_lattice_type :: LatticeType
  kt_error :: AnnaError
  kt_payload :: bytes
  kt_address_cache_size :: nat
  kt_invalidate :: bool

record KeyRequest =
  kr_type :: RequestType
  kr_tuples :: "KeyTuple list"
  kr_response_address :: string
  kr_request_id :: string

record KeyResponse =
  ks_type :: RequestType
  ks_tuples :: "KeyTuple list"
  ks_response_id :: string
  ks_error :: AnnaError

record KeyAddressRequest =
  kar_response_address :: string
  kar_keys :: "string list"
  kar_request_id :: string

record KeyAddress =
  ka_key :: string
  ka_ips :: "string list"

record KeyAddressResponse =
  kas_addresses :: "KeyAddress list"
  kas_error :: AnnaError
  kas_response_id :: string

definition no_KeyTuple :: KeyTuple where
  "no_KeyTuple = \<lparr>kt_key = [], kt_lattice_type = NONE, kt_error = NO_ERROR, kt_payload = [],
     kt_address_cache_size = 0, kt_invalidate = False\<rparr>"

subsection \<open>What is sent\<close>

text \<open>A message on a socket. \<open>W_Raw\<close> is a message that the program builds byte by byte.\<close>

datatype wire =
    W_FunctionCall FunctionCall
  | W_FunctionCallResponse FunctionCallResponse
  | W_CoordSync CoordSync
  | W_CoordQuery CoordQuery
  | W_CoordResponse CoordResponse
  | W_AppRegistration AppRegistration
  | W_BucketOperationRequest BucketOperationRequest
  | W_BucketOperationResponse BucketOperationResponse
  | W_TriggerOperationRequest TriggerOperationRequest
  | W_TriggerOperationResponse TriggerOperationResponse
  | W_UpdateStatus UpdateStatusMessage
  | W_UpdateCoord UpdateCoordMsg
  | W_KeyQueryRequest KeyQueryRequest
  | W_KeyQueryResponse KeyQueryResponse
  | W_KeyNotifyRequest KeyNotifyRequest
  | W_KeyRequest KeyRequest
  | W_KeyAddressRequest KeyAddressRequest
  | W_Raw bytes

text \<open>The messages a handler sends, each with the address of the socket, in sending order.\<close>

type_synonym sends = "(Address \<times> wire) list"

end
