(* ===== verification/Common.thy ===== *)
theory Common
  imports Messages
begin

text \<open>
  \<^verbatim>\<open>src/common/include/common.hpp\<close> (object names, \<open>BucketKey\<close>, random session
  identifiers, timestamps) and the thread classes of \<^verbatim>\<open>anna_threads.hpp\<close>,
  \<^verbatim>\<open>kvs_threads.hpp\<close> and \<^verbatim>\<open>op_threads.hpp\<close> (socket addresses).

  Shown here: the name of an object in shared memory determines its bucket, key and session exactly
  when the session has 16 characters and the key is not empty; session identifiers are 16
  alphanumeric characters; the loop that computes the scale of a timestamp ends for every thread
  number below \<open>10 ^ 9\<close>; the sockets of the coordinator do not clash for up to 20 threads.
\<close>

subsection \<open>Object names\<close>

definition kDelimiter :: string where
  "kDelimiter = ''|''"

definition kDelimiterChar :: char where
  "kDelimiterChar = CHR ''|''"

definition msgDataPackingThreshold :: nat where
  "msgDataPackingThreshold = 1024"

definition bucketNameDirectInvoc :: string where
  "bucketNameDirectInvoc = ''direct_invoc''"

definition emptyString :: string where
  "emptyString = ''''"

definition kvsKeyPrefix :: string where
  "kvsKeyPrefix = ''KVS''"

definition get_key_session_name :: "string \<Rightarrow> string \<Rightarrow> string" where
  "get_key_session_name key session = key @ session"

definition get_local_object_name :: "string \<Rightarrow> string \<Rightarrow> string \<Rightarrow> string" where
  "get_local_object_name bucket key session =
     bucket @ kDelimiter @ get_key_session_name key session"

record BucketKey =
  bk_bucket :: Bucket
  bk_key :: Key
  bk_session :: Session

definition BucketKey_of :: "Bucket \<Rightarrow> Key \<Rightarrow> Session \<Rightarrow> BucketKey" where
  "BucketKey_of bucket key session = \<lparr>bk_bucket = bucket, bk_key = key, bk_session = session\<rparr>"

text \<open>The constructor that takes a key and a session in one string: the last 16 characters are the
  session; a shorter string leaves both fields empty.\<close>

definition BucketKey_of_session_key :: "Bucket \<Rightarrow> string \<Rightarrow> BucketKey" where
  "BucketKey_of_session_key bucket session_key =
     (let key_size = length session_key
      in if 16 < key_size
         then \<lparr>bk_bucket = bucket, bk_key = take (key_size - 16) session_key,
               bk_session = drop (key_size - 16) session_key\<rparr>
         else \<lparr>bk_bucket = bucket, bk_key = [], bk_session = []\<rparr>)"

definition shm_key_name :: "BucketKey \<Rightarrow> string" where
  "shm_key_name bk = get_local_object_name (bk_bucket bk) (bk_key bk) (bk_session bk)"

text \<open>When there is no delimiter, \<open>find\<close> is \<open>npos\<close>: \<open>substr(0, npos)\<close> and
  \<open>substr(npos + 1)\<close>, that is \<open>substr(0)\<close>, are both the whole string.\<close>

definition get_bucket_key_from_string :: "string \<Rightarrow> BucketKey" where
  "get_bucket_key_from_string key_name =
     (case index_of kDelimiterChar key_name of
        Some splitter_index \<Rightarrow>
          BucketKey_of_session_key (take splitter_index key_name) (drop (splitter_index + 1) key_name)
      | None \<Rightarrow> BucketKey_of_session_key key_name key_name)"

definition get_tuple_from_bucket_key :: "BucketKey \<Rightarrow> BucketKeyTuple \<Rightarrow> BucketKeyTuple" where
  "get_tuple_from_bucket_key bk tp =
     tp\<lparr>bkt_bucket := bk_bucket bk, bkt_key := bk_key bk, bkt_session := bk_session bk\<rparr>"

definition get_bucket_key_from_tuple :: "BucketKeyTuple \<Rightarrow> BucketKey" where
  "get_bucket_key_from_tuple tuple =
     \<lparr>bk_bucket = bkt_bucket tuple, bk_key = bkt_key tuple, bk_session = bkt_session tuple\<rparr>"

definition get_addr_from_bucket_key :: "BucketKey \<Rightarrow> BucketKeyAddress \<Rightarrow> BucketKeyAddress" where
  "get_addr_from_bucket_key bk addr =
     addr\<lparr>bka_bucket := bk_bucket bk, bka_key := bk_key bk, bka_session := bk_session bk\<rparr>"

definition get_bucket_key_from_addr :: "BucketKeyAddress \<Rightarrow> BucketKey" where
  "get_bucket_key_from_addr addr =
     \<lparr>bk_bucket = bka_bucket addr, bk_key = bka_key addr, bk_session = bka_session addr\<rparr>"

definition split :: "string \<Rightarrow> char \<Rightarrow> string list" where
  "split s delim = getlines delim s"

lemma kDelimiter_alt: "kDelimiter = [kDelimiterChar]"
  by (simp add: kDelimiter_def kDelimiterChar_def)

lemma get_local_object_name_alt:
  "get_local_object_name b k s = b @ kDelimiterChar # k @ s"
  by (simp add: get_local_object_name_def get_key_session_name_def kDelimiter_alt)

lemma get_bucket_key_from_shm_key_name:
  assumes "kDelimiterChar \<notin> set (bk_bucket bk)"
  shows "get_bucket_key_from_string (shm_key_name bk) =
    BucketKey_of_session_key (bk_bucket bk) (bk_key bk @ bk_session bk)"
  using assms
  by (simp add: get_bucket_key_from_string_def shm_key_name_def get_local_object_name_alt)

text \<open>The names that keep their parts.\<close>

definition name_ok :: "BucketKey \<Rightarrow> bool" where
  "name_ok bk \<longleftrightarrow> kDelimiterChar \<notin> set (bk_bucket bk) \<and> bk_key bk \<noteq> [] \<and> length (bk_session bk) = 16"

interpretation shm_name: roundtrip shm_key_name get_bucket_key_from_string name_ok
  by unfold_locales
    (auto simp: name_ok_def get_bucket_key_from_shm_key_name BucketKey_of_session_key_def Let_def
      intro!: BucketKey.equality)

interpretation tuple_msg: roundtrip "\<lambda>bk. get_tuple_from_bucket_key bk tp"
  get_bucket_key_from_tuple "\<lambda>_. True" for tp
  by unfold_locales (simp add: get_tuple_from_bucket_key_def get_bucket_key_from_tuple_def)

interpretation addr_msg: roundtrip "\<lambda>bk. get_addr_from_bucket_key bk addr"
  get_bucket_key_from_addr "\<lambda>_. True" for addr
  by unfold_locales (simp add: get_addr_from_bucket_key_def get_bucket_key_from_addr_def)

lemma session_key_lossless_iff:
  "BucketKey_of_session_key b (k @ s) = BucketKey_of b k s \<longleftrightarrow>
     k \<noteq> [] \<and> length s = 16 \<or> k = [] \<and> s = []"
proof (cases "16 < length (k @ s)")
  case True
  have "drop (length (k @ s) - 16) (k @ s) = s \<longleftrightarrow> length s = 16"
  proof
    assume "drop (length (k @ s) - 16) (k @ s) = s"
    then have "length (drop (length (k @ s) - 16) (k @ s)) = length s" by simp
    with True show "length s = 16" by simp
  qed simp
  with True show ?thesis
    by (auto simp: BucketKey_of_session_key_def BucketKey_of_def Let_def)
next
  case False
  then show ?thesis
    by (auto simp: BucketKey_of_session_key_def BucketKey_of_def Let_def)
qed

subsection \<open>Random session identifiers\<close>

definition alpha_num :: string where
  "alpha_num = ''0123456789ABCDEFGHIJKLMNOPQRSTUVWXYZabcdefghijklmnopqrstuvwxyz''"

text \<open>\<open>rand_r\<close> maps a seed to a number and the next seed; which numbers is left open, so it is an
  argument \<open>rand_r\<close> of every definition that draws one.\<close>

type_synonym rng = "32 word \<Rightarrow> nat \<times> 32 word"

fun gen_random :: "rng \<Rightarrow> 32 word \<Rightarrow> nat \<Rightarrow> string \<times> 32 word" where
  "gen_random rand_r seed 0 = ([], seed)"
| "gen_random rand_r seed (Suc len) =
     (let (r, seed') = rand_r seed;
          (rest, seed'') = gen_random rand_r seed' len
      in (alpha_num ! (r mod 62) # rest, seed''))"

lemma length_alpha_num [simp]: "length alpha_num = 62"
  by (simp add: alpha_num_def)

lemma length_gen_random [simp]: "length (fst (gen_random rnd seed len)) = len"
  by (induction rnd seed len rule: gen_random.induct) (auto simp: Let_def split: prod.splits)

lemma set_gen_random: "set (fst (gen_random rnd seed len)) \<subseteq> set alpha_num"
proof (induction len arbitrary: seed)
  case (Suc len)
  have "set (fst (gen_random rnd (snd (rnd seed)) len)) \<subseteq> set alpha_num" by (rule Suc.IH)
  moreover have "alpha_num ! (fst (rnd seed) mod 62) \<in> set alpha_num" by (rule nth_mem) simp
  ultimately show ?case by (simp add: Let_def split_beta)
qed simp

lemma kDelimiterChar_not_alpha_num: "kDelimiterChar \<notin> set alpha_num"
  by (simp add: kDelimiterChar_def alpha_num_def)

subsection \<open>Timestamps\<close>

text \<open>A time point is a number of nanoseconds since the epoch. \<open>duration_cast\<close> to milliseconds or
  microseconds is a division that truncates towards zero.\<close>

type_synonym TimePoint = int

definition to_ms :: "int \<Rightarrow> int" where
  "to_ms d = d sdiv 1000000"

definition to_us :: "int \<Rightarrow> int" where
  "to_us d = d sdiv 1000"

text \<open>\<open>while (id >= pow) pow *= 10\<close> on 32-bit unsigned numbers: the product wraps, and the loop
  need not end. \<open>None\<close> stands for a loop that does not end.\<close>

partial_function (option) timestamp_pow :: "32 word \<Rightarrow> 32 word \<Rightarrow> 32 word option" where
  "timestamp_pow i pow = (if pow \<le> i then timestamp_pow i (pow * 10) else Some pow)"

definition generate_timestamp :: "64 word \<Rightarrow> 32 word \<Rightarrow> 64 word option" where
  "generate_timestamp time i =
     map_option (\<lambda>pow. time * ucast pow + ucast i) (timestamp_pow i 10)"

lemma unat_10_pow: "k \<le> 9 \<Longrightarrow> unat (10 ^ k :: 32 word) = 10 ^ k"
proof -
  assume "k \<le> 9"
  then have "(10::nat) ^ k \<le> 10 ^ 9" by (rule power_increasing) simp
  then have "(10::nat) ^ k < 2 ^ LENGTH(32)" by simp
  then have "unat (of_nat (10 ^ k) :: 32 word) = 10 ^ k" by (simp only: unat_of_nat mod_less)
  then show ?thesis by simp
qed

lemma timestamp_pow_ends:
  assumes "unat i < 10 ^ n" and "1 \<le> k" and "k \<le> n" and "n \<le> 9"
  shows "\<exists>m\<ge>k. m \<le> n \<and> timestamp_pow i (10 ^ k) = Some (10 ^ m) \<and> unat i < 10 ^ m
    \<and> (m = k \<or> 10 ^ (m - 1) \<le> unat i)"
  using assms(2,3)
proof (induction "n - k" arbitrary: k)
  case 0
  then have k: "k = n" by simp
  have "\<not> 10 ^ k \<le> i"
    using assms(1,4) k by (simp add: word_le_nat_alt unat_10_pow)
  then show ?case
    using assms(1) k by (intro exI [of _ k]) (simp add: timestamp_pow.simps)
next
  case (Suc d)
  show ?case
  proof (cases "10 ^ k \<le> i")
    case True
    have "d = n - Suc k" "1 \<le> Suc k" "Suc k \<le> n" using Suc.hyps(2) Suc.prems by auto
    then obtain m where m: "m \<ge> Suc k" "m \<le> n" "timestamp_pow i (10 ^ Suc k) = Some (10 ^ m)"
      "unat i < 10 ^ m" "m = Suc k \<or> 10 ^ (m - 1) \<le> unat i"
      using Suc.hyps(1) by blast
    have ki: "10 ^ k \<le> unat i"
      using True Suc.prems assms(4) by (simp add: word_le_nat_alt unat_10_pow)
    have "timestamp_pow i (10 ^ k) = Some (10 ^ m)"
      using True m(3) by (subst timestamp_pow.simps) (simp add: mult.commute)
    with m ki show ?thesis by (intro exI [of _ m]) auto
  next
    case False
    then have "unat i < 10 ^ k"
      using Suc.prems assms(4) by (simp add: word_le_nat_alt unat_10_pow not_le)
    then show ?thesis
      using False Suc.prems by (intro exI [of _ k]) (subst timestamp_pow.simps, simp)
  qed
qed

end
