(* ===== verification/Threads.thy ===== *)
theory Threads
  imports Common
begin

text \<open>
  The socket addresses: \<^verbatim>\<open>src/common/include/anna_threads.hpp\<close>,
  \<^verbatim>\<open>kvs_threads.hpp\<close> and \<^verbatim>\<open>op_threads.hpp\<close>. Every thread class has the
  same three fields (the ip, the prefix \<open>tcp://ip:\<close>, the thread number), so they share the record
  \<open>thread\<close>; each method is one definition. Ports are 32-bit unsigned sums.

  Shown here: the ip is recovered from every connect address; the bind addresses of the coordinator
  threads are pairwise different for thread numbers below 20, and at 20 two of them clash.
\<close>

record thread =
  th_ip :: Address
  th_ip_base :: Address
  th_tid :: "32 word"

definition mk_thread :: "Address \<Rightarrow> 32 word \<Rightarrow> thread" where
  "mk_thread ip tid = \<lparr>th_ip = ip, th_ip_base = ''tcp://'' @ ip @ '':'', th_tid = tid\<rparr>"

type_synonym HandlerThread = thread
type_synonym UserRoutingThread = thread
type_synonym UserThread = thread
type_synonym CommHelperThread = thread
type_synonym OperationThread = thread

definition kBindBase :: string where
  "kBindBase = ''tcp://*:''"

text \<open>\<open>base + std::to_string(tid + port)\<close>.\<close>

definition port_addr :: "string \<Rightarrow> 32 word \<Rightarrow> 32 word \<Rightarrow> Address" where
  "port_addr base tid port = base @ to_string (unat (tid + port))"

subsection \<open>Ports\<close>

definition kKeyAddressPort :: "32 word" where
  "kKeyAddressPort = 6450"

definition kUserResponsePort :: "32 word" where
  "kUserResponsePort = 6800"

definition kUserKeyAddressPort :: "32 word" where
  "kUserKeyAddressPort = 6850"

definition kCacheUpdatePort :: "32 word" where
  "kCacheUpdatePort = 7150"

definition funcCreatePort :: "32 word" where
  "funcCreatePort = 5000"

definition appRegistPort :: "32 word" where
  "appRegistPort = 5020"

definition funcCallPort :: "32 word" where
  "funcCallPort = 5050"

definition coordSyncPort :: "32 word" where
  "coordSyncPort = 6001"

definition coordQueryPort :: "32 word" where
  "coordQueryPort = 6002"

definition oBucketPort :: "32 word" where
  "oBucketPort = 7800"

definition oTriggerPort :: "32 word" where
  "oTriggerPort = 7900"

definition funcExecPort :: "32 word" where
  "funcExecPort = 4300"

definition internalFuncCallPort :: "32 word" where
  "internalFuncCallPort = 4350"

definition dataAccessServerPort :: "32 word" where
  "dataAccessServerPort = 4400"

definition dataAccessClientPort :: "32 word" where
  "dataAccessClientPort = 4450"

definition forwardFuncPort :: "32 word" where
  "forwardFuncPort = 4500"

definition kRemoteResponsePort :: "32 word" where
  "kRemoteResponsePort = 7500"

definition kRemoteGetPort :: "32 word" where
  "kRemoteGetPort = 7550"

definition kNotifyPort :: "32 word" where
  "kNotifyPort = 7600"

definition kQueryPort :: "32 word" where
  "kQueryPort = 7650"

definition kNotifyHandlerPort :: "32 word" where
  "kNotifyHandlerPort = 7350"

definition kQueryHandlerPort :: "32 word" where
  "kQueryHandlerPort = 7400"

definition TriggerUpdatePort :: "32 word" where
  "TriggerUpdatePort = 7700"

definition updateStatusHandlerPort :: "32 word" where
  "updateStatusHandlerPort = 7750"

definition bucketQueryPort :: "32 word" where
  "bucketQueryPort = 8150"

definition bucketUpdatePort :: "32 word" where
  "bucketUpdatePort = 8250"

lemmas port_defs =
  kKeyAddressPort_def kUserResponsePort_def kUserKeyAddressPort_def kCacheUpdatePort_def
  funcCreatePort_def appRegistPort_def funcCallPort_def coordSyncPort_def
  coordQueryPort_def oBucketPort_def oTriggerPort_def funcExecPort_def
  internalFuncCallPort_def dataAccessServerPort_def dataAccessClientPort_def forwardFuncPort_def
  kRemoteResponsePort_def kRemoteGetPort_def kNotifyPort_def kQueryPort_def
  kNotifyHandlerPort_def kQueryHandlerPort_def TriggerUpdatePort_def updateStatusHandlerPort_def
  bucketQueryPort_def bucketUpdatePort_def

subsection \<open>CacheThread\<close>

definition cache_update_bind_address :: "thread \<Rightarrow> Address" where
  "cache_update_bind_address t = port_addr kBindBase (th_tid t) kCacheUpdatePort"

definition cache_update_connect_address :: "thread \<Rightarrow> Address" where
  "cache_update_connect_address t = port_addr (th_ip_base t) (th_tid t) kCacheUpdatePort"

subsection \<open>UserRoutingThread\<close>

definition routing_key_address_bind_address :: "thread \<Rightarrow> Address" where
  "routing_key_address_bind_address t = port_addr kBindBase (th_tid t) kKeyAddressPort"

definition routing_key_address_connect_address :: "thread \<Rightarrow> Address" where
  "routing_key_address_connect_address t = port_addr (th_ip_base t) (th_tid t) kKeyAddressPort"

subsection \<open>UserThread\<close>

definition response_bind_address :: "thread \<Rightarrow> Address" where
  "response_bind_address t = port_addr kBindBase (th_tid t) kUserResponsePort"

definition response_connect_address :: "thread \<Rightarrow> Address" where
  "response_connect_address t = port_addr (th_ip_base t) (th_tid t) kUserResponsePort"

definition user_key_address_bind_address :: "thread \<Rightarrow> Address" where
  "user_key_address_bind_address t = port_addr kBindBase (th_tid t) kUserKeyAddressPort"

definition user_key_address_connect_address :: "thread \<Rightarrow> Address" where
  "user_key_address_connect_address t = port_addr (th_ip_base t) (th_tid t) kUserKeyAddressPort"

subsection \<open>KVSThread\<close>

definition remote_get_bind_address :: "thread \<Rightarrow> Address" where
  "remote_get_bind_address t = port_addr kBindBase (th_tid t) kRemoteGetPort"

definition remote_get_connect_address :: "thread \<Rightarrow> Address" where
  "remote_get_connect_address t = port_addr (th_ip_base t) (th_tid t) kRemoteGetPort"

subsection \<open>CommHelperThread\<close>

definition remote_response_bind_address :: "thread \<Rightarrow> Address" where
  "remote_response_bind_address t = port_addr kBindBase (th_tid t) kRemoteResponsePort"

definition remote_response_connect_address :: "thread \<Rightarrow> Address" where
  "remote_response_connect_address t = port_addr (th_ip_base t) (th_tid t) kRemoteResponsePort"

definition key_query_bind_address :: "thread \<Rightarrow> Address" where
  "key_query_bind_address t = port_addr kBindBase (th_tid t) kQueryPort"

definition key_query_connect_address :: "thread \<Rightarrow> Address" where
  "key_query_connect_address t = port_addr (th_ip_base t) (th_tid t) kQueryPort"

definition notify_put_bind_address :: "thread \<Rightarrow> Address" where
  "notify_put_bind_address t = port_addr kBindBase (th_tid t) kNotifyPort"

definition notify_put_connect_address :: "thread \<Rightarrow> Address" where
  "notify_put_connect_address t = port_addr (th_ip_base t) (th_tid t) kNotifyPort"

definition trigger_update_bind_address :: "thread \<Rightarrow> Address" where
  "trigger_update_bind_address t = port_addr kBindBase (th_tid t) TriggerUpdatePort"

definition trigger_update_connect_address :: "thread \<Rightarrow> Address" where
  "trigger_update_connect_address t = port_addr (th_ip_base t) (th_tid t) TriggerUpdatePort"

definition data_access_server_bind_address :: "thread \<Rightarrow> Address" where
  "data_access_server_bind_address t = port_addr kBindBase (th_tid t) dataAccessServerPort"

definition data_access_server_connect_address :: "thread \<Rightarrow> Address" where
  "data_access_server_connect_address t = port_addr (th_ip_base t) (th_tid t) dataAccessServerPort"

definition data_access_client_bind_address :: "thread \<Rightarrow> Address" where
  "data_access_client_bind_address t = port_addr kBindBase (th_tid t) dataAccessClientPort"

definition data_access_client_connect_address :: "thread \<Rightarrow> Address" where
  "data_access_client_connect_address t = port_addr (th_ip_base t) (th_tid t) dataAccessClientPort"

subsection \<open>HandlerThread\<close>

definition notify_handler_bind_address :: "thread \<Rightarrow> Address" where
  "notify_handler_bind_address t = port_addr kBindBase (th_tid t) kNotifyHandlerPort"

definition notify_handler_connect_address :: "thread \<Rightarrow> Address" where
  "notify_handler_connect_address t = port_addr (th_ip_base t) (th_tid t) kNotifyHandlerPort"

definition key_query_handler_bind_address :: "thread \<Rightarrow> Address" where
  "key_query_handler_bind_address t = port_addr kBindBase (th_tid t) kQueryHandlerPort"

definition key_query_handler_connect_address :: "thread \<Rightarrow> Address" where
  "key_query_handler_connect_address t = port_addr (th_ip_base t) (th_tid t) kQueryHandlerPort"

definition update_handler_bind_address :: "thread \<Rightarrow> Address" where
  "update_handler_bind_address t = port_addr kBindBase (th_tid t) updateStatusHandlerPort"

definition update_handler_connect_address :: "thread \<Rightarrow> Address" where
  "update_handler_connect_address t = port_addr (th_ip_base t) (th_tid t) updateStatusHandlerPort"

definition forward_func_bind_address :: "thread \<Rightarrow> Address" where
  "forward_func_bind_address t = port_addr kBindBase (th_tid t) forwardFuncPort"

definition forward_func_connect_address :: "thread \<Rightarrow> Address" where
  "forward_func_connect_address t = port_addr (th_ip_base t) (th_tid t) forwardFuncPort"

definition has_same_ip_tid :: "thread \<Rightarrow> Address \<Rightarrow> 32 word \<Rightarrow> bool" where
  "has_same_ip_tid t ip tid \<longleftrightarrow> th_ip t = ip \<and> th_tid t = tid"

subsection \<open>ManagementServerThread\<close>

definition bucket_query_bind_address :: "thread \<Rightarrow> Address" where
  "bucket_query_bind_address t = port_addr kBindBase (th_tid t) bucketQueryPort"

definition bucket_query_connect_address :: "thread \<Rightarrow> Address" where
  "bucket_query_connect_address t = port_addr (th_ip_base t) (th_tid t) bucketQueryPort"

definition bucket_update_bind_address :: "thread \<Rightarrow> Address" where
  "bucket_update_bind_address t = port_addr kBindBase (th_tid t) bucketUpdatePort"

definition bucket_update_connect_address :: "thread \<Rightarrow> Address" where
  "bucket_update_connect_address t = port_addr (th_ip_base t) (th_tid t) bucketUpdatePort"

subsection \<open>OperationThread\<close>

definition bucket_op_bind_address :: "thread \<Rightarrow> Address" where
  "bucket_op_bind_address t = port_addr kBindBase (th_tid t) oBucketPort"

definition bucket_op_connect_address :: "thread \<Rightarrow> Address" where
  "bucket_op_connect_address t = port_addr (th_ip_base t) (th_tid t) oBucketPort"

definition trigger_op_bind_address :: "thread \<Rightarrow> Address" where
  "trigger_op_bind_address t = port_addr kBindBase (th_tid t) oTriggerPort"

definition trigger_op_connect_address :: "thread \<Rightarrow> Address" where
  "trigger_op_connect_address t = port_addr (th_ip_base t) (th_tid t) oTriggerPort"

definition func_create_bind_address :: "thread \<Rightarrow> Address" where
  "func_create_bind_address t = port_addr kBindBase (th_tid t) funcCreatePort"

definition app_regist_bind_address :: "thread \<Rightarrow> Address" where
  "app_regist_bind_address t = port_addr kBindBase (th_tid t) appRegistPort"

definition func_call_bind_address :: "thread \<Rightarrow> Address" where
  "func_call_bind_address t = port_addr kBindBase (th_tid t) funcCallPort"

lemmas address_defs =
  cache_update_bind_address_def cache_update_connect_address_def
  routing_key_address_bind_address_def routing_key_address_connect_address_def
  response_bind_address_def response_connect_address_def
  user_key_address_bind_address_def user_key_address_connect_address_def
  remote_get_bind_address_def remote_get_connect_address_def
  remote_response_bind_address_def remote_response_connect_address_def
  key_query_bind_address_def key_query_connect_address_def
  notify_put_bind_address_def notify_put_connect_address_def
  trigger_update_bind_address_def trigger_update_connect_address_def
  data_access_server_bind_address_def data_access_server_connect_address_def
  data_access_client_bind_address_def data_access_client_connect_address_def
  notify_handler_bind_address_def notify_handler_connect_address_def
  key_query_handler_bind_address_def key_query_handler_connect_address_def
  update_handler_bind_address_def update_handler_connect_address_def
  forward_func_bind_address_def forward_func_connect_address_def
  bucket_query_bind_address_def bucket_query_connect_address_def
  bucket_update_bind_address_def bucket_update_connect_address_def
  bucket_op_bind_address_def bucket_op_connect_address_def
  trigger_op_bind_address_def trigger_op_connect_address_def
  func_create_bind_address_def app_regist_bind_address_def
  func_call_bind_address_def

subsection \<open>The ip of an address\<close>

text \<open>\<open>ip.substr(6, ip.find(":", 6) - 6)\<close>, which the coordinator applies to the addresses that
  data servers report.\<close>

definition ip_of_address :: "Address \<Rightarrow> Address res" where
  "ip_of_address a =
     substr a 6 (map_option (\<lambda>i. i - 6) (str_find (CHR '':'') 6 a))"

definition plain_ip :: "Address \<Rightarrow> bool" where
  "plain_ip ip \<longleftrightarrow> CHR '':'' \<notin> set ip"

lemma ip_of_address_tcp:
  assumes "plain_ip ip"
  shows "ip_of_address (''tcp://'' @ ip @ CHR '':'' # rest) = Inr ip"
proof -
  have "drop 6 (''tcp://'' @ ip @ CHR '':'' # rest) = ip @ CHR '':'' # rest" by simp
  moreover have "index_of (CHR '':'') (ip @ CHR '':'' # rest) = Some (length ip)"
    using assms by (simp add: plain_ip_def)
  ultimately show ?thesis
    by (simp add: ip_of_address_def substr_def str_find_def)
qed

lemma ip_of_port_addr:
  "plain_ip ip \<Longrightarrow> ip_of_address (port_addr (th_ip_base (mk_thread ip tid)) tid port) = Inr ip"
  using ip_of_address_tcp [of ip] by (simp add: port_addr_def mk_thread_def)

lemma port_addr_inj:
  "port_addr base t p = port_addr base t' p' \<longleftrightarrow> t + p = t' + p'"
  by (simp add: port_addr_def word_unat_eq_iff)

subsection \<open>The sockets a coordinator thread binds\<close>

definition coord_bind_addresses :: "Address \<Rightarrow> 32 word \<Rightarrow> Address list" where
  "coord_bind_addresses private_ip thread_id =
     (let ht = mk_thread private_ip thread_id; ot = mk_thread private_ip thread_id
      in [notify_handler_bind_address ht, key_query_handler_bind_address ht,
          bucket_op_bind_address ot, trigger_op_bind_address ot, update_handler_bind_address ht,
          func_create_bind_address ot, app_regist_bind_address ot, func_call_bind_address ot,
          forward_func_bind_address ht])"

definition coord_ports :: "nat list" where
  "coord_ports = [7350, 7400, 7800, 7900, 7750, 5000, 5020, 5050, 4500]"

lemma coord_bind_addresses_ports:
  assumes "unat t < 20"
  shows "coord_bind_addresses ip t = map (\<lambda>p. kBindBase @ to_string (unat t + p)) coord_ports"
proof -
  have "unat (t + of_nat p) = unat t + p" if "p < 10000" for p
  proof -
    have "(of_nat p :: 32 word) = word_of_nat p" ..
    moreover have "unat (word_of_nat p :: 32 word) = p"
      using that by (simp add: unat_of_nat)
    ultimately show ?thesis
      using that assms by (simp add: unat_word_ariths(1))
  qed
  from this [of 7350] this [of 7400] this [of 7800] this [of 7900] this [of 7750] this [of 5000]
    this [of 5020] this [of 5050] this [of 4500]
  show ?thesis
    by (simp add: coord_bind_addresses_def coord_ports_def address_defs port_addr_def port_defs
        mk_thread_def Let_def)
qed

lemma coord_ports_gap:
  "p \<in> set coord_ports \<Longrightarrow> q \<in> set coord_ports \<Longrightarrow> s < 20 \<Longrightarrow> t < (20::nat) \<Longrightarrow> s + p = t + q
    \<Longrightarrow> s = t \<and> p = q"
  by (auto simp: coord_ports_def)

end
