(* ===== verification/Kvs_Client.thy ===== *)
theory Kvs_Client
  imports Threads
begin

text \<open>
  \<^verbatim>\<open>src/common/include/anna_client/kvs_client.hpp\<close>: the asynchronous client of the key-value
  store. A \<open>KvsClient\<close> keeps a cache of the servers of each key and three maps of requests that wait:
  for the routing tier, for the answer to a GET, for the answers to PUTs. The messages that it sends are
  appended to \<open>kc_sent\<close>. One call of a method reads the clock once (\<open>now\<close>).
\<close>

subsection \<open>State\<close>

record PendingRequest =
  pr_tp :: TimePoint
  pr_worker_addr :: Address
  pr_request :: KeyRequest

record KvsClient =
  kc_routing_threads :: "UserRoutingThread list"
  kc_rid :: "32 word"
  kc_seed :: "32 word"
  kc_ut :: UserThread
  kc_key_address_cache :: "(Key, Address uset) umap"
  kc_timeout :: "32 word"
  kc_pending_request_map :: "(Key, TimePoint \<times> KeyRequest list) umap"
  kc_pending_get_response_map :: "(Key, PendingRequest) umap"
  kc_pending_put_response_map :: "(Key, (string, PendingRequest) umap) umap"
  kc_sent :: sends

definition new_KvsClient :: "UserRoutingThread list \<Rightarrow> Address \<Rightarrow> 32 word \<Rightarrow> 32 word \<Rightarrow> 32 word \<Rightarrow> KvsClient" where
  "new_KvsClient routing_threads ip tid timeout seed =
     \<lparr>kc_routing_threads = routing_threads, kc_rid = 0, kc_seed = seed, kc_ut = mk_thread ip tid,
      kc_key_address_cache = [], kc_timeout = timeout, kc_pending_request_map = [],
      kc_pending_get_response_map = [], kc_pending_put_response_map = [], kc_sent = []\<rparr>"

definition kvs_send :: "Address \<Rightarrow> wire \<Rightarrow> KvsClient \<Rightarrow> KvsClient" where
  "kvs_send addr msg c = c\<lparr>kc_sent := kc_sent c @ [(addr, msg)]\<rparr>"

subsection \<open>Request identifiers\<close>

text \<open>The counter is incremented before and after it is read.\<close>

definition request_id :: "thread \<Rightarrow> 32 word \<Rightarrow> string \<times> 32 word" where
  "request_id ut rid =
     (let rid1 = rid + 1; rid2 = (if rid1 mod 10000 = 0 then 0 else rid1)
      in (th_ip ut @ '':'' @ to_string (unat (th_tid ut)) @ ''_'' @ to_string (unat rid2), rid2 + 1))"

definition get_request_id :: "KvsClient \<Rightarrow> string \<times> KvsClient" where
  "get_request_id c = (let (i, rid) = request_id (kc_ut c) (kc_rid c) in (i, c\<lparr>kc_rid := rid\<rparr>))"

subsection \<open>The servers of a key\<close>

definition kc_rand_mod :: "rng \<Rightarrow> nat \<Rightarrow> KvsClient \<Rightarrow> (nat \<times> KvsClient) res" where
  "kc_rand_mod rand_r n c =
     (if n = 0 then Inl DivByZero
      else let (r, seed') = rand_r (kc_seed c) in Inr (r mod n, c\<lparr>kc_seed := seed'\<rparr>))"

definition get_routing_thread :: "rng \<Rightarrow> KvsClient \<Rightarrow> (Address \<times> KvsClient) res" where
  "get_routing_thread rand_r c =
     rbind (kc_rand_mod rand_r (length (kc_routing_threads c)) c) (\<lambda>(i, c').
       Inr (routing_key_address_connect_address (kc_routing_threads c ! i), c'))"

definition query_routing_async :: "rng \<Rightarrow> Key \<Rightarrow> KvsClient \<Rightarrow> KvsClient res" where
  "query_routing_async rand_r key c =
     (let (rid, c1) = get_request_id c;
          request = \<lparr>kar_response_address = user_key_address_connect_address (kc_ut c),
                     kar_keys = [key], kar_request_id = rid\<rparr>
      in rbind (get_routing_thread rand_r c1) (\<lambda>(rt_thread, c2).
           Inr (kvs_send rt_thread (W_KeyAddressRequest request) c2)))"

definition get_all_worker_threads :: "rng \<Rightarrow> Key \<Rightarrow> KvsClient \<Rightarrow> (Address uset \<times> KvsClient) res" where
  "get_all_worker_threads rand_r key c =
     (if um_get [] key (kc_key_address_cache c) = [] then
        if um_has key (kc_pending_request_map c) then Inr ([], c)
        else rbind (query_routing_async rand_r key c) (\<lambda>c'. Inr ([], c'))
      else Inr (um_get [] key (kc_key_address_cache c), c))"

definition get_worker_thread :: "rng \<Rightarrow> Key \<Rightarrow> KvsClient \<Rightarrow> (Address \<times> KvsClient) res" where
  "get_worker_thread rand_r key c =
     rbind (get_all_worker_threads rand_r key c) (\<lambda>(local_cache, c1).
       if local_cache = [] then Inr ([], c1)
       else rbind (kc_rand_mod rand_r (length local_cache) c1) (\<lambda>(i, c2). Inr (local_cache ! i, c2)))"

subsection \<open>try_request\<close>

definition await_address :: "TimePoint \<Rightarrow> Key \<Rightarrow> KeyRequest \<Rightarrow> KvsClient \<Rightarrow> KvsClient" where
  "await_address now key request c =
     c\<lparr>kc_pending_request_map :=
         um_alter (now, []) (\<lambda>(tp, reqs). (tp, reqs @ [request])) key (kc_pending_request_map c)\<rparr>"

definition await_get :: "TimePoint \<Rightarrow> Key \<Rightarrow> Address \<Rightarrow> KeyRequest \<Rightarrow> KvsClient \<Rightarrow> KvsClient" where
  "await_get now key worker request c =
     c\<lparr>kc_pending_get_response_map :=
         um_alter \<lparr>pr_tp = now, pr_worker_addr = worker, pr_request = request\<rparr>
           (\<lambda>p. p\<lparr>pr_worker_addr := worker\<rparr>) key (kc_pending_get_response_map c)\<rparr>"

definition await_put :: "TimePoint \<Rightarrow> Key \<Rightarrow> Address \<Rightarrow> KeyRequest \<Rightarrow> KvsClient \<Rightarrow> KvsClient" where
  "await_put now key worker request c =
     c\<lparr>kc_pending_put_response_map :=
         um_alter []
           (um_alter \<lparr>pr_tp = now, pr_worker_addr = worker, pr_request = request\<rparr>
              (\<lambda>p. p\<lparr>pr_worker_addr := worker\<rparr>) (kr_request_id request))
           key (kc_pending_put_response_map c)\<rparr>"

text \<open>\<open>set_address_cache_size\<close> on the first tuple.\<close>

definition with_cache_size :: "nat \<Rightarrow> KeyRequest \<Rightarrow> KeyRequest" where
  "with_cache_size n request =
     request\<lparr>kr_tuples := (case kr_tuples request of [] \<Rightarrow> [] | tp # tps \<Rightarrow> tp\<lparr>kt_address_cache_size := n\<rparr> # tps)\<rparr>"

text \<open>The request is passed by reference; its new value is the first component of the result.\<close>

definition try_request :: "rng \<Rightarrow> TimePoint \<Rightarrow> KeyRequest \<Rightarrow> KvsClient \<Rightarrow> (KeyRequest \<times> KvsClient) res" where
  "try_request rand_r now request c =
     (case kr_tuples request of
        [] \<Rightarrow> Inl OutOfRange
      | tp # _ \<Rightarrow>
          let key = kt_key tp
          in rbind (get_worker_thread rand_r key c) (\<lambda>(worker, c1).
               if worker = [] then Inr (request, await_address now key request c1)
               else
                 let request' = with_cache_size (length (um_get [] key (kc_key_address_cache c1))) request;
                     c2 = kvs_send worker (W_KeyRequest request') c1
                 in Inr (request', if kr_type request' = GET then await_get now key worker request' c2
                                   else await_put now key worker request' c2)))"

subsection \<open>put_async and get_async\<close>

definition prepare_data_request :: "Key \<Rightarrow> KvsClient \<Rightarrow> KeyRequest \<times> KvsClient" where
  "prepare_data_request key c =
     (let (rid, c') = get_request_id c
      in (\<lparr>kr_type = RT_UNSPECIFIED, kr_tuples = [no_KeyTuple\<lparr>kt_key := key\<rparr>],
           kr_response_address = response_connect_address (kc_ut c), kr_request_id = rid\<rparr>, c'))"

definition put_async ::
    "rng \<Rightarrow> TimePoint \<Rightarrow> Key \<Rightarrow> bytes \<Rightarrow> LatticeType \<Rightarrow> KvsClient \<Rightarrow> (string \<times> KvsClient) res" where
  "put_async rand_r now key payload lattice_type c =
     (let (request, c1) = prepare_data_request key c;
          request' = request\<lparr>kr_type := PUT,
            kr_tuples := map (\<lambda>tp. tp\<lparr>kt_lattice_type := lattice_type, kt_payload := payload\<rparr>) (kr_tuples request)\<rparr>
      in rbind (try_request rand_r now request' c1) (\<lambda>(request'', c2). Inr (kr_request_id request'', c2)))"

definition get_async :: "rng \<Rightarrow> TimePoint \<Rightarrow> Key \<Rightarrow> KvsClient \<Rightarrow> KvsClient res" where
  "get_async rand_r now key c =
     (if um_has key (kc_pending_get_response_map c) then Inr c
      else let (request, c1) = prepare_data_request key c
           in rbind (try_request rand_r now (request\<lparr>kr_type := GET\<rparr>) c1) (\<lambda>(_, c2). Inr c2))"

subsection \<open>Invalidation of the cache\<close>

definition invalidate_cache_for_key :: "Key \<Rightarrow> KvsClient \<Rightarrow> KvsClient" where
  "invalidate_cache_for_key key c =
     c\<lparr>kc_key_address_cache := um_erase key (kc_key_address_cache c)\<rparr>"

text \<open>\<open>tokens[1]\<close> after a split at the colons.\<close>

definition signature_of :: "Address \<Rightarrow> string res" where
  "signature_of addr =
     (let tokens = split addr (CHR '':'') in if length tokens < 2 then Inl OutOfRange else Inr (tokens ! 1))"

definition caches_worker :: "string \<Rightarrow> Address uset \<Rightarrow> bool res" where
  "caches_worker signature addrs =
     rfold (\<lambda>found address. rbind (signature_of address) (\<lambda>v. Inr (found \<or> v = signature))) False addrs"

definition invalidate_cache_for_worker :: "Address \<Rightarrow> KvsClient \<Rightarrow> KvsClient res" where
  "invalidate_cache_for_worker worker c =
     rbind (signature_of worker) (\<lambda>signature.
     rbind (rfold (\<lambda>kept (key, addrs). rbind (caches_worker signature addrs) (\<lambda>found.
              Inr (if found then kept else kept @ [(key, addrs)]))) [] (kc_key_address_cache c)) (\<lambda>kept.
     Inr (c\<lparr>kc_key_address_cache := kept\<rparr>)))"

text \<open>\<open>True\<close>: the request is to be issued again.\<close>

definition check_tuple :: "KeyTuple \<Rightarrow> KvsClient \<Rightarrow> bool \<times> KvsClient" where
  "check_tuple tuple c =
     (if kt_error tuple = WRONG_THREAD then (True, invalidate_cache_for_key (kt_key tuple) c)
      else if kt_invalidate tuple then (False, invalidate_cache_for_key (kt_key tuple) c)
      else (False, c))"

subsection \<open>receive_async\<close>

text \<open>\<open>for (auto &req: pending_request_map_[key].second) try_request(req)\<close>: a call that appends to
  the vector that the loop runs over invalidates its iterators.\<close>

definition retry_pending :: "rng \<Rightarrow> TimePoint \<Rightarrow> Key \<Rightarrow> KeyRequest list \<Rightarrow> KvsClient \<Rightarrow> KvsClient res" where
  "retry_pending rand_r now key reqs c =
     rfold (\<lambda>c req. rbind (try_request rand_r now req c) (\<lambda>(_, c').
       if map_of (kc_pending_request_map c') key = map_of (kc_pending_request_map c) key then Inr c'
       else Inl IterInvalid)) c reqs"

definition receive_addresses :: "rng \<Rightarrow> TimePoint \<Rightarrow> KeyAddressResponse \<Rightarrow> KvsClient \<Rightarrow> KvsClient res" where
  "receive_addresses rand_r now response c =
     (case kas_addresses response of
        [] \<Rightarrow> Inl OutOfRange
      | address # _ \<Rightarrow>
          let key = ka_key address
          in case map_of (kc_pending_request_map c) key of
               None \<Rightarrow> Inr c
             | Some (tp, reqs) \<Rightarrow>
                 if kas_error response = NO_SERVERS then
                   query_routing_async rand_r key
                     (c\<lparr>kc_pending_request_map := um_put key (now, reqs) (kc_pending_request_map c)\<rparr>)
                 else
                   let c1 = fold (\<lambda>ip c. c\<lparr>kc_key_address_cache :=
                                um_alter [] (us_insert ip) key (kc_key_address_cache c)\<rparr>) (ka_ips address) c
                   in rbind (retry_pending rand_r now key reqs c1) (\<lambda>c2.
                        Inr (c2\<lparr>kc_pending_request_map := um_erase key (kc_pending_request_map c2)\<rparr>)))"

text \<open>The request that is issued again is the one in the map, by reference.\<close>

definition receive_get :: "rng \<Rightarrow> TimePoint \<Rightarrow> KeyTuple \<Rightarrow> KeyResponse \<Rightarrow> KvsClient \<Rightarrow> (KeyResponse list \<times> KvsClient) res" where
  "receive_get rand_r now tuple response c =
     (let key = kt_key tuple
      in case map_of (kc_pending_get_response_map c) key of
           None \<Rightarrow> Inr ([], c)
         | Some pending \<Rightarrow>
             let (again, c1) = check_tuple tuple c
             in if again then
                  let c2 = c1\<lparr>kc_pending_get_response_map :=
                        um_put key (pending\<lparr>pr_tp := now\<rparr>) (kc_pending_get_response_map c1)\<rparr>
                  in rbind (try_request rand_r now (pr_request pending) c2) (\<lambda>(request, c3).
                       Inr ([], c3\<lparr>kc_pending_get_response_map :=
                         um_alter pending (\<lambda>p. p\<lparr>pr_request := request\<rparr>) key (kc_pending_get_response_map c3)\<rparr>))
                else Inr ([response],
                       c1\<lparr>kc_pending_get_response_map := um_erase key (kc_pending_get_response_map c1)\<rparr>))"

definition receive_put :: "rng \<Rightarrow> TimePoint \<Rightarrow> KeyTuple \<Rightarrow> KeyResponse \<Rightarrow> KvsClient \<Rightarrow> (KeyResponse list \<times> KvsClient) res" where
  "receive_put rand_r now tuple response c =
     (let key = kt_key tuple; rid = ks_response_id response;
          ids = um_get [] key (kc_pending_put_response_map c)
      in case map_of ids rid of
           None \<Rightarrow> Inr ([], c)
         | Some pending \<Rightarrow>
             let (again, c1) = check_tuple tuple c
             in if again then
                  let c2 = c1\<lparr>kc_pending_put_response_map :=
                        um_put key (um_put rid (pending\<lparr>pr_tp := now\<rparr>) ids) (kc_pending_put_response_map c1)\<rparr>
                  in rbind (try_request rand_r now (pr_request pending) c2) (\<lambda>(request, c3).
                       Inr ([], c3\<lparr>kc_pending_put_response_map :=
                         um_alter [] (um_alter pending (\<lambda>p. p\<lparr>pr_request := request\<rparr>) rid) key
                           (kc_pending_put_response_map c3)\<rparr>))
                else
                  let ids' = um_erase rid ids
                  in Inr ([response],
                       c1\<lparr>kc_pending_put_response_map :=
                         (if ids' = [] then um_erase key (kc_pending_put_response_map c1)
                          else um_put key ids' (kc_pending_put_response_map c1))\<rparr>))"

definition receive_response :: "rng \<Rightarrow> TimePoint \<Rightarrow> KeyResponse \<Rightarrow> KvsClient \<Rightarrow> (KeyResponse list \<times> KvsClient) res" where
  "receive_response rand_r now response c =
     (case ks_tuples response of
        [] \<Rightarrow> Inl OutOfRange
      | tuple # _ \<Rightarrow>
          if ks_type response = GET then receive_get rand_r now tuple response c
          else receive_put rand_r now tuple response c)"

definition generate_bad_response :: "KeyRequest \<Rightarrow> KeyResponse res" where
  "generate_bad_response req =
     (case kr_tuples req of
        [] \<Rightarrow> Inl OutOfRange
      | tuple # _ \<Rightarrow>
          let tp = no_KeyTuple\<lparr>kt_key := kt_key tuple\<rparr>;
              tp' = (if kr_type req = PUT
                     then tp\<lparr>kt_lattice_type := kt_lattice_type tuple, kt_payload := kt_payload tuple\<rparr> else tp)
          in Inr \<lparr>ks_type = kr_type req, ks_tuples = [tp'], ks_response_id = kr_request_id req,
                  ks_error = TIMEOUT\<rparr>)"

definition expired :: "TimePoint \<Rightarrow> 32 word \<Rightarrow> TimePoint \<Rightarrow> bool" where
  "expired now timeout tp \<longleftrightarrow> to_ms (now - tp) > uint timeout"

text \<open>The three passes that drop what has timed out.\<close>

definition gc_pending_requests :: "TimePoint \<Rightarrow> KvsClient \<Rightarrow> (KeyResponse list \<times> KvsClient) res" where
  "gc_pending_requests now c =
     (let old = (\<lambda>(key, tp, reqs). expired now (kc_timeout c) tp)
      in rbind (rfold (\<lambda>result req. rbind (generate_bad_response req) (\<lambda>r. Inr (result @ [r]))) []
                  (concat (map (\<lambda>(key, tp, reqs). reqs) (filter old (kc_pending_request_map c))))) (\<lambda>result.
         Inr (result, c\<lparr>kc_pending_request_map := filter (\<lambda>e. \<not> old e) (kc_pending_request_map c)\<rparr>)))"

text \<open>One pending request that has timed out.\<close>

definition time_out :: "KeyResponse list \<times> KvsClient \<Rightarrow> PendingRequest \<Rightarrow> (KeyResponse list \<times> KvsClient) res" where
  "time_out = (\<lambda>(result, c) pending.
     rbind (generate_bad_response (pr_request pending)) (\<lambda>r.
     rbind (invalidate_cache_for_worker (pr_worker_addr pending) c) (\<lambda>c'. Inr (result @ [r], c'))))"

definition gc_pending_gets :: "TimePoint \<Rightarrow> KvsClient \<Rightarrow> (KeyResponse list \<times> KvsClient) res" where
  "gc_pending_gets now c =
     (let old = (\<lambda>(key, pending). expired now (kc_timeout c) (pr_tp pending))
      in rbind (rfold time_out ([], c) (map snd (filter old (kc_pending_get_response_map c)))) (\<lambda>(result, c').
         Inr (result, c'\<lparr>kc_pending_get_response_map :=
                filter (\<lambda>e. \<not> old e) (kc_pending_get_response_map c')\<rparr>)))"

definition gc_pending_puts :: "TimePoint \<Rightarrow> KvsClient \<Rightarrow> (KeyResponse list \<times> KvsClient) res" where
  "gc_pending_puts now c =
     (let old = (\<lambda>(rid, pending). expired now (kc_timeout c) (pr_tp pending))
      in rbind (rfold time_out ([], c)
                  (concat (map (\<lambda>(key, ids). map snd (filter old ids)) (kc_pending_put_response_map c)))) (\<lambda>(result, c').
         Inr (result, c'\<lparr>kc_pending_put_response_map :=
                map (\<lambda>(key, ids). (key, filter (\<lambda>e. \<not> old e) ids)) (kc_pending_put_response_map c')\<rparr>)))"

definition gc_pending :: "TimePoint \<Rightarrow> KvsClient \<Rightarrow> (KeyResponse list \<times> KvsClient) res" where
  "gc_pending now c =
     rbind (gc_pending_requests now c) (\<lambda>(r1, c1).
     rbind (gc_pending_gets now c1) (\<lambda>(r2, c2).
     rbind (gc_pending_puts now c2) (\<lambda>(r3, c3). Inr (r1 @ r2 @ r3, c3))))"

text \<open>The arguments are what the two sockets have received, if anything.\<close>

definition receive_async ::
    "rng \<Rightarrow> TimePoint \<Rightarrow> KeyAddressResponse option \<Rightarrow> KeyResponse option \<Rightarrow> KvsClient
       \<Rightarrow> (KeyResponse list \<times> KvsClient) res" where
  "receive_async rand_r now addresses response c =
     rbind (case addresses of None \<Rightarrow> Inr c | Some r \<Rightarrow> receive_addresses rand_r now r c) (\<lambda>c1.
     rbind (case response of None \<Rightarrow> Inr ([], c1) | Some r \<Rightarrow> receive_response rand_r now r c1) (\<lambda>(r1, c2).
     rbind (gc_pending now c2) (\<lambda>(r2, c3). Inr (r1 @ r2, c3))))"

definition clear_cache :: "KvsClient \<Rightarrow> KvsClient" where
  "clear_cache c = c\<lparr>kc_key_address_cache := []\<rparr>"

definition get_seed :: "KvsClient \<Rightarrow> 32 word" where
  "get_seed c = kc_seed c"

end
