(* ===== verification/Anna_Lattices.thy ===== *)
theory Anna_Lattices
  imports Common
begin

text \<open>
  The lattices of \<open>common/include/lattices\<close>. A lattice object is its \<open>element\<close>; \<open>do_merge\<close> of a
  class is a function from the element and the argument to the new element. Sets are duplicate-free
  lists, \<open>std::set\<close> a sorted one, maps association lists, and the equality of the containers is the
  one of the library: the same elements, whatever the iteration order.
\<close>

subsection \<open>core_lattices.hpp\<close>

definition bool_do_merge :: "bool \<Rightarrow> bool \<Rightarrow> bool" where
  "bool_do_merge element e \<longleftrightarrow> element \<or> e"

text \<open>\<open>MaxLattice<unsigned>\<close>: the element goes through an \<open>int\<close>, which the comparison with an
  \<open>unsigned\<close> converts back.\<close>

definition max_do_merge :: "32 word \<Rightarrow> 32 word \<Rightarrow> 32 word" where
  "max_do_merge element e =
     (let current = sint element in if word_of_int current < e then e else element)"

definition max_add :: "32 word \<Rightarrow> 32 word \<Rightarrow> 32 word" where
  "max_add element n = element + n"

definition max_subtract :: "32 word \<Rightarrow> 32 word \<Rightarrow> 32 word" where
  "max_subtract element n = element - n"

definition set_do_merge :: "'a uset \<Rightarrow> 'a uset \<Rightarrow> 'a uset" where
  "set_do_merge element e = fold us_insert e element"

definition set_size :: "'a uset \<Rightarrow> 32 word" where
  "set_size element = of_nat (length element)"

definition set_intersect :: "'a uset \<Rightarrow> 'a uset \<Rightarrow> 'a uset" where
  "set_intersect element s =
     fold (\<lambda>that res. fold (\<lambda>this res. if this = that then us_insert this res else res) element res) s []"

definition set_project :: "('a \<Rightarrow> bool) \<Rightarrow> 'a uset \<Rightarrow> 'a uset" where
  "set_project f element = fold (\<lambda>elem res. if f elem then us_insert elem res else res) element []"

definition ordered_set_do_merge :: "('a::linorder) list \<Rightarrow> 'a list \<Rightarrow> 'a list" where
  "ordered_set_do_merge element e = fold List.insort_insert e element"

definition ordered_set_intersect :: "('a::linorder) list \<Rightarrow> 'a list \<Rightarrow> 'a list" where
  "ordered_set_intersect element s =
     fold (\<lambda>that res. fold (\<lambda>this res. if this = that then List.insort_insert this res else res) element res) s []"

definition ordered_set_project :: "('a::linorder \<Rightarrow> bool) \<Rightarrow> 'a list \<Rightarrow> 'a list" where
  "ordered_set_project f element =
     fold (\<lambda>elem res. if f elem then List.insort_insert elem res else res) element []"

definition insert_pair :: "('v \<Rightarrow> 'v \<Rightarrow> 'v) \<Rightarrow> 'k \<Rightarrow> 'v \<Rightarrow> ('k, 'v) umap \<Rightarrow> ('k, 'v) umap" where
  "insert_pair vmerge k v element =
     (case map_of element k of
        Some old \<Rightarrow> um_put k (vmerge old v) element
      | None \<Rightarrow> element @ [(k, v)])"

definition map_do_merge :: "('v \<Rightarrow> 'v \<Rightarrow> 'v) \<Rightarrow> ('k, 'v) umap \<Rightarrow> ('k, 'v) umap \<Rightarrow> ('k, 'v) umap" where
  "map_do_merge vmerge element m = fold (\<lambda>(k, v). insert_pair vmerge k v) m element"

definition map_project :: "('v \<Rightarrow> bool) \<Rightarrow> ('k, 'v) umap \<Rightarrow> ('k, 'v) umap" where
  "map_project f element = filter (\<lambda>(k, v). f v) element"

definition map_contains :: "'k \<Rightarrow> ('k, 'v) umap \<Rightarrow> bool" where
  "map_contains k element \<longleftrightarrow> map_of element k \<noteq> None"

definition map_key_set :: "('k, 'v) umap \<Rightarrow> 'k uset" where
  "map_key_set element = fold (\<lambda>(k, v) res. us_insert k res) element []"

definition map_remove :: "'k \<Rightarrow> ('k, 'v) umap \<Rightarrow> ('k, 'v) umap" where
  "map_remove k element = (if map_of element k \<noteq> None then um_erase k element else element)"

text \<open>\<open>at\<close> inserts the default of the value lattice when there is no entry.\<close>

definition map_at :: "'v \<Rightarrow> 'k \<Rightarrow> ('k, 'v) umap \<Rightarrow> 'v \<times> ('k, 'v) umap" where
  "map_at v0 k element =
     (case map_of element k of
        Some v \<Rightarrow> (v, element)
      | None \<Rightarrow> (v0, element @ [(k, v0)]))"

text \<open>The equality of unordered sets and maps; the one of maps compares the values with theirs.\<close>

definition uset_eq :: "'a uset \<Rightarrow> 'a uset \<Rightarrow> bool" where
  "uset_eq xs ys \<longleftrightarrow> length xs = length ys \<and> (\<forall>x\<in>set xs. x \<in> set ys)"

definition umap_eq :: "('v \<Rightarrow> 'v \<Rightarrow> bool) \<Rightarrow> ('k, 'v) umap \<Rightarrow> ('k, 'v) umap \<Rightarrow> bool" where
  "umap_eq veq m m' \<longleftrightarrow> length m = length m' \<and>
     (\<forall>(k, v)\<in>set m. case map_of m' k of Some v' \<Rightarrow> veq v v' | None \<Rightarrow> False)"

subsection \<open>lww_pair_lattice.hpp and priority_lattice.hpp\<close>

record TimestampValuePair =
  tv_timestamp :: "64 word"
  tv_value :: string

definition lww_do_merge :: "TimestampValuePair \<Rightarrow> TimestampValuePair \<Rightarrow> TimestampValuePair" where
  "lww_do_merge element p =
     (if tv_timestamp p \<ge> tv_timestamp element
      then element\<lparr>tv_timestamp := tv_timestamp p, tv_value := tv_value p\<rparr> else element)"

definition lww_pair_size :: "TimestampValuePair \<Rightarrow> 32 word" where
  "lww_pair_size p = of_nat (length (tv_value p) + 8)"

text \<open>The priority type and its comparison are parameters of the template.\<close>

record 'p PriorityValuePair =
  pv_priority :: 'p
  pv_value :: string

definition priority_do_merge ::
    "('p \<Rightarrow> 'p \<Rightarrow> bool) \<Rightarrow> 'p PriorityValuePair \<Rightarrow> 'p PriorityValuePair \<Rightarrow> 'p PriorityValuePair" where
  "priority_do_merge compare element p =
     (if compare (pv_priority p) (pv_priority element) then p else element)"

subsection \<open>single_key_causal_lattice.hpp and multi_key_causal_lattice.hpp\<close>

type_synonym VectorClock = "(string, 32 word) umap"

abbreviation vc_merge :: "VectorClock \<Rightarrow> VectorClock \<Rightarrow> VectorClock" where
  "vc_merge \<equiv> map_do_merge max_do_merge"

abbreviation vc_eq :: "VectorClock \<Rightarrow> VectorClock \<Rightarrow> bool" where
  "vc_eq \<equiv> umap_eq (=)"

record VectorClockValuePair =
  vv_vector_clock :: VectorClock
  vv_value :: "string uset"

definition single_causal_do_merge ::
    "VectorClockValuePair \<Rightarrow> VectorClockValuePair \<Rightarrow> VectorClockValuePair" where
  "single_causal_do_merge element p =
     (let prev = vv_vector_clock element;
          merged = vc_merge prev (vv_vector_clock p);
          element' = element\<lparr>vv_vector_clock := merged\<rparr>
      in if vc_eq merged (vv_vector_clock p) then element'\<lparr>vv_value := vv_value p\<rparr>
         else if \<not> vc_eq merged prev
              then element'\<lparr>vv_value := set_do_merge (vv_value element) (vv_value p)\<rparr>
              else element')"

record MultiKeyCausalPayload =
  mk_vector_clock :: VectorClock
  mk_dependencies :: "(Key, VectorClock) umap"
  mk_value :: "string uset"

definition multi_causal_do_merge ::
    "MultiKeyCausalPayload \<Rightarrow> MultiKeyCausalPayload \<Rightarrow> MultiKeyCausalPayload" where
  "multi_causal_do_merge element p =
     (let prev = mk_vector_clock element;
          merged = vc_merge prev (mk_vector_clock p);
          element' = element\<lparr>mk_vector_clock := merged\<rparr>
      in if vc_eq merged (mk_vector_clock p)
         then element'\<lparr>mk_dependencies := mk_dependencies p, mk_value := mk_value p\<rparr>
         else if \<not> vc_eq merged prev
              then element'\<lparr>mk_dependencies := map_do_merge vc_merge (mk_dependencies element) (mk_dependencies p),
                            mk_value := set_do_merge (mk_value element) (mk_value p)\<rparr>
              else element')"

definition single_causal_size :: "VectorClockValuePair \<Rightarrow> 32 word" where
  "single_causal_size p = set_size (vv_vector_clock p) * 2 * 4 + set_size (vv_value p)"

definition multi_causal_size :: "MultiKeyCausalPayload \<Rightarrow> 32 word" where
  "multi_causal_size p =
     (let dep_size = fold (\<lambda>(k, vc) n. n + of_nat (length k) + set_size vc * 2 * 4) (mk_dependencies p) 0
      in set_size (mk_vector_clock p) * 2 * 4 + dep_size + set_size (mk_value p))"

subsection \<open>The contract: merging is a join\<close>

locale merge_lattice =
  fixes merge :: "'a \<Rightarrow> 'a \<Rightarrow> 'a" and eq :: "'a \<Rightarrow> 'a \<Rightarrow> bool" and ok :: "'a \<Rightarrow> bool"
  assumes eq_refl: "ok x \<Longrightarrow> eq x x"
    and eq_sym: "ok x \<Longrightarrow> ok y \<Longrightarrow> eq x y \<Longrightarrow> eq y x"
    and eq_trans: "ok x \<Longrightarrow> ok y \<Longrightarrow> ok z \<Longrightarrow> eq x y \<Longrightarrow> eq y z \<Longrightarrow> eq x z"
    and merge_ok: "ok x \<Longrightarrow> ok y \<Longrightarrow> ok (merge x y)"
    and merge_cong: "ok x \<Longrightarrow> ok x' \<Longrightarrow> ok y \<Longrightarrow> ok y' \<Longrightarrow> eq x x' \<Longrightarrow> eq y y' \<Longrightarrow>
      eq (merge x y) (merge x' y')"
    and merge_comm: "ok x \<Longrightarrow> ok y \<Longrightarrow> eq (merge x y) (merge y x)"
    and merge_assoc: "ok x \<Longrightarrow> ok y \<Longrightarrow> ok z \<Longrightarrow> eq (merge (merge x y) z) (merge x (merge y z))"
    and merge_idem: "ok x \<Longrightarrow> eq (merge x x) x"
begin

definition le :: "'a \<Rightarrow> 'a \<Rightarrow> bool" where
  "le x y \<longleftrightarrow> eq (merge x y) y"

lemma le_refl: "ok x \<Longrightarrow> le x x"
  by (simp add: le_def merge_idem)

lemma le_antisym:
  assumes ok: "ok x" "ok y" and le: "le x y" "le y x"
  shows "eq x y"
proof (rule eq_trans [OF ok(1) _ ok(2)])
  show "ok (merge x y)" by (rule merge_ok [OF ok])
  show "eq (merge x y) y" using le(1) by (simp add: le_def)
  have "eq (merge x y) x"
    by (rule eq_trans [OF _ _ ok(1) merge_comm [OF ok]]) (use ok le(2) in \<open>simp_all add: le_def merge_ok\<close>)
  then show "eq x (merge x y)" by (rule eq_sym [rotated 2]) (use ok in \<open>simp_all add: merge_ok\<close>)
qed

lemma le_trans:
  assumes ok: "ok x" "ok y" "ok z" and le: "le x y" "le y z"
  shows "le x z"
proof -
  have oks: "ok (merge x z)" "ok (merge y z)" "ok (merge x (merge y z))" "ok (merge (merge x y) z)" "ok (merge x y)"
    using ok by (simp_all add: merge_ok)
  have "eq z (merge y z)" by (rule eq_sym [rotated 2]) (use le(2) ok oks in \<open>simp_all add: le_def\<close>)
  then have 1: "eq (merge x z) (merge x (merge y z))" using ok oks by (intro merge_cong eq_refl)
  have 2: "eq (merge x (merge y z)) (merge (merge x y) z)"
    by (rule eq_sym [OF oks(4,3) merge_assoc [OF ok]])
  have 3: "eq (merge (merge x y) z) (merge y z)"
    using le(1) ok oks by (intro merge_cong eq_refl) (simp_all add: le_def)
  have 4: "eq (merge y z) z" using le(2) by (simp add: le_def)
  note 34 = eq_trans [OF oks(4,2) ok(3) 3 4]
  note 24 = eq_trans [OF oks(3,4) ok(3) 2 34]
  show ?thesis unfolding le_def by (rule eq_trans [OF oks(1,3) ok(3) 1 24])
qed

lemma le_merge1:
  assumes ok: "ok x" "ok y"
  shows "le x (merge x y)"
proof -
  have oks: "ok (merge x y)" "ok (merge x x)" "ok (merge x (merge x y))" "ok (merge (merge x x) y)"
    using ok by (simp_all add: merge_ok)
  have 1: "eq (merge x (merge x y)) (merge (merge x x) y)"
    by (rule eq_sym [OF oks(4,3) merge_assoc [OF ok(1) ok]])
  have 2: "eq (merge (merge x x) y) (merge x y)"
    using ok oks by (intro merge_cong eq_refl merge_idem)
  show ?thesis unfolding le_def by (rule eq_trans [OF oks(3,4,1) 1 2])
qed

lemma le_eq_trans:
  assumes ok: "ok x" "ok y" "ok z" and "le x y" and "eq y z"
  shows "le x z"
proof (rule le_trans [OF ok assms(4)])
  have yz: "eq (merge y z) (merge z z)" using ok assms(5) by (intro merge_cong eq_refl)
  show "le y z"
    unfolding le_def by (rule eq_trans [OF _ _ _ yz merge_idem]) (use ok in \<open>simp_all add: merge_ok\<close>)
qed

lemma le_merge2: "ok x \<Longrightarrow> ok y \<Longrightarrow> le y (merge x y)"
  by (rule le_eq_trans [OF _ _ _ le_merge1 merge_comm]) (simp_all add: merge_ok)

lemma merge_least:
  assumes ok: "ok x" "ok y" "ok z" and le: "le x z" "le y z"
  shows "le (merge x y) z"
proof -
  have oks: "ok (merge x z)" "ok (merge (merge x y) z)" "ok (merge x (merge y z))" "ok (merge y z)"
    using ok by (simp_all add: merge_ok)
  have 1: "eq (merge (merge x y) z) (merge x (merge y z))" by (rule merge_assoc [OF ok])
  have 2: "eq (merge x (merge y z)) (merge x z)"
    using ok oks le(2) by (intro merge_cong eq_refl) (simp_all add: le_def)
  have 3: "eq (merge x z) z" using le(1) by (simp add: le_def)
  note 23 = eq_trans [OF oks(3,1) ok(3) 2 3]
  show ?thesis unfolding le_def by (rule eq_trans [OF oks(2,3) ok(3) 1 23])
qed

lemma fold_ok: "ok a \<Longrightarrow> \<forall>x\<in>set xs. ok x \<Longrightarrow> ok (fold (\<lambda>x acc. merge acc x) xs a)"
  by (induction xs arbitrary: a) (auto simp: merge_ok)

lemma fold_upper:
  assumes "ok a" and "\<forall>x\<in>set xs. ok x" and "y \<in> insert a (set xs)"
  shows "le y (fold (\<lambda>x acc. merge acc x) xs a)"
  using assms
proof (induction xs arbitrary: a y)
  case (Cons x xs)
  let ?b = "merge a x"
  have b: "ok ?b" using Cons.prems by (simp add: merge_ok)
  have up: "z \<in> insert ?b (set xs) \<Longrightarrow> le z (fold (\<lambda>x acc. merge acc x) xs ?b)" for z
    using Cons.IH [OF b] Cons.prems(2) by simp
  have okf: "ok (fold (\<lambda>x acc. merge acc x) xs ?b)" using Cons.prems b by (simp add: fold_ok)
  consider "y = a" | "y = x" | "y \<in> set xs" using Cons.prems(3) by auto
  then show ?case
  proof cases
    case 1
    then show ?thesis
      using le_trans [OF _ b okf le_merge1 up] Cons.prems by simp
  next
    case 2
    then show ?thesis
      using le_trans [OF _ b okf le_merge2 up] Cons.prems by simp
  next
    case 3
    then show ?thesis using up by simp
  qed
qed (simp add: le_refl)

lemma fold_least:
  assumes "ok a" and "\<forall>x\<in>set xs. ok x" and "ok u" and "\<forall>x\<in>insert a (set xs). le x u"
  shows "le (fold (\<lambda>x acc. merge acc x) xs a) u"
  using assms by (induction xs arbitrary: a) (auto simp: merge_ok merge_least)

text \<open>Replicas that start alike and merge the same updates, in any order and any number of times
  each, end alike.\<close>

lemma fold_merge_le:
  assumes ok: "ok a" "\<forall>x\<in>set ys. ok x" and sub: "set xs \<subseteq> set ys"
  shows "le (fold (\<lambda>x acc. merge acc x) xs a) (fold (\<lambda>x acc. merge acc x) ys a)"
proof (rule fold_least [OF ok(1)])
  show "\<forall>x\<in>set xs. ok x" using ok sub by blast
  show "ok (fold (\<lambda>x acc. merge acc x) ys a)" using ok by (simp add: fold_ok)
  show "\<forall>x\<in>insert a (set xs). le x (fold (\<lambda>x acc. merge acc x) ys a)"
    using ok sub fold_upper [OF ok] by blast
qed

lemma fold_merge_set:
  assumes ok: "ok a" "\<forall>x\<in>set xs. ok x" and same: "set xs = set ys"
  shows "eq (fold (\<lambda>x acc. merge acc x) xs a) (fold (\<lambda>x acc. merge acc x) ys a)"
proof (rule le_antisym)
  show "ok (fold (\<lambda>x acc. merge acc x) xs a)" "ok (fold (\<lambda>x acc. merge acc x) ys a)"
    using ok same by (simp_all add: fold_ok)
  show "le (fold (\<lambda>x acc. merge acc x) xs a) (fold (\<lambda>x acc. merge acc x) ys a)"
    "le (fold (\<lambda>x acc. merge acc x) ys a) (fold (\<lambda>x acc. merge acc x) xs a)"
    using ok same by (simp_all add: fold_merge_le)
qed

end

subsection \<open>The lattices of the code\<close>

lemma max_do_merge_max: "max_do_merge x y = max x y"
  by (auto simp: max_do_merge_def max_def)

interpretation bool_lattice: merge_lattice bool_do_merge "(=)" "\<lambda>_. True"
  by unfold_locales (auto simp: bool_do_merge_def)

interpretation max_lattice: merge_lattice max_do_merge "(=)" "\<lambda>_. True"
  by unfold_locales (auto simp: max_do_merge_max ac_simps)

lemma uset_eq_set: "distinct xs \<Longrightarrow> distinct ys \<Longrightarrow> uset_eq xs ys \<longleftrightarrow> set xs = set ys"
  using length_us_eq_iff [of xs ys] by (auto simp: uset_eq_def distinct_card [symmetric])

lemma set_set_do_merge [simp]: "set (set_do_merge xs ys) = set xs \<union> set ys"
  by (auto simp: set_do_merge_def)

lemma distinct_set_do_merge [simp]: "distinct xs \<Longrightarrow> distinct (set_do_merge xs ys)"
  by (simp add: set_do_merge_def)

interpretation set_lattice: merge_lattice set_do_merge uset_eq distinct
  by unfold_locales (auto simp: uset_eq_set)

lemma set_ordered_set_do_merge [simp]: "set (ordered_set_do_merge xs ys) = set xs \<union> set ys"
  unfolding ordered_set_do_merge_def
  by (induction ys arbitrary: xs) (auto simp: set_insort_insert)

lemma sorted_ordered_set_do_merge [simp]:
  "sorted xs \<and> distinct xs \<Longrightarrow>
     sorted (ordered_set_do_merge xs ys) \<and> distinct (ordered_set_do_merge xs ys)"
  unfolding ordered_set_do_merge_def
  by (induction ys arbitrary: xs) (auto simp: sorted_insort_insert distinct_insort_insert)

lemma ordered_set_eqI:
  "sorted xs \<and> distinct xs \<Longrightarrow> sorted ys \<and> distinct ys \<Longrightarrow> set xs = set ys \<Longrightarrow> xs = ys"
  using sorted_distinct_set_unique by blast

interpretation ordered_set_lattice: merge_lattice ordered_set_do_merge "(=)" "\<lambda>xs. sorted xs \<and> distinct xs"
proof
  show "ordered_set_do_merge x y = ordered_set_do_merge y x"
    if "sorted x \<and> distinct x" "sorted y \<and> distinct y" for x y :: "'a list"
    using that by (intro ordered_set_eqI) auto
  show "ordered_set_do_merge (ordered_set_do_merge x y) z = ordered_set_do_merge x (ordered_set_do_merge y z)"
    if "sorted x \<and> distinct x" "sorted y \<and> distinct y" "sorted z \<and> distinct z" for x y z :: "'a list"
    using that by (intro ordered_set_eqI) auto
  show "ordered_set_do_merge x x = x" if "sorted x \<and> distinct x" for x :: "'a list"
    using that by (intro ordered_set_eqI) auto
qed auto

text \<open>Maps: the value of a key is the merge of the values it has.\<close>

fun merge_option :: "('v \<Rightarrow> 'v \<Rightarrow> 'v) \<Rightarrow> 'v option \<Rightarrow> 'v option \<Rightarrow> 'v option" where
  "merge_option f (Some x) (Some y) = Some (f x y)"
| "merge_option f None y = y"
| "merge_option f x None = x"

lemma merge_option_None2 [simp]: "merge_option f x None = x"
  by (cases x) simp_all

lemma map_of_insert_pair:
  "map_of (insert_pair f k v m) = (map_of m)(k := merge_option f (map_of m k) (Some v))"
  by (rule ext) (auto simp: insert_pair_def map_add_def split: option.splits)

lemma um_wf_insert_pair: "um_wf m \<Longrightarrow> um_wf (insert_pair f k v m)"
  by (auto simp: insert_pair_def map_of_eq_None_iff split: option.splits)

lemma map_of_map_do_merge:
  "um_wf m' \<Longrightarrow> map_of (map_do_merge f m m') k = merge_option f (map_of m k) (map_of m' k)"
  unfolding map_do_merge_def
proof (induction m' arbitrary: m)
  case (Cons p m')
  obtain k' v where p: "p = (k', v)" by fastforce
  have "map_of m' k' = None" using Cons.prems p by (simp add: map_of_eq_None_iff)
  then show ?case using Cons p by (auto simp: map_of_insert_pair)
qed simp

lemma um_wf_map_do_merge: "um_wf m \<Longrightarrow> um_wf (map_do_merge f m m')"
  unfolding map_do_merge_def
  by (induction m' arbitrary: m) (auto simp: um_wf_insert_pair)

lemma umap_eq_iff:
  assumes "um_wf m" and "um_wf m'"
  shows "umap_eq veq m m' \<longleftrightarrow> (\<forall>k. rel_option veq (map_of m k) (map_of m' k))"
proof
  assume eq: "umap_eq veq m m'"
  have "fst ` set m \<subseteq> fst ` set m'"
    using eq by (force simp: umap_eq_def map_of_eq_None_iff split: option.splits)
  then have dom: "fst ` set m = fst ` set m'"
    using eq length_us_eq_iff [of "map fst m" "map fst m'"] assms by (simp add: umap_eq_def)
  show "\<forall>k. rel_option veq (map_of m k) (map_of m' k)"
  proof
    fix k
    show "rel_option veq (map_of m k) (map_of m' k)"
    proof (cases "map_of m k")
      case None
      then have "map_of m' k = None" using dom by (simp add: map_of_eq_None_iff)
      then show ?thesis using None by simp
    next
      case (Some v)
      then have "(k, v) \<in> set m" by (rule map_of_SomeD)
      then show ?thesis using eq Some by (auto simp: umap_eq_def split: option.splits)
    qed
  qed
next
  assume rel: "\<forall>k. rel_option veq (map_of m k) (map_of m' k)"
  then have "map_of m k = None \<longleftrightarrow> map_of m' k = None" for k
    by (metis option.rel_distinct(1) option.rel_distinct(2) option.exhaust)
  then have "fst ` set m = fst ` set m'" by (auto simp: map_of_eq_None_iff)
  then have "length m = length m'"
    using assms by (metis distinct_card length_map list.set_map)
  moreover have "case map_of m' k of Some v' \<Rightarrow> veq v v' | None \<Rightarrow> False" if "(k, v) \<in> set m" for k v
    using rel [rule_format, of k] that assms(1) by (auto simp: option_rel_Some1 split: option.splits)
  ultimately show "umap_eq veq m m'" by (auto simp: umap_eq_def)
qed

definition map_ok :: "('v \<Rightarrow> bool) \<Rightarrow> ('k, 'v) umap \<Rightarrow> bool" where
  "map_ok vok m \<longleftrightarrow> um_wf m \<and> list_all (\<lambda>(k, v). vok v) m"

lemma map_ok_wf: "map_ok vok m \<Longrightarrow> um_wf m"
  by (simp add: map_ok_def)

lemma map_ok_lookup: "map_ok vok m \<Longrightarrow> pred_option vok (map_of m k)"
  by (cases "map_of m k") (auto simp: map_ok_def list_all_iff dest: map_of_SomeD)

lemma map_ok_iff: "um_wf m \<Longrightarrow> map_ok vok m \<longleftrightarrow> (\<forall>k. pred_option vok (map_of m k))"
proof
  assume "um_wf m" and all: "\<forall>k. pred_option vok (map_of m k)"
  then have "vok v" if "(k, v) \<in> set m" for k v using all [rule_format, of k] that by simp
  then show "map_ok vok m" using \<open>um_wf m\<close> by (auto simp: map_ok_def list_all_iff)
qed (simp add: map_ok_lookup)

text \<open>A map lattice over a lattice of values is a lattice.\<close>

locale value_lattice = merge_lattice vmerge veq vok
  for vmerge :: "'v \<Rightarrow> 'v \<Rightarrow> 'v" and veq :: "'v \<Rightarrow> 'v \<Rightarrow> bool" and vok :: "'v \<Rightarrow> bool"
begin

lemma merge_option_ok: "pred_option vok x \<Longrightarrow> pred_option vok y \<Longrightarrow> pred_option vok (merge_option vmerge x y)"
  by (cases x; cases y) (auto simp: merge_ok)

lemma rel_refl: "pred_option vok x \<Longrightarrow> rel_option veq x x"
  by (cases x) (auto simp: eq_refl)

lemma rel_sym: "pred_option vok x \<Longrightarrow> pred_option vok y \<Longrightarrow> rel_option veq x y \<Longrightarrow> rel_option veq y x"
  by (cases x; cases y) (auto intro: eq_sym)

lemma rel_trans:
  "pred_option vok x \<Longrightarrow> pred_option vok y \<Longrightarrow> pred_option vok z \<Longrightarrow>
     rel_option veq x y \<Longrightarrow> rel_option veq y z \<Longrightarrow> rel_option veq x z"
  by (cases x; cases y; cases z) (auto intro: eq_trans)

lemma rel_cong:
  "pred_option vok x \<Longrightarrow> pred_option vok x' \<Longrightarrow> pred_option vok y \<Longrightarrow> pred_option vok y' \<Longrightarrow>
     rel_option veq x x' \<Longrightarrow> rel_option veq y y' \<Longrightarrow>
     rel_option veq (merge_option vmerge x y) (merge_option vmerge x' y')"
  by (cases x; cases x'; cases y; cases y') (auto intro: merge_cong)

lemma rel_comm:
  "pred_option vok x \<Longrightarrow> pred_option vok y \<Longrightarrow>
     rel_option veq (merge_option vmerge x y) (merge_option vmerge y x)"
  by (cases x; cases y) (auto intro: merge_comm eq_refl)

lemma rel_assoc:
  assumes "pred_option vok x" "pred_option vok y" "pred_option vok z"
  shows "rel_option veq (merge_option vmerge (merge_option vmerge x y) z)
     (merge_option vmerge x (merge_option vmerge y z))"
  using assms
  by (cases x; cases y; cases z) (auto intro: merge_assoc eq_refl merge_ok)

lemma rel_idem: "pred_option vok x \<Longrightarrow> rel_option veq (merge_option vmerge x x) x"
  by (cases x) (auto intro: merge_idem)

lemma map_merge_ok: "map_ok vok m \<Longrightarrow> map_ok vok m' \<Longrightarrow> map_ok vok (map_do_merge vmerge m m')"
  using map_ok_iff [of "map_do_merge vmerge m m'" vok]
  by (simp add: map_ok_wf um_wf_map_do_merge map_of_map_do_merge map_ok_lookup merge_option_ok)

lemma map_eq_iff: "map_ok vok m \<Longrightarrow> map_ok vok m' \<Longrightarrow>
    umap_eq veq m m' \<longleftrightarrow> (\<forall>k. rel_option veq (map_of m k) (map_of m' k))"
  by (rule umap_eq_iff) (simp_all add: map_ok_wf)

lemmas map_laws = map_eq_iff map_merge_ok map_of_map_do_merge um_wf_map_do_merge map_ok_wf map_ok_lookup

end

sublocale value_lattice \<subseteq> maps: merge_lattice "map_do_merge vmerge" "umap_eq veq" "map_ok vok"
proof
  fix x y z x' y' :: "('e, 'v) umap"
  show "umap_eq veq x x" if "map_ok vok x"
    using that by (simp add: map_laws rel_refl)
  show "umap_eq veq y x" if "map_ok vok x" "map_ok vok y" "umap_eq veq x y"
    using that by (simp add: map_laws rel_sym)
  show "umap_eq veq x z" if "map_ok vok x" "map_ok vok y" "map_ok vok z" "umap_eq veq x y" "umap_eq veq y z"
    using that by (auto simp: map_laws intro: rel_trans [OF _ map_ok_lookup [of _ y]])
  show "map_ok vok (map_do_merge vmerge x y)" if "map_ok vok x" "map_ok vok y"
    using that by (rule map_merge_ok)
  show "umap_eq veq (map_do_merge vmerge x y) (map_do_merge vmerge x' y')"
    if "map_ok vok x" "map_ok vok x'" "map_ok vok y" "map_ok vok y'" "umap_eq veq x x'" "umap_eq veq y y'"
    using that by (simp add: map_laws rel_cong)
  show "umap_eq veq (map_do_merge vmerge x y) (map_do_merge vmerge y x)" if "map_ok vok x" "map_ok vok y"
    using that by (simp add: map_laws rel_comm)
  show "umap_eq veq (map_do_merge vmerge (map_do_merge vmerge x y) z)
      (map_do_merge vmerge x (map_do_merge vmerge y z))"
    if "map_ok vok x" "map_ok vok y" "map_ok vok z"
    using that by (simp add: map_laws rel_assoc)
  show "umap_eq veq (map_do_merge vmerge x x) x" if "map_ok vok x"
    using that by (simp add: map_laws rel_idem)
qed

interpretation vc: value_lattice max_do_merge "(=)" "\<lambda>_. True" ..

interpretation deps: value_lattice "map_do_merge max_do_merge" "umap_eq (=)" "map_ok (\<lambda>_. True)" ..

text \<open>Last-writer-wins and priorities: a join when a timestamp, or a priority, identifies its
  value.\<close>

interpretation lww: merge_lattice lww_do_merge "(=)" "\<lambda>p. tv_value p = f (tv_timestamp p)" for f
proof
  show "lww_do_merge x y = lww_do_merge y x"
    if "tv_value x = f (tv_timestamp x)" "tv_value y = f (tv_timestamp y)" for x y
    using that by (cases x; cases y) (auto simp: lww_do_merge_def)
  show "lww_do_merge (lww_do_merge x y) z = lww_do_merge x (lww_do_merge y z)" for x y z
    by (cases x; cases y; cases z) (auto simp: lww_do_merge_def)
qed (auto simp: lww_do_merge_def)

interpretation priority: merge_lattice "priority_do_merge (<)" "(=)"
  "\<lambda>p. pv_value p = f (pv_priority (p :: ('p :: linorder) PriorityValuePair))" for f
proof
  show "priority_do_merge (<) x y = priority_do_merge (<) y x"
    if "pv_value x = f (pv_priority x)" "pv_value y = f (pv_priority y)" for x y :: "'p PriorityValuePair"
    using that by (cases x; cases y) (auto simp: priority_do_merge_def)
  show "priority_do_merge (<) (priority_do_merge (<) x y) z = priority_do_merge (<) x (priority_do_merge (<) y z)"
    for x y z :: "'p PriorityValuePair"
    by (cases x; cases y; cases z) (auto simp: priority_do_merge_def)
qed (auto simp: priority_do_merge_def)

subsection \<open>Causal lattices keep the causally latest values\<close>

definition vc_le :: "VectorClock \<Rightarrow> VectorClock \<Rightarrow> bool" where
  "vc_le v w \<longleftrightarrow> (\<forall>k. (case map_of v k of None \<Rightarrow> True | Some n \<Rightarrow>
     (case map_of w k of None \<Rightarrow> False | Some m \<Rightarrow> n \<le> m)))"

lemma map_ok_True [simp]: "map_ok (\<lambda>_. True) m \<longleftrightarrow> um_wf m"
  by (simp add: map_ok_def list_all_iff)

lemma vc_merge_eq_right:
  assumes "um_wf v" and "um_wf w"
  shows "vc_eq (vc_merge v w) w \<longleftrightarrow> vc_le v w"
proof -
  have "rel_option (=) (merge_option max_do_merge a b) b \<longleftrightarrow>
      (case a of None \<Rightarrow> True | Some n \<Rightarrow> (case b of None \<Rightarrow> False | Some m \<Rightarrow> n \<le> m))" for a b
    by (cases a; cases b) (auto simp: max_do_merge_max max_def)
  then show ?thesis
    using assms by (simp add: umap_eq_iff um_wf_map_do_merge map_of_map_do_merge vc_le_def)
qed

lemma vc_merge_eq_left:
  assumes "um_wf v" and "um_wf w"
  shows "vc_eq (vc_merge v w) v \<longleftrightarrow> vc_le w v"
proof -
  have "rel_option (=) (merge_option max_do_merge a b) a \<longleftrightarrow>
      (case b of None \<Rightarrow> True | Some n \<Rightarrow> (case a of None \<Rightarrow> False | Some m \<Rightarrow> n \<le> m))" for a b
    by (cases a; cases b) (auto simp: max_do_merge_max max_def)
  then show ?thesis
    using assms by (simp add: umap_eq_iff um_wf_map_do_merge map_of_map_do_merge vc_le_def)
qed

lemma vc_le_merge:
  assumes "um_wf v" and "um_wf w"
  shows "vc_le v (vc_merge v w) \<and> vc_le w (vc_merge v w)"
  using assms
  by (auto simp: vc_le_def map_of_map_do_merge max_do_merge_max split: option.splits
      elim!: merge_option.elims)

lemma single_causal_merge:
  assumes "um_wf (vv_vector_clock x)" and "um_wf (vv_vector_clock y)"
  shows "vv_value (single_causal_do_merge x y) =
    (if vc_le (vv_vector_clock x) (vv_vector_clock y) then vv_value y
     else if vc_le (vv_vector_clock y) (vv_vector_clock x) then vv_value x
     else set_do_merge (vv_value x) (vv_value y))"
  using assms by (simp add: single_causal_do_merge_def Let_def vc_merge_eq_right vc_merge_eq_left)

lemma multi_causal_merge:
  assumes "um_wf (mk_vector_clock x)" and "um_wf (mk_vector_clock y)"
  shows "multi_causal_do_merge x y =
    (let vc = vc_merge (mk_vector_clock x) (mk_vector_clock y)
     in if vc_le (mk_vector_clock x) (mk_vector_clock y) then y\<lparr>mk_vector_clock := vc\<rparr>
        else if vc_le (mk_vector_clock y) (mk_vector_clock x) then x\<lparr>mk_vector_clock := vc\<rparr>
        else \<lparr>mk_vector_clock = vc,
              mk_dependencies = map_do_merge vc_merge (mk_dependencies x) (mk_dependencies y),
              mk_value = set_do_merge (mk_value x) (mk_value y)\<rparr>)"
  using assms
  by (cases x; cases y) (simp add: multi_causal_do_merge_def Let_def vc_merge_eq_right vc_merge_eq_left)

end
