(* ===== verification/Lattice_Serialization.thy ===== *)
theory Lattice_Serialization
  imports Anna_Lattices "HOL-Library.Multiset" "HOL-Library.Char_ord" "HOL-Library.List_Lexorder"
begin

text \<open>
  The conversions between lattices and the messages of \<open>anna.proto\<close> in \<open>common/include/common.hpp\<close>,
  and the properties of the lattices. The wire format of the messages is a parameter. A map field of
  a message is an association list; the parser yields its entries in some order.
\<close>

record LWWValue =
  lv_timestamp :: "64 word"
  lv_value :: bytes

record SingleKeyCausalValue =
  sc_vector_clock :: "(string, 32 word) umap"
  sc_values :: "bytes list"

record KeyVersion =
  kv_key :: string
  kv_vector_clock :: "(string, 32 word) umap"

record MultiKeyCausalValue =
  mc_vector_clock :: "(string, 32 word) umap"
  mc_dependencies :: "KeyVersion list"
  mc_values :: "bytes list"

record 'p PriorityValue =
  prv_priority :: 'p
  prv_value :: bytes

record 'p lattice_codec =
  ser_lww :: "LWWValue \<Rightarrow> bytes"
  par_lww :: "bytes \<Rightarrow> LWWValue"
  ser_set :: "bytes list \<Rightarrow> bytes"
  par_set :: "bytes \<Rightarrow> bytes list"
  ser_causal :: "SingleKeyCausalValue \<Rightarrow> bytes"
  par_causal :: "bytes \<Rightarrow> SingleKeyCausalValue"
  ser_multi :: "MultiKeyCausalValue \<Rightarrow> bytes"
  par_multi :: "bytes \<Rightarrow> MultiKeyCausalValue"
  ser_priority :: "'p PriorityValue \<Rightarrow> bytes"
  par_priority :: "bytes \<Rightarrow> 'p PriorityValue"

text \<open>What the code relies on: parsing gives back the scalar and repeated fields, and the entries of a
  map field in some order.\<close>

definition lattice_codec_ok :: "'p lattice_codec \<Rightarrow> bool" where
  "lattice_codec_ok c \<longleftrightarrow>
     (\<forall>m. par_lww c (ser_lww c m) = m) \<and>
     (\<forall>m. par_set c (ser_set c m) = m) \<and>
     (\<forall>m. um_wf (sc_vector_clock m) \<longrightarrow>
        mset (sc_vector_clock (par_causal c (ser_causal c m))) = mset (sc_vector_clock m) \<and>
        sc_values (par_causal c (ser_causal c m)) = sc_values m) \<and>
     (\<forall>m. par_priority c (ser_priority c m) = m)"

subsection \<open>serialize\<close>

definition serialize_lww :: "'p lattice_codec \<Rightarrow> TimestampValuePair \<Rightarrow> bytes" where
  "serialize_lww c l = ser_lww c \<lparr>lv_timestamp = tv_timestamp l, lv_value = tv_value l\<rparr>"

definition serialize_value :: "'p lattice_codec \<Rightarrow> 64 word \<Rightarrow> string \<Rightarrow> bytes" where
  "serialize_value c timestamp v = ser_lww c \<lparr>lv_timestamp = timestamp, lv_value = v\<rparr>"

definition serialize_set :: "'p lattice_codec \<Rightarrow> string uset \<Rightarrow> bytes" where
  "serialize_set c l = ser_set c (fold (\<lambda>val vs. vs @ [val]) l [])"

definition serialize_ordered_set :: "'p lattice_codec \<Rightarrow> string list \<Rightarrow> bytes" where
  "serialize_ordered_set c l = ser_set c (fold (\<lambda>val vs. vs @ [val]) l [])"

definition clock_to_message :: "VectorClock \<Rightarrow> (string, 32 word) umap" where
  "clock_to_message vc = fold (\<lambda>(k, n) m. um_put k n m) vc []"

definition serialize_single_causal :: "'p lattice_codec \<Rightarrow> VectorClockValuePair \<Rightarrow> bytes" where
  "serialize_single_causal c l =
     ser_causal c \<lparr>sc_vector_clock = clock_to_message (vv_vector_clock l),
                   sc_values = fold (\<lambda>val vs. vs @ [val]) (vv_value l) []\<rparr>"

definition serialize_multi_causal :: "'p lattice_codec \<Rightarrow> MultiKeyCausalPayload \<Rightarrow> bytes" where
  "serialize_multi_causal c l =
     ser_multi c \<lparr>mc_vector_clock = clock_to_message (mk_vector_clock l),
                  mc_dependencies = map (\<lambda>(k, vc). \<lparr>kv_key = k, kv_vector_clock = clock_to_message vc\<rparr>)
                    (mk_dependencies l),
                  mc_values = fold (\<lambda>val vs. vs @ [val]) (mk_value l) []\<rparr>"

definition serialize_priority :: "'p lattice_codec \<Rightarrow> 'p PriorityValuePair \<Rightarrow> bytes" where
  "serialize_priority c l = ser_priority c \<lparr>prv_priority = pv_priority l, prv_value = pv_value l\<rparr>"

subsection \<open>deserialize\<close>

definition deserialize_lww :: "'p lattice_codec \<Rightarrow> bytes \<Rightarrow> TimestampValuePair" where
  "deserialize_lww c serialized =
     (let lww = par_lww c serialized in \<lparr>tv_timestamp = lv_timestamp lww, tv_value = lv_value lww\<rparr>)"

definition deserialize_set :: "'p lattice_codec \<Rightarrow> bytes \<Rightarrow> string uset" where
  "deserialize_set c serialized = fold us_insert (par_set c serialized) []"

definition deserialize_ordered_set :: "'p lattice_codec \<Rightarrow> bytes \<Rightarrow> string list" where
  "deserialize_ordered_set c serialized = fold List.insort_insert (par_set c serialized) []"

definition deserialize_causal :: "'p lattice_codec \<Rightarrow> bytes \<Rightarrow> SingleKeyCausalValue" where
  "deserialize_causal c serialized = par_causal c serialized"

definition deserialize_multi_key_causal :: "'p lattice_codec \<Rightarrow> bytes \<Rightarrow> MultiKeyCausalValue" where
  "deserialize_multi_key_causal c serialized = par_multi c serialized"

definition deserialize_priority :: "'p lattice_codec \<Rightarrow> bytes \<Rightarrow> 'p PriorityValuePair" where
  "deserialize_priority c serialized =
     (let pv = par_priority c serialized in \<lparr>pv_priority = prv_priority pv, pv_value = prv_value pv\<rparr>)"

definition clock_of_message :: "(string, 32 word) umap \<Rightarrow> VectorClock" where
  "clock_of_message m = fold (\<lambda>(k, n). insert_pair max_do_merge k n) m []"

definition to_vector_clock_value_pair :: "SingleKeyCausalValue \<Rightarrow> VectorClockValuePair" where
  "to_vector_clock_value_pair cv =
     \<lparr>vv_vector_clock = clock_of_message (sc_vector_clock cv), vv_value = fold us_insert (sc_values cv) []\<rparr>"

definition to_multi_key_causal_payload :: "MultiKeyCausalValue \<Rightarrow> MultiKeyCausalPayload" where
  "to_multi_key_causal_payload mkcv =
     \<lparr>mk_vector_clock = clock_of_message (mc_vector_clock mkcv),
      mk_dependencies =
        fold (\<lambda>dep. insert_pair vc_merge (kv_key dep) (clock_of_message (kv_vector_clock dep)))
          (mc_dependencies mkcv) [],
      mk_value = fold us_insert (mc_values mkcv) []\<rparr>"

subsection \<open>Round trips\<close>

lemma fold_snoc: "fold (\<lambda>x xs. xs @ [x]) ys zs = zs @ ys"
  by (induction ys arbitrary: zs) auto

lemma clock_of_message_merge: "clock_of_message m = vc_merge [] m"
  by (simp add: clock_of_message_def map_do_merge_def)

lemma map_of_clock_of_message: "um_wf m \<Longrightarrow> map_of (clock_of_message m) k = map_of m k"
  by (simp add: clock_of_message_merge map_of_map_do_merge)

lemma clock_to_message_id: "um_wf (m @ vc) \<Longrightarrow> fold (\<lambda>(k, n) m. um_put k n m) vc m = m @ vc"
proof (induction vc arbitrary: m)
  case (Cons p vc)
  obtain k n where p: "p = (k, n)" by fastforce
  have "um_put k n m = m @ [(k, n)]"
    using Cons.prems p by (induction m) auto
  then show ?case using Cons p by simp
qed simp

lemma mset_map_of:
  assumes "um_wf m" and "mset m' = mset m"
  shows "um_wf m' \<and> map_of m' = map_of m"
proof -
  have "mset (map fst m') = mset (map fst m)" using assms(2) by simp
  then have "um_wf m'" using assms(1) by (metis mset_eq_imp_distinct_iff)
  moreover have "set m' = set m" using assms(2) by (metis set_mset_mset)
  ultimately show ?thesis using assms(1) map_of_inject_set by blast
qed

lemma single_causal_round:
  assumes c: "lattice_codec_ok c" and wf: "um_wf (vv_vector_clock l)" "distinct (vv_value l)"
  shows "vc_eq (vv_vector_clock (to_vector_clock_value_pair (deserialize_causal c (serialize_single_causal c l))))
      (vv_vector_clock l) \<and>
    vv_value (to_vector_clock_value_pair (deserialize_causal c (serialize_single_causal c l))) = vv_value l"
proof -
  let ?m = "\<lparr>sc_vector_clock = vv_vector_clock l, sc_values = vv_value l\<rparr>"
  let ?p = "par_causal c (ser_causal c ?m)"
  have ser: "serialize_single_causal c l = ser_causal c ?m"
    using wf clock_to_message_id [of "[]" "vv_vector_clock l"]
    by (simp add: serialize_single_causal_def clock_to_message_def fold_snoc)
  have p: "mset (sc_vector_clock ?p) = mset (vv_vector_clock l)" "sc_values ?p = vv_value l"
    using c wf(1) unfolding lattice_codec_ok_def by (metis SingleKeyCausalValue.select_convs)+
  have q: "um_wf (sc_vector_clock ?p) \<and> map_of (sc_vector_clock ?p) = map_of (vv_vector_clock l)"
    by (rule mset_map_of [OF wf(1) p(1)])
  then have "um_wf (clock_of_message (sc_vector_clock ?p))"
    by (simp add: clock_of_message_merge um_wf_map_do_merge)
  then show ?thesis
    using q p(2) wf us_of_list_distinct [of "vv_value l"]
    by (simp add: ser deserialize_causal_def to_vector_clock_value_pair_def umap_eq_iff us_of_list_def
        map_of_clock_of_message option.rel_eq)
qed

end
