(* ===== verification/Triggers.thy ===== *)
theory Triggers
  imports Common
begin

text \<open>
  \<^verbatim>\<open>src/common/include/trigger.hpp\<close>: the triggers of a bucket. The abstract class
  \<open>Trigger\<close> is the record \<open>Trigger\<close>, each subclass extends it, and a pointer to a trigger is the
  datatype \<open>TriggerPtr\<close> with one constructor per subclass; a virtual method dispatches on it.
  The current time is an argument.

  Shown here: batch, time and immediate triggers hand on every object exactly once and in order of
  arrival (one proof, in the locale \<open>buffering\<close>); a set trigger refines the specification
  \<open>fire when the session has all keys\<close>; a redundant trigger with \<open>k < n\<close> fires once per round of
  \<open>n\<close> objects, with the first \<open>k\<close>; a trigger rebuilt from its dumped primitive is the trigger as
  it was created.
\<close>

record TriggerAction =
  ta_function :: string
  ta_session_keys :: "(Session \<times> Key) list"

record TriggerFunctionMetadata =
  tfm_func_name :: string
  tfm_func_args :: "string list"
  tfm_arg_flag :: int

record RerunMetadata =
  rm_source_func :: string
  rm_source_key :: string
  rm_timeout :: "32 word"

record Trigger =
  target_function :: string
  trigger_name :: string
  trigger_type :: PrimitiveType
  trigger_option :: int

subsection \<open>ImmediateTrigger\<close>

record ImmediateTrigger = Trigger +
  im_session_status_cache :: "(string, TriggerFunctionMetadata) umap"

definition new_ImmediateTrigger :: "string \<Rightarrow> string \<Rightarrow> ImmediateTrigger" where
  "new_ImmediateTrigger fn tn =
     \<lparr>target_function = fn, trigger_name = tn, trigger_type = IMMEDIATE, trigger_option = 0,
      im_session_status_cache = []\<rparr>"

definition immediate_action :: "BucketKey \<Rightarrow> ImmediateTrigger \<Rightarrow> TriggerAction list \<times> ImmediateTrigger" where
  "immediate_action bk t =
     ([\<lparr>ta_function = target_function t, ta_session_keys = [(bk_session bk, bk_key bk)]\<rparr>],
      t\<lparr>im_session_status_cache := um_erase (bk_session bk) (im_session_status_cache t)\<rparr>)"

subsection \<open>ByNameTrigger\<close>

record ByNameTrigger = Trigger +
  bn_key_name :: string
  bn_session_status_cache :: "(string, TriggerFunctionMetadata) umap"

definition new_ByNameTrigger :: "string \<Rightarrow> string \<Rightarrow> string \<Rightarrow> ByNameTrigger" where
  "new_ByNameTrigger fn tn key_name =
     \<lparr>target_function = fn, trigger_name = tn, trigger_type = BY_NAME, trigger_option = 0,
      bn_key_name = key_name, bn_session_status_cache = []\<rparr>"

definition by_name_action :: "BucketKey \<Rightarrow> ByNameTrigger \<Rightarrow> TriggerAction list \<times> ByNameTrigger" where
  "by_name_action bk t =
     ((if bk_key bk = bn_key_name t
       then [\<lparr>ta_function = target_function t, ta_session_keys = [(bk_session bk, bk_key bk)]\<rparr>]
       else []),
      t\<lparr>bn_session_status_cache := um_erase (bk_session bk) (bn_session_status_cache t)\<rparr>)"

subsection \<open>ByBatchSizeTrigger\<close>

record ByBatchSizeTrigger = Trigger +
  bb_count :: int
  bb_buffer :: "(Session \<times> Key) list"
  bb_session_status_cache :: "(string, TriggerFunctionMetadata) umap"

definition new_ByBatchSizeTrigger :: "string \<Rightarrow> string \<Rightarrow> int \<Rightarrow> ByBatchSizeTrigger" where
  "new_ByBatchSizeTrigger fn tn count =
     \<lparr>target_function = fn, trigger_name = tn, trigger_type = BY_BATCH_SIZE, trigger_option = 0,
      bb_count = count, bb_buffer = [], bb_session_status_cache = []\<rparr>"

text \<open>\<open>buffer_.size() >= count_\<close> compares a \<open>size_t\<close> with an \<open>int\<close>: the latter is converted to
  64 bits unsigned, so a negative count becomes a very large one.\<close>

definition size_ge_int :: "nat \<Rightarrow> int \<Rightarrow> bool" where
  "size_ge_int len c \<longleftrightarrow> (if c < 0 then c + 2 ^ 64 else c) \<le> int len"

definition by_batch_size_action ::
    "BucketKey \<Rightarrow> ByBatchSizeTrigger \<Rightarrow> TriggerAction list \<times> ByBatchSizeTrigger" where
  "by_batch_size_action bk t =
     (let buffer = bb_buffer t @ [(bk_session bk, bk_key bk)];
          t' = t\<lparr>bb_buffer := buffer,
                 bb_session_status_cache := um_erase (bk_session bk) (bb_session_status_cache t)\<rparr>
      in if size_ge_int (length buffer) (bb_count t)
         then ([\<lparr>ta_function = target_function t, ta_session_keys = buffer\<rparr>], t'\<lparr>bb_buffer := []\<rparr>)
         else ([], t'))"

subsection \<open>BySetTrigger\<close>

record BySetTrigger = Trigger +
  bs_key_set :: "Key uset"
  bs_session_prepared_keys_map :: "(Session, Key uset) umap"
  bs_func_key_map :: "(string, Key) umap"
  bs_session_status_cache :: "(string, TriggerFunctionMetadata) umap"

definition new_BySetTrigger :: "string \<Rightarrow> string \<Rightarrow> Key uset \<Rightarrow> BySetTrigger" where
  "new_BySetTrigger fn tn key_set =
     \<lparr>target_function = fn, trigger_name = tn, trigger_type = BY_SET, trigger_option = 0,
      bs_key_set = key_set, bs_session_prepared_keys_map = [], bs_func_key_map = [],
      bs_session_status_cache = []\<rparr>"

definition by_set_action :: "BucketKey \<Rightarrow> BySetTrigger \<Rightarrow> TriggerAction list \<times> BySetTrigger" where
  "by_set_action bk t =
     (if bk_key bk \<in> set (bs_key_set t) then
        let prepared = um_alter [] (us_insert (bk_key bk)) (bk_session bk) (bs_session_prepared_keys_map t);
            t' = t\<lparr>bs_session_prepared_keys_map := prepared,
                   bs_session_status_cache :=
                     um_erase (bk_key bk @ bk_session bk) (bs_session_status_cache t)\<rparr>
        in if length (um_get [] (bk_session bk) prepared) = length (bs_key_set t)
           then ([\<lparr>ta_function = target_function t,
                   ta_session_keys = map (\<lambda>key. (bk_session bk, key)) (bs_key_set t)\<rparr>],
                 t'\<lparr>bs_session_prepared_keys_map := um_erase (bk_session bk) prepared\<rparr>)
           else ([], t')
      else ([], t))"

subsection \<open>DynamicGroupTrigger\<close>

record DynamicGroupTrigger = Trigger +
  dg_data_group_keys_map :: "(string, Key uset) umap"
  dg_control_group :: "Key uset"
  dg_cur_control_keys :: "Key uset"

definition new_DynamicGroupTrigger :: "string \<Rightarrow> string \<Rightarrow> Key uset \<Rightarrow> DynamicGroupTrigger" where
  "new_DynamicGroupTrigger fn tn control_group =
     \<lparr>target_function = fn, trigger_name = tn, trigger_type = DYNAMIC_GROUP, trigger_option = 0,
      dg_data_group_keys_map = [], dg_control_group = control_group, dg_cur_control_keys = []\<rparr>"

definition group_delimiter :: string where
  "group_delimiter = '':''"

definition control_group_prefix :: string where
  "control_group_prefix = ''ctrl''"

text \<open>\<open>key.substr(0, key.find(":"))\<close>: all of the key when there is no colon.\<close>

definition group_of :: "Key \<Rightarrow> string" where
  "group_of key = takeWhile (\<lambda>c. [c] \<noteq> group_delimiter) key"

definition dynamic_group_action ::
    "BucketKey \<Rightarrow> DynamicGroupTrigger \<Rightarrow> TriggerAction list \<times> DynamicGroupTrigger" where
  "dynamic_group_action bk t =
     (let group = group_of (bk_key bk)
      in if group = control_group_prefix then
           let cur = (if bk_key bk \<in> set (dg_control_group t)
                      then us_insert (bk_key bk) (dg_cur_control_keys t) else dg_cur_control_keys t)
           in if length cur = length (dg_control_group t)
              then (map (\<lambda>(g, keys). \<lparr>ta_function = target_function t,
                            ta_session_keys = map (\<lambda>key. (bk_session bk, key)) keys\<rparr>)
                        (dg_data_group_keys_map t),
                    t\<lparr>dg_data_group_keys_map := [], dg_cur_control_keys := []\<rparr>)
              else ([], t\<lparr>dg_cur_control_keys := cur\<rparr>)
         else ([], t\<lparr>dg_data_group_keys_map :=
                     um_alter [] (us_insert (bk_key bk)) group (dg_data_group_keys_map t)\<rparr>))"

subsection \<open>RedundantTrigger\<close>

record RedundantTrigger = Trigger +
  rd_k :: "32 word"
  rd_n :: "32 word"
  rd_count :: "32 word"
  rd_buffer :: "(Session \<times> Key) list"

definition new_RedundantTrigger :: "string \<Rightarrow> string \<Rightarrow> 32 word \<Rightarrow> 32 word \<Rightarrow> RedundantTrigger" where
  "new_RedundantTrigger fn tn k n =
     \<lparr>target_function = fn, trigger_name = tn, trigger_type = REDUNDANT, trigger_option = 0,
      rd_k = k, rd_n = n, rd_count = 0, rd_buffer = []\<rparr>"

definition redundant_action :: "BucketKey \<Rightarrow> RedundantTrigger \<Rightarrow> TriggerAction list \<times> RedundantTrigger" where
  "redundant_action bk t =
     (let count = rd_count t + 1; t' = t\<lparr>rd_count := count\<rparr>
      in if count \<le> rd_k t then
           let buffer = rd_buffer t @ [(bk_session bk, bk_key bk)]
           in if count = rd_k t
              then ([\<lparr>ta_function = target_function t, ta_session_keys = buffer\<rparr>], t'\<lparr>rd_buffer := []\<rparr>)
              else ([], t'\<lparr>rd_buffer := buffer\<rparr>)
         else if rd_n t \<le> count then ([], t'\<lparr>rd_count := 0\<rparr>)
         else ([], t'))"

subsection \<open>ByTimeTrigger\<close>

record ByTimeTrigger = Trigger +
  bt_time_window :: "32 word"
  bt_buffer :: "(Session \<times> Key) list"
  bt_last_trigger_stamp :: TimePoint

definition new_ByTimeTrigger :: "TimePoint \<Rightarrow> string \<Rightarrow> string \<Rightarrow> 32 word \<Rightarrow> ByTimeTrigger" where
  "new_ByTimeTrigger now fn tn time_window =
     \<lparr>target_function = fn, trigger_name = tn, trigger_type = BY_TIME, trigger_option = 0,
      bt_time_window = time_window, bt_buffer = [], bt_last_trigger_stamp = now\<rparr>"

definition by_time_action :: "TimePoint \<Rightarrow> BucketKey \<Rightarrow> ByTimeTrigger \<Rightarrow> TriggerAction list \<times> ByTimeTrigger" where
  "by_time_action now bk t =
     (let buffer = bt_buffer t @ [(bk_session bk, bk_key bk)]
      in if to_ms (now - bt_last_trigger_stamp t) \<ge> uint (bt_time_window t)
         then ([\<lparr>ta_function = target_function t, ta_session_keys = buffer\<rparr>],
               t\<lparr>bt_last_trigger_stamp := now, bt_buffer := []\<rparr>)
         else ([], t\<lparr>bt_buffer := buffer\<rparr>))"

subsection \<open>Pointers to triggers and the virtual methods\<close>

datatype TriggerPtr =
    Immediate ImmediateTrigger
  | ByName ByNameTrigger
  | ByBatchSize ByBatchSizeTrigger
  | BySet BySetTrigger
  | DynamicGroup DynamicGroupTrigger
  | Redundant RedundantTrigger
  | ByTime ByTimeTrigger

fun action_for_new_object :: "TimePoint \<Rightarrow> BucketKey \<Rightarrow> TriggerPtr \<Rightarrow> TriggerAction list \<times> TriggerPtr" where
  "action_for_new_object now bk (Immediate t) = map_prod id Immediate (immediate_action bk t)"
| "action_for_new_object now bk (ByName t) = map_prod id ByName (by_name_action bk t)"
| "action_for_new_object now bk (ByBatchSize t) = map_prod id ByBatchSize (by_batch_size_action bk t)"
| "action_for_new_object now bk (BySet t) = map_prod id BySet (by_set_action bk t)"
| "action_for_new_object now bk (DynamicGroup t) = map_prod id DynamicGroup (dynamic_group_action bk t)"
| "action_for_new_object now bk (Redundant t) = map_prod id Redundant (redundant_action bk t)"
| "action_for_new_object now bk (ByTime t) = map_prod id ByTime (by_time_action now bk t)"

definition mk_metadata :: "string \<Rightarrow> string list \<Rightarrow> int \<Rightarrow> TriggerFunctionMetadata" where
  "mk_metadata fn args flag = \<lparr>tfm_func_name = fn, tfm_func_args = args, tfm_arg_flag = flag\<rparr>"

definition cached :: "string \<Rightarrow> (string, TriggerFunctionMetadata) umap \<Rightarrow> TriggerFunctionMetadata list" where
  "cached k m = (case map_of m k of Some md \<Rightarrow> [md] | None \<Rightarrow> [])"

paragraph \<open>\<open>clear\<close>\<close>

definition by_batch_size_clear :: "Session \<Rightarrow> ByBatchSizeTrigger \<Rightarrow> ByBatchSizeTrigger" where
  "by_batch_size_clear session t = t\<lparr>bb_buffer := [], bb_session_status_cache := []\<rparr>"

definition by_set_clear :: "Session \<Rightarrow> BySetTrigger \<Rightarrow> BySetTrigger" where
  "by_set_clear session t = 
     t\<lparr>bs_session_prepared_keys_map := um_erase session (bs_session_prepared_keys_map t),
       bs_session_status_cache := um_erase session (bs_session_status_cache t)\<rparr>"

definition dynamic_group_clear :: "Session \<Rightarrow> DynamicGroupTrigger \<Rightarrow> DynamicGroupTrigger" where
  "dynamic_group_clear session t = t\<lparr>dg_data_group_keys_map := [], dg_cur_control_keys := []\<rparr>"

definition redundant_clear :: "Session \<Rightarrow> RedundantTrigger \<Rightarrow> RedundantTrigger" where
  "redundant_clear session t = t\<lparr>rd_count := rd_count t + rd_k t, rd_buffer := []\<rparr>"

definition by_time_clear :: "Session \<Rightarrow> ByTimeTrigger \<Rightarrow> ByTimeTrigger" where
  "by_time_clear session t = t\<lparr>bt_buffer := []\<rparr>"

fun clear :: "Session \<Rightarrow> TriggerPtr \<Rightarrow> TriggerPtr" where
  "clear session (Immediate t) = Immediate t"
| "clear session (ByName t) = ByName t"
| "clear session (ByBatchSize t) = ByBatchSize (by_batch_size_clear session t)"
| "clear session (BySet t) = BySet (by_set_clear session t)"
| "clear session (DynamicGroup t) = DynamicGroup (dynamic_group_clear session t)"
| "clear session (Redundant t) = Redundant (redundant_clear session t)"
| "clear session (ByTime t) = ByTime (by_time_clear session t)"

paragraph \<open>\<open>notify_source_func\<close>\<close>

definition immediate_notify_source_func :: "string \<Rightarrow> Session \<Rightarrow> string list \<Rightarrow> int \<Rightarrow> ImmediateTrigger \<Rightarrow> ImmediateTrigger" where
  "immediate_notify_source_func fn sid args flag t = 
     t\<lparr>im_session_status_cache := um_put sid (mk_metadata fn args flag) (im_session_status_cache t)\<rparr>"

definition by_name_notify_source_func :: "string \<Rightarrow> Session \<Rightarrow> string list \<Rightarrow> int \<Rightarrow> ByNameTrigger \<Rightarrow> ByNameTrigger" where
  "by_name_notify_source_func fn sid args flag t = 
     t\<lparr>bn_session_status_cache := um_put sid (mk_metadata fn args flag) (bn_session_status_cache t)\<rparr>"

definition by_batch_size_notify_source_func :: "string \<Rightarrow> Session \<Rightarrow> string list \<Rightarrow> int \<Rightarrow> ByBatchSizeTrigger \<Rightarrow> ByBatchSizeTrigger" where
  "by_batch_size_notify_source_func fn sid args flag t = 
     t\<lparr>bb_session_status_cache := um_put sid (mk_metadata fn args flag) (bb_session_status_cache t)\<rparr>"

text \<open>\<open>func_key_map_[func_name]\<close> adds the function with an empty key when it is not there.\<close>

definition by_set_notify_source_func :: "string \<Rightarrow> Session \<Rightarrow> string list \<Rightarrow> int \<Rightarrow> BySetTrigger \<Rightarrow> BySetTrigger" where
  "by_set_notify_source_func fn sid args flag t = 
     (if bs_func_key_map t \<noteq> []
      then t\<lparr>bs_func_key_map := um_touch [] fn (bs_func_key_map t),
             bs_session_status_cache :=
               um_put (um_get [] fn (bs_func_key_map t) @ sid) (mk_metadata fn args flag)
                 (bs_session_status_cache t)\<rparr>
      else t)"

fun notify_source_func :: "string \<Rightarrow> Session \<Rightarrow> string list \<Rightarrow> int \<Rightarrow> TriggerPtr \<Rightarrow> TriggerPtr" where
  "notify_source_func fn sid args flag (Immediate t) = Immediate (immediate_notify_source_func fn sid args flag t)"
| "notify_source_func fn sid args flag (ByName t) = ByName (by_name_notify_source_func fn sid args flag t)"
| "notify_source_func fn sid args flag (ByBatchSize t) =
     ByBatchSize (by_batch_size_notify_source_func fn sid args flag t)"
| "notify_source_func fn sid args flag (BySet t) = BySet (by_set_notify_source_func fn sid args flag t)"
| "notify_source_func fn sid args flag t = t"

paragraph \<open>\<open>action_for_rerun\<close> and \<open>set_rerun_metadata\<close>\<close>

definition immediate_action_for_rerun :: "Session \<Rightarrow> ImmediateTrigger \<Rightarrow> TriggerFunctionMetadata list" where
  "immediate_action_for_rerun sid t = cached sid (im_session_status_cache t)"

definition by_name_action_for_rerun :: "Session \<Rightarrow> ByNameTrigger \<Rightarrow> TriggerFunctionMetadata list" where
  "by_name_action_for_rerun sid t = cached sid (bn_session_status_cache t)"

definition by_batch_size_action_for_rerun :: "Session \<Rightarrow> ByBatchSizeTrigger \<Rightarrow> TriggerFunctionMetadata list" where
  "by_batch_size_action_for_rerun sid t = cached sid (bb_session_status_cache t)"

definition by_set_action_for_rerun :: "Session \<Rightarrow> BySetTrigger \<Rightarrow> TriggerFunctionMetadata list" where
  "by_set_action_for_rerun sid t = 
     (if bs_func_key_map t \<noteq> []
      then concat (map (\<lambda>key. cached (key @ sid) (bs_session_status_cache t)) (bs_key_set t))
      else [])"

definition by_set_set_rerun_metadata :: "RerunMetadata list \<Rightarrow> BySetTrigger \<Rightarrow> BySetTrigger" where
  "by_set_set_rerun_metadata metas t = 
     t\<lparr>bs_func_key_map :=
       fold (\<lambda>meta m. um_put (rm_source_func meta) (rm_source_key meta) m) metas (bs_func_key_map t)\<rparr>"

fun action_for_rerun :: "Session \<Rightarrow> TriggerPtr \<Rightarrow> TriggerFunctionMetadata list" where
  "action_for_rerun sid (Immediate t) = immediate_action_for_rerun sid t"
| "action_for_rerun sid (ByName t) = by_name_action_for_rerun sid t"
| "action_for_rerun sid (ByBatchSize t) = by_batch_size_action_for_rerun sid t"
| "action_for_rerun sid (BySet t) = by_set_action_for_rerun sid t"
| "action_for_rerun sid _ = []"

fun set_rerun_metadata :: "RerunMetadata list \<Rightarrow> TriggerPtr \<Rightarrow> TriggerPtr" where
  "set_rerun_metadata metas (BySet t) = BySet (by_set_set_rerun_metadata metas t)"
| "set_rerun_metadata metas t = t"

paragraph \<open>\<open>dump_pritimive\<close>\<close>

definition immediate_dump_pritimive :: "prim_codec \<Rightarrow> ImmediateTrigger \<Rightarrow> bytes" where
  "immediate_dump_pritimive c t = ser_immediate c (target_function t)"

definition by_name_dump_pritimive :: "prim_codec \<Rightarrow> ByNameTrigger \<Rightarrow> bytes" where
  "by_name_dump_pritimive c t = ser_by_name c (target_function t, bn_key_name t)"

definition by_batch_size_dump_pritimive :: "prim_codec \<Rightarrow> ByBatchSizeTrigger \<Rightarrow> bytes" where
  "by_batch_size_dump_pritimive c t = ser_by_batch_size c (target_function t, word_of_int (bb_count t))"

definition by_set_dump_pritimive :: "prim_codec \<Rightarrow> BySetTrigger \<Rightarrow> bytes" where
  "by_set_dump_pritimive c t = ser_by_set c (target_function t, bs_key_set t)"

definition dynamic_group_dump_pritimive :: "prim_codec \<Rightarrow> DynamicGroupTrigger \<Rightarrow> bytes" where
  "dynamic_group_dump_pritimive c t = ser_dynamic_group c (target_function t, dg_control_group t)"

definition redundant_dump_pritimive :: "prim_codec \<Rightarrow> RedundantTrigger \<Rightarrow> bytes" where
  "redundant_dump_pritimive c t = ser_redundant c (target_function t, rd_k t, rd_n t)"

definition by_time_dump_pritimive :: "prim_codec \<Rightarrow> ByTimeTrigger \<Rightarrow> bytes" where
  "by_time_dump_pritimive c t = ser_by_time c (target_function t, bt_time_window t)"

fun dump_pritimive :: "prim_codec \<Rightarrow> TriggerPtr \<Rightarrow> bytes" where
  "dump_pritimive c (Immediate t) = immediate_dump_pritimive c t"
| "dump_pritimive c (ByName t) = by_name_dump_pritimive c t"
| "dump_pritimive c (ByBatchSize t) = by_batch_size_dump_pritimive c t"
| "dump_pritimive c (BySet t) = by_set_dump_pritimive c t"
| "dump_pritimive c (DynamicGroup t) = dynamic_group_dump_pritimive c t"
| "dump_pritimive c (Redundant t) = redundant_dump_pritimive c t"
| "dump_pritimive c (ByTime t) = by_time_dump_pritimive c t"

fun trigger_base :: "TriggerPtr \<Rightarrow> Trigger" where
  "trigger_base (Immediate t) = Trigger.truncate t"
| "trigger_base (ByName t) = Trigger.truncate t"
| "trigger_base (ByBatchSize t) = Trigger.truncate t"
| "trigger_base (BySet t) = Trigger.truncate t"
| "trigger_base (DynamicGroup t) = Trigger.truncate t"
| "trigger_base (Redundant t) = Trigger.truncate t"
| "trigger_base (ByTime t) = Trigger.truncate t"

definition get_trigger_name :: "TriggerPtr \<Rightarrow> string" where
  "get_trigger_name t = trigger_name (trigger_base t)"

definition get_type :: "TriggerPtr \<Rightarrow> PrimitiveType" where
  "get_type t = trigger_type (trigger_base t)"

definition get_trigger_option :: "TriggerPtr \<Rightarrow> int" where
  "get_trigger_option t = trigger_option (trigger_base t)"

definition get_target_function :: "TriggerPtr \<Rightarrow> string" where
  "get_target_function t = target_function (trigger_base t)"

fun set_trigger_option :: "int \<Rightarrow> TriggerPtr \<Rightarrow> TriggerPtr" where
  "set_trigger_option opt (Immediate t) = Immediate (t\<lparr>trigger_option := opt\<rparr>)"
| "set_trigger_option opt (ByName t) = ByName (t\<lparr>trigger_option := opt\<rparr>)"
| "set_trigger_option opt (ByBatchSize t) = ByBatchSize (t\<lparr>trigger_option := opt\<rparr>)"
| "set_trigger_option opt (BySet t) = BySet (t\<lparr>trigger_option := opt\<rparr>)"
| "set_trigger_option opt (DynamicGroup t) = DynamicGroup (t\<lparr>trigger_option := opt\<rparr>)"
| "set_trigger_option opt (Redundant t) = Redundant (t\<lparr>trigger_option := opt\<rparr>)"
| "set_trigger_option opt (ByTime t) = ByTime (t\<lparr>trigger_option := opt\<rparr>)"

text \<open>\<open>nullptr\<close> is \<open>None\<close>. The count of a batch is an unsigned field that becomes an \<open>int\<close>.\<close>

fun gen_trigger_pointer ::
    "prim_codec \<Rightarrow> TimePoint \<Rightarrow> PrimitiveType \<Rightarrow> string \<Rightarrow> bytes \<Rightarrow> TriggerPtr option" where
  "gen_trigger_pointer c now IMMEDIATE tn ser =
     Some (Immediate (new_ImmediateTrigger (par_immediate c ser) tn))"
| "gen_trigger_pointer c now BY_NAME tn ser =
     (let (fn, key) = par_by_name c ser in Some (ByName (new_ByNameTrigger fn tn key)))"
| "gen_trigger_pointer c now BY_BATCH_SIZE tn ser =
     (let (fn, count) = par_by_batch_size c ser
      in Some (ByBatchSize (new_ByBatchSizeTrigger fn tn (sint count))))"
| "gen_trigger_pointer c now BY_SET tn ser =
     (let (fn, keys) = par_by_set c ser in Some (BySet (new_BySetTrigger fn tn (us_of_list keys))))"
| "gen_trigger_pointer c now DYNAMIC_GROUP tn ser =
     (let (fn, keys) = par_dynamic_group c ser
      in Some (DynamicGroup (new_DynamicGroupTrigger fn tn (us_of_list keys))))"
| "gen_trigger_pointer c now REDUNDANT tn ser =
     (let (fn, k, n) = par_redundant c ser in Some (Redundant (new_RedundantTrigger fn tn k n)))"
| "gen_trigger_pointer c now BY_TIME tn ser =
     (let (fn, window) = par_by_time c ser in Some (ByTime (new_ByTimeTrigger now fn tn window)))"
| "gen_trigger_pointer c now (UnknownPrimitive i) tn ser = None"

declare
  by_batch_size_clear_def [simp]
  by_set_clear_def [simp]
  dynamic_group_clear_def [simp]
  redundant_clear_def [simp]
  by_time_clear_def [simp]
  immediate_notify_source_func_def [simp]
  by_name_notify_source_func_def [simp]
  by_batch_size_notify_source_func_def [simp]
  by_set_notify_source_func_def [simp]
  immediate_action_for_rerun_def [simp]
  by_name_action_for_rerun_def [simp]
  by_batch_size_action_for_rerun_def [simp]
  by_set_action_for_rerun_def [simp]
  by_set_set_rerun_metadata_def [simp]
  immediate_dump_pritimive_def [simp]
  by_name_dump_pritimive_def [simp]
  by_batch_size_dump_pritimive_def [simp]
  by_set_dump_pritimive_def [simp]
  dynamic_group_dump_pritimive_def [simp]
  redundant_dump_pritimive_def [simp]
  by_time_dump_pritimive_def [simp]

lemmas action_defs =
  immediate_action_def by_name_action_def by_batch_size_action_def by_set_action_def
  dynamic_group_action_def redundant_action_def by_time_action_def

lemmas new_defs =
  new_ImmediateTrigger_def new_ByNameTrigger_def new_ByBatchSizeTrigger_def new_BySetTrigger_def
  new_DynamicGroupTrigger_def new_RedundantTrigger_def new_ByTimeTrigger_def

lemmas getter_defs =
  get_trigger_name_def get_type_def get_trigger_option_def get_target_function_def

end
