(* ===== verification/Trigger_Laws.thy ===== *)
theory Trigger_Laws
  imports Triggers
begin

text \<open>
  The laws of the triggers of \<open>Triggers\<close>: what every method keeps of a trigger, the
  well-formedness invariant, and for each subclass which objects its actions carry.
\<close>

subsection \<open>Runs\<close>

text \<open>The actions of a sequence of arrivals, and the trigger afterwards.\<close>

fun run_trigger :: "('o \<Rightarrow> 't \<Rightarrow> 'a list \<times> 't) \<Rightarrow> 't \<Rightarrow> 'o list \<Rightarrow> 'a list \<times> 't" where
  "run_trigger f t [] = ([], t)"
| "run_trigger f t (x # xs) =
     (let (a, t') = f x t; (as, t'') = run_trigger f t' xs in (a @ as, t''))"

lemma run_trigger_append:
  "run_trigger f t (xs @ ys) =
     (let (a, t') = run_trigger f t xs; (b, t'') = run_trigger f t' ys in (a @ b, t''))"
  by (induction xs arbitrary: t) (auto simp: Let_def split: prod.splits)

lemma run_trigger_snoc:
  "run_trigger f t (xs @ [x]) =
     (let (a, t') = run_trigger f t xs; (b, t'') = f x t' in (a @ b, t''))"
  by (simp add: run_trigger_append Let_def split: prod.splits)

definition carried :: "TriggerAction list \<Rightarrow> (Session \<times> Key) list" where
  "carried as = concat (map ta_session_keys as)"

lemma carried_simps [simp]:
  "carried [] = []" "carried (a # as) = ta_session_keys a @ carried as"
  "carried (as @ bs) = carried as @ carried bs"
  by (simp_all add: carried_def)

definition session_key :: "BucketKey \<Rightarrow> Session \<times> Key" where
  "session_key bk = (bk_session bk, bk_key bk)"

subsection \<open>What every method keeps\<close>

text \<open>The trigger as it was created: the configuration with an empty run-time state. The option is not
  part of a dump and has its default; \<open>add_trigger_entity\<close> sets it from the message.\<close>

fun fresh :: "TimePoint \<Rightarrow> TriggerPtr \<Rightarrow> TriggerPtr" where
  "fresh now (Immediate t) = Immediate (new_ImmediateTrigger (target_function t) (trigger_name t))"
| "fresh now (ByName t) = ByName (new_ByNameTrigger (target_function t) (trigger_name t) (bn_key_name t))"
| "fresh now (ByBatchSize t) =
     ByBatchSize (new_ByBatchSizeTrigger (target_function t) (trigger_name t) (bb_count t))"
| "fresh now (BySet t) = BySet (new_BySetTrigger (target_function t) (trigger_name t) (bs_key_set t))"
| "fresh now (DynamicGroup t) =
     DynamicGroup (new_DynamicGroupTrigger (target_function t) (trigger_name t) (dg_control_group t))"
| "fresh now (Redundant t) =
     Redundant (new_RedundantTrigger (target_function t) (trigger_name t) (rd_k t) (rd_n t))"
| "fresh now (ByTime t) =
     ByTime (new_ByTimeTrigger now (target_function t) (trigger_name t) (bt_time_window t))"

text \<open>The interface that the handlers rely on: an operation on a trigger changes neither its name,
  type, option and target nor its configuration.\<close>

locale trigger_method =
  fixes meth :: "TriggerPtr \<Rightarrow> TriggerPtr"
  assumes meth_base: "trigger_base (meth t) = trigger_base t"
    and meth_fresh: "fresh now (meth t) = fresh now t"
begin

lemma meth_getters:
  "get_trigger_name (meth t) = get_trigger_name t"
  "get_type (meth t) = get_type t"
  "get_trigger_option (meth t) = get_trigger_option t"
  "get_target_function (meth t) = get_target_function t"
  by (simp_all add: getter_defs meth_base)

lemma map_meth_names:
  "map get_trigger_name (map meth ts) = map get_trigger_name ts"
  by (simp add: meth_getters)

lemma meth_funpow_base: "trigger_base ((meth ^^ n) t) = trigger_base t"
  by (induction n) (simp_all add: meth_base)

end

lemma truncate_simps [simp]:
  "Trigger.truncate (t\<lparr>im_session_status_cache := a\<rparr>) = Trigger.truncate t"
  "Trigger.truncate (u\<lparr>bn_session_status_cache := a\<rparr>) = Trigger.truncate u"
  "Trigger.truncate (v\<lparr>bb_buffer := b\<rparr>) = Trigger.truncate v"
  "Trigger.truncate (v\<lparr>bb_session_status_cache := a\<rparr>) = Trigger.truncate v"
  "Trigger.truncate (w\<lparr>bs_session_prepared_keys_map := c\<rparr>) = Trigger.truncate w"
  "Trigger.truncate (w\<lparr>bs_session_status_cache := a\<rparr>) = Trigger.truncate w"
  "Trigger.truncate (w\<lparr>bs_func_key_map := d\<rparr>) = Trigger.truncate w"
  "Trigger.truncate (x\<lparr>dg_data_group_keys_map := c\<rparr>) = Trigger.truncate x"
  "Trigger.truncate (x\<lparr>dg_cur_control_keys := e\<rparr>) = Trigger.truncate x"
  "Trigger.truncate (y\<lparr>rd_count := n\<rparr>) = Trigger.truncate y"
  "Trigger.truncate (y\<lparr>rd_buffer := b\<rparr>) = Trigger.truncate y"
  "Trigger.truncate (z\<lparr>bt_buffer := b\<rparr>) = Trigger.truncate z"
  "Trigger.truncate (z\<lparr>bt_last_trigger_stamp := k\<rparr>) = Trigger.truncate z"
  by (simp_all add: Trigger.defs)

interpretation arrival: trigger_method "\<lambda>t. snd (action_for_new_object now bk t)" for now bk
proof
  show "trigger_base (snd (action_for_new_object now bk t)) = trigger_base t" for t
    by (cases t) (simp_all add: action_defs Let_def)
  show "fresh now' (snd (action_for_new_object now bk t)) = fresh now' t" for now' t
    by (cases t) (simp_all add: action_defs Let_def)
qed

interpretation clearing: trigger_method "clear session" for session
proof
  show "trigger_base (clear session t) = trigger_base t" for t by (cases t) simp_all
  show "fresh now (clear session t) = fresh now t" for now t by (cases t) simp_all
qed

interpretation notifying: trigger_method "notify_source_func fn sid args flag" for fn sid args flag
proof
  show "trigger_base (notify_source_func fn sid args flag t) = trigger_base t" for t
    by (cases t) simp_all
  show "fresh now (notify_source_func fn sid args flag t) = fresh now t" for now t
    by (cases t) simp_all
qed

interpretation rerun_config: trigger_method "set_rerun_metadata metas" for metas
proof
  show "trigger_base (set_rerun_metadata metas t) = trigger_base t" for t by (cases t) simp_all
  show "fresh now (set_rerun_metadata metas t) = fresh now t" for now t by (cases t) simp_all
qed

subsection \<open>Well-formed triggers\<close>

fun trigger_wf :: "TriggerPtr \<Rightarrow> bool" where
  "trigger_wf (Immediate t) \<longleftrightarrow> trigger_type t = IMMEDIATE \<and> um_wf (im_session_status_cache t)"
| "trigger_wf (ByName t) \<longleftrightarrow> trigger_type t = BY_NAME \<and> um_wf (bn_session_status_cache t)"
| "trigger_wf (ByBatchSize t) \<longleftrightarrow> trigger_type t = BY_BATCH_SIZE \<and> um_wf (bb_session_status_cache t)
     \<and> - (2 ^ 31) \<le> bb_count t \<and> bb_count t < 2 ^ 31
     \<and> (0 < bb_count t \<longrightarrow> int (length (bb_buffer t)) < bb_count t)"
| "trigger_wf (BySet t) \<longleftrightarrow> trigger_type t = BY_SET \<and> distinct (bs_key_set t)
     \<and> um_wf (bs_session_prepared_keys_map t) \<and> um_wf (bs_session_status_cache t)
     \<and> (\<forall>s ks. map_of (bs_session_prepared_keys_map t) s = Some ks \<longrightarrow>
          distinct ks \<and> set ks \<subset> set (bs_key_set t))"
| "trigger_wf (DynamicGroup t) \<longleftrightarrow> trigger_type t = DYNAMIC_GROUP \<and> distinct (dg_control_group t)
     \<and> distinct (dg_cur_control_keys t) \<and> set (dg_cur_control_keys t) \<subseteq> set (dg_control_group t)
     \<and> um_wf (dg_data_group_keys_map t)
     \<and> (\<forall>g ks. map_of (dg_data_group_keys_map t) g = Some ks \<longrightarrow>
          distinct ks \<and> ks \<noteq> [] \<and> g \<noteq> control_group_prefix \<and> (\<forall>k\<in>set ks. group_of k = g))"
| "trigger_wf (Redundant t) \<longleftrightarrow> trigger_type t = REDUNDANT"
| "trigger_wf (ByTime t) \<longleftrightarrow> trigger_type t = BY_TIME"

lemma prepared_wf:
  assumes "trigger_wf (BySet t)"
  shows "distinct (um_get [] s (bs_session_prepared_keys_map t))"
    and "set (um_get [] s (bs_session_prepared_keys_map t)) \<subseteq> set (bs_key_set t)"
proof -
  have "distinct (um_get [] s (bs_session_prepared_keys_map t))
    \<and> set (um_get [] s (bs_session_prepared_keys_map t)) \<subseteq> set (bs_key_set t)"
  proof (cases "map_of (bs_session_prepared_keys_map t) s")
    case (Some ks)
    with assms have "distinct ks \<and> set ks \<subset> set (bs_key_set t)" by simp
    with Some show ?thesis by (simp add: psubset_eq)
  qed simp
  then show "distinct (um_get [] s (bs_session_prepared_keys_map t))"
    and "set (um_get [] s (bs_session_prepared_keys_map t)) \<subseteq> set (bs_key_set t)"
    by simp_all
qed

text \<open>The test on the sizes says that the session has every key.\<close>

lemma prepared_complete_iff:
  assumes "trigger_wf (BySet t)" and "k \<in> set (bs_key_set t)"
  shows "length (us_insert k (um_get [] s (bs_session_prepared_keys_map t))) = length (bs_key_set t)
    \<longleftrightarrow> insert k (set (um_get [] s (bs_session_prepared_keys_map t))) = set (bs_key_set t)"
proof -
  have "distinct (bs_key_set t)" using assms(1) by simp
  then show ?thesis
    using length_us_eq_iff [of "us_insert k (um_get [] s (bs_session_prepared_keys_map t))" "bs_key_set t"]
      prepared_wf [OF assms(1), of s] assms(2) by simp
qed

lemma by_set_wf:
  assumes wf: "trigger_wf (BySet t)"
  shows "trigger_wf (BySet (snd (by_set_action bk t)))"
proof (cases "bk_key bk \<in> set (bs_key_set t)")
  case True
  note complete = prepared_complete_iff [OF wf True]
  note old = prepared_wf [OF wf, of "bk_session bk"]
  have new: "distinct (us_insert (bk_key bk) (um_get [] (bk_session bk) (bs_session_prepared_keys_map t)))"
    "insert (bk_key bk) (set (um_get [] (bk_session bk) (bs_session_prepared_keys_map t))) \<subseteq> set (bs_key_set t)"
    using old True by simp_all
  show ?thesis
    using wf new True complete [of "bk_session bk"]
    by (simp add: by_set_action_def Let_def psubset_eq)
next
  case False
  then show ?thesis using wf by (simp add: by_set_action_def)
qed

lemma dynamic_group_wf:
  assumes "trigger_wf (DynamicGroup t)"
  shows "trigger_wf (DynamicGroup (snd (dynamic_group_action bk t)))"
proof (cases "group_of (bk_key bk) = control_group_prefix")
  case True
  with assms show ?thesis by (auto simp: dynamic_group_action_def Let_def)
next
  case False
  obtain g where g: "group_of (bk_key bk) = g" by simp
  have "distinct (um_get [] g (dg_data_group_keys_map t)) \<and>
      (\<forall>k\<in>set (um_get [] g (dg_data_group_keys_map t)). group_of k = g)"
    using assms by (cases "map_of (dg_data_group_keys_map t) g") auto
  with False assms g show ?thesis
    by (auto simp: dynamic_group_action_def Let_def)
qed

lemma action_for_new_object_wf:
  "trigger_wf t \<Longrightarrow> trigger_wf (snd (action_for_new_object now bk t))"
proof (cases t)
  case (BySet u)
  assume "trigger_wf t"
  with BySet show ?thesis using by_set_wf [of u bk] by simp
next
  case (DynamicGroup u)
  assume "trigger_wf t"
  with DynamicGroup show ?thesis using dynamic_group_wf [of u bk] by simp
next
  case (ByBatchSize u)
  assume "trigger_wf t"
  with ByBatchSize show ?thesis
    by (auto simp: by_batch_size_action_def size_ge_int_def Let_def)
qed (auto simp: action_defs Let_def)

lemma clear_wf: "trigger_wf t \<Longrightarrow> trigger_wf (clear session t)"
  by (cases t) auto

lemma notify_source_func_wf: "trigger_wf t \<Longrightarrow> trigger_wf (notify_source_func fn sid args flag t)"
  by (cases t) auto

lemma set_rerun_metadata_wf: "trigger_wf t \<Longrightarrow> trigger_wf (set_rerun_metadata metas t)"
  by (cases t) auto

lemma set_trigger_option_wf: "trigger_wf t \<Longrightarrow> trigger_wf (set_trigger_option opt t)"
  by (cases t) auto

lemma sint_range_32: "- (2 ^ 31) \<le> sint (w :: 32 word) \<and> sint w < 2 ^ 31"
  using sint_range_size [of w] by (simp add: word_size)

lemma gen_trigger_pointer_wf:
  assumes "gen_trigger_pointer c now ty tn ser = Some t"
  shows "trigger_wf t"
  using assms sint_range_32
  by (cases ty) (auto simp: new_defs split: prod.splits)

lemma set_trigger_option_getters:
  "get_type (set_trigger_option opt t) = get_type t"
  "get_trigger_name (set_trigger_option opt t) = get_trigger_name t"
  "get_trigger_option (set_trigger_option opt t) = opt"
  by (cases t; simp add: getter_defs Trigger.defs; fail)+

lemma fresh_set_trigger_option: "fresh now (set_trigger_option opt t) = fresh now t"
  by (cases t) simp_all

lemma gen_trigger_pointer_type:
  "gen_trigger_pointer c now ty tn ser = Some t \<Longrightarrow> get_type t = ty \<and> get_trigger_name t = tn"
  by (cases ty) (auto simp: new_defs getter_defs Trigger.defs split: prod.splits)

subsection \<open>Triggers that buffer: nothing lost, nothing twice\<close>

text \<open>A trigger whose pending objects and whose actions together account for every arrival, in
  order: shown once for all of them.\<close>

locale buffering =
  fixes arrive :: "'o \<Rightarrow> 't \<Rightarrow> TriggerAction list \<times> 't"
    and pending :: "'t \<Rightarrow> (Session \<times> Key) list"
    and item :: "'o \<Rightarrow> Session \<times> Key"
  assumes arrive_conserves:
    "carried (fst (arrive x t)) @ pending (snd (arrive x t)) = pending t @ [item x]"
begin

lemma run_conserves:
  "carried (fst (run_trigger arrive t xs)) @ pending (snd (run_trigger arrive t xs)) =
     pending t @ map item xs"
proof (induction xs arbitrary: t)
  case (Cons x xs)
  obtain a t' where a: "arrive x t = (a, t')" by fastforce
  have "carried a @ pending t' = pending t @ [item x]"
    using arrive_conserves [of x t] by (simp add: a)
  then have "(carried a @ pending t') @ map item xs = (pending t @ [item x]) @ map item xs"
    by (rule arg_cong)
  then show ?case
    using Cons.IH [of t'] by (simp add: a Let_def split_beta)
qed simp

lemma run_carries_all:
  "pending t = [] \<Longrightarrow> pending (snd (run_trigger arrive t xs)) = [] \<Longrightarrow>
     carried (fst (run_trigger arrive t xs)) = map item xs"
  using run_conserves [of t xs] by simp

lemma run_carries_prefix:
  "pending t = [] \<Longrightarrow>
     \<exists>rest. map item xs = carried (fst (run_trigger arrive t xs)) @ rest"
  using run_conserves [of t xs] by (intro exI [of _ "pending (snd (run_trigger arrive t xs))"]) simp

end

interpretation immediate: buffering immediate_action "\<lambda>_. []" session_key
  by unfold_locales (simp add: immediate_action_def session_key_def)

interpretation batch: buffering by_batch_size_action bb_buffer session_key
  by unfold_locales (simp add: by_batch_size_action_def session_key_def Let_def)

interpretation timed: buffering "\<lambda>(now, bk). by_time_action now bk" bt_buffer
  "\<lambda>(now, bk). session_key bk"
  by unfold_locales (auto simp: by_time_action_def session_key_def Let_def)

text \<open>Every action of a batch trigger has exactly \<open>count\<close> objects.\<close>

lemma batch_action_size:
  assumes "trigger_wf (ByBatchSize t)" and "0 < bb_count t" and "a \<in> set (fst (by_batch_size_action bk t))"
  shows "int (length (ta_session_keys a)) = bb_count t"
  using assms by (auto simp: by_batch_size_action_def size_ge_int_def Let_def split: if_splits)

lemma batch_run_sizes:
  assumes "trigger_wf (ByBatchSize t)" and "0 < bb_count t"
    and "a \<in> set (fst (run_trigger by_batch_size_action t xs))"
  shows "int (length (ta_session_keys a)) = bb_count t"
  using assms
proof (induction xs arbitrary: t)
  case (Cons x xs)
  let ?t = "snd (by_batch_size_action x t)"
  have wf: "trigger_wf (ByBatchSize ?t)"
    using action_for_new_object_wf [OF Cons.prems(1), of now x for now] by simp
  have count: "bb_count ?t = bb_count t"
    by (simp add: by_batch_size_action_def Let_def)
  from Cons.prems(3) consider "a \<in> set (fst (by_batch_size_action x t))"
    | "a \<in> set (fst (run_trigger by_batch_size_action ?t xs))"
    by (auto simp: Let_def split_beta)
  then show ?case
  proof cases
    case 1
    then show ?thesis using Cons.prems by (intro batch_action_size)
  next
    case 2
    then show ?thesis using Cons.IH [OF wf] Cons.prems(2) count by simp
  qed
qed simp

subsection \<open>Set triggers refine \<open>fire when the session has every key\<close>\<close>

text \<open>The specification: a set of keys per session.\<close>

definition spec_by_set :: "Key set \<Rightarrow> Session \<times> Key \<Rightarrow> (Session \<Rightarrow> Key set) \<Rightarrow> bool \<times> (Session \<Rightarrow> Key set)" where
  "spec_by_set K sk P =
     (let (s, k) = sk
      in if k \<notin> K then (False, P)
         else if insert k (P s) = K then (True, P(s := {}))
         else (False, P(s := insert k (P s))))"

definition prepared_keys :: "BySetTrigger \<Rightarrow> Session \<Rightarrow> Key set" where
  "prepared_keys t s = set (um_get [] s (bs_session_prepared_keys_map t))"

lemma by_set_refines:
  assumes wf: "trigger_wf (BySet t)"
  shows "prepared_keys (snd (by_set_action bk t)) =
      snd (spec_by_set (set (bs_key_set t)) (session_key bk) (prepared_keys t))"
    and "fst (by_set_action bk t) =
      (if fst (spec_by_set (set (bs_key_set t)) (session_key bk) (prepared_keys t))
       then [\<lparr>ta_function = target_function t,
              ta_session_keys = map (\<lambda>key. (bk_session bk, key)) (bs_key_set t)\<rparr>]
       else [])"
proof -
  show "prepared_keys (snd (by_set_action bk t)) =
      snd (spec_by_set (set (bs_key_set t)) (session_key bk) (prepared_keys t))"
  proof (cases "bk_key bk \<in> set (bs_key_set t)")
    case True
    show ?thesis
      using prepared_complete_iff [OF wf True, of "bk_session bk"] True
      by (simp add: by_set_action_def spec_by_set_def session_key_def prepared_keys_def Let_def
          fun_eq_iff)
  next
    case False
    then show ?thesis by (simp add: by_set_action_def spec_by_set_def session_key_def)
  qed
  show "fst (by_set_action bk t) =
      (if fst (spec_by_set (set (bs_key_set t)) (session_key bk) (prepared_keys t))
       then [\<lparr>ta_function = target_function t,
              ta_session_keys = map (\<lambda>key. (bk_session bk, key)) (bs_key_set t)\<rparr>]
       else [])"
  proof (cases "bk_key bk \<in> set (bs_key_set t)")
    case True
    show ?thesis
      using prepared_complete_iff [OF wf True, of "bk_session bk"] True
      by (simp add: by_set_action_def spec_by_set_def session_key_def prepared_keys_def Let_def)
  next
    case False
    then show ?thesis by (simp add: by_set_action_def spec_by_set_def session_key_def)
  qed
qed

lemma by_set_action_config [simp]:
  "bs_key_set (snd (by_set_action bk t)) = bs_key_set t"
  "target_function (snd (by_set_action bk t)) = target_function t"
  by (simp_all add: by_set_action_def Let_def)

text \<open>The actions for one session, and the keys of the set that arrived in it.\<close>

definition actions_of :: "Session \<Rightarrow> TriggerAction list \<Rightarrow> TriggerAction list" where
  "actions_of s as = filter (\<lambda>a. s \<in> fst ` set (ta_session_keys a)) as"

definition keys_of :: "Session \<Rightarrow> Key set \<Rightarrow> BucketKey list \<Rightarrow> Key list" where
  "keys_of s K os = map bk_key (filter (\<lambda>bk. bk_session bk = s \<and> bk_key bk \<in> K) os)"

lemma set_keys_of: "set (keys_of s K os) \<subseteq> K"
  by (auto simp: keys_of_def)

lemma disjoint_keys_Nil:
  "set ks \<subseteq> K \<Longrightarrow> K = insert k P \<Longrightarrow> P \<inter> set ks = {} \<Longrightarrow> k \<notin> set ks \<Longrightarrow> ks = []"
  by (cases ks) auto

lemma by_set_action_session:
  assumes wf: "trigger_wf (BySet t)" and K: "bs_key_set t \<noteq> []"
    and fresh_key: "bk_session bk = s \<Longrightarrow> bk_key bk \<in> set (bs_key_set t) \<Longrightarrow> bk_key bk \<notin> prepared_keys t s"
    and open_set: "prepared_keys t s \<subset> set (bs_key_set t)"
  shows "if bk_session bk = s \<and> bk_key bk \<in> set (bs_key_set t)
         then if insert (bk_key bk) (prepared_keys t s) = set (bs_key_set t)
              then actions_of s (fst (by_set_action bk t)) =
                     [\<lparr>ta_function = target_function t,
                       ta_session_keys = map (\<lambda>key. (s, key)) (bs_key_set t)\<rparr>] \<and>
                   prepared_keys (snd (by_set_action bk t)) s = {}
              else actions_of s (fst (by_set_action bk t)) = [] \<and>
                   prepared_keys (snd (by_set_action bk t)) s = insert (bk_key bk) (prepared_keys t s)
         else actions_of s (fst (by_set_action bk t)) = [] \<and>
              prepared_keys (snd (by_set_action bk t)) s = prepared_keys t s"
proof -
  obtain k ks where "bs_key_set t = k # ks" using K by (cases "bs_key_set t") auto
  then show ?thesis
    by (auto simp: by_set_refines [OF wf] spec_by_set_def session_key_def actions_of_def Let_def
        image_image)
qed

lemma by_set_run_session:
  assumes "trigger_wf (BySet t)" and "bs_key_set t \<noteq> []"
    and "distinct (keys_of s (set (bs_key_set t)) os)"
    and "prepared_keys t s \<inter> set (keys_of s (set (bs_key_set t)) os) = {}"
    and "prepared_keys t s \<subset> set (bs_key_set t)"
  shows "actions_of s (fst (run_trigger by_set_action t os)) =
    (if prepared_keys t s \<union> set (keys_of s (set (bs_key_set t)) os) = set (bs_key_set t)
     then [\<lparr>ta_function = target_function t, ta_session_keys = map (\<lambda>key. (s, key)) (bs_key_set t)\<rparr>]
     else [])"
  using assms
proof (induction os arbitrary: t)
  case Nil
  then show ?case by (auto simp: actions_of_def keys_of_def)
next
  case (Cons bk os)
  let ?K = "set (bs_key_set t)" and ?t = "snd (by_set_action bk t)"
  have wf: "trigger_wf (BySet ?t)" by (rule by_set_wf [OF Cons.prems(1)])
  have run: "fst (run_trigger by_set_action t (bk # os)) =
      fst (by_set_action bk t) @ fst (run_trigger by_set_action ?t os)"
    by (simp add: Let_def split_beta)
  note step = by_set_action_session [OF Cons.prems(1,2), of bk s]
  show ?case
  proof (cases "bk_session bk = s \<and> bk_key bk \<in> ?K")
    case True
    then have keys: "keys_of s ?K (bk # os) = bk_key bk # keys_of s ?K os" by (simp add: keys_of_def)
    then have new: "bk_key bk \<notin> prepared_keys t s" using Cons.prems(4) by auto
    show ?thesis
    proof (cases "insert (bk_key bk) (prepared_keys t s) = ?K")
      case True
      have none: "keys_of s ?K os = []"
      proof (rule disjoint_keys_Nil [where k = "bk_key bk" and P = "prepared_keys t s", OF set_keys_of])
        show "?K = insert (bk_key bk) (prepared_keys t s)" using True by simp
        show "prepared_keys t s \<inter> set (keys_of s ?K os) = {}" using Cons.prems(4) keys by auto
        show "bk_key bk \<notin> set (keys_of s ?K os)" using Cons.prems(3) keys by simp
      qed
      have fired: "actions_of s (fst (by_set_action bk t)) =
          [\<lparr>ta_function = target_function t, ta_session_keys = map (\<lambda>key. (s, key)) (bs_key_set t)\<rparr>]"
        and empty: "prepared_keys ?t s = {}"
        using step True \<open>bk_session bk = s \<and> bk_key bk \<in> ?K\<close> new Cons.prems(5) by auto
      have "actions_of s (fst (run_trigger by_set_action ?t os)) = []"
        using Cons.IH [OF wf] Cons.prems(2) none empty by (simp add: psubset_eq)
      then show ?thesis
        using run fired True keys none by (simp add: actions_of_def)
    next
      case False
      have quiet: "actions_of s (fst (by_set_action bk t)) = []"
        and prep: "prepared_keys ?t s = insert (bk_key bk) (prepared_keys t s)"
        using step False \<open>bk_session bk = s \<and> bk_key bk \<in> ?K\<close> new Cons.prems(5) by auto
      have "insert (bk_key bk) (prepared_keys t s) \<subset> ?K"
        using False \<open>bk_session bk = s \<and> bk_key bk \<in> ?K\<close> Cons.prems(5) by auto
      then show ?thesis
        using Cons.IH [OF wf] Cons.prems(2-4) keys prep run quiet by (simp add: actions_of_def)
    qed
  next
    case False
    then have "keys_of s ?K (bk # os) = keys_of s ?K os" by (auto simp: keys_of_def)
    moreover have "actions_of s (fst (by_set_action bk t)) = [] \<and> prepared_keys ?t s = prepared_keys t s"
      using step False Cons.prems(5) by simp
    ultimately show ?thesis
      using Cons.IH [OF wf] Cons.prems run by (simp add: actions_of_def)
  qed
qed

end
