(* ===== verification/Trigger_Specs.thy ===== *)
theory Trigger_Specs
  imports Trigger_Laws
begin

text \<open>
  Redundant and dynamic-group triggers, the rebuilding of a trigger from its dumped primitive, and
  the re-execution of source functions.
\<close>

subsection \<open>Redundant triggers: \<open>k\<close> out of \<open>n\<close>\<close>

lemma unat_plus_1_le: "unat (w :: 32 word) < unat (v :: 32 word) \<Longrightarrow> unat (w + 1) = Suc (unat w)"
proof -
  assume "unat w < unat v"
  moreover have "unat v < 2 ^ LENGTH(32)" by (rule unsigned_less)
  ultimately show ?thesis by (simp add: unat_word_ariths(1))
qed

definition redundant_fire :: "RedundantTrigger \<Rightarrow> BucketKey list \<Rightarrow> TriggerAction" where
  "redundant_fire t xs = \<lparr>ta_function = target_function t, ta_session_keys = map session_key xs\<rparr>"

text \<open>Up to the \<open>k\<close>-th arrival of a round the objects are collected.\<close>

lemma redundant_collect:
  assumes "rd_count t = 0" and "rd_buffer t = []" and "length xs < unat (rd_k t)"
  shows "\<exists>c. unat c = length xs \<and>
    run_trigger redundant_action t xs = ([], t\<lparr>rd_count := c, rd_buffer := map session_key xs\<rparr>)"
  using assms(3)
proof (induction xs rule: rev_induct)
  case Nil
  then show ?case using assms(1,2) by (intro exI [of _ 0]) simp
next
  case (snoc x xs)
  then obtain c where c: "unat c = length xs"
    and run: "run_trigger redundant_action t xs = ([], t\<lparr>rd_count := c, rd_buffer := map session_key xs\<rparr>)"
    by auto
  have u: "unat (c + 1) = Suc (length xs)"
    using c snoc.prems unat_plus_1_le [of c "rd_k t"] by simp
  then have "c + 1 \<le> rd_k t" "c + 1 \<noteq> rd_k t"
    using snoc.prems by (auto simp: word_le_nat_alt)
  then have step: "redundant_action x (t\<lparr>rd_count := c, rd_buffer := map session_key xs\<rparr>) =
      ([], t\<lparr>rd_count := c + 1, rd_buffer := map session_key (xs @ [x])\<rparr>)"
    by (simp add: redundant_action_def session_key_def Let_def)
  show ?case
    using u by (intro exI [of _ "c + 1"]) (simp add: run_trigger_snoc run step Let_def)
qed

lemma redundant_fires:
  assumes "rd_count t = 0" and "rd_buffer t = []" and "length xs = unat (rd_k t)" and "0 < unat (rd_k t)"
  shows "run_trigger redundant_action t xs = ([redundant_fire t xs], t\<lparr>rd_count := rd_k t\<rparr>)"
proof -
  obtain ys x where xs: "xs = ys @ [x]"
    using assms(3,4) by (cases xs rule: rev_cases) auto
  then have ys: "length ys < unat (rd_k t)" using assms(3) by simp
  obtain c where c: "unat c = length ys"
    and run: "run_trigger redundant_action t ys = ([], t\<lparr>rd_count := c, rd_buffer := map session_key ys\<rparr>)"
    using redundant_collect [OF assms(1,2) ys] by blast
  have "unat (c + 1) = unat (rd_k t)"
    using c ys assms(3) xs unat_plus_1_le [of c "rd_k t"] by simp
  then have "c + 1 = rd_k t" by (simp add: word_unat_eq_iff)
  then have "redundant_action x (t\<lparr>rd_count := c, rd_buffer := map session_key ys\<rparr>) =
      ([redundant_fire t xs], t\<lparr>rd_count := rd_k t\<rparr>)"
    using assms(2) by (simp add: xs redundant_action_def redundant_fire_def session_key_def Let_def)
  then show ?thesis
    by (simp add: xs run_trigger_snoc run Let_def)
qed

text \<open>After it fired, the rest of the round is dropped.\<close>

lemma redundant_drops:
  assumes "rd_k t \<le> rd_count t" and "unat (rd_count t) + length xs < unat (rd_n t)"
  shows "\<exists>c. unat c = unat (rd_count t) + length xs \<and>
    run_trigger redundant_action t xs = ([], t\<lparr>rd_count := c\<rparr>)"
  using assms
proof (induction xs arbitrary: t)
  case Nil
  then show ?case by (intro exI [of _ "rd_count t"]) simp
next
  case (Cons x xs)
  let ?c = "rd_count t + 1"
  have u: "unat ?c = Suc (unat (rd_count t))"
    using Cons.prems(2) unat_plus_1_le [of "rd_count t" "rd_n t"] by simp
  have c: "\<not> ?c \<le> rd_k t" "\<not> rd_n t \<le> ?c" "rd_k t \<le> ?c"
    using Cons.prems u by (auto simp: word_le_nat_alt)
  have step: "redundant_action x t = ([], t\<lparr>rd_count := ?c\<rparr>)"
    using c by (simp add: redundant_action_def Let_def)
  obtain d where "unat d = unat ?c + length xs"
    "run_trigger redundant_action (t\<lparr>rd_count := ?c\<rparr>) xs = ([], t\<lparr>rd_count := d\<rparr>)"
    using Cons.IH [of "t\<lparr>rd_count := ?c\<rparr>"] Cons.prems(2) c(3) u by auto
  then show ?case
    using step u by (intro exI [of _ d]) (simp add: Let_def)
qed

lemma redundant_round:
  assumes fresh: "rd_count t = 0" "rd_buffer t = []"
    and k: "0 < unat (rd_k t)" "rd_k t < rd_n t" and len: "length xs = unat (rd_n t)"
  shows "run_trigger redundant_action t xs = ([redundant_fire t (take (unat (rd_k t)) xs)], t)"
proof -
  let ?k = "unat (rd_k t)"
  have kn: "?k < unat (rd_n t)" using k(2) by (simp add: word_less_nat_alt)
  obtain mid z where drop: "drop ?k xs = mid @ [z]"
    using kn len by (cases "drop ?k xs" rule: rev_cases) auto
  then have xs: "xs = take ?k xs @ mid @ [z]" by (metis append_take_drop_id)
  have mid: "?k + length mid + 1 = unat (rd_n t)"
    using arg_cong [OF drop, of length] len kn by simp
  have fire: "run_trigger redundant_action t (take ?k xs) =
      ([redundant_fire t (take ?k xs)], t\<lparr>rd_count := rd_k t\<rparr>)"
    by (rule redundant_fires) (use fresh k(1) kn len in auto)
  obtain c where c: "unat c = ?k + length mid"
    and rest: "run_trigger redundant_action (t\<lparr>rd_count := rd_k t\<rparr>) mid = ([], t\<lparr>rd_count := c\<rparr>)"
    using redundant_drops [of "t\<lparr>rd_count := rd_k t\<rparr>" mid] mid by auto
  have "unat (c + 1) = unat (rd_n t)"
    using c mid unat_plus_1_le [of c "rd_n t"] by simp
  then have "c + 1 = rd_n t" by (simp add: word_unat_eq_iff)
  moreover have "\<not> rd_n t \<le> rd_k t" using k(2) by simp
  ultimately have last: "redundant_action z (t\<lparr>rd_count := c\<rparr>) = ([], t)"
    using fresh(1) by (simp add: redundant_action_def Let_def)
  have "run_trigger redundant_action t xs = run_trigger redundant_action t (take ?k xs @ mid @ [z])"
    using xs by simp
  also have "\<dots> = ([redundant_fire t (take ?k xs)], t)"
    by (simp add: run_trigger_append fire rest last Let_def)
  finally show ?thesis .
qed

text \<open>With \<open>k = n\<close> the counter is not reset when the trigger fires; it is reset by the next object,
  which is dropped.\<close>

lemma redundant_full_round:
  assumes fresh: "rd_count t = 0" "rd_buffer t = []"
    and k: "0 < unat (rd_k t)" "rd_k t = rd_n t" "unat (rd_n t) < 2 ^ 32 - 1"
    and len: "length xs = unat (rd_n t)"
  shows "run_trigger redundant_action t (xs @ [x]) = ([redundant_fire t xs], t)"
proof -
  have fire: "run_trigger redundant_action t xs = ([redundant_fire t xs], t\<lparr>rd_count := rd_k t\<rparr>)"
    by (rule redundant_fires) (use fresh k len in auto)
  have "unat (rd_k t + 1) = Suc (unat (rd_k t))"
    using k by (simp add: unat_word_ariths(1))
  then have "\<not> rd_k t + 1 \<le> rd_k t" "rd_n t \<le> rd_k t + 1"
    using k by (auto simp: word_le_nat_alt)
  then have "redundant_action x (t\<lparr>rd_count := rd_k t\<rparr>) = ([], t)"
    using fresh by (simp add: redundant_action_def Let_def)
  with fire show ?thesis by (simp add: run_trigger_snoc Let_def)
qed

lemma run_trigger_rounds:
  assumes "\<And>xs. xs \<in> set rounds \<Longrightarrow> run_trigger f t xs = ([a xs], t)"
  shows "run_trigger f t (concat rounds) = (map a rounds, t)"
  using assms by (induction rounds) (auto simp: run_trigger_append Let_def)

subsection \<open>Dynamic groups\<close>

definition pending_keys :: "DynamicGroupTrigger \<Rightarrow> Key list" where
  "pending_keys t = concat (map snd (dg_data_group_keys_map t))"

lemma dg_group_mem:
  assumes "trigger_wf (DynamicGroup t)" and "(g, ks) \<in> set (dg_data_group_keys_map t)"
  shows "distinct ks" and "k \<in> set ks \<Longrightarrow> group_of k = g"
proof -
  have "map_of (dg_data_group_keys_map t) g = Some ks"
    using assms by (simp add: map_of_eq_Some_iff)
  then show "distinct ks" and "k \<in> set ks \<Longrightarrow> group_of k = g" using assms(1) by auto
qed

lemma dg_group_nonempty:
  assumes "trigger_wf (DynamicGroup t)" and "(g, ks) \<in> set (dg_data_group_keys_map t)"
  shows "ks \<noteq> []"
proof -
  have "map_of (dg_data_group_keys_map t) g = Some ks"
    using assms by (simp add: map_of_eq_Some_iff)
  then show ?thesis using assms(1) by auto
qed

lemma distinct_concat_groups:
  assumes "distinct (map fst m)"
    and "\<And>g ks. (g, ks) \<in> set m \<Longrightarrow> distinct ks \<and> (\<forall>k\<in>set ks. h k = g)"
  shows "distinct (concat (map snd m))"
  using assms
proof (induction m)
  case (Cons p m)
  obtain g ks where p: "p = (g, ks)" by fastforce
  have "h k = g" if "k \<in> set ks" for k using Cons.prems(2) [of g ks] that p by simp
  moreover have "h k \<noteq> g" if "k \<in> set (concat (map snd m))" for k
  proof -
    from that obtain g' ks' where "(g', ks') \<in> set m" "k \<in> set ks'" by auto
    then show ?thesis using Cons.prems p by force
  qed
  ultimately have "set ks \<inter> set (concat (map snd m)) = {}" by blast
  moreover have "distinct ks" using Cons.prems(2) [of g ks] p by simp
  moreover have "distinct (concat (map snd m))" using Cons by auto
  ultimately show ?case using p by simp
qed simp

lemma distinct_pending_keys:
  assumes "trigger_wf (DynamicGroup t)"
  shows "distinct (pending_keys t)"
  unfolding pending_keys_def
proof (rule distinct_concat_groups [where h = group_of])
  show "distinct (map fst (dg_data_group_keys_map t))" using assms by simp
  show "distinct ks \<and> (\<forall>k\<in>set ks. group_of k = g)"
    if "(g, ks) \<in> set (dg_data_group_keys_map t)" for g ks
    using dg_group_mem [OF assms that] by blast
qed

lemma dynamic_group_fires:
  assumes wf: "trigger_wf (DynamicGroup t)" and ctrl: "group_of (bk_key bk) = control_group_prefix"
    and key: "bk_key bk \<in> set (dg_control_group t)"
    and complete: "insert (bk_key bk) (set (dg_cur_control_keys t)) = set (dg_control_group t)"
  shows "fst (dynamic_group_action bk t) =
      map (\<lambda>(g, keys). \<lparr>ta_function = target_function t,
             ta_session_keys = map (Pair (bk_session bk)) keys\<rparr>) (dg_data_group_keys_map t)"
    and "pending_keys (snd (dynamic_group_action bk t)) = []"
    and "dg_cur_control_keys (snd (dynamic_group_action bk t)) = []"
proof -
  have "length (us_insert (bk_key bk) (dg_cur_control_keys t)) = length (dg_control_group t)"
    using wf key complete length_us_eq_iff [of "us_insert (bk_key bk) (dg_cur_control_keys t)" "dg_control_group t"]
    by simp
  then show "fst (dynamic_group_action bk t) =
      map (\<lambda>(g, keys). \<lparr>ta_function = target_function t,
             ta_session_keys = map (Pair (bk_session bk)) keys\<rparr>) (dg_data_group_keys_map t)"
    and "pending_keys (snd (dynamic_group_action bk t)) = []"
    and "dg_cur_control_keys (snd (dynamic_group_action bk t)) = []"
    using ctrl key by (simp_all add: dynamic_group_action_def pending_keys_def Let_def)
qed

lemma carried_map_pairs:
  "carried (map (\<lambda>(g, keys). \<lparr>ta_function = f, ta_session_keys = map (Pair s) keys\<rparr>) m) =
     map (Pair s) (concat (map snd m))"
  by (induction m) auto

subsection \<open>Rebuilding a trigger from its dump\<close>

lemma sint_word_of_int_32:
  assumes "- (2 ^ 31) \<le> i" and "i < 2 ^ 31"
  shows "sint (word_of_int i :: 32 word) = i"
  using assms by (simp add: int_word_sint)

lemma gen_dump:
  assumes c: "codec_ok c" and wf: "trigger_wf t"
  shows "gen_trigger_pointer c now (get_type t) (get_trigger_name t) (dump_pritimive c t) = Some (fresh now t)"
  using c wf
  by (cases t) (auto simp: codec_ok_def getter_defs Trigger.defs sint_word_of_int_32)

subsection \<open>Re-execution of source functions\<close>

lemma rerun_after_notify:
  assumes "get_type t \<in> {IMMEDIATE, BY_NAME, BY_BATCH_SIZE}" and "trigger_wf t"
  shows "action_for_rerun sid (notify_source_func fn sid args flag t) = [mk_metadata fn args flag]"
  using assms by (cases t) (auto simp: getter_defs Trigger.defs cached_def)

lemma no_rerun_after_arrival:
  assumes "get_type t \<in> {IMMEDIATE, BY_NAME, BY_BATCH_SIZE}" and "trigger_wf t"
  shows "action_for_rerun (bk_session bk) (snd (action_for_new_object now bk t)) = []"
  using assms
  by (cases t) (auto simp: getter_defs Trigger.defs cached_def action_defs Let_def)

text \<open>\<open>clear\<close> of a set trigger erases the entry of the session, but the entries are stored under
  the key followed by the session.\<close>

lemma by_set_clear_keeps_rerun:
  assumes "[] \<notin> set (bs_key_set t)"
  shows "action_for_rerun sid (clear sid (BySet t)) = action_for_rerun sid (BySet t)"
proof -
  have "cached (key @ sid) (um_erase sid (bs_session_status_cache t)) =
      cached (key @ sid) (bs_session_status_cache t)" if "key \<in> set (bs_key_set t)" for key
    using assms that by (auto simp: cached_def)
  then show ?thesis by (simp cong: map_cong)
qed

end
