(* ===== verification/Sched_State.thy ===== *)
theory Sched_State
  imports Kvs_Client Lattice_Serialization Trigger_Specs
begin

text \<open>
  The state of a worker node: the globals and the locals of \<open>run\<close> in
  \<^verbatim>\<open>src/src/scheduler/scheduler.cpp\<close>, the data structures of
  \<^verbatim>\<open>src/src/scheduler/comm_helper.hpp\<close> and the shared memory of
  \<^verbatim>\<open>src/src/scheduler/object_handlers.cpp\<close>.

  \<^item> Triggers are shared: the pointer that \<open>bucket_triggers_map\<close> holds is also in
    \<open>func_trigger_timeout_map\<close> and in the queue of rerun checks. A pointer is an index into
    \<open>sd_trigger_store\<close>.
  \<^item> Shared memory is a map from segment names to the bytes last written. The padding and the
    reference counter that the library keeps behind the data are not visible here.
  \<^item> What is sent, to sockets and to executors, is appended to \<open>sd_sent\<close>.
  \<^item> The random seed is \<open>ramSeed\<close>; the configuration and the codecs are in \<open>sched_env\<close>.
\<close>

subsection \<open>Messages and pending work\<close>

datatype RecvMsgType = Null | Call | DataResp | KvsGetResp | KvsPutResp

record RecvMsg =
  rv_msg_type :: RecvMsgType
  rv_app_name :: string
  rv_resp_address :: string
  rv_func_name :: "string list"
  rv_func_args :: "string list list"
  rv_is_func_arg_keys :: "int list"
  rv_session_id :: string
  rv_sync_data_status :: bool
  rv_data_key :: string
  rv_data_size :: "32 word"

definition no_RecvMsg :: RecvMsg where
  "no_RecvMsg = \<lparr>rv_msg_type = Null, rv_app_name = [], rv_resp_address = [], rv_func_name = [],
     rv_func_args = [], rv_is_func_arg_keys = [], rv_session_id = [], rv_sync_data_status = False,
     rv_data_key = [], rv_data_size = 0\<rparr>"

record AppInfo =
  ai_functions :: "string uset"
  ai_direct_deps :: "(string, string uset) umap"
  ai_buckets :: "Bucket list"

definition no_AppInfo :: AppInfo where
  "no_AppInfo = \<lparr>ai_functions = [], ai_direct_deps = [], ai_buckets = []\<rparr>"

record InflightFuncArgs =
  if_func_name :: string
  if_session_id :: string
  if_key_args :: "string list"
  if_inflight_args :: "string uset"
  if_arg_flag :: int

definition no_InflightFuncArgs :: InflightFuncArgs where
  "no_InflightFuncArgs = \<lparr>if_func_name = [], if_session_id = [], if_key_args = [], if_inflight_args = [],
     if_arg_flag = 0\<rparr>"

record RerunTriggerTimeout =
  rt_trigger_ptr :: nat
  rt_timeout :: "32 word"

text \<open>A pointer to data: a copy on the heap, or the memory of a segment.\<close>

datatype data_ptr = NoData | HeapData bytes | ShmData string

datatype SecondaryThreadMsgType = SendReq | GetKvs | PutKvs

record SecondaryThreadMsg =
  stm_msg_type :: SecondaryThreadMsgType
  stm_key :: string
  stm_data_ptr :: data_ptr
  stm_data_size :: "32 word"

record InflightIORequest =
  io_executor_id :: "8 word"
  io_req_id :: "8 word"
  io_recv_time :: TimePoint

record DelayFunctionCall =
  dc_session_id :: string
  dc_app_name :: string
  dc_func_name :: string
  dc_func_args :: "string list"
  dc_arg_flag :: int
  dc_trigger_time :: TimePoint

record RerunCheckQueueItem =
  rq_check_time :: TimePoint
  rq_session :: string
  rq_trigger_ptr :: nat

datatype sched_out = ToSocket Address wire | ToExecutor "8 word" bytes

subsection \<open>State\<close>

record CommHelper =
  ch_routing_threads :: "HandlerThread list"
  ch_app_coord_map :: "(string, HandlerThread) umap"
  ch_bucket_coord_map :: "(Bucket, HandlerThread) umap"
  ch_rid :: "32 word"
  ch_io_thread_count :: "32 word"
  ch_io_thread_id :: "32 word"
  ch_ut :: CommHelperThread
  ch_ip :: Address
  ch_key_address_cache :: "(string, Address) umap"

record sched =
  sd_helper :: CommHelper
  sd_kvs_clients :: "KvsClient list"
  sd_thread_msgs :: "SecondaryThreadMsg list list"
  sd_resp_queues :: "RecvMsg list list"
  sd_shm :: "(string, bytes) umap"
  sd_key_len_map :: "(string, 32 word) umap"
  sd_key_val_map :: "(string, string) umap"
  sd_session_client_addr_map :: "(string, string) umap"
  sd_delay_call_queue :: "DelayFunctionCall list"
  sd_rerun_check_queue :: "RerunCheckQueueItem list"
  sd_func_trigger_timeout_map :: "(string, RerunTriggerTimeout list) umap"
  sd_trigger_store :: "TriggerPtr list"
  sd_bucket_triggers_map :: "(Bucket, nat list) umap"
  sd_executor_chans_map :: "(8 word, bool) umap"
  sd_executor_status_map :: "(8 word, 8 word) umap"
  sd_function_executor_map :: "(string, 8 word uset) umap"
  sd_function_cache :: "string uset"
  sd_call_id :: "32 word"
  sd_call_id_inflight_args_map :: "(32 word, InflightFuncArgs) umap"
  sd_key_call_id_map :: "(string, 32 word uset) umap"
  sd_key_remote_get_map :: "(string, InflightIORequest list) umap"
  sd_key_ksv_put_map :: "(string, InflightIORequest list) umap"
  sd_app_info_map :: "(string, AppInfo) umap"
  sd_func_app_map :: "(string, string) umap"
  sd_bucket_app_map :: "(Bucket, string) umap"
  sd_report_start :: TimePoint
  sd_ram_seed :: "32 word"
  sd_sent :: "sched_out list"

record sched_env =
  se_sched_delay_time :: "32 word"
  se_shared_executor :: bool
  se_reject_extra_req :: bool
  se_codec :: prim_codec
  se_lattice_codec :: "nat lattice_codec"
  se_rand_r :: rng

definition forwardDataPackingThreshold :: "32 word" where
  "forwardDataPackingThreshold = 10240"

definition schedTimerThreshold :: "32 word" where
  "schedTimerThreshold = 10"

definition msg_process_batch :: nat where
  "msg_process_batch = 10"

definition emit :: "sched_out \<Rightarrow> sched \<Rightarrow> sched" where
  "emit out st = st\<lparr>sd_sent := sd_sent st @ [out]\<rparr>"

definition sd_rand_mod :: "sched_env \<Rightarrow> nat \<Rightarrow> sched \<Rightarrow> (nat \<times> sched) res" where
  "sd_rand_mod env n st =
     (if n = 0 then Inl DivByZero
      else let (r, seed') = se_rand_r env (sd_ram_seed st) in Inr (r mod n, st\<lparr>sd_ram_seed := seed'\<rparr>))"

subsection \<open>Bytes\<close>

definition byte :: "8 word \<Rightarrow> char" where
  "byte w = char_of (unat w)"

definition byte_val :: "char \<Rightarrow> 8 word" where
  "byte_val c = of_nat (of_char c)"

text \<open>\<open>str[i]\<close> in a message; the byte after the last one is the terminating zero.\<close>

definition byte_at :: "bytes \<Rightarrow> nat \<Rightarrow> 8 word res" where
  "byte_at str i = (if i < length str then Inr (byte_val (str ! i)) else if i = length str then Inr 0
                    else Inl OutOfRange)"

text \<open>\<open>string(str + i, n)\<close> and \<open>string(str + i)\<close>; the latter ends at the first zero byte.\<close>

definition bytes_at :: "bytes \<Rightarrow> nat \<Rightarrow> nat \<Rightarrow> bytes res" where
  "bytes_at str i n =
     (if i + n \<le> length str + 1 then Inr (take n (drop i (str @ [CHR 0x00]))) else Inl OutOfRange)"

definition c_string :: "bytes \<Rightarrow> nat \<Rightarrow> string res" where
  "c_string str i = (if i \<le> length str then Inr (takeWhile (\<lambda>c. c \<noteq> CHR 0x00) (drop i str)) else Inl OutOfRange)"

lemma byte_val_byte [simp]: "byte_val (byte w) = w"
proof -
  have "unat w < 256" using unsigned_less [of w] by simp
  then show ?thesis by (simp add: byte_val_def byte_def)
qed

lemma byte_eq [simp]: "byte a = byte b \<longleftrightarrow> a = b"
  by (metis byte_val_byte)

subsection \<open>Shared memory\<close>

text \<open>A segment without a name cannot be acquired; nothing is written for an empty object.\<close>

definition copy_to_shm_obj :: "string \<Rightarrow> bytes \<Rightarrow> sched \<Rightarrow> sched res" where
  "copy_to_shm_obj key_name data st =
     (if data = [] then Inr st
      else if key_name = [] then Inl NullDeref
      else Inr (st\<lparr>sd_shm := um_put key_name data (sd_shm st)\<rparr>))"

text \<open>\<open>string(shm_ptr, n)\<close> for a segment that is opened by name: a segment that does not exist gives
  the null pointer.\<close>

definition shm_read :: "string \<Rightarrow> nat \<Rightarrow> sched \<Rightarrow> bytes res" where
  "shm_read key_name n st =
     (if n = 0 then Inr []
      else case map_of (sd_shm st) key_name of
             None \<Rightarrow> Inl NullDeref
           | Some data \<Rightarrow> if n \<le> length data then Inr (take n data) else Inl OutOfRange)"

text \<open>The size of an object that the node knows, 0 for any other.\<close>

definition get_shm_obj :: "string \<Rightarrow> sched \<Rightarrow> 32 word" where
  "get_shm_obj key_name st = (case map_of (sd_key_len_map st) key_name of None \<Rightarrow> 0 | Some n \<Rightarrow> n)"

subsection \<open>Trigger pointers\<close>

definition deref :: "nat \<Rightarrow> sched \<Rightarrow> TriggerPtr res" where
  "deref p st = (if p < length (sd_trigger_store st) then Inr (sd_trigger_store st ! p) else Inl NullDeref)"

definition update_trigger :: "nat \<Rightarrow> (TriggerPtr \<Rightarrow> TriggerPtr) \<Rightarrow> sched \<Rightarrow> sched res" where
  "update_trigger p f st =
     rbind (deref p st) (\<lambda>t. Inr (st\<lparr>sd_trigger_store := (sd_trigger_store st)[p := f t]\<rparr>))"

definition new_trigger :: "TriggerPtr \<Rightarrow> sched \<Rightarrow> nat \<times> sched" where
  "new_trigger t st = (length (sd_trigger_store st), st\<lparr>sd_trigger_store := sd_trigger_store st @ [t]\<rparr>)"

end
