(* ===== verification/Function_Lib.thy ===== *)
theory Function_Lib
  imports Sched_State
begin

text \<open>
  The library that user functions call, \<^verbatim>\<open>src/src/executor/function_lib.hpp\<close>: ephemeral objects in shared
  memory (\<open>EpheObjectImpl\<close>) and the class \<open>UserLibrary\<close>. An object is an index into the objects that the executor
  has created.

  What \<open>local_chan->recv\<close> returns next is the list \<open>ex_inbox\<close> (\<open>None\<close> is a timeout, as is the end of the list);
  whether \<open>shared_chan.send\<close> succeeds is the list \<open>ex_chan\<close> (at the end of the list it does).
\<close>

record EpheObject =
  eo_obj_name :: string
  eo_size :: "64 word"
  eo_target_func :: string
  eo_mapped :: bool

record UserLibrary =
  ul_ip_number :: string
  ul_chan_id :: "8 word"
  ul_rid :: "8 word"
  ul_object_id :: "32 word"
  ul_function :: string
  ul_session_id :: string
  ul_persist_flag :: "8 word"
  ul_size_of_args :: "64 word list"

record exec =
  ex_lib :: UserLibrary
  ex_thread_id :: "32 word"
  ex_name_func_map :: "string uset"
  ex_objects :: "EpheObject list"
  ex_shm :: "(string, bytes) umap"
  ex_inbox :: "bytes option list"
  ex_chan :: "bool list"
  ex_report_start :: TimePoint
  ex_sent :: "bytes list"

subsection \<open>Channels\<close>

definition chan_send :: "bytes \<Rightarrow> exec \<Rightarrow> bool \<times> exec" where
  "chan_send msg st =
     (let ok = (case ex_chan st of [] \<Rightarrow> True | b # _ \<Rightarrow> b);
          st' = st\<lparr>ex_chan := tl (ex_chan st)\<rparr>
      in (ok, if ok then st'\<lparr>ex_sent := ex_sent st @ [msg]\<rparr> else st'))"

text \<open>\<open>while (!shared_chan.send(req)) ...\<close>\<close>

definition chan_send_retry :: "bytes \<Rightarrow> exec \<Rightarrow> exec" where
  "chan_send_retry msg st =
     st\<lparr>ex_chan := tl (dropWhile Not (ex_chan st)), ex_sent := ex_sent st @ [msg]\<rparr>"

definition chan_recv :: "exec \<Rightarrow> bytes option \<times> exec" where
  "chan_recv st =
     (case ex_inbox st of [] \<Rightarrow> (None, st) | m # ms \<Rightarrow> (m, st\<lparr>ex_inbox := ms\<rparr>))"

subsection \<open>EpheObjectImpl\<close>

text \<open>\<open>ipc::shm::acquire\<close> and \<open>get_mem\<close>. With a size the segment is created or cut to that size; with size 0
  or in mode \<open>open\<close> an existing segment is mapped as it is. The result says whether there is memory.\<close>

definition shm_acquire :: "bool \<Rightarrow> string \<Rightarrow> nat \<Rightarrow> (string, bytes) umap \<Rightarrow> bool \<times> (string, bytes) umap" where
  "shm_acquire create name n shm =
     (if name = [] then (False, shm)
      else if create \<and> 0 < n
      then (True, um_put name (take n (um_get [] name shm @ replicate n (CHR 0x00))) shm)
      else (um_has name shm, shm))"

definition new_EpheObject :: "string \<Rightarrow> string \<Rightarrow> 64 word \<Rightarrow> bool \<Rightarrow> exec \<Rightarrow> nat \<times> exec" where
  "new_EpheObject obj_name target_func sz create st =
     (let (mapped, shm) = shm_acquire create obj_name (unat sz) (ex_shm st);
          obj = \<lparr>eo_obj_name = obj_name, eo_size = sz, eo_target_func = target_func, eo_mapped = mapped\<rparr>
      in (length (ex_objects st), st\<lparr>ex_shm := shm, ex_objects := ex_objects st @ [obj]\<rparr>))"

definition obj_at :: "nat \<Rightarrow> exec \<Rightarrow> EpheObject res" where
  "obj_at p st = (if p < length (ex_objects st) then Inr (ex_objects st ! p) else Inl NullDeref)"

definition get_value :: "EpheObject \<Rightarrow> data_ptr" where
  "get_value obj = (if eo_mapped obj then ShmData (eo_obj_name obj) else NoData)"

text \<open>\<open>memcpy\<close> to the start of the segment.\<close>

definition set_value :: "nat \<Rightarrow> bytes \<Rightarrow> exec \<Rightarrow> exec res" where
  "set_value p v st =
     rbind (obj_at p st) (\<lambda>obj.
       if v = [] then Inr st
       else if \<not> eo_mapped obj then Inl NullDeref
       else let old = um_get [] (eo_obj_name obj) (ex_shm st)
            in if length v \<le> length old
               then Inr (st\<lparr>ex_shm := um_put (eo_obj_name obj) (v @ drop (length v) old) (ex_shm st)\<rparr>)
               else Inl OutOfRange)"

definition update_size :: "nat \<Rightarrow> 64 word \<Rightarrow> exec \<Rightarrow> exec res" where
  "update_size p sz st =
     rbind (obj_at p st) (\<lambda>obj. Inr (st\<lparr>ex_objects := (ex_objects st)[p := obj\<lparr>eo_size := sz\<rparr>]\<rparr>))"

definition get_size :: "nat \<Rightarrow> exec \<Rightarrow> 64 word res" where
  "get_size p st = rbind (obj_at p st) (\<lambda>obj. Inr (eo_size obj))"

text \<open>Reading bytes through a pointer.\<close>

definition read_mem :: "data_ptr \<Rightarrow> nat \<Rightarrow> exec \<Rightarrow> bytes res" where
  "read_mem ptr n st =
     (if n = 0 then Inr []
      else case ptr of
             NoData \<Rightarrow> Inl NullDeref
           | HeapData d \<Rightarrow> if n \<le> length d then Inr (take n d) else Inl OutOfRange
           | ShmData name \<Rightarrow>
               (case map_of (ex_shm st) name of
                  None \<Rightarrow> Inl NullDeref
                | Some d \<Rightarrow> if n \<le> length d then Inr (take n d) else Inl OutOfRange))"

text \<open>Writing bytes through a pointer. A copy on the heap belongs to the function alone, so nobody else sees the
  change.\<close>

definition write_mem :: "data_ptr \<Rightarrow> bytes \<Rightarrow> exec \<Rightarrow> exec res" where
  "write_mem ptr v st =
     (if v = [] then Inr st
      else case ptr of
             NoData \<Rightarrow> Inl NullDeref
           | HeapData d \<Rightarrow> if length v \<le> length d then Inr st else Inl OutOfRange
           | ShmData name \<Rightarrow>
               (case map_of (ex_shm st) name of
                  None \<Rightarrow> Inl NullDeref
                | Some d \<Rightarrow> if length v \<le> length d
                            then Inr (st\<lparr>ex_shm := um_put name (v @ drop (length v) d) (ex_shm st)\<rparr>)
                            else Inl OutOfRange))"

subsection \<open>UserLibrary\<close>

definition new_UserLibrary :: "string \<Rightarrow> 32 word \<Rightarrow> UserLibrary" where
  "new_UserLibrary ip thread_id =
     \<lparr>ul_ip_number = filter (\<lambda>c. c \<noteq> CHR ''.'') ip, ul_chan_id = ucast (thread_id + 1), ul_rid = 0, ul_object_id = 0,
      ul_function = [], ul_session_id = [], ul_persist_flag = 0, ul_size_of_args = []\<rparr>"

definition clear_session :: "UserLibrary \<Rightarrow> UserLibrary" where
  "clear_session lib =
     lib\<lparr>ul_function := emptyString, ul_session_id := emptyString, ul_persist_flag := 0, ul_size_of_args := []\<rparr>"

definition add_arg_size :: "64 word \<Rightarrow> UserLibrary \<Rightarrow> UserLibrary" where
  "add_arg_size sz lib = lib\<lparr>ul_size_of_args := ul_size_of_args lib @ [sz]\<rparr>"

text \<open>The index is an \<open>int\<close> and is compared with an unsigned number.\<close>

definition get_size_of_arg :: "int \<Rightarrow> UserLibrary \<Rightarrow> 64 word" where
  "get_size_of_arg arg_idx lib =
     (let i = unat (word_of_int arg_idx :: 64 word)
      in if length (ul_size_of_args lib) \<le> i then - 1 else ul_size_of_args lib ! i)"

definition lib_request_id :: "UserLibrary \<Rightarrow> 8 word \<times> UserLibrary" where
  "lib_request_id lib =
     (let rid = ul_rid lib + 1; rid' = (if rid mod 100 = 0 then 0 else rid)
      in (rid', lib\<lparr>ul_rid := rid'\<rparr>))"

definition get_object_id :: "UserLibrary \<Rightarrow> 32 word \<times> UserLibrary" where
  "get_object_id lib = (ul_object_id lib, lib\<lparr>ul_object_id := ul_object_id lib + 1\<rparr>)"

definition gen_unique_key :: "UserLibrary \<Rightarrow> string \<times> UserLibrary" where
  "gen_unique_key lib =
     (let (oid, lib') = get_object_id lib
      in (ul_ip_number lib @ ''_'' @ to_string (unat (ul_chan_id lib)) @ ''_'' @ to_string (unat oid), lib'))"

definition create_object :: "string \<Rightarrow> string \<Rightarrow> 64 word \<Rightarrow> exec \<Rightarrow> nat \<times> exec" where
  "create_object bucket key sz st =
     new_EpheObject (get_local_object_name bucket key (ul_session_id (ex_lib st))) [] sz True st"

definition create_direct_object :: "64 word \<Rightarrow> exec \<Rightarrow> nat \<times> exec" where
  "create_direct_object sz st =
     (let (oid, lib) = get_object_id (ex_lib st);
          key = to_string (unat (ul_chan_id lib)) @ ''_'' @ to_string (unat oid)
      in create_object bucketNameDirectInvoc key sz (st\<lparr>ex_lib := lib\<rparr>))"

definition create_target_object :: "string \<Rightarrow> bool \<Rightarrow> 64 word \<Rightarrow> exec \<Rightarrow> nat \<times> exec" where
  "create_target_object tgt many_to_one_trigger sz st =
     (let lib = ex_lib st
      in if many_to_one_trigger then
           new_EpheObject (get_local_object_name (''b_'' @ tgt) (''k_'' @ ul_function lib) (ul_session_id lib))
             tgt sz True st
         else let (key, lib') = gen_unique_key lib
              in create_object (''b_'' @ tgt) key sz (st\<lparr>ex_lib := lib'\<rparr>))"

text \<open>The message about an object: number of the channel, kind, request number, whether the data is packed, then
  session, function, target, name of the object and data or size.\<close>

definition object_message :: "UserLibrary \<Rightarrow> 8 word \<Rightarrow> bool \<Rightarrow> EpheObject \<Rightarrow> bytes \<Rightarrow> bytes" where
  "object_message lib req_id output obj payload =
     [byte (ul_chan_id lib), byte (if output then if ul_persist_flag lib = 1 then 3 else 4 else 2), byte req_id,
      byte (if unat (eo_size obj) \<le> msgDataPackingThreshold then 1 else 2)] @
     ul_session_id lib @ ''|'' @ ul_function lib @ ''|'' @ eo_target_func obj @ ''|'' @ eo_obj_name obj @ ''|'' @ payload"

text \<open>After a put the library waits for the answer. A timeout is reported, and then the answer is read all
  the same.\<close>

definition await_put_answer :: "8 word \<Rightarrow> exec \<Rightarrow> exec res" where
  "await_put_answer req_id st =
     (case chan_recv st of
        (None, st') \<Rightarrow> Inl NullDeref
      | (Some recv_str, st') \<Rightarrow>
          rbind (byte_at recv_str 0) (\<lambda>_. rbind (byte_at recv_str 1) (\<lambda>_. rbind (byte_at recv_str 2) (\<lambda>_. Inr st'))))"

definition send_object :: "nat \<Rightarrow> bool \<Rightarrow> exec \<Rightarrow> exec res" where
  "send_object p output st =
     rbind (obj_at p st) (\<lambda>obj.
       let (req_id, lib) = lib_request_id (ex_lib st);
           st0 = st\<lparr>ex_lib := lib\<rparr>
       in rbind (if unat (eo_size obj) \<le> msgDataPackingThreshold
                 then read_mem (get_value obj) (unat (eo_size obj)) st0
                 else Inr (to_string (unat (eo_size obj)))) (\<lambda>payload.
            let (send_res, st1) = chan_send (object_message lib req_id output obj payload) st0
            in if send_res \<and> output \<and> ul_persist_flag lib = 1 then await_put_answer req_id st1 else Inr st1))"

text \<open>What \<open>get_object\<close> ends with: an object or the null pointer, or the exception that \<open>stoi\<close> throws.\<close>

datatype lib_result = Got "nat option" | GetThrows

definition get_message :: "UserLibrary \<Rightarrow> bool \<Rightarrow> 8 word \<Rightarrow> string \<Rightarrow> bytes" where
  "get_message lib from_ephe_store req_id obj_name =
     [byte (ul_chan_id lib), byte 1, byte (if from_ephe_store then 1 else 2), byte req_id,
      byte (of_nat (length obj_name))] @ obj_name"

definition open_object :: "string \<Rightarrow> string \<Rightarrow> exec \<Rightarrow> lib_result \<times> exec" where
  "open_object obj_name size_str st =
     (case stoi size_str of
        Inl _ \<Rightarrow> (GetThrows, st)
      | Inr size_len \<Rightarrow>
          let (p, st') = new_EpheObject obj_name [] (word_of_int size_len) False st in (Got (Some p), st'))"

definition get_answer :: "8 word \<Rightarrow> string \<Rightarrow> bytes \<Rightarrow> exec \<Rightarrow> (lib_result \<times> exec) res" where
  "get_answer req_id obj_name recv_str st =
     rbind (byte_at recv_str 0) (\<lambda>kind. if kind \<noteq> 3 then Inr (Got None, st)
     else rbind (byte_at recv_str 1) (\<lambda>rid. if rid \<noteq> req_id then Inr (Got None, st)
     else rbind (byte_at recv_str 2) (\<lambda>ok. if ok \<noteq> 1 then Inr (Got None, st)
     else rbind (c_string recv_str 3) (\<lambda>size_str. Inr (open_object obj_name size_str st)))))"

definition lib_get_object :: "string \<Rightarrow> string \<Rightarrow> bool \<Rightarrow> exec \<Rightarrow> (lib_result \<times> exec) res" where
  "lib_get_object bucket key from_ephe_store st =
     (let obj_name = (if from_ephe_store then get_local_object_name bucket key (ul_session_id (ex_lib st))
                      else kvsKeyPrefix @ kDelimiter @ key);
          (req_id, lib) = lib_request_id (ex_lib st);
          st1 = chan_send_retry (get_message lib from_ephe_store req_id obj_name) (st\<lparr>ex_lib := lib\<rparr>)
      in case chan_recv st1 of
           (None, st2) \<Rightarrow> Inr (Got None, st2)
         | (Some recv_str, st2) \<Rightarrow> get_answer req_id obj_name recv_str st2)"

end
