(* ===== verification/Executor.thy ===== *)
theory Executor
  imports Function_Lib
begin

text \<open>
  The executor process, \<^verbatim>\<open>src/src/executor/executor.cpp\<close>. A user function is code that the executor loads; it
  acts only through the library, so it is a program over the operations of the library (\<open>prog\<close>), and the
  functions that can be loaded are a parameter (\<open>exec_env\<close>).
\<close>

datatype prog =
    Return int
  | Throw
  | CreateObject string string "64 word" "nat \<Rightarrow> prog"
  | CreateDirect "64 word" "nat \<Rightarrow> prog"
  | CreateTarget string bool "64 word" "nat \<Rightarrow> prog"
  | GetValue nat "data_ptr \<Rightarrow> prog"
  | SetValue nat bytes prog
  | UpdateSize nat "64 word" prog
  | GetSize nat "64 word \<Rightarrow> prog"
  | ReadMem data_ptr nat "bytes \<Rightarrow> prog"
  | WriteMem data_ptr bytes prog
  | SendObject nat bool prog
  | GetObject string string bool "nat option \<Rightarrow> prog"
  | UniqueKey "string \<Rightarrow> prog"
  | ArgSize int "64 word \<Rightarrow> prog"

text \<open>The result is the exit code, or \<open>None\<close> for an exception.\<close>

primrec run_prog :: "prog \<Rightarrow> exec \<Rightarrow> (int option \<times> exec) res" where
  "run_prog (Return n) st = Inr (Some n, st)"
| "run_prog Throw st = Inr (None, st)"
| "run_prog (CreateObject b k n f) st = (let (p, st') = create_object b k n st in run_prog (f p) st')"
| "run_prog (CreateDirect n f) st = (let (p, st') = create_direct_object n st in run_prog (f p) st')"
| "run_prog (CreateTarget t m n f) st = (let (p, st') = create_target_object t m n st in run_prog (f p) st')"
| "run_prog (GetValue p f) st = rbind (obj_at p st) (\<lambda>obj. run_prog (f (get_value obj)) st)"
| "run_prog (SetValue p v f) st = rbind (set_value p v st) (run_prog f)"
| "run_prog (UpdateSize p n f) st = rbind (update_size p n st) (run_prog f)"
| "run_prog (GetSize p f) st = rbind (get_size p st) (\<lambda>n. run_prog (f n) st)"
| "run_prog (ReadMem ptr n f) st = rbind (read_mem ptr n st) (\<lambda>v. run_prog (f v) st)"
| "run_prog (WriteMem ptr v f) st = rbind (write_mem ptr v st) (run_prog f)"
| "run_prog (SendObject p output f) st = rbind (send_object p output st) (run_prog f)"
| "run_prog (GetObject b k e f) st =
     rbind (lib_get_object b k e st) (\<lambda>(r, st').
       case r of GetThrows \<Rightarrow> Inr (None, st') | Got p \<Rightarrow> run_prog (f p) st')"
| "run_prog (UniqueKey f) st =
     (let (key, lib) = gen_unique_key (ex_lib st) in run_prog (f key) (st\<lparr>ex_lib := lib\<rparr>))"
| "run_prog (ArgSize i f) st = run_prog (f (get_size_of_arg i (ex_lib st))) st"

record exec_env =
  ee_functions :: "string \<Rightarrow> (data_ptr list \<Rightarrow> prog) option"

definition ExecutorTimerThreshold :: "32 word" where
  "ExecutorTimerThreshold = 1000"

definition exec_update_status :: "bool \<Rightarrow> exec \<Rightarrow> exec" where
  "exec_update_status busy_flag st =
     chan_send_retry [byte (ucast (ex_thread_id st + 1)), byte (if busy_flag then 6 else 7)] st"

text \<open>A function that has been loaded is not loaded again.\<close>

definition load_function :: "exec_env \<Rightarrow> string \<Rightarrow> exec \<Rightarrow> bool \<times> exec" where
  "load_function env func_name st =
     (case ee_functions env func_name of
        None \<Rightarrow> (False, st)
      | Some _ \<Rightarrow> (True, st\<lparr>ex_name_func_map := us_insert func_name (ex_name_func_map st)\<rparr>))"

subsection \<open>The arguments of a call\<close>

text \<open>Flag of the arguments, whether output is persisted, session, function and arguments.\<close>

definition parse_call :: "bytes \<Rightarrow> (8 word \<times> 8 word \<times> string \<times> string \<times> string list) res" where
  "parse_call str =
     rbind (byte_at str 1) (\<lambda>flag.
     rbind (byte_at str 2) (\<lambda>persist.
     rbind (c_string str 3) (\<lambda>msg.
       case split msg (CHR ''|'') of
         session # func_name # args \<Rightarrow> Inr (flag - 1, persist, session, func_name, args)
       | _ \<Rightarrow> Inl OutOfRange)))"

definition plain_args :: "string list \<Rightarrow> data_ptr list \<times> 64 word list" where
  "plain_args args = (map (\<lambda>a. HeapData (a @ [CHR 0x00])) args, map (\<lambda>a. of_nat (length a)) args)"

text \<open>Arguments in shared memory come as bucket, key and size.\<close>

fun key_args :: "8 word \<Rightarrow> string list \<Rightarrow> (string, bytes) umap \<Rightarrow> (data_ptr list \<times> 64 word list) res" where
  "key_args flag (b # k # n # rest) shm =
     rbind (stoi n) (\<lambda>shm_obj_size.
     rbind (key_args flag rest shm) (\<lambda>(ptrs, sizes).
       let key_name = b @ kDelimiter @ k;
           ptr = (if um_has key_name shm then ShmData key_name else NoData);
           sz = word_of_int shm_obj_size
       in if flag = 1 then Inr (ptr # ptrs, sz # sizes)
          else Inr (HeapData (k @ [CHR 0x00]) # ptr # ptrs, of_nat (length k) # sz # sizes)))"
| "key_args flag _ shm = Inr ([], [])"

text \<open>\<open>None\<close>: the arguments cannot be parsed. With a flag above 2 the number of arguments is not initialised.\<close>

definition call_args ::
    "8 word \<Rightarrow> string list \<Rightarrow> (string, bytes) umap \<Rightarrow> (data_ptr list \<times> 64 word list) option res" where
  "call_args flag args shm =
     (if flag = 0 then Inr (Some (plain_args args))
      else if length args mod 3 \<noteq> 0 then Inr None
      else if 2 < flag then Inl Uninitialised
      else rbind (key_args flag args shm) (\<lambda>r. Inr (Some r)))"

subsection \<open>The main loop\<close>

definition execute :: "exec_env \<Rightarrow> string \<Rightarrow> data_ptr list \<Rightarrow> exec \<Rightarrow> exec res" where
  "execute env func_name arg_values st =
     (case ee_functions env func_name of
        None \<Rightarrow> Inl NullDeref
      | Some f \<Rightarrow> rbind (run_prog (f arg_values) st) (\<lambda>(exit_signal, st').
          Inr (st'\<lparr>ex_lib := clear_session (ex_lib st')\<rparr>)))"

text \<open>The flag of the result says whether the loop goes on to the timer: \<open>continue\<close> skips it.\<close>

definition run_loaded :: "exec_env \<Rightarrow> 8 word \<Rightarrow> string \<Rightarrow> string list \<Rightarrow> exec \<Rightarrow> (bool \<times> exec) res" where
  "run_loaded env arg_flag func_name args st =
     rbind (call_args arg_flag args (ex_shm st)) (\<lambda>parsed.
       case parsed of
         None \<Rightarrow> Inr (False, exec_update_status False st)
       | Some (arg_values, sizes) \<Rightarrow>
           rbind (execute env func_name arg_values (st\<lparr>ex_lib := fold add_arg_size sizes (ex_lib st)\<rparr>)) (\<lambda>st'.
             Inr (True, exec_update_status False st')))"

definition run_call ::
    "exec_env \<Rightarrow> exec \<Rightarrow> 8 word \<times> 8 word \<times> string \<times> string \<times> string list \<Rightarrow> (bool \<times> exec) res" where
  "run_call env st = (\<lambda>(arg_flag, persist, session_id, func_name, args).
     let st1 = st\<lparr>ex_lib := (ex_lib st)\<lparr>ul_function := func_name, ul_session_id := session_id,
                                         ul_persist_flag := persist\<rparr>\<rparr>;
         (loaded, st2) = (if func_name \<in> set (ex_name_func_map st1) then (True, st1)
                          else load_function env func_name st1)
     in if loaded then run_loaded env arg_flag func_name args st2
        else Inr (False, exec_update_status False st2))"

definition exec_call :: "exec_env \<Rightarrow> bytes \<Rightarrow> exec \<Rightarrow> (bool \<times> exec) res" where
  "exec_call env str st = rbind (parse_call str) (run_call env (exec_update_status True st))"

definition exec_timer :: "TimePoint \<Rightarrow> TimePoint \<Rightarrow> exec \<Rightarrow> exec" where
  "exec_timer report_end after st =
     (if to_ms (report_end - ex_report_start st) \<ge> uint ExecutorTimerThreshold
      then exec_update_status False (st\<lparr>ex_report_start := after\<rparr>) else st)"

definition exec_round :: "exec_env \<Rightarrow> TimePoint \<Rightarrow> TimePoint \<Rightarrow> exec \<Rightarrow> exec res" where
  "exec_round env report_end after st =
     (let (msg, st') = chan_recv st
      in rbind (case msg of
                  None \<Rightarrow> Inr (True, st')
                | Some str \<Rightarrow> rbind (byte_at str 0) (\<lambda>kind.
                    if kind = 1 then exec_call env str st' else Inr (True, st'))) (\<lambda>(to_timer, st'').
         Inr (if to_timer then exec_timer report_end after st'' else st'')))"

definition init_exec :: "string \<Rightarrow> 32 word \<Rightarrow> TimePoint \<Rightarrow> exec" where
  "init_exec ip thread_id now =
     \<lparr>ex_lib = new_UserLibrary ip thread_id, ex_thread_id = thread_id, ex_name_func_map = [], ex_objects = [],
      ex_shm = [], ex_inbox = [], ex_chan = [], ex_report_start = now, ex_sent = []\<rparr>"

end
