(* ===== verification/Executor_Laws.thy ===== *)
theory Executor_Laws
  imports Executor
begin

text \<open>
  What an executor sends. Whatever function it runs, the requests of the function stand between the report that the
  executor is busy and the report that it is available again, and every message starts with the number of the
  executor.
\<close>

subsection \<open>The trace of an executor\<close>

definition report :: "8 word \<Rightarrow> bool \<Rightarrow> bytes" where
  "report c busy = [byte c, byte (if busy then 6 else 7)]"

definition request_of :: "8 word \<Rightarrow> bytes \<Rightarrow> bool" where
  "request_of c m \<longleftrightarrow> (\<exists>k rest. m = byte c # byte k # rest \<and> k \<in> {1, 2, 3, 4})"

inductive exec_trace :: "8 word \<Rightarrow> bytes list \<Rightarrow> bool" for c where
  start: "exec_trace c []"
| idle: "exec_trace c ms \<Longrightarrow> exec_trace c (ms @ [report c False])"
| call: "exec_trace c ms \<Longrightarrow> list_all (request_of c) reqs \<Longrightarrow>
    exec_trace c (ms @ report c True # reqs @ [report c False])"

inductive_simps exec_trace_Nil [simp]: "exec_trace c []"

lemma request_not_report: "\<not> request_of c (report c' busy)"
  by (auto simp: request_of_def report_def split: if_splits)

subsection \<open>Operations of the library\<close>

text \<open>The operations send requests only, and keep the numbers of the executor and its timer.\<close>

definition requests :: "exec \<Rightarrow> exec \<Rightarrow> bool" where
  "requests st st' \<longleftrightarrow>
     (\<exists>reqs. ex_sent st' = ex_sent st @ reqs \<and> list_all (request_of (ul_chan_id (ex_lib st))) reqs) \<and>
     ul_chan_id (ex_lib st') = ul_chan_id (ex_lib st) \<and> ex_thread_id st' = ex_thread_id st \<and>
     ex_report_start st' = ex_report_start st"

named_theorems request_intros \<open>operations that only send requests\<close>

lemma requests_refl [simp, intro, request_intros]: "requests st st"
  by (simp add: requests_def)

lemma requests_trans:
  assumes "requests a b" "requests b c"
  shows "requests a c"
proof -
  obtain r1 r2 where "ex_sent b = ex_sent a @ r1" "list_all (request_of (ul_chan_id (ex_lib a))) r1"
    "ex_sent c = ex_sent b @ r2" "list_all (request_of (ul_chan_id (ex_lib b))) r2"
    using assms unfolding requests_def by blast
  then show ?thesis using assms unfolding requests_def by (intro conjI exI [of _ "r1 @ r2"]) simp_all
qed

lemma requests_silent:
  "ex_sent st' = ex_sent st \<Longrightarrow> ul_chan_id (ex_lib st') = ul_chan_id (ex_lib st) \<Longrightarrow>
     ex_thread_id st' = ex_thread_id st \<Longrightarrow> ex_report_start st' = ex_report_start st \<Longrightarrow> requests st st'"
  by (simp add: requests_def)

lemma requests_one:
  "ex_sent st' = ex_sent st @ [m] \<Longrightarrow> request_of (ul_chan_id (ex_lib st)) m \<Longrightarrow>
     ul_chan_id (ex_lib st') = ul_chan_id (ex_lib st) \<Longrightarrow> ex_thread_id st' = ex_thread_id st \<Longrightarrow>
     ex_report_start st' = ex_report_start st \<Longrightarrow> requests st st'"
  by (simp add: requests_def)

lemma requests_new_EpheObject [request_intros]: "new_EpheObject nm t n c st = (p, st') \<Longrightarrow> requests st st'"
  by (rule requests_silent) (auto simp: new_EpheObject_def Let_def split: prod.splits)

lemma requests_create_object [request_intros]: "create_object b k n st = (p, st') \<Longrightarrow> requests st st'"
  by (auto simp: create_object_def intro: request_intros)

lemma requests_lib: "ul_chan_id l = ul_chan_id (ex_lib st) \<Longrightarrow> requests st (st\<lparr>ex_lib := l\<rparr>)"
  by (rule requests_silent) simp_all

lemma requests_after_lib:
  "requests (st\<lparr>ex_lib := l\<rparr>) st' \<Longrightarrow> ul_chan_id l = ul_chan_id (ex_lib st) \<Longrightarrow> requests st st'"
  by (rule requests_trans [OF requests_lib])

lemma requests_create_direct [request_intros]:
  assumes "create_direct_object n st = (p, st')"
  shows "requests st st'"
  using assms by (auto simp: create_direct_object_def get_object_id_def Let_def
      dest!: requests_create_object elim: requests_after_lib)

lemma gen_unique_key_chan: "gen_unique_key l = (k, l') \<Longrightarrow> ul_chan_id l' = ul_chan_id l"
  by (auto simp: gen_unique_key_def get_object_id_def)

lemma requests_create_target [request_intros]:
  assumes "create_target_object t m n st = (p, st')"
  shows "requests st st'"
proof (cases m)
  case True
  then show ?thesis using assms by (auto simp: create_target_object_def Let_def intro: request_intros)
next
  case False
  obtain k l where k: "gen_unique_key (ex_lib st) = (k, l)" by fastforce
  then have "create_object (''b_'' @ t) k n (st\<lparr>ex_lib := l\<rparr>) = (p, st')"
    using assms False by (simp add: create_target_object_def)
  from requests_create_object [OF this] gen_unique_key_chan [OF k] show ?thesis by (rule requests_after_lib)
qed

lemma requests_set_value [request_intros]: "set_value p v st = Inr st' \<Longrightarrow> requests st st'"
  by (auto simp: set_value_def rbind_eq_Inr Let_def split: if_splits intro: requests_silent)

lemma requests_update_size [request_intros]: "update_size p n st = Inr st' \<Longrightarrow> requests st st'"
  by (auto simp: update_size_def rbind_eq_Inr intro: requests_silent)

lemma requests_write_mem [request_intros]: "write_mem ptr v st = Inr st' \<Longrightarrow> requests st st'"
  by (auto simp: write_mem_def split: if_splits data_ptr.splits option.splits intro: requests_silent)

lemma requests_await_put: "await_put_answer r st = Inr st' \<Longrightarrow> requests st st'"
  by (auto simp: await_put_answer_def chan_recv_def rbind_eq_Inr split: list.splits option.splits intro: requests_silent)

lemma requests_chan_send:
  "chan_send m st = (ok, st') \<Longrightarrow> request_of (ul_chan_id (ex_lib st)) m \<Longrightarrow> requests st st'"
  by (cases ok) (auto simp: chan_send_def Let_def split: list.splits if_splits intro: requests_silent requests_one)

lemma requests_chan_send_retry: "request_of (ul_chan_id (ex_lib st)) m \<Longrightarrow> requests st (chan_send_retry m st)"
  by (rule requests_one) (simp_all add: chan_send_retry_def)

lemma requests_chan_recv: "chan_recv st = (m, st') \<Longrightarrow> requests st st'"
  by (auto simp: chan_recv_def split: list.splits intro: requests_silent)

lemma lib_request_id_chan: "lib_request_id l = (r, l') \<Longrightarrow> ul_chan_id l' = ul_chan_id l"
  by (auto simp: lib_request_id_def Let_def)

lemma request_of_object_message: "request_of (ul_chan_id lib) (object_message lib r out obj payload)"
  by (auto simp: request_of_def object_message_def)

lemma request_of_get_message: "request_of (ul_chan_id lib) (get_message lib e r nm)"
  by (auto simp: request_of_def get_message_def)

lemma requests_send_object [request_intros]:
  assumes "send_object p output st = Inr st'"
  shows "requests st st'"
proof -
  obtain obj where obj: "obj_at p st = Inr obj" using assms by (auto simp: send_object_def rbind_eq_Inr)
  obtain r l where r: "lib_request_id (ex_lib st) = (r, l)" by fastforce
  obtain payload where pl: "(if unat (eo_size obj) \<le> msgDataPackingThreshold
      then read_mem (get_value obj) (unat (eo_size obj)) (st\<lparr>ex_lib := l\<rparr>)
      else Inr (to_string (unat (eo_size obj)))) = Inr payload"
    using assms by (auto simp: send_object_def obj r Let_def rbind_eq_Inr)
  obtain ok st1 where s: "chan_send (object_message l r output obj payload) (st\<lparr>ex_lib := l\<rparr>) = (ok, st1)" by fastforce
  have "requests (st\<lparr>ex_lib := l\<rparr>) st1"
    using requests_chan_send [OF s] request_of_object_message [of l] by simp
  moreover have "requests st1 st'"
    using assms by (auto simp: send_object_def obj r pl s Let_def split: if_splits intro: requests_await_put)
  moreover have "requests st (st\<lparr>ex_lib := l\<rparr>)" by (rule requests_lib) (rule lib_request_id_chan [OF r])
  ultimately show ?thesis by (blast intro: requests_trans)
qed

lemma requests_open_object: "open_object nm ds st = (r, st') \<Longrightarrow> requests st st'"
  by (auto simp: open_object_def split: sum.splits prod.splits intro: request_intros)

lemma requests_get_answer: "get_answer r nm m st = Inr (res, st') \<Longrightarrow> requests st st'"
  by (auto simp: get_answer_def rbind_eq_Inr split: if_splits intro: requests_open_object)

lemma requests_get_object [request_intros]:
  assumes "lib_get_object b k e st = Inr (res, st')"
  shows "requests st st'"
proof -
  define nm where "nm = (if e then get_local_object_name b k (ul_session_id (ex_lib st)) else kvsKeyPrefix @ kDelimiter @ k)"
  obtain r l where r: "lib_request_id (ex_lib st) = (r, l)" by fastforce
  define st1 where "st1 = chan_send_retry (get_message l e r nm) (st\<lparr>ex_lib := l\<rparr>)"
  obtain m st2 where m: "chan_recv st1 = (m, st2)" by fastforce
  have "requests (st\<lparr>ex_lib := l\<rparr>) st1" unfolding st1_def
    using requests_chan_send_retry [of "st\<lparr>ex_lib := l\<rparr>"] request_of_get_message [of l] by simp
  moreover have "requests st2 st'"
    using assms by (cases m) (auto simp: lib_get_object_def nm_def [symmetric] r Let_def st1_def [symmetric] m intro: requests_get_answer)
  moreover have "requests st (st\<lparr>ex_lib := l\<rparr>)" by (rule requests_lib) (rule lib_request_id_chan [OF r])
  ultimately show ?thesis using requests_chan_recv [OF m] by (blast intro: requests_trans)
qed

lemma requests_run_prog: "run_prog f st = Inr (r, st') \<Longrightarrow> requests st st'"
proof (induction f arbitrary: st)
  case (CreateObject b k n f)
  then show ?case by (auto split: prod.splits dest!: requests_create_object elim!: requests_trans intro: CreateObject.IH [OF rangeI])
next
  case (CreateDirect n f)
  then show ?case by (auto split: prod.splits dest!: requests_create_direct elim!: requests_trans intro: CreateDirect.IH [OF rangeI])
next
  case (CreateTarget t m n f)
  then show ?case by (auto split: prod.splits dest!: requests_create_target elim!: requests_trans intro: CreateTarget.IH [OF rangeI])
next
  case (SetValue p v f)
  then show ?case by (auto simp: rbind_eq_Inr dest!: requests_set_value elim!: requests_trans intro: SetValue.IH)
next
  case (UpdateSize p n f)
  then show ?case by (auto simp: rbind_eq_Inr dest!: requests_update_size elim!: requests_trans intro: UpdateSize.IH)
next
  case (WriteMem ptr v f)
  then show ?case by (auto simp: rbind_eq_Inr dest!: requests_write_mem elim!: requests_trans intro: WriteMem.IH)
next
  case (SendObject p out f)
  then show ?case by (auto simp: rbind_eq_Inr dest!: requests_send_object elim!: requests_trans intro: SendObject.IH)
next
  case (GetObject b k e f)
  then obtain x st1 where 1: "lib_get_object b k e st = Inr (x, st1)"
    and 2: "(case x of GetThrows \<Rightarrow> Inr (None, st1) | Got p \<Rightarrow> run_prog (f p) st1) = Inr (r, st')"
    by (auto simp: rbind_eq_Inr)
  have "requests st1 st'" using 2 GetObject.IH by (cases x) auto
  with requests_get_object [OF 1] show ?case by (rule requests_trans)
next
  case (UniqueKey f)
  obtain key l where k: "gen_unique_key (ex_lib st) = (key, l)" by fastforce
  then have "requests (st\<lparr>ex_lib := l\<rparr>) st'" using UniqueKey by auto
  then show ?case using gen_unique_key_chan [OF k] by (rule requests_after_lib)
qed (auto simp: rbind_eq_Inr)

subsection \<open>Rounds\<close>

definition exec_ok :: "exec \<Rightarrow> bool" where
  "exec_ok st \<longleftrightarrow> ul_chan_id (ex_lib st) = ucast (ex_thread_id st + 1)"

lemma chan_send_retry_fields [simp]:
  "ex_sent (chan_send_retry m st) = ex_sent st @ [m]" "ex_lib (chan_send_retry m st) = ex_lib st"
  "ex_thread_id (chan_send_retry m st) = ex_thread_id st"
  by (simp_all add: chan_send_retry_def)

lemma exec_update_status_fields [simp]:
  "ex_sent (exec_update_status busy st) = ex_sent st @ [report (ucast (ex_thread_id st + 1)) busy]"
  "ex_lib (exec_update_status busy st) = ex_lib st" "ex_thread_id (exec_update_status busy st) = ex_thread_id st"
  by (simp_all add: exec_update_status_def report_def)

lemma requests_execute: "execute env f args st = Inr st' \<Longrightarrow> requests st st'"
  by (auto simp: execute_def rbind_eq_Inr clear_session_def split: option.splits
      dest!: requests_run_prog elim!: requests_trans intro: requests_lib)

lemma load_function_frame:
  "load_function env f st = (ok, st') \<Longrightarrow> requests st st'"
  by (auto simp: load_function_def split: option.splits intro: requests_silent)

lemma fold_add_arg_size [simp]: "ul_chan_id (fold add_arg_size sizes lib) = ul_chan_id lib"
  by (induction sizes arbitrary: lib) (simp_all add: add_arg_size_def)

lemma run_loaded_sends:
  assumes "run_loaded env flag f args st = Inr (b, st')"
  shows "\<exists>st1. requests st st1 \<and> st' = exec_update_status False st1"
proof -
  obtain parsed where p: "call_args flag args (ex_shm st) = Inr parsed"
    using assms by (auto simp: run_loaded_def rbind_eq_Inr)
  show ?thesis
  proof (cases parsed)
    case None
    then show ?thesis using assms p by (auto simp: run_loaded_def)
  next
    case (Some a)
    then obtain st1 where 1: "execute env f (fst a) (st\<lparr>ex_lib := fold add_arg_size (snd a) (ex_lib st)\<rparr>) = Inr st1"
      and "st' = exec_update_status False st1"
      using assms p by (auto simp: run_loaded_def rbind_eq_Inr split: prod.splits)
    moreover have "requests st st1" using requests_execute [OF 1] by (rule requests_after_lib) simp
    ultimately show ?thesis by blast
  qed
qed

lemma run_call_sends:
  assumes "run_call env st c = Inr (b, st')"
  shows "\<exists>st1. requests st st1 \<and> st' = exec_update_status False st1"
proof -
  obtain flag persist s f args where c: "c = (flag, persist, s, f, args)" by (metis prod_cases5)
  define st1 where "st1 = st\<lparr>ex_lib := (ex_lib st)\<lparr>ul_function := f, ul_session_id := s, ul_persist_flag := persist\<rparr>\<rparr>"
  obtain loaded st2 where l: "(if f \<in> set (ex_name_func_map st) then (True, st1) else load_function env f st1) = (loaded, st2)"
    by fastforce
  have "requests st st1" by (simp add: st1_def requests_lib)
  moreover have "requests st1 st2" using l by (auto split: if_splits intro: load_function_frame)
  moreover have "\<exists>st3. requests st2 st3 \<and> st' = exec_update_status False st3"
    using assms l by (auto simp: run_call_def c Let_def st1_def [symmetric] split: if_splits dest: run_loaded_sends)
  ultimately show ?thesis by (blast intro: requests_trans)
qed

lemma exec_call_sends:
  assumes "exec_call env str st = Inr (b, st')" and ok: "exec_ok st"
  shows "\<exists>reqs. ex_sent st' = ex_sent st @ report (ucast (ex_thread_id st + 1)) True # reqs @
      [report (ucast (ex_thread_id st + 1)) False] \<and> list_all (request_of (ucast (ex_thread_id st + 1))) reqs"
    and "exec_ok st'" and "ex_thread_id st' = ex_thread_id st"
proof -
  let ?c = "ucast (ex_thread_id st + 1) :: 8 word" and ?st0 = "exec_update_status True st"
  obtain st1 where 1: "requests ?st0 st1" and st': "st' = exec_update_status False st1"
    using assms(1) by (auto simp: exec_call_def rbind_eq_Inr dest!: run_call_sends)
  have c: "ul_chan_id (ex_lib ?st0) = ?c" using ok by (simp add: exec_ok_def)
  obtain reqs where r: "ex_sent st1 = ex_sent ?st0 @ reqs" "list_all (request_of ?c) reqs" "ul_chan_id (ex_lib st1) = ?c"
    and t: "ex_thread_id st1 = ex_thread_id st" using 1 unfolding requests_def c by auto
  show "\<exists>reqs. ex_sent st' = ex_sent st @ report ?c True # reqs @ [report ?c False] \<and> list_all (request_of ?c) reqs"
    using r t by (intro exI [of _ reqs]) (simp add: st')
  show "exec_ok st'" "ex_thread_id st' = ex_thread_id st" using r(3) t by (simp_all add: st' exec_ok_def)
qed

lemma exec_round_trace:
  assumes "exec_round env t1 t2 st = Inr st'" and "exec_ok st"
    and tr: "exec_trace (ucast (ex_thread_id st + 1)) (ex_sent st)"
  shows "exec_trace (ucast (ex_thread_id st + 1)) (ex_sent st') \<and> exec_ok st' \<and> ex_thread_id st' = ex_thread_id st"
proof -
  let ?c = "ucast (ex_thread_id st + 1) :: 8 word"
  obtain msg st1 where m: "chan_recv st = (msg, st1)" by fastforce
  then have 1: "exec_ok st1" "ex_thread_id st1 = ex_thread_id st" "ex_sent st1 = ex_sent st"
    using assms(2) by (auto simp: chan_recv_def exec_ok_def split: list.splits)
  obtain x where x: "(case msg of None \<Rightarrow> Inr (True, st1) | Some str \<Rightarrow> rbind (byte_at str 0) (\<lambda>kind.
      if kind = 1 then exec_call env str st1 else Inr (True, st1))) = Inr x"
    and 2: "st' = (if fst x then exec_timer t1 t2 (snd x) else snd x)"
    using assms(1) unfolding exec_round_def m prod.case Let_def rbind_eq_Inr by (auto split: prod.splits)
  obtain to_timer st2 where x2: "x = (to_timer, st2)" by fastforce
  have "st2 = st1 \<or> (\<exists>str. exec_call env str st1 = Inr (to_timer, st2))"
    using x unfolding x2 by (cases msg) (auto simp: rbind_eq_Inr split: if_splits)
  then have "exec_trace ?c (ex_sent st2) \<and> exec_ok st2 \<and> ex_thread_id st2 = ex_thread_id st"
    using 1 tr exec_call_sends [OF _ 1(1)] by (metis exec_trace.call)
  then show ?thesis unfolding 2 x2
    by (auto simp: exec_timer_def exec_ok_def intro: exec_trace.idle)
qed

text \<open>Before each round the surroundings decide what the channels do and what is in shared memory.\<close>

definition exec_step ::
    "exec_env \<Rightarrow> exec \<Rightarrow> bytes option list \<times> bool list \<times> (string, bytes) umap \<times> TimePoint \<times> TimePoint \<Rightarrow> exec res" where
  "exec_step env st = (\<lambda>(inbox, chan, shm, t1, t2).
     exec_round env t1 t2 (st\<lparr>ex_inbox := inbox, ex_chan := chan, ex_shm := shm\<rparr>))"

lemma exec_run_trace:
  assumes "rfold (exec_step env) st es = Inr st'" and "exec_ok st" and "exec_trace (ucast (ex_thread_id st + 1)) (ex_sent st)"
  shows "exec_trace (ucast (ex_thread_id st + 1)) (ex_sent st') \<and> exec_ok st' \<and> ex_thread_id st' = ex_thread_id st"
  using assms(1)
proof (rule rfold_invariant [where P = "\<lambda>s. exec_trace (ucast (ex_thread_id st + 1)) (ex_sent s) \<and> exec_ok s \<and>
    ex_thread_id s = ex_thread_id st"])
  fix s e s' assume "exec_trace (ucast (ex_thread_id st + 1)) (ex_sent s) \<and> exec_ok s \<and> ex_thread_id s = ex_thread_id st"
    and "exec_step env s e = Inr s'"
  then show "exec_trace (ucast (ex_thread_id st + 1)) (ex_sent s') \<and> exec_ok s' \<and> ex_thread_id s' = ex_thread_id st"
    by (cases e) (auto simp: exec_step_def dest!: exec_round_trace simp: exec_ok_def)
qed (use assms in simp)

end
