(* ===== verification/Comm_Helper.thy ===== *)
theory Comm_Helper
  imports Sched_State
begin

text \<open>
  The class \<open>CommHelper\<close> of \<^verbatim>\<open>src/src/scheduler/comm_helper.hpp\<close>: how a worker node talks to
  coordinators, other nodes and the key-value store, and the loop of the additional input-output threads.
  The main thread is thread 0. What the sockets have received is an argument (\<open>polled\<close>).
\<close>

record polled =
  po_update :: "UpdateCoordMsg option"
  po_call :: "FunctionCall option"
  po_data_req :: "bytes option"
  po_data_resp :: "bytes option"
  po_kvs_addresses :: "KeyAddressResponse option"
  po_kvs_response :: "KeyResponse option"

definition nothing_polled :: polled where
  "nothing_polled = \<lparr>po_update = None, po_call = None, po_data_req = None, po_data_resp = None,
     po_kvs_addresses = None, po_kvs_response = None\<rparr>"

definition new_CommHelper :: "HandlerThread list \<Rightarrow> Address \<Rightarrow> 32 word \<Rightarrow> CommHelper" where
  "new_CommHelper routing_threads ip io_thread_count =
     \<lparr>ch_routing_threads = routing_threads, ch_app_coord_map = [], ch_bucket_coord_map = [], ch_rid = 0,
      ch_io_thread_count = io_thread_count, ch_io_thread_id = 0, ch_ut = mk_thread ip 0, ch_ip = ip,
      ch_key_address_cache = []\<rparr>"

subsection \<open>Assistant methods\<close>

definition get_key_address :: "string \<Rightarrow> CommHelper \<Rightarrow> Address" where
  "get_key_address key h = (case map_of (ch_key_address_cache h) key of None \<Rightarrow> [] | Some a \<Rightarrow> a)"

text \<open>The input-output threads take turns. \<open>++io_thread_id_ % io_thread_count_\<close> divides by the number
  of threads.\<close>

definition get_io_thread_id :: "bool \<Rightarrow> CommHelper \<Rightarrow> (32 word \<times> CommHelper) res" where
  "get_io_thread_id exclude_main_thread h =
     (if ch_io_thread_count h = 0 then Inl DivByZero
      else let i = ch_io_thread_id h + 1;
               i' = (if i mod ch_io_thread_count h = 0 then (if exclude_main_thread then 1 else 0) else i)
           in Inr (i', h\<lparr>ch_io_thread_id := i'\<rparr>))"

definition get_data_server_addr :: "bool \<Rightarrow> CommHelper \<Rightarrow> (Address \<times> CommHelper) res" where
  "get_data_server_addr exclude_main_thread h =
     rbind (get_io_thread_id exclude_main_thread h) (\<lambda>(thread_id, h').
       Inr (''tcp://'' @ ch_ip h @ '':'' @ to_string (unat (thread_id + dataAccessServerPort)), h'))"

definition get_querying_thread :: "Bucket \<Rightarrow> CommHelper \<Rightarrow> Address" where
  "get_querying_thread bucket h =
     (case map_of (ch_bucket_coord_map h) bucket of None \<Rightarrow> [] | Some t \<Rightarrow> key_query_handler_connect_address t)"

definition get_notifying_thread :: "Bucket \<Rightarrow> CommHelper \<Rightarrow> Address" where
  "get_notifying_thread bucket h =
     (case map_of (ch_bucket_coord_map h) bucket of None \<Rightarrow> [] | Some t \<Rightarrow> notify_handler_connect_address t)"

definition helper_request_id :: "CommHelper \<Rightarrow> string \<times> CommHelper" where
  "helper_request_id h = (let (i, rid) = request_id (ch_ut h) (ch_rid h) in (i, h\<lparr>ch_rid := rid\<rparr>))"

definition clear_address_cache :: "CommHelper \<Rightarrow> CommHelper" where
  "clear_address_cache h = h\<lparr>ch_key_address_cache := []\<rparr>"

text \<open>A method of the client of the key-value store of a thread; what it sends is sent by the node.\<close>

definition with_kvs :: "nat \<Rightarrow> (KvsClient \<Rightarrow> ('a \<times> KvsClient) res) \<Rightarrow> sched \<Rightarrow> ('a \<times> sched) res" where
  "with_kvs tid f st =
     (if tid < length (sd_kvs_clients st) then
        rbind (f (sd_kvs_clients st ! tid)) (\<lambda>(x, c).
          Inr (x, st\<lparr>sd_kvs_clients := (sd_kvs_clients st)[tid := c\<lparr>kc_sent := []\<rparr>],
                     sd_sent := sd_sent st @ map (\<lambda>(a, w). ToSocket a w) (kc_sent c)\<rparr>))
      else Inl OutOfRange)"

subsection \<open>Sending\<close>

definition client_response :: "string \<Rightarrow> string \<Rightarrow> string \<Rightarrow> sched \<Rightarrow> sched" where
  "client_response resp_address app_name output_data st =
     emit (ToSocket resp_address (W_FunctionCallResponse (no_FunctionCallResponse
       \<lparr>fcr_app_name := app_name, fcr_error_no := 0, fcr_output := output_data\<rparr>))) st"

definition helper_update_status :: "int \<Rightarrow> string uset \<Rightarrow> sched \<Rightarrow> sched" where
  "helper_update_status avail_executors function_cache st =
     (let msg = \<lparr>us_ip = ch_ip (sd_helper st), us_avail_executors = avail_executors,
                 us_functions = function_cache\<rparr>
      in fold (\<lambda>ht. emit (ToSocket (update_handler_connect_address ht) (W_UpdateStatus msg)))
           (ch_routing_threads (sd_helper st)) st)"

text \<open>Arguments that are keys come in groups of three (bucket, key, size); the size is not sent.\<close>

fun forward_keys :: "int \<Rightarrow> string list \<Rightarrow> CommHelper \<Rightarrow> (Argument list \<times> CommHelper) res" where
  "forward_keys arg_flag [] h = Inr ([], h)"
| "forward_keys arg_flag [b] h = Inl OutOfRange"
| "forward_keys arg_flag (b # k # rest) h =
     rbind (get_data_server_addr False h) (\<lambda>(addr, h1).
     rbind (forward_keys arg_flag (tl rest) h1) (\<lambda>(args, h2).
     Inr (\<lparr>arg_body = b @ kDelimiter @ k, arg_arg_flag = arg_flag, arg_data_address = addr\<rparr> # args, h2)))"

definition forward_request :: "int \<Rightarrow> string \<Rightarrow> string list \<Rightarrow> CommHelper \<Rightarrow> (FunctionRequest \<times> CommHelper) res" where
  "forward_request arg_flag func_name func_args h =
     rbind (if arg_flag > 0 then forward_keys arg_flag func_args h
            else Inr (map (\<lambda>a. \<lparr>arg_body = a, arg_arg_flag = arg_flag, arg_data_address = []\<rparr>) func_args, h))
       (\<lambda>(args, h'). Inr (\<lparr>fr_name = func_name, fr_arguments = args\<rparr>, h'))"

fun forward_requests ::
    "int \<Rightarrow> string list \<Rightarrow> string list list \<Rightarrow> CommHelper \<Rightarrow> (FunctionRequest list \<times> CommHelper) res" where
  "forward_requests arg_flag [] func_args_vec h = Inr ([], h)"
| "forward_requests arg_flag (f # fs) [] h = Inl OutOfRange"
| "forward_requests arg_flag (f # fs) (func_args # rest) h =
     rbind (forward_request arg_flag f func_args h) (\<lambda>(req, h1).
     rbind (forward_requests arg_flag fs rest h1) (\<lambda>(reqs, h2). Inr (req # reqs, h2)))"

text \<open>The coordinator of an application that is not known is a thread whose number is not initialised.\<close>

definition forward_func_call ::
    "string \<Rightarrow> string \<Rightarrow> string list \<Rightarrow> string list list \<Rightarrow> int \<Rightarrow> string \<Rightarrow> sched \<Rightarrow> sched res" where
  "forward_func_call resp_address app_name func_name_vec func_args_vec arg_flag session_id st =
     rbind (forward_requests arg_flag func_name_vec func_args_vec (sd_helper st)) (\<lambda>(reqs, h).
       case map_of (ch_app_coord_map h) app_name of
         None \<Rightarrow> Inl Uninitialised
       | Some coord \<Rightarrow>
           Inr (emit (ToSocket (forward_func_connect_address coord) (W_FunctionCall
             \<lparr>fc_app_name = app_name, fc_requests = reqs, fc_source = ch_ip h, fc_request_id = [],
              fc_resp_address = resp_address, fc_session_id = session_id, fc_sync_data_status = True\<rparr>))
             (st\<lparr>sd_helper := h\<rparr>)))"

definition notify_put :: "BucketKey \<Rightarrow> string list \<Rightarrow> string \<Rightarrow> string \<Rightarrow> sched \<Rightarrow> sched res" where
  "notify_put bucket_key active_triggers resp_address payload st =
     (let notif_thread = get_notifying_thread (bk_bucket bucket_key) (sd_helper st)
      in if notif_thread = [] then Inr st
         else let (req_id, h1) = helper_request_id (sd_helper st)
              in rbind (get_data_server_addr True h1) (\<lambda>(addr, h2).
                   let a = (get_addr_from_bucket_key bucket_key no_BucketKeyAddress)\<lparr>bka_ips := [addr]\<rparr>;
                       a' = (if payload \<noteq> [] then a\<lparr>bka_payload := payload\<rparr> else a)
                   in Inr (emit (ToSocket notif_thread (W_KeyNotifyRequest
                        \<lparr>knr_response_address = resp_address, knr_addresses = [a'],
                         knr_active_trigger_names = active_triggers, knr_request_id = req_id\<rparr>))
                        (st\<lparr>sd_helper := h2\<rparr>))))"

definition key_query_async :: "BucketKey \<Rightarrow> sched \<Rightarrow> sched" where
  "key_query_async bucket_key st =
     (let (req_id, h) = helper_request_id (sd_helper st)
      in emit (ToSocket (get_querying_thread (bk_bucket bucket_key) h) (W_KeyQueryRequest
           \<lparr>kqr_response_address = key_query_connect_address (ch_ut h),
            kqr_addresses = [get_addr_from_bucket_key bucket_key no_BucketKeyAddress],
            kqr_request_id = req_id\<rparr>)) (st\<lparr>sd_helper := h\<rparr>))"

text \<open>The length of the key is one byte.\<close>

definition send_data_req_base :: "string \<Rightarrow> nat \<Rightarrow> sched \<Rightarrow> sched" where
  "send_data_req_base key tid st =
     (let data_address = get_key_address key (sd_helper st)
      in if data_address = [] then st
         else emit (ToSocket data_address (W_Raw
                (byte (of_nat (length key)) # key @ ''tcp://'' @ ch_ip (sd_helper st) @ '':'' @
                   to_string (unat (of_nat tid + dataAccessClientPort))))) st)"

definition get_kvs_async_base :: "sched_env \<Rightarrow> TimePoint \<Rightarrow> string \<Rightarrow> nat \<Rightarrow> sched \<Rightarrow> sched res" where
  "get_kvs_async_base env now key tid st =
     rbind (with_kvs tid (\<lambda>c. rbind (get_async (se_rand_r env) now key c) (\<lambda>c'. Inr ((), c'))) st)
       (\<lambda>(_, st'). Inr st')"

definition read_data :: "data_ptr \<Rightarrow> nat \<Rightarrow> sched \<Rightarrow> bytes res" where
  "read_data ptr n st =
     (case ptr of
        NoData \<Rightarrow> if n = 0 then Inr [] else Inl NullDeref
      | HeapData d \<Rightarrow> if n \<le> length d then Inr (take n d) else Inl OutOfRange
      | ShmData name \<Rightarrow> shm_read name n st)"

definition put_kvs_async_base ::
    "sched_env \<Rightarrow> TimePoint \<Rightarrow> string \<Rightarrow> data_ptr \<Rightarrow> 32 word \<Rightarrow> nat \<Rightarrow> sched \<Rightarrow> sched res" where
  "put_kvs_async_base env now key val_ptr val_size tid st =
     (case generate_timestamp (word_of_int (to_ms now)) (of_nat tid) of
        None \<Rightarrow> Inl NoReturn
      | Some timestamp \<Rightarrow>
          rbind (read_data val_ptr (unat val_size) st) (\<lambda>v.
          rbind (with_kvs tid (put_async (se_rand_r env) now key
                   (serialize_value (se_lattice_codec env) timestamp v) LWW) st)
            (\<lambda>(_, st'). Inr st')))"

text \<open>With more than one thread the work goes to the queue of the next input-output thread.\<close>

definition push_thread_msg :: "nat \<Rightarrow> SecondaryThreadMsg \<Rightarrow> sched \<Rightarrow> sched res" where
  "push_thread_msg i msg st =
     (if i < length (sd_thread_msgs st)
      then Inr (st\<lparr>sd_thread_msgs := (sd_thread_msgs st)[i := sd_thread_msgs st ! i @ [msg]]\<rparr>)
      else Inl OutOfRange)"

definition via_io_thread :: "SecondaryThreadMsg \<Rightarrow> (sched \<Rightarrow> sched res) \<Rightarrow> sched \<Rightarrow> sched res" where
  "via_io_thread msg here st =
     (if 1 < ch_io_thread_count (sd_helper st) then
        rbind (get_io_thread_id True (sd_helper st)) (\<lambda>(thread_id, h).
          let st' = st\<lparr>sd_helper := h\<rparr>
          in if thread_id = 0 then here st' else push_thread_msg (unat (thread_id - 1)) msg st')
      else here st)"

definition get_kvs_async :: "sched_env \<Rightarrow> TimePoint \<Rightarrow> string \<Rightarrow> sched \<Rightarrow> sched res" where
  "get_kvs_async env now key =
     via_io_thread \<lparr>stm_msg_type = GetKvs, stm_key = key, stm_data_ptr = NoData, stm_data_size = 0\<rparr>
       (get_kvs_async_base env now key 0)"

definition put_kvs_async ::
    "sched_env \<Rightarrow> TimePoint \<Rightarrow> string \<Rightarrow> data_ptr \<Rightarrow> 32 word \<Rightarrow> sched \<Rightarrow> sched res" where
  "put_kvs_async env now key val_ptr val_size =
     via_io_thread \<lparr>stm_msg_type = PutKvs, stm_key = key, stm_data_ptr = val_ptr, stm_data_size = val_size\<rparr>
       (put_kvs_async_base env now key val_ptr val_size 0)"

definition send_data_req :: "string \<Rightarrow> sched \<Rightarrow> sched res" where
  "send_data_req key =
     via_io_thread \<lparr>stm_msg_type = SendReq, stm_key = key, stm_data_ptr = NoData, stm_data_size = 0\<rparr>
       (\<lambda>st. Inr (send_data_req_base key 0 st))"

end
