(* ===== verification/Comm_Receive.thy ===== *)
theory Comm_Receive
  imports Comm_Helper
begin

text \<open>
  The receiving half of \<open>CommHelper\<close>: \<open>try_recv_msg\<close>, which the main loop calls, and one round of
  \<open>run_io_thread_loop\<close>, the loop of an additional input-output thread.
\<close>

subsection \<open>Calls and data\<close>

text \<open>\<open>key_address_cache_->emplace\<close> keeps the address that is already there.\<close>

definition emplace :: "'k \<Rightarrow> 'v \<Rightarrow> ('k, 'v) umap \<Rightarrow> ('k, 'v) umap" where
  "emplace k v m = (if um_has k m then m else um_put k v m)"

definition call_argument :: "Argument \<Rightarrow> int \<times> (string, Address) umap \<Rightarrow> int \<times> (string, Address) umap" where
  "call_argument arg = (\<lambda>(arg_flag, cache).
     if arg_arg_flag arg > 0 then (arg_arg_flag arg, emplace (arg_body arg) (arg_data_address arg) cache)
     else (arg_flag, cache))"

definition handle_function_call :: "FunctionCall \<Rightarrow> sched \<Rightarrow> RecvMsg \<times> sched" where
  "handle_function_call call st =
     (let (flags, cache) =
            fold (\<lambda>req (flags, cache). let (arg_flag, cache') = fold call_argument (fr_arguments req) (0, cache)
                                      in (flags @ [arg_flag], cache'))
              (fc_requests call) ([], ch_key_address_cache (sd_helper st))
      in (no_RecvMsg\<lparr>rv_app_name := fc_app_name call, rv_msg_type := Call,
            rv_resp_address := fc_resp_address call, rv_session_id := fc_session_id call,
            rv_sync_data_status := fc_sync_data_status call,
            rv_func_name := map fr_name (fc_requests call), rv_is_func_arg_keys := flags,
            rv_func_args := map (\<lambda>req. map arg_body (fr_arguments req)) (fc_requests call)\<rparr>,
          st\<lparr>sd_helper := (sd_helper st)\<lparr>ch_key_address_cache := cache\<rparr>\<rparr>))"

text \<open>The first byte of a message of the data protocol is the length of the key that follows.\<close>

definition split_key :: "bytes \<Rightarrow> (string \<times> bytes) res" where
  "split_key message =
     (case message of
        [] \<Rightarrow> Inl OutOfRange
      | c # rest \<Rightarrow>
          let key_len = unat (byte_val c)
          in if key_len \<le> length rest then Inr (take key_len rest, drop key_len rest) else Inl OutOfRange)"

definition handle_data_request :: "bytes \<Rightarrow> sched \<Rightarrow> sched res" where
  "handle_data_request message st =
     rbind (split_key message) (\<lambda>(key, resp_address).
       let data_size = get_shm_obj key st
       in if data_size > 0 then
            rbind (shm_read key (unat data_size) st) (\<lambda>data.
              Inr (emit (ToSocket resp_address (W_Raw (byte (of_nat (length key)) # key @ data))) st))
          else Inr st)"

definition handle_data_response :: "bytes \<Rightarrow> sched \<Rightarrow> (RecvMsg \<times> sched) res" where
  "handle_data_response message st =
     rbind (split_key message) (\<lambda>(key, data).
     rbind (copy_to_shm_obj key data st) (\<lambda>st'.
     Inr (no_RecvMsg\<lparr>rv_msg_type := DataResp, rv_data_key := key, rv_data_size := of_nat (length data)\<rparr>, st')))"

subsection \<open>Answers of the key-value store\<close>

definition get_kvs_response ::
    "sched_env \<Rightarrow> TimePoint \<Rightarrow> nat \<Rightarrow> RecvMsg list \<times> sched \<Rightarrow> KeyResponse \<Rightarrow> (RecvMsg list \<times> sched) res" where
  "get_kvs_response env now tid = (\<lambda>(comm_resps, st) response.
     case ks_tuples response of
       [] \<Rightarrow> Inl OutOfRange
     | tuple # _ \<Rightarrow>
         let key = kt_key tuple
         in if ks_error response = TIMEOUT then
              if ks_type response = GET
              then rbind (get_kvs_async_base env now key tid st) (\<lambda>st'. Inr (comm_resps, st'))
              else Inr (comm_resps, st)
            else if ks_type response = GET \<and> kt_error tuple \<noteq> KEY_DNE then
              let v = tv_value (deserialize_lww (se_lattice_codec env) (kt_payload tuple))
              in rbind (copy_to_shm_obj (kvsKeyPrefix @ kDelimiter @ key) v st) (\<lambda>st'.
                   Inr (comm_resps @ [no_RecvMsg\<lparr>rv_msg_type := KvsGetResp, rv_data_key := key,
                                                 rv_data_size := of_nat (length v)\<rparr>], st'))
            else if ks_type response = PUT then
              Inr (comm_resps @ [no_RecvMsg\<lparr>rv_msg_type := KvsPutResp, rv_data_key := key\<rparr>], st)
            else Inr (comm_resps, st))"

definition get_kvs_responses ::
    "sched_env \<Rightarrow> TimePoint \<Rightarrow> nat \<Rightarrow> polled \<Rightarrow> sched \<Rightarrow> (RecvMsg list \<times> sched) res" where
  "get_kvs_responses env now tid po st =
     rbind (with_kvs tid (receive_async (se_rand_r env) now (po_kvs_addresses po) (po_kvs_response po)) st)
       (\<lambda>(responses, st'). rfold (get_kvs_response env now tid) ([], st') responses)"

subsection \<open>Updates from coordinators\<close>

definition alter_app :: "string \<Rightarrow> (AppInfo \<Rightarrow> AppInfo) \<Rightarrow> sched \<Rightarrow> sched" where
  "alter_app app_name f st = st\<lparr>sd_app_info_map := um_alter no_AppInfo f app_name (sd_app_info_map st)\<rparr>"

definition add_function :: "string \<Rightarrow> string \<Rightarrow> sched \<Rightarrow> sched" where
  "add_function app_name func st =
     (alter_app app_name (\<lambda>a. a\<lparr>ai_functions := us_insert func (ai_functions a)\<rparr>) st)
       \<lparr>sd_func_app_map := um_put func app_name (sd_func_app_map st)\<rparr>"

definition add_dependency :: "string \<Rightarrow> sched \<Rightarrow> DataDependency \<Rightarrow> sched res" where
  "add_dependency app_name st dep =
     (if dd_type dep \<noteq> DIRECT then Inr st
      else case dd_src_functions dep of
             [] \<Rightarrow> Inl OutOfRange
           | src_func # _ \<Rightarrow>
               Inr (fold (\<lambda>tgt. alter_app app_name (\<lambda>a. a\<lparr>ai_direct_deps :=
                      um_alter [] (us_insert tgt) src_func (ai_direct_deps a)\<rparr>)) (dd_tgt_functions dep) st))"

definition rerun_metas :: "RerunHint list \<Rightarrow> RerunMetadata list" where
  "rerun_metas hints = map (\<lambda>h. \<lparr>rm_source_func = rh_source_function h, rm_source_key = rh_source_key h,
     rm_timeout = rh_timeout h\<rparr>) hints"

text \<open>One trigger of the message. The new trigger is reachable from the bucket and from every source
  function of its hints.\<close>

definition add_trigger_entity ::
    "sched_env \<Rightarrow> TimePoint \<Rightarrow> HandlerThread \<Rightarrow> string \<Rightarrow> sched \<Rightarrow> TriggerEntity \<Rightarrow> sched res" where
  "add_trigger_entity env now coord_thread app_name st trigger =
     (let bucket_name = te_bucket_name trigger;
          h = sd_helper st;
          st1 = (alter_app app_name (\<lambda>a. a\<lparr>ai_buckets := ai_buckets a @ [bucket_name]\<rparr>) st)
            \<lparr>sd_helper := h\<lparr>ch_bucket_coord_map := um_put bucket_name coord_thread (ch_bucket_coord_map h)\<rparr>,
             sd_bucket_app_map := um_put bucket_name app_name (sd_bucket_app_map st)\<rparr>;
          tn = te_trigger_name trigger
      in if tn = [] then Inr st1
         else case gen_trigger_pointer (se_codec env) now (te_primitive_type trigger) tn (te_primitive trigger) of
                None \<Rightarrow> Inr st1
              | Some t \<Rightarrow>
                  let (p, st2) = new_trigger (set_trigger_option (te_trigger_option trigger) t) st1;
                      st3 = st2\<lparr>sd_bucket_triggers_map :=
                              um_alter [] (\<lambda>ps. ps @ [p]) bucket_name (sd_bucket_triggers_map st2),
                            sd_func_trigger_timeout_map :=
                              fold (\<lambda>hint m. um_alter [] (\<lambda>ts. ts @ [\<lparr>rt_trigger_ptr = p, rt_timeout = rh_timeout hint\<rparr>])
                                      (rh_source_function hint) m)
                                (te_hints trigger) (sd_func_trigger_timeout_map st2)\<rparr>
                  in update_trigger p (set_rerun_metadata (rerun_metas (te_hints trigger))) st3)"

definition clear_triggers :: "sched \<Rightarrow> TriggerEntity \<Rightarrow> sched res" where
  "clear_triggers st trigger_msg =
     (let bucket_name = te_bucket_name trigger_msg;
          st' = st\<lparr>sd_bucket_triggers_map := um_touch [] bucket_name (sd_bucket_triggers_map st)\<rparr>
      in rfold (\<lambda>st p. rbind (deref p st) (\<lambda>t.
           if get_trigger_name t = te_trigger_name trigger_msg
           then update_trigger p (clear (te_session trigger_msg)) st else Inr st))
           st' (um_get [] bucket_name (sd_bucket_triggers_map st)))"

text \<open>The loop that looks for the trigger has no end test: without a trigger of that name it runs past
  the end of the vector.\<close>

fun find_trigger :: "string \<Rightarrow> sched \<Rightarrow> nat list \<Rightarrow> nat \<Rightarrow> nat res" where
  "find_trigger tn st [] i = Inl IterInvalid"
| "find_trigger tn st (p # ps) i =
     rbind (deref p st) (\<lambda>t. if get_trigger_name t = tn then Inr i else find_trigger tn st ps (i + 1))"

definition delete_trigger_entity :: "sched \<Rightarrow> TriggerEntity \<Rightarrow> sched res" where
  "delete_trigger_entity st trigger =
     (let bucket_name = te_bucket_name trigger;
          ps = um_get [] bucket_name (sd_bucket_triggers_map st)
      in rbind (find_trigger (te_trigger_name trigger) st ps 0) (\<lambda>i.
           Inr (st\<lparr>sd_bucket_triggers_map :=
                 um_put bucket_name (take i ps @ drop (i + 1) ps) (sd_bucket_triggers_map st)\<rparr>)))"

definition handle_update :: "sched_env \<Rightarrow> TimePoint \<Rightarrow> UpdateCoordMsg \<Rightarrow> sched \<Rightarrow> sched res" where
  "handle_update env now coord_msg st =
     (if ucm_msg_type coord_msg = 0 then
        let coord_thread = mk_thread (ucm_ip coord_msg) (ucm_thread_id coord_msg);
            app_name = ucm_app_name coord_msg;
            h = sd_helper st;
            st1 = st\<lparr>sd_helper := h\<lparr>ch_app_coord_map := um_put app_name coord_thread (ch_app_coord_map h)\<rparr>\<rparr>;
            st2 = fold (add_function app_name) (ucm_functions coord_msg) st1
        in rbind (rfold (add_dependency app_name) st2 (ucm_dependencies coord_msg)) (\<lambda>st3.
             rfold (add_trigger_entity env now coord_thread app_name) st3 (ucm_triggers coord_msg))
      else if ucm_msg_type coord_msg = 1 then rfold clear_triggers st (ucm_triggers coord_msg)
      else if ucm_msg_type coord_msg = 2 then rfold delete_trigger_entity st (ucm_triggers coord_msg)
      else Inr st)"

subsection \<open>try_recv_msg\<close>

definition optional :: "('x \<Rightarrow> sched \<Rightarrow> sched res) \<Rightarrow> 'x option \<Rightarrow> sched \<Rightarrow> sched res" where
  "optional f x st = (case x of None \<Rightarrow> Inr st | Some m \<Rightarrow> f m st)"

definition recv_call :: "FunctionCall option \<Rightarrow> sched \<Rightarrow> RecvMsg list \<times> sched" where
  "recv_call call st =
     (case call of None \<Rightarrow> ([], st) | Some m \<Rightarrow> let (resp, st') = handle_function_call m st in ([resp], st'))"

definition recv_data :: "bytes option \<Rightarrow> sched \<Rightarrow> (RecvMsg list \<times> sched) res" where
  "recv_data data st =
     (case data of None \<Rightarrow> Inr ([], st)
      | Some m \<Rightarrow> rbind (handle_data_response m st) (\<lambda>(resp, st'). Inr ([resp], st')))"

definition try_recv_msg :: "sched_env \<Rightarrow> TimePoint \<Rightarrow> polled \<Rightarrow> sched \<Rightarrow> (RecvMsg list \<times> sched) res" where
  "try_recv_msg env now po st =
     rbind (optional (handle_update env now) (po_update po) st) (\<lambda>st1.
     let (calls, st2) = recv_call (po_call po) st1
     in rbind (optional handle_data_request (po_data_req po) st2) (\<lambda>st3.
        rbind (recv_data (po_data_resp po) st3) (\<lambda>(datas, st4).
        rbind (get_kvs_responses env now 0 po st4) (\<lambda>(kvs, st5).
        Inr (calls @ datas @ kvs @ concat (sd_resp_queues st5),
             st5\<lparr>sd_resp_queues := map (\<lambda>_. []) (sd_resp_queues st5)\<rparr>)))))"

subsection \<open>The input-output threads\<close>

definition push_responses :: "nat \<Rightarrow> RecvMsg list \<Rightarrow> sched \<Rightarrow> sched res" where
  "push_responses queue_idx resps st =
     (if queue_idx < length (sd_resp_queues st)
      then Inr (st\<lparr>sd_resp_queues := (sd_resp_queues st)[queue_idx := sd_resp_queues st ! queue_idx @ resps]\<rparr>)
      else if resps = [] then Inr st else Inl OutOfRange)"

definition handle_thread_msg :: "sched_env \<Rightarrow> TimePoint \<Rightarrow> nat \<Rightarrow> sched \<Rightarrow> SecondaryThreadMsg \<Rightarrow> sched res" where
  "handle_thread_msg env now tid st msg =
     (case stm_msg_type msg of
        SendReq \<Rightarrow> Inr (send_data_req_base (stm_key msg) tid st)
      | GetKvs \<Rightarrow> get_kvs_async_base env now (stm_key msg) tid st
      | PutKvs \<Rightarrow> put_kvs_async_base env now (stm_key msg) (stm_data_ptr msg) (stm_data_size msg) tid st)"

text \<open>At most \<open>msg_process_batch\<close> messages of the queue per round.\<close>

definition handle_thread_msgs :: "sched_env \<Rightarrow> TimePoint \<Rightarrow> nat \<Rightarrow> sched \<Rightarrow> sched res" where
  "handle_thread_msgs env now tid st =
     (let queue_idx = tid - 1
      in if queue_idx < length (sd_thread_msgs st) then
           let msgs = sd_thread_msgs st ! queue_idx
           in rbind (rfold (handle_thread_msg env now tid) st (take msg_process_batch msgs)) (\<lambda>st'.
                Inr (st'\<lparr>sd_thread_msgs := (sd_thread_msgs st')[queue_idx := drop msg_process_batch msgs]\<rparr>))
         else Inl OutOfRange)"

definition io_thread_round :: "sched_env \<Rightarrow> TimePoint \<Rightarrow> nat \<Rightarrow> polled \<Rightarrow> sched \<Rightarrow> sched res" where
  "io_thread_round env now tid po st =
     (let (calls, st1) = recv_call (po_call po) st
      in rbind (push_responses (tid - 1) calls st1) (\<lambda>st2.
         rbind (optional handle_data_request (po_data_req po) st2) (\<lambda>st3.
         rbind (recv_data (po_data_resp po) st3) (\<lambda>(datas, st4).
         rbind (push_responses (tid - 1) datas st4) (\<lambda>st5.
         rbind (handle_thread_msgs env now tid st5) (\<lambda>st6.
         rbind (get_kvs_responses env now tid po st6) (\<lambda>(kvs, st7).
         push_responses (tid - 1) kvs st7)))))))"

end
