(* ===== verification/Sched_Calls.thy ===== *)
theory Sched_Calls
  imports Comm_Receive
begin

text \<open>
  Scheduling of function calls on a worker node: \<open>forward_call_via_helper\<close>, \<open>schedule_func_call\<close> and
  \<open>check_trigger\<close> of \<^verbatim>\<open>src/src/scheduler/scheduler.cpp\<close> and \<open>check_object_arrival\<close> of
  \<^verbatim>\<open>object_handlers.cpp\<close>. The status of an executor is 0 (empty), 1 (available), 2 (await), 3 (busy)
  or 4 (error).
\<close>

definition get_avail_executor_num :: "sched \<Rightarrow> nat" where
  "get_avail_executor_num st = length (filter (\<lambda>(_, s). s = 0 \<or> s = 1) (sd_executor_status_map st))"

text \<open>An executor without a channel is a null pointer in \<open>executor_chans_map\<close>; its message is dropped.
  The send on a channel is taken to succeed, which it does while the message fits into the ring; a send that fails
  would only be logged, and the message lost.\<close>

definition send_to_executer :: "8 word \<Rightarrow> bytes \<Rightarrow> sched \<Rightarrow> sched" where
  "send_to_executer executor_id msg st =
     (let st' = st\<lparr>sd_executor_chans_map := um_touch False executor_id (sd_executor_chans_map st)\<rparr>
      in if um_get False executor_id (sd_executor_chans_map st) then emit (ToExecutor executor_id msg) st' else st')"

definition session_client_addr :: "string \<Rightarrow> sched \<Rightarrow> string" where
  "session_client_addr session_id st = um_get [] session_id (sd_session_client_addr_map st)"

definition touch_session :: "string \<Rightarrow> sched \<Rightarrow> sched" where
  "touch_session session_id st =
     st\<lparr>sd_session_client_addr_map := um_touch [] session_id (sd_session_client_addr_map st)\<rparr>"

subsection \<open>forward_call_via_helper\<close>

text \<open>Arguments that are keys are expected in groups of three: bucket, key and size.\<close>

fun args_data_size :: "string list \<Rightarrow> int \<Rightarrow> int res" where
  "args_data_size [] acc = Inr acc"
| "args_data_size (b # k # n # rest) acc = rbind (stoi n) (\<lambda>v. args_data_size rest (acc + v))"
| "args_data_size _ acc = Inl OutOfRange"

definition total_data_size :: "string list list \<Rightarrow> int res" where
  "total_data_size func_args_vec = rfold (\<lambda>acc func_args. args_data_size func_args acc) 0 func_args_vec"

fun pack_data_args :: "int \<Rightarrow> string list \<Rightarrow> sched \<Rightarrow> (string list \<times> sched) res" where
  "pack_data_args arg_flag [] st = Inr ([], st)"
| "pack_data_args arg_flag (b # k # n # rest) st =
     (let key_name = b @ kDelimiter @ k;
          size_len = um_get 0 key_name (sd_key_len_map st);
          st1 = st\<lparr>sd_key_len_map := um_touch 0 key_name (sd_key_len_map st)\<rparr>
      in rbind (shm_read key_name (unat size_len) st1) (\<lambda>real_data.
         rbind (pack_data_args arg_flag rest st1) (\<lambda>(args, st2).
         Inr ((if arg_flag = 1 then [real_data] else if arg_flag = 2 then [k, real_data] else []) @ args, st2))))"
| "pack_data_args arg_flag _ st = Inl OutOfRange"

definition pack_data_args_vec :: "int \<Rightarrow> string list list \<Rightarrow> sched \<Rightarrow> (string list list \<times> sched) res" where
  "pack_data_args_vec arg_flag func_args_vec st =
     rfold (\<lambda>(vec, st) func_args. rbind (pack_data_args arg_flag func_args st) (\<lambda>(args, st').
       Inr (vec @ [args], st'))) ([], st) func_args_vec"

text \<open>The sum is an \<open>int\<close>, the threshold unsigned: the comparison is unsigned.\<close>

definition forward_call_via_helper ::
    "string \<Rightarrow> string \<Rightarrow> string list \<Rightarrow> string list list \<Rightarrow> int \<Rightarrow> sched \<Rightarrow> sched res" where
  "forward_call_via_helper session_id app_name func_name_vec func_args_vec arg_flag st =
     (let forward = (\<lambda>args flag st. forward_func_call (session_client_addr session_id st) app_name func_name_vec
                       args flag session_id (touch_session session_id st))
      in if arg_flag > 0 then
           rbind (total_data_size func_args_vec) (\<lambda>data_size.
             if (word_of_int data_size :: 32 word) < forwardDataPackingThreshold
             then rbind (pack_data_args_vec arg_flag func_args_vec st) (\<lambda>(data_args_vec, st').
                    forward data_args_vec 0 st')
             else forward func_args_vec arg_flag st)
         else forward func_args_vec arg_flag st)"

subsection \<open>schedule_func_call\<close>

text \<open>The loop over the executors stops at the first one that is available and has the function.\<close>

fun find_executors :: "bool \<Rightarrow> 8 word uset \<Rightarrow> (8 word, 8 word) umap \<Rightarrow> 8 word list \<times> 8 word list" where
  "find_executors shared has_func [] = ([], [])"
| "find_executors shared has_func ((e, s) # rest) =
     (if s = 1 \<and> e \<in> set has_func then ([e], [])
      else let (warm, cold) = find_executors shared has_func rest
           in (warm, if s = 0 \<or> shared \<and> s = 1 then e # cold else cold))"

text \<open>1, flag of the arguments, whether the output is persisted, then the session, the function and its
  arguments, separated by bars.\<close>

definition call_message :: "int \<Rightarrow> bool \<Rightarrow> string \<Rightarrow> string \<Rightarrow> string list \<Rightarrow> bytes" where
  "call_message arg_flag persist session_id func_name func_args =
     [byte 1, byte (word_of_int (arg_flag + 1)), byte (if persist then 1 else 2)] @
     session_id @ ''|'' @ func_name @ concat (map (\<lambda>a. ''|'' @ a) func_args)"

definition note_rerun :: "TimePoint \<Rightarrow> string \<Rightarrow> string \<Rightarrow> string list \<Rightarrow> int \<Rightarrow> sched \<Rightarrow> sched res" where
  "note_rerun sched_time func_name session_id func_args arg_flag st =
     (let st0 = st\<lparr>sd_func_trigger_timeout_map := um_touch [] func_name (sd_func_trigger_timeout_map st)\<rparr>
      in rfold (\<lambda>st meta.
           rbind (update_trigger (rt_trigger_ptr meta) (notify_source_func func_name session_id func_args arg_flag) st)
             (\<lambda>st'. Inr (st'\<lparr>sd_rerun_check_queue := sd_rerun_check_queue st' @
                [\<lparr>rq_check_time = sched_time + uint (rt_timeout meta) * 1000000, rq_session = session_id,
                  rq_trigger_ptr = rt_trigger_ptr meta\<rparr>]\<rparr>)))
           st0 (um_get [] func_name (sd_func_trigger_timeout_map st)))"

definition start_call ::
    "TimePoint \<Rightarrow> 8 word \<Rightarrow> string \<Rightarrow> string \<Rightarrow> string list \<Rightarrow> int \<Rightarrow> sched \<Rightarrow> sched res" where
  "start_call now executor_id session_id func_name func_args arg_flag st =
     (let msg = call_message arg_flag (session_client_addr session_id st = []) session_id func_name func_args;
          st1 = send_to_executer executor_id msg (touch_session session_id st);
          st2 = st1\<lparr>sd_executor_status_map := um_put executor_id 2 (sd_executor_status_map st1)\<rparr>
      in note_rerun now func_name session_id func_args arg_flag st2)"

definition flatten_args :: "string list \<Rightarrow> string list" where
  "flatten_args func_args =
     concat (map (\<lambda>arg. if CHR ''|'' \<in> set arg then split arg (CHR ''|'') else [arg]) func_args)"

definition no_local_executor ::
    "sched_env \<Rightarrow> TimePoint \<Rightarrow> string \<Rightarrow> string \<Rightarrow> string \<Rightarrow> string list \<Rightarrow> int \<Rightarrow> sched \<Rightarrow> sched res" where
  "no_local_executor env now session_id app_name func_name func_args arg_flag st =
     (if se_sched_delay_time env > 0 then
        Inr (st\<lparr>sd_delay_call_queue := sd_delay_call_queue st @
               [\<lparr>dc_session_id = session_id, dc_app_name = app_name, dc_func_name = func_name,
                 dc_func_args = func_args, dc_arg_flag = arg_flag, dc_trigger_time = now\<rparr>]\<rparr>)
      else if se_reject_extra_req env then Inr st
      else if arg_flag > 0 \<and> func_args = [] then Inl OutOfRange
      else forward_call_via_helper session_id app_name [func_name]
             [if arg_flag > 0 \<and> CHR ''|'' \<in> set (hd func_args) then flatten_args func_args else func_args]
             arg_flag st)"

definition schedule_func_call ::
    "sched_env \<Rightarrow> TimePoint \<Rightarrow> string \<Rightarrow> string \<Rightarrow> string \<Rightarrow> string list \<Rightarrow> int \<Rightarrow> sched \<Rightarrow> sched res" where
  "schedule_func_call env now session_id app_name func_name func_args arg_flag st =
     (let (warm, cold) = find_executors (se_shared_executor env)
            (um_get [] func_name (sd_function_executor_map st)) (sd_executor_status_map st);
          st0 = (if 1 \<in> snd ` set (sd_executor_status_map st)
                 then st\<lparr>sd_function_executor_map := um_touch [] func_name (sd_function_executor_map st)\<rparr> else st)
      in if warm \<noteq> [] then
           rbind (sd_rand_mod env (length warm) st0) (\<lambda>(i, st1).
             start_call now (warm ! i) session_id func_name func_args arg_flag st1)
         else if cold \<noteq> [] then
           rbind (sd_rand_mod env (length cold) st0) (\<lambda>(i, st1).
             start_call now (cold ! i) session_id func_name func_args arg_flag
               (st1\<lparr>sd_function_executor_map :=
                      um_alter [] (us_insert (cold ! i)) func_name (sd_function_executor_map st1)\<rparr>))
         else no_local_executor env now session_id app_name func_name func_args arg_flag st0)"

subsection \<open>check_object_arrival\<close>

definition object_names :: "Bucket \<Rightarrow> TriggerAction \<Rightarrow> string list" where
  "object_names bucket action = map (\<lambda>(session, key). get_local_object_name bucket key session) (ta_session_keys action)"

text \<open>The flag belongs to the trigger: once an action has its data packed, the flag is 0 for the actions
  that follow.\<close>

definition action_metadata ::
    "Bucket \<Rightarrow> int \<times> TriggerFunctionMetadata list \<times> sched \<Rightarrow> TriggerAction
       \<Rightarrow> int \<times> TriggerFunctionMetadata list \<times> sched" where
  "action_metadata bucket = (\<lambda>(arg_flag, metas, st) action.
     let names = object_names bucket action
     in if \<forall>n\<in>set names. um_has n (sd_key_val_map st) then
          (0, metas @ [mk_metadata (ta_function action) (map (\<lambda>n. um_get [] n (sd_key_val_map st)) names) 0], st)
        else
          (arg_flag,
           metas @ [mk_metadata (ta_function action)
             (concat (map (\<lambda>n. [n, to_string (unat (um_get 0 n (sd_key_len_map st)))]) names)) arg_flag],
           st\<lparr>sd_key_len_map := fold (um_touch 0) names (sd_key_len_map st)\<rparr>))"

text \<open>As at the coordinator, the successor of the option of a trigger is taken not to leave 32 bits.\<close>

definition arrival_step ::
    "TimePoint \<Rightarrow> BucketKey \<Rightarrow> string list \<times> TriggerFunctionMetadata list \<times> sched \<Rightarrow> nat
       \<Rightarrow> (string list \<times> TriggerFunctionMetadata list \<times> sched) res" where
  "arrival_step now bucket_key = (\<lambda>(active, metas, st) p.
     rbind (deref p st) (\<lambda>t.
       let (actions, t') = action_for_new_object now bucket_key t;
           st1 = st\<lparr>sd_trigger_store := (sd_trigger_store st)[p := t']\<rparr>
       in if actions = [] then Inr (active, metas, st1)
          else let (_, metas', st2) = foldl (action_metadata (bk_bucket bucket_key))
                     (get_trigger_option t' + 1, metas, st1) actions
               in Inr (active @ [get_trigger_name t'], metas', st2)))"

definition check_object_arrival ::
    "TimePoint \<Rightarrow> BucketKey \<Rightarrow> sched \<Rightarrow> (string list \<times> TriggerFunctionMetadata list \<times> sched) res" where
  "check_object_arrival now bucket_key st =
     (let bucket = bk_bucket bucket_key;
          st0 = st\<lparr>sd_bucket_triggers_map := um_touch [] bucket (sd_bucket_triggers_map st)\<rparr>
      in rfold (arrival_step now bucket_key) ([], [], st0) (um_get [] bucket (sd_bucket_triggers_map st)))"

definition check_trigger ::
    "sched_env \<Rightarrow> TimePoint \<Rightarrow> BucketKey \<Rightarrow> string \<Rightarrow> sched \<Rightarrow> (string list \<times> sched) res" where
  "check_trigger env now bucket_key session_id st =
     rbind (check_object_arrival now bucket_key st) (\<lambda>(active_triggers, metas, st1).
     rbind (rfold (\<lambda>st meta.
         schedule_func_call env now session_id (um_get [] (bk_bucket bucket_key) (sd_bucket_app_map st))
           (tfm_func_name meta) (tfm_func_args meta) (tfm_arg_flag meta)
           (st\<lparr>sd_bucket_app_map := um_touch [] (bk_bucket bucket_key) (sd_bucket_app_map st)\<rparr>))
       st1 metas) (\<lambda>st2.
     Inr (active_triggers, st2)))"

end
