(* ===== verification/Sched_Messages.thy ===== *)
theory Sched_Messages
  imports Sched_Calls
begin

text \<open>
  The handlers of the main loop \<open>run\<close> of \<^verbatim>\<open>src/src/scheduler/scheduler.cpp\<close>: what an executor writes to the
  channel of the scheduler, and the messages that \<open>try_recv_msg\<close> returns.
\<close>

definition executor_answer :: "8 word \<Rightarrow> bytes \<Rightarrow> bytes" where
  "executor_answer req_id payload = [byte 3, byte req_id, byte 1] @ payload"

subsection \<open>Get requests of executors\<close>

definition remember_get :: "string \<Rightarrow> InflightIORequest \<Rightarrow> sched \<Rightarrow> sched" where
  "remember_get key_name req st =
     st\<lparr>sd_key_remote_get_map := um_alter [] (\<lambda>rs. rs @ [req]) key_name (sd_key_remote_get_map st)\<rparr>"

definition get_object ::
    "sched_env \<Rightarrow> TimePoint \<Rightarrow> 8 word \<Rightarrow> bool \<Rightarrow> 8 word \<Rightarrow> string \<Rightarrow> sched \<Rightarrow> sched res" where
  "get_object env now executor_id from_ephe_store req_id key_name st =
     (let get_req = \<lparr>io_executor_id = executor_id, io_req_id = req_id, io_recv_time = now\<rparr>
      in if from_ephe_store then
           case map_of (sd_key_len_map st) key_name of
             Some size_len \<Rightarrow>
               Inr (send_to_executer executor_id (executor_answer req_id (to_string (unat size_len))) st)
           | None \<Rightarrow> rbind (send_data_req key_name st) (\<lambda>st'. Inr (remember_get key_name get_req st'))
         else
           let key_info = split key_name (CHR ''|'')
           in if length key_info < 2 then Inl OutOfRange
              else rbind (get_kvs_async env now (key_info ! 1) st) (\<lambda>st'. Inr (remember_get key_name get_req st')))"

definition handle_get_request :: "sched_env \<Rightarrow> TimePoint \<Rightarrow> 8 word \<Rightarrow> bytes \<Rightarrow> sched \<Rightarrow> sched res" where
  "handle_get_request env now executor_id str st =
     rbind (byte_at str 2) (\<lambda>store.
     rbind (byte_at str 3) (\<lambda>req_id.
     rbind (byte_at str 4) (\<lambda>meta_data_len.
     rbind (bytes_at str 5 (unat meta_data_len)) (\<lambda>key_name.
     get_object env now executor_id (store = 1) req_id key_name st))))"

subsection \<open>Objects that executors send\<close>

record object_info =
  oi_session_id :: string
  oi_src_function :: string
  oi_tgt_function :: string
  oi_bucket :: string
  oi_session_key :: string
  oi_data :: string

definition obj_name :: "object_info \<Rightarrow> string" where
  "obj_name info = oi_bucket info @ kDelimiter @ oi_session_key info"

definition record_object :: "8 word \<Rightarrow> object_info \<Rightarrow> sched \<Rightarrow> sched res" where
  "record_object packing info st =
     (if packing = 1 then
        Inr (st\<lparr>sd_key_val_map := um_put (obj_name info) (oi_data info) (sd_key_val_map st),
               sd_key_len_map := um_put (obj_name info) (of_nat (length (oi_data info))) (sd_key_len_map st)\<rparr>)
      else if packing = 2 then
        rbind (stoi (oi_data info)) (\<lambda>size_int.
          Inr (st\<lparr>sd_key_len_map := um_put (obj_name info) (word_of_int size_int) (sd_key_len_map st)\<rparr>))
      else Inr st)"

definition direct_args :: "8 word \<Rightarrow> object_info \<Rightarrow> sched \<Rightarrow> string list \<times> int" where
  "direct_args packing info st =
     (if packing = 1 then ([um_get [] (obj_name info) (sd_key_val_map st)], 0)
      else if packing = 2 then ([obj_name info, oi_data info], 1)
      else ([], 1))"

text \<open>With no target every dependent function is called: as many as there are executors here, the others
  are forwarded in one call.\<close>

definition direct_invocation ::
    "sched_env \<Rightarrow> TimePoint \<Rightarrow> string \<Rightarrow> string \<Rightarrow> string uset \<Rightarrow> string \<Rightarrow> string list \<Rightarrow> int \<Rightarrow> sched \<Rightarrow> sched res" where
  "direct_invocation env now session_id app_name deps tgt_function func_args arg_flag st =
     (let schedule_all = rfold (\<lambda>st func. schedule_func_call env now session_id app_name func func_args arg_flag st)
      in if tgt_function = [] then
           let avail_executors = get_avail_executor_num st
           in if length deps > avail_executors then
                let remote_funcs = drop avail_executors deps
                in rbind (schedule_all st (take avail_executors deps)) (\<lambda>st'.
                     if se_reject_extra_req env then Inr st'
                     else forward_call_via_helper session_id app_name remote_funcs
                            (replicate (length remote_funcs) func_args) arg_flag st')
              else schedule_all st deps
         else if tgt_function \<in> set deps
         then schedule_func_call env now session_id app_name tgt_function func_args arg_flag st
         else Inr st)"

definition notify_object :: "sched_env \<Rightarrow> TimePoint \<Rightarrow> 8 word \<Rightarrow> object_info \<Rightarrow> sched \<Rightarrow> sched res" where
  "notify_object env now packing info st =
     (let bucket_key = BucketKey_of_session_key (oi_bucket info) (oi_session_key info);
          session_id = oi_session_id info
      in rbind (check_trigger env now bucket_key session_id st) (\<lambda>(active_triggers, st1).
         rbind (if packing = 1
                then notify_put bucket_key active_triggers (session_client_addr session_id st1)
                       (um_get [] (obj_name info) (sd_key_val_map st1)) (touch_session session_id st1)
                else if packing = 2
                then notify_put bucket_key active_triggers (session_client_addr session_id st1) emptyString
                       (touch_session session_id st1)
                else Inr st1) (\<lambda>st2.
         Inr (st2\<lparr>sd_call_id := sd_call_id st2 + of_nat (length active_triggers)\<rparr>))))"

definition send_ephemeral :: "sched_env \<Rightarrow> TimePoint \<Rightarrow> 8 word \<Rightarrow> object_info \<Rightarrow> sched \<Rightarrow> sched res" where
  "send_ephemeral env now packing info st =
     rbind (record_object packing info st) (\<lambda>st1.
       let src = oi_src_function info;
           app_name = um_get [] src (sd_func_app_map st1);
           deps = ai_direct_deps (um_get no_AppInfo app_name (sd_app_info_map st1));
           st2 = st1\<lparr>sd_func_app_map := um_touch [] src (sd_func_app_map st1),
                     sd_app_info_map := um_touch no_AppInfo app_name (sd_app_info_map st1)\<rparr>
       in case map_of deps src of
            Some targets \<Rightarrow>
              let (func_args, arg_flag) = direct_args packing info st2
              in direct_invocation env now (oi_session_id info) app_name targets (oi_tgt_function info)
                   func_args arg_flag st2
          | None \<Rightarrow>
              if oi_bucket info \<noteq> bucketNameDirectInvoc then notify_object env now packing info st2 else Inr st2)"

text \<open>The pointer to a segment that does not exist is null.\<close>

definition shm_ptr :: "string \<Rightarrow> sched \<Rightarrow> data_ptr" where
  "shm_ptr name st = (if um_has name (sd_shm st) then ShmData name else NoData)"

definition send_to_kvs ::
    "sched_env \<Rightarrow> TimePoint \<Rightarrow> 8 word \<Rightarrow> 8 word \<Rightarrow> 8 word \<Rightarrow> object_info \<Rightarrow> sched \<Rightarrow> sched res" where
  "send_to_kvs env now executor_id req_id packing info st =
     rbind (if packing = 1
            then put_kvs_async env now (oi_session_key info) (HeapData (oi_data info)) (of_nat (length (oi_data info))) st
            else if packing = 2
            then rbind (stoi (oi_data info)) (\<lambda>size_int.
                   put_kvs_async env now (oi_session_key info) (shm_ptr (obj_name info) st) (word_of_int size_int) st)
            else Inr st) (\<lambda>st'.
     Inr (st'\<lparr>sd_key_ksv_put_map := um_alter []
            (\<lambda>rs. rs @ [\<lparr>io_executor_id = executor_id, io_req_id = req_id, io_recv_time = now\<rparr>])
            (oi_session_key info) (sd_key_ksv_put_map st')\<rparr>))"

definition send_to_client :: "8 word \<Rightarrow> object_info \<Rightarrow> sched \<Rightarrow> sched res" where
  "send_to_client packing info st =
     rbind (if packing = 1 then Inr (oi_data info)
            else if packing = 2
            then rbind (stoi (oi_data info)) (\<lambda>size_int.
                   if size_int < 0 then Inl OutOfRange else shm_read (obj_name info) (nat size_int) st)
            else Inr []) (\<lambda>output_data.
       let src = oi_src_function info; session_id = oi_session_id info
       in Inr (client_response (session_client_addr session_id st) (um_get [] src (sd_func_app_map st)) output_data
            ((touch_session session_id st)\<lparr>sd_func_app_map := um_touch [] src (sd_func_app_map st)\<rparr>)))"

definition parse_object :: "bytes \<Rightarrow> object_info option res" where
  "parse_object str =
     rbind (c_string str 4) (\<lambda>params.
       let infos = split params (CHR ''|'')
       in Inr (if length infos < 6 then None
               else Some \<lparr>oi_session_id = infos ! 0, oi_src_function = infos ! 1, oi_tgt_function = infos ! 2,
                          oi_bucket = infos ! 3, oi_session_key = infos ! 4, oi_data = infos ! 5\<rparr>))"

definition handle_send_object :: "sched_env \<Rightarrow> TimePoint \<Rightarrow> 8 word \<Rightarrow> 8 word \<Rightarrow> bytes \<Rightarrow> sched \<Rightarrow> sched res" where
  "handle_send_object env now executor_id kind str st =
     rbind (byte_at str 2) (\<lambda>req_id.
     rbind (byte_at str 3) (\<lambda>packing.
     rbind (parse_object str) (\<lambda>parsed.
       case parsed of
         None \<Rightarrow> Inr st
       | Some info \<Rightarrow>
           if kind = 2 then send_ephemeral env now packing info st
           else if kind = 3 then send_to_kvs env now executor_id req_id packing info st
           else send_to_client packing info st)))"

subsection \<open>Status of executors\<close>

definition executor_busy :: "8 word \<Rightarrow> sched \<Rightarrow> sched" where
  "executor_busy executor_id st =
     st\<lparr>sd_executor_status_map := um_put executor_id 3 (sd_executor_status_map st)\<rparr>"

definition executor_available :: "8 word \<Rightarrow> sched \<Rightarrow> sched" where
  "executor_available executor_id st =
     (let s = um_get 0 executor_id (sd_executor_status_map st)
      in st\<lparr>sd_executor_status_map :=
            um_put executor_id (if s = 0 \<or> s = 2 then 0 else 1) (sd_executor_status_map st)\<rparr>)"

text \<open>A message of an executor: its number plus one, the kind of request, then what the kind asks for.\<close>

definition handle_executor_msg :: "sched_env \<Rightarrow> TimePoint \<Rightarrow> bytes \<Rightarrow> sched \<Rightarrow> sched res" where
  "handle_executor_msg env now str st =
     rbind (byte_at str 0) (\<lambda>executor_address.
     rbind (byte_at str 1) (\<lambda>kind.
       let executor_id = executor_address - 1
       in if kind = 1 then handle_get_request env now executor_id str st
          else if 2 \<le> kind \<and> kind \<le> 4 then handle_send_object env now executor_id kind str st
          else if kind = 6 then Inr (executor_busy executor_id st)
          else if kind = 7 then Inr (executor_available executor_id st)
          else Inr st))"

subsection \<open>Messages from the helper\<close>

text \<open>The arguments of a call with their sizes.\<close>

definition sized_args :: "string list \<Rightarrow> sched \<Rightarrow> string list \<times> sched" where
  "sized_args keys st =
     (concat (map (\<lambda>k. [k, to_string (unat (um_get 0 k (sd_key_len_map st)))]) keys),
      st\<lparr>sd_key_len_map := fold (um_touch 0) keys (sd_key_len_map st)\<rparr>)"

text \<open>An argument that is not here is asked for, once.\<close>

definition fetch_arg :: "string uset \<times> sched \<Rightarrow> string \<Rightarrow> (string uset \<times> sched) res" where
  "fetch_arg = (\<lambda>(inflight, st) arg.
     if um_has arg (sd_key_len_map st) then Inr (inflight, st)
     else rbind (if um_has arg (sd_key_call_id_map st) then Inr st else send_data_req arg st) (\<lambda>st'.
            Inr (us_insert arg inflight,
                 st'\<lparr>sd_key_call_id_map := um_alter [] (us_insert (sd_call_id st')) arg (sd_key_call_id_map st')\<rparr>)))"

definition call_one ::
    "sched_env \<Rightarrow> TimePoint \<Rightarrow> string \<Rightarrow> string \<Rightarrow> sched \<Rightarrow> string \<times> string list \<times> int \<Rightarrow> sched res" where
  "call_one env now session_id app_name st = (\<lambda>(func_name, func_args, is_func_arg_key).
     rbind (if is_func_arg_key > 0 then
              rbind (rfold fetch_arg ([], st) func_args) (\<lambda>(inflight, st1).
                if inflight = [] then
                  let (func_full_args, st2) = sized_args func_args st1
                  in schedule_func_call env now session_id app_name func_name func_full_args is_func_arg_key st2
                else Inr (st1\<lparr>sd_call_id_inflight_args_map := um_put (sd_call_id st1)
                       \<lparr>if_func_name = func_name, if_session_id = session_id, if_key_args = func_args,
                        if_inflight_args = inflight, if_arg_flag = is_func_arg_key\<rparr>
                       (sd_call_id_inflight_args_map st1)\<rparr>))
            else schedule_func_call env now session_id app_name func_name func_args 0 st) (\<lambda>st'.
     Inr (st'\<lparr>sd_call_id := sd_call_id st' + 1\<rparr>)))"

definition handle_call :: "sched_env \<Rightarrow> TimePoint \<Rightarrow> RecvMsg \<Rightarrow> sched \<Rightarrow> sched res" where
  "handle_call env now m st =
     rfold (call_one env now (rv_session_id m) (rv_app_name m))
       (st\<lparr>sd_session_client_addr_map :=
             um_put (rv_session_id m) (rv_resp_address m) (sd_session_client_addr_map st)\<rparr>)
       (zip (rv_func_name m) (zip (rv_func_args m) (rv_is_func_arg_keys m)))"

definition answer_all :: "bytes \<Rightarrow> InflightIORequest list \<Rightarrow> sched \<Rightarrow> sched" where
  "answer_all payload reqs st =
     fold (\<lambda>r. send_to_executer (io_executor_id r) (executor_answer (io_req_id r) payload)) reqs st"

definition answer_gets :: "string \<Rightarrow> bytes \<Rightarrow> sched \<Rightarrow> sched" where
  "answer_gets key payload st =
     (case map_of (sd_key_remote_get_map st) key of
        None \<Rightarrow> st
      | Some reqs \<Rightarrow>
          let st' = answer_all payload reqs st
          in st'\<lparr>sd_key_remote_get_map := um_erase key (sd_key_remote_get_map st')\<rparr>)"

text \<open>One call that waited for the key.\<close>

definition resume_call :: "sched_env \<Rightarrow> TimePoint \<Rightarrow> string \<Rightarrow> sched \<Rightarrow> 32 word \<Rightarrow> sched res" where
  "resume_call env now key st cid =
     (let f = um_get no_InflightFuncArgs cid (sd_call_id_inflight_args_map st);
          f' = f\<lparr>if_inflight_args := us_erase key (if_inflight_args f)\<rparr>;
          st1 = st\<lparr>sd_call_id_inflight_args_map := um_put cid f' (sd_call_id_inflight_args_map st)\<rparr>
      in if if_inflight_args f' = [] then
           let (func_args, st2) = sized_args (if_key_args f') st1;
               func = if_func_name f';
               st3 = st2\<lparr>sd_func_app_map := um_touch [] func (sd_func_app_map st2)\<rparr>
           in rbind (schedule_func_call env now (if_session_id f') (um_get [] func (sd_func_app_map st2)) func
                       func_args (if_arg_flag f') st3) (\<lambda>st4.
                Inr (st4\<lparr>sd_call_id_inflight_args_map := um_erase cid (sd_call_id_inflight_args_map st4)\<rparr>))
         else Inr st1)"

definition resume_calls :: "sched_env \<Rightarrow> TimePoint \<Rightarrow> string \<Rightarrow> sched \<Rightarrow> sched res" where
  "resume_calls env now key st =
     (case map_of (sd_key_call_id_map st) key of
        None \<Rightarrow> Inr st
      | Some cids \<Rightarrow>
          rbind (rfold (resume_call env now key) st cids) (\<lambda>st'.
            Inr (st'\<lparr>sd_key_call_id_map := um_erase key (sd_key_call_id_map st')\<rparr>)))"

text \<open>The size is appended to the answer as one character: \<open>resp += comm_resp.data_size_\<close>.\<close>

definition handle_data_arrived :: "sched_env \<Rightarrow> TimePoint \<Rightarrow> RecvMsg \<Rightarrow> sched \<Rightarrow> sched res" where
  "handle_data_arrived env now m st =
     resume_calls env now (rv_data_key m)
       (answer_gets (rv_data_key m) [byte (ucast (rv_data_size m))]
         (st\<lparr>sd_key_len_map := um_put (rv_data_key m) (rv_data_size m) (sd_key_len_map st)\<rparr>))"

definition handle_kvs_got :: "RecvMsg \<Rightarrow> sched \<Rightarrow> sched" where
  "handle_kvs_got m st =
     (let local_obj_name = kvsKeyPrefix @ ''|'' @ rv_data_key m
      in answer_gets local_obj_name (to_string (unat (rv_data_size m)))
           (st\<lparr>sd_key_len_map := um_put local_obj_name (rv_data_size m) (sd_key_len_map st)\<rparr>))"

definition handle_kvs_put :: "RecvMsg \<Rightarrow> sched \<Rightarrow> sched" where
  "handle_kvs_put m st =
     (case map_of (sd_key_ksv_put_map st) (rv_data_key m) of
        None \<Rightarrow> st
      | Some reqs \<Rightarrow>
          let st' = answer_all [] reqs st
          in st'\<lparr>sd_key_ksv_put_map := um_erase (rv_data_key m) (sd_key_ksv_put_map st')\<rparr>)"

definition handle_recv_msg :: "sched_env \<Rightarrow> TimePoint \<Rightarrow> sched \<Rightarrow> RecvMsg \<Rightarrow> sched res" where
  "handle_recv_msg env now st m =
     (case rv_msg_type m of
        Call \<Rightarrow> handle_call env now m st
      | DataResp \<Rightarrow> handle_data_arrived env now m st
      | KvsGetResp \<Rightarrow> Inr (handle_kvs_got m st)
      | KvsPutResp \<Rightarrow> Inr (handle_kvs_put m st)
      | Null \<Rightarrow> Inr st)"

end
