(* ===== verification/Scheduler.thy ===== *)
theory Scheduler
  imports Sched_Messages
begin

text \<open>
  The main loop of a worker node, \<open>run\<close> of \<^verbatim>\<open>src/src/scheduler/scheduler.cpp\<close>: one round handles at most one
  message of an executor, what the helper has received, the delayed calls and, every 10 milliseconds, the rerun
  checks and the status report. A round and a round of an input-output thread are atomic here; the node is the
  interleaving of such rounds with the writes of executors to shared memory.

  The clock is read three times in a round: before the work (\<open>ri_now\<close>), at the test of the timer
  (\<open>ri_report_end\<close>) and after it (\<open>ri_after\<close>).
\<close>

subsection \<open>Delayed calls\<close>

fun run_delayed :: "sched_env \<Rightarrow> TimePoint \<Rightarrow> nat \<Rightarrow> sched \<Rightarrow> sched res" where
  "run_delayed env now 0 st = Inr st"
| "run_delayed env now (Suc n) st =
     (case sd_delay_call_queue st of
        [] \<Rightarrow> Inr st
      | c # _ \<Rightarrow>
          rbind (schedule_func_call env now (dc_session_id c) (dc_app_name c) (dc_func_name c) (dc_func_args c)
                   (dc_arg_flag c) st) (\<lambda>st'.
          run_delayed env now n (st'\<lparr>sd_delay_call_queue := tl (sd_delay_call_queue st')\<rparr>)))"

fun forward_expired :: "sched_env \<Rightarrow> TimePoint \<Rightarrow> DelayFunctionCall list \<Rightarrow> sched \<Rightarrow> sched res" where
  "forward_expired env now [] st = Inr st"
| "forward_expired env now (c # cs) st =
     (if to_us (now - dc_trigger_time c) > uint (se_sched_delay_time env) then
        rbind (if se_reject_extra_req env then Inr st
               else forward_call_via_helper (dc_session_id c) (dc_app_name c) [dc_func_name c] [dc_func_args c]
                      (dc_arg_flag c) st) (\<lambda>st'.
        forward_expired env now cs (st'\<lparr>sd_delay_call_queue := cs\<rparr>))
      else Inr st)"

definition delay_forwarding :: "sched_env \<Rightarrow> TimePoint \<Rightarrow> sched \<Rightarrow> sched res" where
  "delay_forwarding env now st =
     (if sd_delay_call_queue st = [] then Inr st
      else rbind (run_delayed env now (get_avail_executor_num st) st) (\<lambda>st'.
             forward_expired env now (sd_delay_call_queue st') st'))"

subsection \<open>Rerun checks\<close>

text \<open>The priority queue: the earliest check comes first, among equal ones the oldest.\<close>

fun queue_top :: "RerunCheckQueueItem list \<Rightarrow> RerunCheckQueueItem option" where
  "queue_top [] = None"
| "queue_top (x # xs) =
     (case queue_top xs of
        None \<Rightarrow> Some x
      | Some y \<Rightarrow> if rq_check_time y < rq_check_time x then Some y else Some x)"

definition queue_pop :: "RerunCheckQueueItem list \<Rightarrow> RerunCheckQueueItem list" where
  "queue_pop q = (case queue_top q of None \<Rightarrow> q | Some x \<Rightarrow> remove1 x q)"

definition rerun_item :: "sched_env \<Rightarrow> TimePoint \<Rightarrow> RerunCheckQueueItem \<Rightarrow> sched \<Rightarrow> sched res" where
  "rerun_item env now item st =
     rbind (deref (rq_trigger_ptr item) st) (\<lambda>t.
       rfold (\<lambda>st meta.
         let func = tfm_func_name meta
         in schedule_func_call env now (rq_session item) (um_get [] func (sd_func_app_map st)) func
              (tfm_func_args meta) (tfm_arg_flag meta)
              (st\<lparr>sd_func_app_map := um_touch [] func (sd_func_app_map st)\<rparr>))
         st (action_for_rerun (rq_session item) t))"

text \<open>The loop schedules calls that add checks to the queue; \<open>None\<close> stands for a loop that does not end.
  Every call it schedules reads the clock; the loop is short, and \<open>now\<close> stands for all of these readings.\<close>

partial_function (option) rerun_checks ::
    "sched_env \<Rightarrow> TimePoint \<Rightarrow> TimePoint \<Rightarrow> sched \<Rightarrow> sched res option" where
  "rerun_checks env now report_end st =
     (case queue_top (sd_rerun_check_queue st) of
        None \<Rightarrow> Some (Inr st)
      | Some item \<Rightarrow>
          if rq_check_time item \<le> report_end then
            (case rerun_item env now item st of
               Inl e \<Rightarrow> Some (Inl e)
             | Inr st' \<Rightarrow> rerun_checks env now report_end
                 (st'\<lparr>sd_rerun_check_queue := queue_pop (sd_rerun_check_queue st')\<rparr>))
          else Some (Inr st))"

definition returned :: "'a res option \<Rightarrow> 'a res" where
  "returned r = (case r of None \<Rightarrow> Inl NoReturn | Some x \<Rightarrow> x)"

definition timer :: "sched_env \<Rightarrow> TimePoint \<Rightarrow> TimePoint \<Rightarrow> sched \<Rightarrow> sched res" where
  "timer env report_end after st =
     (if to_ms (report_end - sd_report_start st) \<ge> uint schedTimerThreshold then
        rbind (returned (rerun_checks env after report_end st)) (\<lambda>st'.
          Inr ((helper_update_status (int (get_avail_executor_num st')) (sd_function_cache st') st')
                 \<lparr>sd_report_start := after\<rparr>))
      else Inr st)"

subsection \<open>The main loop\<close>

record round_in =
  ri_message :: "bytes option"
  ri_polled :: polled
  ri_now :: TimePoint
  ri_report_end :: TimePoint
  ri_after :: TimePoint

definition sched_round :: "sched_env \<Rightarrow> round_in \<Rightarrow> sched \<Rightarrow> sched res" where
  "sched_round env ri st =
     rbind (optional (handle_executor_msg env (ri_now ri)) (ri_message ri) st) (\<lambda>st1.
     rbind (try_recv_msg env (ri_now ri) (ri_polled ri) st1) (\<lambda>(comm_resps, st2).
     rbind (rfold (handle_recv_msg env (ri_now ri)) st2 comm_resps) (\<lambda>st3.
     rbind (delay_forwarding env (ri_now ri) st3) (\<lambda>st4.
     timer env (ri_report_end ri) (ri_after ri) st4))))"

text \<open>The counter of the loop that creates the executors has 8 bits: with more than 255 executors it does
  not end.\<close>

definition init_executors :: "nat \<Rightarrow> ((8 word, 8 word) umap \<times> (8 word, bool) umap) res" where
  "init_executors executor =
     (if executor \<le> 255
      then Inr (map (\<lambda>e. (of_nat e, 2)) [0..<executor], map (\<lambda>e. (of_nat e, True)) [0..<executor])
      else Inl NoReturn)"

record sched_conf =
  cf_coord_thread_count :: nat
  cf_io_thread_count :: nat
  cf_ip :: Address
  cf_executor_num :: nat
  cf_coord_ips :: "Address list"
  cf_kvs_routing_ips :: "Address list"

text \<open>\<open>main\<close> and the start of \<open>run\<close>. The seeds are taken from the clock. Without a coordinator \<open>main\<close>
  calls \<open>exit(1)\<close>, but \<open>exit\<close> is a local function there that disconnects the channels and returns: the node
  starts all the same, with no coordinator to report to.\<close>

definition init_sched :: "sched_conf \<Rightarrow> TimePoint \<Rightarrow> 32 word \<Rightarrow> sched res" where
  "init_sched cf now seed =
     rbind (init_executors (cf_executor_num cf)) (\<lambda>(status, chans).
        let threads = concat (map (\<lambda>addr. map (\<lambda>i. mk_thread addr (of_nat i)) [0..<cf_coord_thread_count cf]) (cf_coord_ips cf));
            routing = concat (map (\<lambda>addr. map (\<lambda>i. mk_thread addr (of_nat i)) [0..<4]) (cf_kvs_routing_ips cf));
            client = (\<lambda>tid. new_KvsClient routing (cf_ip cf) (of_nat tid) 30000 seed)
        in Inr \<lparr>sd_helper = new_CommHelper threads (cf_ip cf) (of_nat (cf_io_thread_count cf)),
                sd_kvs_clients = map client (0 # [1..<cf_io_thread_count cf]),
                sd_thread_msgs = replicate (cf_io_thread_count cf - 1) [],
                sd_resp_queues = replicate (cf_io_thread_count cf - 1) [],
                sd_shm = [], sd_key_len_map = [], sd_key_val_map = [], sd_session_client_addr_map = [],
                sd_delay_call_queue = [], sd_rerun_check_queue = [], sd_func_trigger_timeout_map = [],
                sd_trigger_store = [], sd_bucket_triggers_map = [], sd_executor_chans_map = chans,
                sd_executor_status_map = status, sd_function_executor_map = [], sd_function_cache = [],
                sd_call_id = 0, sd_call_id_inflight_args_map = [], sd_key_call_id_map = [],
                sd_key_remote_get_map = [], sd_key_ksv_put_map = [], sd_app_info_map = [],
                sd_func_app_map = [], sd_bucket_app_map = [], sd_report_start = now, sd_ram_seed = seed,
                sd_sent = []\<rparr>)"

subsection \<open>The node as an event system\<close>

datatype sched_event =
    MainRound round_in
  | IoRound nat TimePoint polled
  | ShmWrite string bytes

fun sched_step :: "sched_env \<Rightarrow> sched \<Rightarrow> sched_event \<Rightarrow> sched res" where
  "sched_step env st (MainRound ri) = sched_round env ri st"
| "sched_step env st (IoRound tid now po) = io_thread_round env now tid po st"
| "sched_step env st (ShmWrite name data) = copy_to_shm_obj name data st"

definition sched_handle :: "sched_env \<Rightarrow> sched \<Rightarrow> sched_event \<Rightarrow> (sched \<times> sched_out list) res" where
  "sched_handle env st e = rbind (sched_step env st e) (\<lambda>st'. Inr (st'\<lparr>sd_sent := []\<rparr>, sd_sent st'))"

end
