(* ===== verification/Sched_Frames.thy ===== *)
theory Sched_Frames
  imports Scheduler
begin

text \<open>
  What the communication of a worker node leaves alone: triggers, executors, delayed calls and calls that wait
  for arguments. Every operation of the helper keeps the \<open>core\<close> of the state and sends nothing to executors.
\<close>

named_theorems frame_intros \<open>operations that keep the core of the state\<close>

definition core :: "sched \<Rightarrow> sched" where
  "core st = st\<lparr>sd_helper := new_CommHelper [] [] 0, sd_kvs_clients := [], sd_thread_msgs := [],
     sd_shm := [], sd_key_len_map := [], sd_session_client_addr_map := [], sd_sent := []\<rparr>"

fun exec_out :: "sched_out \<Rightarrow> (8 word \<times> bytes) list" where
  "exec_out (ToSocket a w) = []"
| "exec_out (ToExecutor e m) = [(e, m)]"

text \<open>What has been sent to executors, in order.\<close>

definition exec_sent :: "sched \<Rightarrow> (8 word \<times> bytes) list" where
  "exec_sent st = concat (map exec_out (sd_sent st))"

definition comm_frame :: "sched \<Rightarrow> sched \<Rightarrow> bool" where
  "comm_frame st st' \<longleftrightarrow> core st' = core st \<and> exec_sent st' = exec_sent st"

lemma core_sel:
  "sd_resp_queues (core st) = sd_resp_queues st"
  "sd_key_val_map (core st) = sd_key_val_map st"
  "sd_delay_call_queue (core st) = sd_delay_call_queue st"
  "sd_rerun_check_queue (core st) = sd_rerun_check_queue st"
  "sd_func_trigger_timeout_map (core st) = sd_func_trigger_timeout_map st"
  "sd_trigger_store (core st) = sd_trigger_store st"
  "sd_bucket_triggers_map (core st) = sd_bucket_triggers_map st"
  "sd_executor_chans_map (core st) = sd_executor_chans_map st"
  "sd_executor_status_map (core st) = sd_executor_status_map st"
  "sd_function_executor_map (core st) = sd_function_executor_map st"
  "sd_function_cache (core st) = sd_function_cache st"
  "sd_call_id (core st) = sd_call_id st"
  "sd_call_id_inflight_args_map (core st) = sd_call_id_inflight_args_map st"
  "sd_key_call_id_map (core st) = sd_key_call_id_map st"
  "sd_key_remote_get_map (core st) = sd_key_remote_get_map st"
  "sd_key_ksv_put_map (core st) = sd_key_ksv_put_map st"
  "sd_app_info_map (core st) = sd_app_info_map st"
  "sd_func_app_map (core st) = sd_func_app_map st"
  "sd_bucket_app_map (core st) = sd_bucket_app_map st"
  "sd_report_start (core st) = sd_report_start st"
  "sd_ram_seed (core st) = sd_ram_seed st"
  by (simp_all add: core_def)

lemma core_fields:
  assumes "core st' = core st"
  shows "sd_resp_queues st' = sd_resp_queues st" "sd_key_val_map st' = sd_key_val_map st"
    "sd_delay_call_queue st' = sd_delay_call_queue st" "sd_rerun_check_queue st' = sd_rerun_check_queue st"
    "sd_func_trigger_timeout_map st' = sd_func_trigger_timeout_map st"
    "sd_trigger_store st' = sd_trigger_store st" "sd_bucket_triggers_map st' = sd_bucket_triggers_map st"
    "sd_executor_chans_map st' = sd_executor_chans_map st" "sd_executor_status_map st' = sd_executor_status_map st"
    "sd_function_executor_map st' = sd_function_executor_map st" "sd_function_cache st' = sd_function_cache st"
    "sd_call_id st' = sd_call_id st" "sd_call_id_inflight_args_map st' = sd_call_id_inflight_args_map st"
    "sd_key_call_id_map st' = sd_key_call_id_map st" "sd_key_remote_get_map st' = sd_key_remote_get_map st"
    "sd_key_ksv_put_map st' = sd_key_ksv_put_map st" "sd_app_info_map st' = sd_app_info_map st"
    "sd_func_app_map st' = sd_func_app_map st" "sd_bucket_app_map st' = sd_bucket_app_map st"
    "sd_report_start st' = sd_report_start st" "sd_ram_seed st' = sd_ram_seed st"
  by (metis assms core_sel)+

lemma comm_frame_refl [simp, intro]: "comm_frame st st"
  by (simp add: comm_frame_def)

lemma comm_frame_trans: "comm_frame st st1 \<Longrightarrow> comm_frame st1 st2 \<Longrightarrow> comm_frame st st2"
  by (simp add: comm_frame_def)

lemma comm_frame_emit [frame_intros]: "comm_frame st (emit (ToSocket a w) st)"
  by (simp add: comm_frame_def core_def emit_def exec_sent_def)

lemma comm_frame_update [simp]:
  "comm_frame st (st\<lparr>sd_helper := h\<rparr>)" "comm_frame st (st\<lparr>sd_thread_msgs := ms\<rparr>)"
  "comm_frame st (st\<lparr>sd_key_len_map := m\<rparr>)" "comm_frame st (st\<lparr>sd_session_client_addr_map := s\<rparr>)"
  "comm_frame st (st\<lparr>sd_shm := x\<rparr>)"
  by (simp_all add: comm_frame_def core_def exec_sent_def)

lemma comm_frame_touch_session [simp]: "comm_frame st (touch_session s st)"
  by (simp add: touch_session_def)

lemma exec_sent_sockets [simp]: "concat (map (exec_out \<circ> (\<lambda>(a, w). ToSocket a w)) xs) = []"
  by (induction xs) auto

lemma comm_frame_with_kvs [frame_intros]: "with_kvs tid f st = Inr (x, st') \<Longrightarrow> comm_frame st st'"
  by (auto simp: with_kvs_def comm_frame_def core_def exec_sent_def rbind_eq_Inr split: if_splits prod.splits)

lemma comm_frame_get_base [frame_intros]: "get_kvs_async_base env now key tid st = Inr st' \<Longrightarrow> comm_frame st st'"
  by (auto simp: get_kvs_async_base_def rbind_eq_Inr dest: comm_frame_with_kvs)

lemma comm_frame_put_base [frame_intros]:
  "put_kvs_async_base env now key p n tid st = Inr st' \<Longrightarrow> comm_frame st st'"
  by (auto simp: put_kvs_async_base_def rbind_eq_Inr split: option.splits dest: comm_frame_with_kvs)

lemma comm_frame_push_thread_msg [frame_intros]: "push_thread_msg i m st = Inr st' \<Longrightarrow> comm_frame st st'"
  by (auto simp: push_thread_msg_def split: if_splits)

lemma comm_frame_via_io_thread:
  assumes "via_io_thread msg here st = Inr st'" and "\<And>st st'. here st = Inr st' \<Longrightarrow> comm_frame st st'"
  shows "comm_frame st st'"
  using assms
  by (auto simp: via_io_thread_def rbind_eq_Inr Let_def split: if_splits
      intro: comm_frame_trans [OF comm_frame_update(1)] comm_frame_push_thread_msg)

lemma comm_frame_send_base [frame_intros]: "comm_frame st (send_data_req_base key tid st)"
  by (simp add: send_data_req_base_def Let_def comm_frame_emit)

lemma comm_frame_send_data_req [frame_intros]: "send_data_req key st = Inr st' \<Longrightarrow> comm_frame st st'"
  unfolding send_data_req_def by (erule comm_frame_via_io_thread) (auto intro: comm_frame_send_base)

lemma comm_frame_get_kvs_async [frame_intros]: "get_kvs_async env now key st = Inr st' \<Longrightarrow> comm_frame st st'"
  unfolding get_kvs_async_def by (erule comm_frame_via_io_thread) (rule comm_frame_get_base)

lemma comm_frame_put_kvs_async [frame_intros]: "put_kvs_async env now key p n st = Inr st' \<Longrightarrow> comm_frame st st'"
  unfolding put_kvs_async_def by (erule comm_frame_via_io_thread) (rule comm_frame_put_base)

lemma comm_frame_forward_func_call [frame_intros]:
  "forward_func_call a app fs args flag s st = Inr st' \<Longrightarrow> comm_frame st st'"
  by (auto simp: forward_func_call_def rbind_eq_Inr split: option.splits
      intro: comm_frame_trans [OF comm_frame_update(1) comm_frame_emit])

lemma comm_frame_notify_put [frame_intros]: "notify_put bk ts a payload st = Inr st' \<Longrightarrow> comm_frame st st'"
  by (auto simp: notify_put_def rbind_eq_Inr Let_def split: if_splits prod.splits
      intro: comm_frame_trans [OF comm_frame_update(1) comm_frame_emit])

lemma comm_frame_client_response [frame_intros]: "comm_frame st (client_response a app out st)"
  by (simp add: client_response_def comm_frame_emit)

lemma comm_frame_update_status [frame_intros]: "comm_frame st (helper_update_status n fs st)"
proof -
  have "comm_frame st (fold (\<lambda>ht. emit (ToSocket (f ht) w)) hts st)" for f w and hts :: "thread list"
    by (induction hts arbitrary: st) (auto intro: comm_frame_trans [OF comm_frame_emit])
  then show ?thesis by (simp add: helper_update_status_def Let_def)
qed

lemma comm_frame_copy [frame_intros]: "copy_to_shm_obj k d st = Inr st' \<Longrightarrow> comm_frame st st'"
  by (auto simp: copy_to_shm_obj_def split: if_splits)

lemma comm_frame_pack [frame_intros]:
  "pack_data_args flag args st = Inr (x, st') \<Longrightarrow> comm_frame st st'"
proof (induction flag args st arbitrary: x st' rule: pack_data_args.induct)
  case (2 flag b k n rest st)
  let ?st1 = "st\<lparr>sd_key_len_map := um_touch 0 (b @ kDelimiter @ k) (sd_key_len_map st)\<rparr>"
  obtain y where "pack_data_args flag rest ?st1 = Inr (y, st')"
    using "2.prems" by (auto simp: rbind_eq_Inr Let_def)
  then have "comm_frame ?st1 st'" by (rule "2.IH" [OF refl refl refl])
  then show ?case by (rule comm_frame_trans [OF comm_frame_update(3)])
qed auto

lemma comm_frame_pack_vec [frame_intros]:
  assumes "pack_data_args_vec flag args st = Inr (x, st')"
  shows "comm_frame st st'"
proof -
  have "comm_frame st (snd (x, st'))"
    by (rule rfold_invariant [where P = "\<lambda>s. comm_frame st (snd s)", OF assms [unfolded pack_data_args_vec_def]])
      (auto simp: rbind_eq_Inr dest!: comm_frame_pack intro: comm_frame_trans)
  then show ?thesis by simp
qed

lemma comm_frame_forward [frame_intros]:
  "forward_call_via_helper s app fs args flag st = Inr st' \<Longrightarrow> comm_frame st st'"
  by (auto simp: forward_call_via_helper_def rbind_eq_Inr Let_def split: if_splits prod.splits
      intro: comm_frame_trans [OF comm_frame_touch_session comm_frame_forward_func_call]
        comm_frame_trans [OF comm_frame_pack_vec
          comm_frame_trans [OF comm_frame_touch_session comm_frame_forward_func_call]])

end
