(* ===== verification/Sched_Relations.thy ===== *)
theory Sched_Relations
  imports Sched_Frames
begin

text \<open>
  The interface \<open>node_relation\<close>: a relation between the states before and after an operation that the building
  blocks of the node satisfy (scheduling a call, answering an executor, adding and deleting triggers, changes of
  bookkeeping only). Every handler, every round of the main loop and of the input-output threads then satisfies
  it; this is proved once here, and the invariants of the node are its interpretations.
\<close>

subsection \<open>Bookkeeping\<close>

text \<open>Nothing about executors and their channels and nothing about which triggers exist changes.\<close>

definition neutral :: "sched \<Rightarrow> sched \<Rightarrow> bool" where
  "neutral st st' \<longleftrightarrow>
     sd_executor_status_map st' = sd_executor_status_map st \<and> exec_sent st' = exec_sent st \<and>
     (\<forall>e. um_get False e (sd_executor_chans_map st') = um_get False e (sd_executor_chans_map st)) \<and>
     length (sd_trigger_store st') = length (sd_trigger_store st) \<and>
     (\<forall>b. um_get [] b (sd_bucket_triggers_map st') = um_get [] b (sd_bucket_triggers_map st)) \<and>
     (\<forall>f. um_get [] f (sd_func_trigger_timeout_map st') = um_get [] f (sd_func_trigger_timeout_map st)) \<and>
     sd_rerun_check_queue st' = sd_rerun_check_queue st"

lemma neutral_refl [simp, intro]: "neutral st st"
  by (simp add: neutral_def)

lemma neutral_trans: "neutral st st1 \<Longrightarrow> neutral st1 st2 \<Longrightarrow> neutral st st2"
  by (simp add: neutral_def)

lemma comm_frame_neutral:
  assumes "comm_frame st st'"
  shows "neutral st st'"
proof -
  have "core st' = core st" and e: "exec_sent st' = exec_sent st" using assms by (simp_all add: comm_frame_def)
  then show ?thesis using core_fields [of st' st] by (simp add: neutral_def)
qed

lemma neutral_update [simp]:
  "neutral st (st\<lparr>sd_key_val_map := a\<rparr>)" "neutral st (st\<lparr>sd_key_len_map := b\<rparr>)"
  "neutral st (st\<lparr>sd_session_client_addr_map := c\<rparr>)" "neutral st (st\<lparr>sd_delay_call_queue := d\<rparr>)"
  "neutral st (st\<lparr>sd_function_executor_map := e\<rparr>)" "neutral st (st\<lparr>sd_call_id := f\<rparr>)"
  "neutral st (st\<lparr>sd_call_id_inflight_args_map := g\<rparr>)" "neutral st (st\<lparr>sd_key_call_id_map := h\<rparr>)"
  "neutral st (st\<lparr>sd_key_remote_get_map := i\<rparr>)" "neutral st (st\<lparr>sd_key_ksv_put_map := j\<rparr>)"
  "neutral st (st\<lparr>sd_app_info_map := k\<rparr>)" "neutral st (st\<lparr>sd_func_app_map := l\<rparr>)"
  "neutral st (st\<lparr>sd_bucket_app_map := m\<rparr>)" "neutral st (st\<lparr>sd_report_start := n\<rparr>)"
  "neutral st (st\<lparr>sd_resp_queues := q\<rparr>)" "neutral st (st\<lparr>sd_helper := r\<rparr>)"
  "neutral st (st\<lparr>sd_thread_msgs := s\<rparr>)" "neutral st (st\<lparr>sd_ram_seed := t\<rparr>)"
  "neutral st (st\<lparr>sd_bucket_triggers_map := um_touch [] u (sd_bucket_triggers_map st)\<rparr>)"
  "neutral st (st\<lparr>sd_trigger_store := (sd_trigger_store st)[p := v]\<rparr>)"
  by (simp_all add: neutral_def exec_sent_def)

lemma update_trigger_Inr:
  "update_trigger p f st = Inr st' \<longleftrightarrow> p < length (sd_trigger_store st) \<and>
     st' = st\<lparr>sd_trigger_store := (sd_trigger_store st)[p := f (sd_trigger_store st ! p)]\<rparr>"
  by (auto simp: update_trigger_def deref_def)

lemma neutral_update_trigger: "update_trigger p f st = Inr st' \<Longrightarrow> neutral st st'"
  by (simp add: update_trigger_Inr)

lemma rfold_rel:
  assumes "rfold f s xs = Inr s'" and "R s s" and "\<And>a b c. R a b \<Longrightarrow> R b c \<Longrightarrow> R a c"
    and "\<And>s x s'. x \<in> set xs \<Longrightarrow> f s x = Inr s' \<Longrightarrow> R s s'"
  shows "R s s'"
  by (rule rfold_invariant [where P = "R s", OF assms(1,2)]) (use assms(3,4) in blast)

text \<open>The parts of an update message that concern applications and functions.\<close>

lemma neutral_add_function: "neutral st (add_function app f st)"
  by (simp add: add_function_def alter_app_def neutral_def exec_sent_def)

lemma neutral_alter_app: "neutral st (alter_app app f st)"
  by (simp add: alter_app_def)

lemma neutral_fold: "(\<And>x st. neutral st (f x st)) \<Longrightarrow> neutral st (fold f xs st)"
  by (induction xs arbitrary: st) (auto intro: neutral_trans)

lemma neutral_add_dependency: "add_dependency app st dep = Inr st' \<Longrightarrow> neutral st st'"
  by (auto simp: add_dependency_def split: if_splits list.splits intro!: neutral_fold neutral_alter_app)

lemma neutral_clear_triggers:
  assumes "clear_triggers st te = Inr st'"
  shows "neutral st st'"
proof -
  let ?st0 = "st\<lparr>sd_bucket_triggers_map := um_touch [] (te_bucket_name te) (sd_bucket_triggers_map st)\<rparr>"
  have "neutral ?st0 st'"
    using assms unfolding clear_triggers_def Let_def
    by (rule rfold_rel [where R = neutral])
      (auto intro: neutral_trans simp: rbind_eq_Inr split: if_splits dest: neutral_update_trigger)
  then show ?thesis by (rule neutral_trans [rotated]) simp
qed

lemma neutral_handle_function_call: "handle_function_call call st = (m, st') \<Longrightarrow> neutral st st'"
  by (auto simp: handle_function_call_def Let_def split: prod.splits)

lemma neutral_recv_call: "recv_call call st = (ms, st') \<Longrightarrow> neutral st st'"
  by (auto simp: recv_call_def split: option.splits prod.splits dest: neutral_handle_function_call)

lemma neutral_data_request: "handle_data_request m st = Inr st' \<Longrightarrow> neutral st st'"
  by (auto simp: handle_data_request_def rbind_eq_Inr Let_def split: if_splits prod.splits
      intro: comm_frame_neutral comm_frame_emit)

lemma neutral_recv_data: "recv_data d st = Inr (ms, st') \<Longrightarrow> neutral st st'"
  by (auto simp: recv_data_def handle_data_response_def rbind_eq_Inr split: option.splits prod.splits
      intro: comm_frame_neutral comm_frame_copy)

lemma neutral_kvs_response:
  "get_kvs_response env now tid (ms, st) r = Inr (ms', st') \<Longrightarrow> neutral st st'"
  by (auto simp: get_kvs_response_def rbind_eq_Inr Let_def split: list.splits if_splits
      intro: comm_frame_neutral comm_frame_copy comm_frame_get_base)

lemma neutral_kvs_responses:
  assumes "get_kvs_responses env now tid po st = Inr (ms, st')"
  shows "neutral st st'"
proof -
  obtain rs st1 where 1: "with_kvs tid (receive_async (se_rand_r env) now (po_kvs_addresses po)
      (po_kvs_response po)) st = Inr (rs, st1)"
    and 2: "rfold (get_kvs_response env now tid) ([], st1) rs = Inr (ms, st')"
    using assms by (auto simp: get_kvs_responses_def rbind_eq_Inr)
  have "neutral (snd ([] :: RecvMsg list, st1)) (snd (ms, st'))"
    by (rule rfold_rel [where R = "\<lambda>a b. neutral (snd a) (snd b)", OF 2])
      (auto intro: neutral_trans neutral_kvs_response)
  then show ?thesis
    using comm_frame_neutral [OF comm_frame_with_kvs [OF 1]] by (auto intro: neutral_trans)
qed

lemma neutral_push_responses: "push_responses i ms st = Inr st' \<Longrightarrow> neutral st st'"
  by (auto simp: push_responses_def split: if_splits)

lemma neutral_thread_msg: "handle_thread_msg env now tid st m = Inr st' \<Longrightarrow> neutral st st'"
  by (auto simp: handle_thread_msg_def split: SecondaryThreadMsgType.splits
      intro!: comm_frame_neutral intro: comm_frame_send_base comm_frame_get_base comm_frame_put_base)

lemma neutral_thread_msgs:
  assumes "handle_thread_msgs env now tid st = Inr st'"
  shows "neutral st st'"
proof -
  obtain st1 where 1: "rfold (handle_thread_msg env now tid) st (take msg_process_batch (sd_thread_msgs st ! (tid - 1))) = Inr st1"
    and 2: "neutral st1 st'"
    using assms by (auto simp: handle_thread_msgs_def rbind_eq_Inr Let_def split: if_splits)
  have "neutral st st1"
    by (rule rfold_rel [where R = neutral, OF 1]) (auto intro: neutral_trans neutral_thread_msg)
  with 2 show ?thesis by (rule neutral_trans [rotated])
qed

lemma neutral_optional: "optional f x st = Inr st' \<Longrightarrow> (\<And>x st st'. f x st = Inr st' \<Longrightarrow> neutral st st') \<Longrightarrow> neutral st st'"
  by (auto simp: optional_def split: option.splits)

text \<open>An input-output thread does bookkeeping only.\<close>

lemma neutral_io_thread_round:
  assumes "io_thread_round env now tid po st = Inr st'"
  shows "neutral st st'"
proof -
  obtain calls st1 where 1: "recv_call (po_call po) st = (calls, st1)" by fastforce
  obtain st2 st3 datas st4 st5 st6 kvs st7 where
    2: "push_responses (tid - 1) calls st1 = Inr st2" and 3: "optional handle_data_request (po_data_req po) st2 = Inr st3"
    and 4: "recv_data (po_data_resp po) st3 = Inr (datas, st4)" and 5: "push_responses (tid - 1) datas st4 = Inr st5"
    and 6: "handle_thread_msgs env now tid st5 = Inr st6" and 7: "get_kvs_responses env now tid po st6 = Inr (kvs, st7)"
    and 8: "push_responses (tid - 1) kvs st7 = Inr st'"
    using assms by (auto simp: io_thread_round_def 1 rbind_eq_Inr)
  have "neutral st2 st3" using 3 by (rule neutral_optional) (rule neutral_data_request)
  note steps = neutral_recv_call [OF 1] neutral_push_responses [OF 2] this neutral_recv_data [OF 4]
    neutral_push_responses [OF 5] neutral_thread_msgs [OF 6] neutral_kvs_responses [OF 7]
    neutral_push_responses [OF 8]
  show ?thesis by (rule neutral_trans [OF _ neutral_trans [OF _ neutral_trans [OF _ neutral_trans [OF _ neutral_trans
      [OF _ neutral_trans [OF _ neutral_trans]]]]]]) (fact steps)+
qed

subsection \<open>The interface\<close>

text \<open>A new trigger of a bucket with its hints, before its rerun metadata are set.\<close>

definition with_new_trigger :: "Bucket \<Rightarrow> RerunHint list \<Rightarrow> TriggerPtr \<Rightarrow> sched \<Rightarrow> sched" where
  "with_new_trigger bucket hints t st =
     (let p = length (sd_trigger_store st)
      in st\<lparr>sd_trigger_store := sd_trigger_store st @ [t],
            sd_bucket_triggers_map := um_alter [] (\<lambda>ps. ps @ [p]) bucket (sd_bucket_triggers_map st),
            sd_func_trigger_timeout_map :=
              fold (\<lambda>hint m. um_alter [] (\<lambda>ts. ts @ [\<lparr>rt_trigger_ptr = p, rt_timeout = rh_timeout hint\<rparr>])
                      (rh_source_function hint) m) hints (sd_func_trigger_timeout_map st)\<rparr>)"

locale node_relation =
  fixes R :: "sched \<Rightarrow> sched \<Rightarrow> bool"
  assumes R_neutral: "neutral st st' \<Longrightarrow> R st st'"
    and R_trans: "R st st1 \<Longrightarrow> R st1 st2 \<Longrightarrow> R st st2"
    and R_schedule: "schedule_func_call env now s app f args flag st = Inr st' \<Longrightarrow> R st st'"
    and R_answer: "R st (send_to_executer e (executor_answer r payload) st)"
    and R_new_trigger: "R st (with_new_trigger b hints t st)"
    and R_delete: "R st (st\<lparr>sd_bucket_triggers_map := um_put b
          (take i (um_get [] b (sd_bucket_triggers_map st)) @ drop (Suc i) (um_get [] b (sd_bucket_triggers_map st)))
          (sd_bucket_triggers_map st)\<rparr>)"
    and R_pop: "R st (st\<lparr>sd_rerun_check_queue := queue_pop (sd_rerun_check_queue st)\<rparr>)"
begin

lemma R_refl [simp, intro]: "R st st"
  by (rule R_neutral) simp

lemma R_comm: "comm_frame st st' \<Longrightarrow> R st st'"
  by (rule R_neutral) (rule comm_frame_neutral)

lemma R_after: "neutral st st1 \<Longrightarrow> R st1 st2 \<Longrightarrow> R st st2"
  by (rule R_trans [OF R_neutral])

lemma R_before: "R st st1 \<Longrightarrow> neutral st1 st2 \<Longrightarrow> R st st2"
  by (rule R_trans [OF _ R_neutral])

lemma R_rfold: "rfold f s xs = Inr s' \<Longrightarrow> (\<And>s x s'. f s x = Inr s' \<Longrightarrow> R s s') \<Longrightarrow> R s s'"
  by (erule rfold_rel [where R = R]) (auto intro: R_trans)

lemma R_fold: "(\<And>x st. R st (f x st)) \<Longrightarrow> R st (fold f xs st)"
  by (induction xs arbitrary: st) (auto intro: R_trans)

paragraph \<open>Updates from coordinators\<close>

lemma R_add_trigger_entity:
  assumes "add_trigger_entity env now coord app st te = Inr st'"
  shows "R st st'"
proof -
  let ?b = "te_bucket_name te"
  define st1 where "st1 = (alter_app app (\<lambda>a. a\<lparr>ai_buckets := ai_buckets a @ [?b]\<rparr>) st)
      \<lparr>sd_helper := (sd_helper st)\<lparr>ch_bucket_coord_map := um_put ?b coord (ch_bucket_coord_map (sd_helper st))\<rparr>,
       sd_bucket_app_map := um_put ?b app (sd_bucket_app_map st)\<rparr>"
  have n1: "neutral st st1" by (simp add: st1_def alter_app_def neutral_def exec_sent_def)
  show ?thesis
  proof (cases "te_trigger_name te = [] \<or>
      gen_trigger_pointer (se_codec env) now (te_primitive_type te) (te_trigger_name te) (te_primitive te) = None")
    case True
    then have "st' = st1" using assms by (auto simp: add_trigger_entity_def st1_def Let_def split: if_splits)
    then show ?thesis using n1 by (simp add: R_neutral)
  next
    case False
    then obtain t where t: "gen_trigger_pointer (se_codec env) now (te_primitive_type te) (te_trigger_name te) (te_primitive te) = Some t"
      by auto
    let ?st3 = "with_new_trigger ?b (te_hints te) (set_trigger_option (te_trigger_option te) t) st1"
    have "update_trigger (length (sd_trigger_store st1)) (set_rerun_metadata (rerun_metas (te_hints te))) ?st3 = Inr st'"
      using assms False t
      by (simp add: add_trigger_entity_def st1_def with_new_trigger_def new_trigger_def Let_def)
    then have "neutral ?st3 st'" by (rule neutral_update_trigger)
    then show ?thesis using n1 R_new_trigger [of st1] by (blast intro: R_after R_before)
  qed
qed

lemma R_delete_trigger_entity: "delete_trigger_entity st te = Inr st' \<Longrightarrow> R st st'"
  by (auto simp: delete_trigger_entity_def rbind_eq_Inr Let_def intro: R_delete)

lemma R_handle_update:
  assumes "handle_update env now m st = Inr st'"
  shows "R st st'"
proof -
  consider (add) "ucm_msg_type m = 0" | (clear) "ucm_msg_type m = 1" | (del) "ucm_msg_type m = 2"
    | (other) "ucm_msg_type m \<noteq> 0" "ucm_msg_type m \<noteq> 1" "ucm_msg_type m \<noteq> 2" by blast
  then show ?thesis
  proof cases
    case add
    let ?app = "ucm_app_name m" and ?coord = "mk_thread (ucm_ip m) (ucm_thread_id m)"
    let ?st1 = "st\<lparr>sd_helper := (sd_helper st)\<lparr>ch_app_coord_map :=
      um_put ?app ?coord (ch_app_coord_map (sd_helper st))\<rparr>\<rparr>"
    let ?st2 = "fold (add_function ?app) (ucm_functions m) ?st1"
    obtain st3 where 3: "rfold (add_dependency ?app) ?st2 (ucm_dependencies m) = Inr st3"
      and 4: "rfold (add_trigger_entity env now ?coord ?app) st3 (ucm_triggers m) = Inr st'"
      using assms add by (auto simp: handle_update_def Let_def rbind_eq_Inr)
    have "neutral st ?st2"
      by (rule neutral_trans [of _ ?st1]) (auto intro!: neutral_fold neutral_add_function)
    moreover have "R ?st2 st3" using 3 by (rule R_rfold) (auto intro: R_neutral neutral_add_dependency)
    moreover have "R st3 st'" using 4 by (rule R_rfold) (rule R_add_trigger_entity)
    ultimately show ?thesis by (blast intro: R_after R_trans)
  next
    case clear
    then have "rfold clear_triggers st (ucm_triggers m) = Inr st'" using assms by (simp add: handle_update_def)
    then show ?thesis by (rule R_rfold) (auto intro: R_neutral neutral_clear_triggers)
  next
    case del
    then have "rfold delete_trigger_entity st (ucm_triggers m) = Inr st'" using assms by (simp add: handle_update_def)
    then show ?thesis by (rule R_rfold) (rule R_delete_trigger_entity)
  next
    case other
    then show ?thesis using assms by (simp add: handle_update_def)
  qed
qed

lemma R_optional: "optional f x st = Inr st' \<Longrightarrow> (\<And>x st st'. f x st = Inr st' \<Longrightarrow> R st st') \<Longrightarrow> R st st'"
  by (auto simp: optional_def split: option.splits)

lemma R_try_recv_msg:
  assumes "try_recv_msg env now po st = Inr (ms, st')"
  shows "R st st'"
proof -
  obtain st1 where 1: "optional (handle_update env now) (po_update po) st = Inr st1"
    using assms by (auto simp: try_recv_msg_def rbind_eq_Inr)
  obtain calls st2 where 2: "recv_call (po_call po) st1 = (calls, st2)" by fastforce
  obtain st3 datas st4 kvs st5 where 3: "optional handle_data_request (po_data_req po) st2 = Inr st3"
    and 4: "recv_data (po_data_resp po) st3 = Inr (datas, st4)"
    and 5: "get_kvs_responses env now 0 po st4 = Inr (kvs, st5)"
    and 6: "st' = st5\<lparr>sd_resp_queues := map (\<lambda>_. []) (sd_resp_queues st5)\<rparr>"
    using assms by (auto simp: try_recv_msg_def rbind_eq_Inr 1 2)
  have "R st st1" using 1 by (rule R_optional) (rule R_handle_update)
  moreover have "neutral st2 st3" using 3 by (rule neutral_optional) (rule neutral_data_request)
  ultimately have "R st st3" using neutral_recv_call [OF 2] by (blast intro: R_before)
  moreover have "neutral st3 st5"
    using neutral_trans [OF neutral_recv_data [OF 4] neutral_kvs_responses [OF 5]] .
  ultimately show ?thesis unfolding 6 by (blast intro: R_before neutral_update)
qed

end

end
