(* ===== verification/Sched_Rounds.thy ===== *)
theory Sched_Rounds
  imports Sched_Relations
begin

text \<open>
  Every handler of the main loop satisfies a \<open>node_relation\<close>, and so does a whole round, except for what a report of
  an executor (\<open>busy\<close> or \<open>available\<close>) does to the status of that executor.
\<close>

subsection \<open>Facts about the handlers\<close>

lemma neutral_rfold:
  assumes "rfold f s xs = Inr s'" and "\<And>s x s'. f s x = Inr s' \<Longrightarrow> neutral (g s) (g s')"
  shows "neutral (g s) (g s')"
  using assms(1) by (rule rfold_rel [where R = "\<lambda>a b. neutral (g a) (g b)"])
    (use neutral_trans assms(2) in blast)+

lemma neutral_record_object: "record_object packing info st = Inr st' \<Longrightarrow> neutral st st'"
  by (auto simp: record_object_def rbind_eq_Inr neutral_def exec_sent_def split: if_splits)

lemma neutral_action_metadata:
  "action_metadata b (flag, metas, st) a = (flag', metas', st') \<Longrightarrow> neutral st st'"
  by (auto simp: action_metadata_def Let_def split: if_splits)

lemma neutral_actions:
  "foldl (action_metadata b) (flag, metas, st) as = (flag', metas', st') \<Longrightarrow> neutral st st'"
proof (induction as arbitrary: flag metas st)
  case (Cons a as)
  obtain f1 m1 st1 where "action_metadata b (flag, metas, st) a = (f1, m1, st1)" by (metis prod_cases3)
  then show ?case using Cons by (auto intro: neutral_trans neutral_action_metadata)
qed simp

lemma neutral_arrival_step:
  assumes "arrival_step now bk (active, metas, st) p = Inr (active', metas', st')"
  shows "neutral st st'"
proof -
  obtain t where "deref p st = Inr t" using assms by (auto simp: arrival_step_def rbind_eq_Inr)
  obtain actions t' where a: "action_for_new_object now bk t = (actions, t')" by fastforce
  let ?st1 = "st\<lparr>sd_trigger_store := (sd_trigger_store st)[p := t']\<rparr>"
  obtain flag2 metas2 st2 where f: "foldl (action_metadata (bk_bucket bk))
      (get_trigger_option t' + 1, metas, ?st1) actions = (flag2, metas2, st2)" by (metis prod_cases3)
  have "st' = ?st1 \<or> st' = st2"
    using assms \<open>deref p st = Inr t\<close> a f by (auto simp: arrival_step_def Let_def split: if_splits)
  then show ?thesis using neutral_update(20) neutral_trans [OF neutral_update(20) neutral_actions [OF f]] by blast
qed

lemma neutral_check_object_arrival:
  assumes "check_object_arrival now bk st = Inr (active, metas, st')"
  shows "neutral st st'"
proof -
  let ?st0 = "st\<lparr>sd_bucket_triggers_map := um_touch [] (bk_bucket bk) (sd_bucket_triggers_map st)\<rparr>"
  have "neutral (snd (snd ([] :: string list, [] :: TriggerFunctionMetadata list, ?st0))) (snd (snd (active, metas, st')))"
    by (rule neutral_rfold [where g = "\<lambda>a. snd (snd a)", OF assms [unfolded check_object_arrival_def Let_def]])
      (metis neutral_arrival_step prod.collapse)
  then have "neutral ?st0 st'" by simp
  then show ?thesis by (rule neutral_trans [OF neutral_update(19)])
qed

text \<open>The calls waiting for arguments.\<close>

lemma neutral_fetch_arg: "fetch_arg (inflight, st) arg = Inr (inflight', st') \<Longrightarrow> neutral st st'"
  by (auto simp: fetch_arg_def rbind_eq_Inr split: if_splits
      dest!: comm_frame_neutral [OF comm_frame_send_data_req] intro: neutral_trans)

lemma neutral_fetch_args:
  assumes "rfold fetch_arg (i, st) args = Inr (i', st')"
  shows "neutral st st'"
proof -
  have "neutral (snd (i, st)) (snd (i', st'))"
    by (rule neutral_rfold [where g = snd, OF assms]) (metis neutral_fetch_arg prod.collapse)
  then show ?thesis by simp
qed

lemma neutral_sized_args: "sized_args keys st = (args, st') \<Longrightarrow> neutral st st'"
  by (auto simp: sized_args_def)

lemma neutral_remember_get: "neutral st (remember_get k r st)"
  by (simp add: remember_get_def)

lemma neutral_send_to_client: "send_to_client packing info st = Inr st' \<Longrightarrow> neutral st st'"
  by (auto simp: send_to_client_def rbind_eq_Inr Let_def client_response_def emit_def touch_session_def neutral_def
      exec_sent_def split: if_splits)

lemma neutral_send_to_kvs: "send_to_kvs env now e r packing info st = Inr st' \<Longrightarrow> neutral st st'"
  by (auto simp: send_to_kvs_def rbind_eq_Inr split: if_splits
      dest!: comm_frame_neutral [OF comm_frame_put_kvs_async] intro: neutral_trans)

text \<open>What a report of an executor does, before anything else in a round.\<close>

definition says :: "bytes option \<Rightarrow> 8 word \<Rightarrow> 8 word \<Rightarrow> bool" where
  "says m e k \<longleftrightarrow> (case m of None \<Rightarrow> False | Some str \<Rightarrow> byte_at str 0 = Inr (e + 1) \<and> byte_at str 1 = Inr k)"

definition reports :: "bytes option \<Rightarrow> 8 word \<Rightarrow> bool" where
  "reports m e \<longleftrightarrow> says m e 7"

definition after_report :: "bytes option \<Rightarrow> sched \<Rightarrow> sched" where
  "after_report m st =
     (case m of
        Some str \<Rightarrow> (case (byte_at str 0, byte_at str 1) of
                        (Inr a, Inr k) \<Rightarrow> if k = 7 then executor_available (a - 1) st
                          else if k = 6 then executor_busy (a - 1) st else st
                      | _ \<Rightarrow> st)
      | None \<Rightarrow> st)"

context node_relation
begin

paragraph \<open>Messages of executors\<close>

lemma R_get_object: "get_object env now e ephe r key st = Inr st' \<Longrightarrow> R st st'"
  by (auto simp: get_object_def rbind_eq_Inr Let_def split: if_splits option.splits
      dest!: comm_frame_send_data_req comm_frame_get_kvs_async
      intro: R_answer R_neutral neutral_trans [OF comm_frame_neutral neutral_remember_get])

lemma R_schedule_all:
  "rfold (\<lambda>st func. schedule_func_call env now s app func args flag st) st fs = Inr st' \<Longrightarrow> R st st'"
  by (erule R_rfold) (rule R_schedule)

lemma R_direct_invocation:
  assumes "direct_invocation env now s app deps tgt args flag st = Inr st'"
  shows "R st st'"
  using assms
  by (auto simp: direct_invocation_def rbind_eq_Inr Let_def split: if_splits
      dest: R_schedule_all R_schedule comm_frame_forward intro: R_trans [OF R_schedule_all R_comm])

lemma R_check_trigger:
  assumes "check_trigger env now bk s st = Inr (active, st')"
  shows "R st st'"
proof -
  obtain metas st1 where 1: "check_object_arrival now bk st = Inr (active, metas, st1)"
    and 2: "rfold (\<lambda>st meta.
         schedule_func_call env now s (um_get [] (bk_bucket bk) (sd_bucket_app_map st))
           (tfm_func_name meta) (tfm_func_args meta) (tfm_arg_flag meta)
           (st\<lparr>sd_bucket_app_map := um_touch [] (bk_bucket bk) (sd_bucket_app_map st)\<rparr>))
       st1 metas = Inr st'"
    using assms by (auto simp: check_trigger_def rbind_eq_Inr)
  have "R st1 st'" using 2 by (rule R_rfold) (blast intro: R_after [OF neutral_update(13)] R_schedule)
  then show ?thesis using neutral_check_object_arrival [OF 1] by (rule R_after [rotated])
qed

lemma R_notify_object:
  assumes "notify_object env now packing info st = Inr st'"
  shows "R st st'"
proof -
  obtain active st1 where 1: "check_trigger env now (BucketKey_of_session_key (oi_bucket info) (oi_session_key info))
      (oi_session_id info) st = Inr (active, st1)" and 2: "neutral st1 st'"
    using assms
    by (auto simp: notify_object_def rbind_eq_Inr Let_def split: if_splits
        dest!: comm_frame_notify_put
        intro!: neutral_trans [OF neutral_trans [OF comm_frame_neutral [OF comm_frame_touch_session] comm_frame_neutral] neutral_update(6)])
  from R_check_trigger [OF 1] 2 show ?thesis by (rule R_before)
qed

lemma R_send_ephemeral:
  assumes "send_ephemeral env now packing info st = Inr st'"
  shows "R st st'"
proof -
  let ?src = "oi_src_function info"
  obtain st1 where 1: "record_object packing info st = Inr st1"
    using assms by (auto simp: send_ephemeral_def rbind_eq_Inr)
  define st2 where "st2 = st1\<lparr>sd_func_app_map := um_touch [] ?src (sd_func_app_map st1),
    sd_app_info_map := um_touch no_AppInfo (um_get [] ?src (sd_func_app_map st1)) (sd_app_info_map st1)\<rparr>"
  have "R st2 st'"
    using assms
    by (auto simp: send_ephemeral_def 1 st2_def [symmetric] Let_def split: option.splits if_splits prod.splits
        dest: R_direct_invocation R_notify_object)
  moreover have "neutral st1 st2" by (simp add: st2_def neutral_def exec_sent_def)
  ultimately show ?thesis using neutral_record_object [OF 1] by (blast intro: R_after)
qed

lemma R_handle_send_object: "handle_send_object env now e kind str st = Inr st' \<Longrightarrow> R st st'"
  by (auto simp: handle_send_object_def rbind_eq_Inr split: option.splits if_splits
      dest: R_send_ephemeral neutral_send_to_kvs neutral_send_to_client intro: R_neutral)

lemma R_handle_get_request: "handle_get_request env now e str st = Inr st' \<Longrightarrow> R st st'"
  by (auto simp: handle_get_request_def rbind_eq_Inr dest: R_get_object)

paragraph \<open>Messages from the helper\<close>

lemma R_call_one:
  assumes "call_one env now s app st c = Inr st'"
  shows "R st st'"
proof -
  obtain f args flag where c: "c = (f, args, flag)" by (metis prod_cases3)
  show ?thesis
  proof (cases "flag > 0")
    case False
    then obtain st1 where "schedule_func_call env now s app f args 0 st = Inr st1"
      "st' = st1\<lparr>sd_call_id := sd_call_id st1 + 1\<rparr>"
      using assms c by (auto simp: call_one_def rbind_eq_Inr)
    then show ?thesis using R_before [OF R_schedule neutral_update(6)] by blast
  next
    case True
    then obtain inflight st1 where 1: "rfold fetch_arg ([], st) args = Inr (inflight, st1)"
      using assms c by (auto simp: call_one_def rbind_eq_Inr)
    have "R st1 st'"
    proof (cases "inflight = []")
      case inflight: True
      obtain full st2 where 2: "sized_args args st1 = (full, st2)" by fastforce
      then obtain st3 where "schedule_func_call env now s app f full flag st2 = Inr st3"
        "st' = st3\<lparr>sd_call_id := sd_call_id st3 + 1\<rparr>"
        using assms c True inflight 1 by (auto simp: call_one_def rbind_eq_Inr)
      then show ?thesis
        using R_after [OF neutral_sized_args [OF 2] R_before [OF R_schedule neutral_update(6)]] by blast
    next
      case False
      then have "neutral st1 st'" using assms c True 1 by (auto simp: call_one_def rbind_eq_Inr neutral_def exec_sent_def)
      then show ?thesis by (rule R_neutral)
    qed
    then show ?thesis using neutral_fetch_args [OF 1] by (rule R_after [rotated])
  qed
qed

lemma R_handle_call: "handle_call env now m st = Inr st' \<Longrightarrow> R st st'"
  unfolding handle_call_def by (rule R_after [OF neutral_update(3)], erule R_rfold) (rule R_call_one)

lemma R_answer_all: "R st (answer_all payload reqs st)"
  unfolding answer_all_def by (rule R_fold) (rule R_answer)

lemma R_answer_gets: "R st (answer_gets key payload st)"
  by (auto simp: answer_gets_def Let_def split: option.splits intro: R_before [OF R_answer_all neutral_update(9)])

lemma R_handle_kvs_put: "R st (handle_kvs_put m st)"
  by (auto simp: handle_kvs_put_def Let_def split: option.splits intro: R_before [OF R_answer_all neutral_update(10)])

lemma R_handle_kvs_got: "R st (handle_kvs_got m st)"
  by (auto simp: handle_kvs_got_def Let_def intro: R_after [OF neutral_update(2) R_answer_gets])

lemma R_resume_call:
  assumes "resume_call env now key st cid = Inr st'"
  shows "R st st'"
proof -
  define f where "f = um_get no_InflightFuncArgs cid (sd_call_id_inflight_args_map st)"
  define f' where "f' = f\<lparr>if_inflight_args := us_erase key (if_inflight_args f)\<rparr>"
  define st1 where "st1 = st\<lparr>sd_call_id_inflight_args_map := um_put cid f' (sd_call_id_inflight_args_map st)\<rparr>"
  have n1: "neutral st st1" by (simp add: st1_def)
  show ?thesis
  proof (cases "if_inflight_args f' = []")
    case True
    obtain args st2 where 2: "sized_args (if_key_args f') st1 = (args, st2)" by fastforce
    let ?func = "if_func_name f'"
    let ?st3 = "st2\<lparr>sd_func_app_map := um_touch [] ?func (sd_func_app_map st2)\<rparr>"
    obtain st4 where 4: "schedule_func_call env now (if_session_id f') (um_get [] ?func (sd_func_app_map st2)) ?func args
        (if_arg_flag f') ?st3 = Inr st4"
      and 5: "st' = st4\<lparr>sd_call_id_inflight_args_map := um_erase cid (sd_call_id_inflight_args_map st4)\<rparr>"
      using assms True 2 unfolding st1_def f'_def f_def by (auto simp: resume_call_def Let_def rbind_eq_Inr)
    have "neutral st ?st3" using neutral_trans [OF neutral_trans [OF n1 neutral_sized_args [OF 2]] neutral_update(12)] .
    then show ?thesis unfolding 5 by (rule R_after [OF _ R_before [OF R_schedule [OF 4] neutral_update(7)]])
  next
    case False
    then have "st' = st1" using assms unfolding st1_def f'_def f_def by (simp add: resume_call_def Let_def)
    then show ?thesis using n1 by (simp add: R_neutral)
  qed
qed

lemma R_resume_calls: "resume_calls env now key st = Inr st' \<Longrightarrow> R st st'"
  by (auto simp: resume_calls_def rbind_eq_Inr split: option.splits
      intro!: R_before [OF _ neutral_update(8)] elim!: R_rfold intro: R_resume_call)

lemma R_handle_data_arrived: "handle_data_arrived env now m st = Inr st' \<Longrightarrow> R st st'"
  unfolding handle_data_arrived_def
  by (rule R_after [OF neutral_update(2)], rule R_trans [OF R_answer_gets], erule R_resume_calls)

lemma R_handle_recv_msg: "handle_recv_msg env now st m = Inr st' \<Longrightarrow> R st st'"
  by (auto simp: handle_recv_msg_def split: RecvMsgType.splits
      dest: R_handle_call R_handle_data_arrived intro: R_handle_kvs_got R_handle_kvs_put)

paragraph \<open>Rounds\<close>

lemma R_handle_executor_msg:
  "handle_executor_msg env now str st = Inr st' \<Longrightarrow> R (after_report (Some str) st) st'"
  by (auto simp: handle_executor_msg_def after_report_def rbind_eq_Inr Let_def split: if_splits
      dest: R_handle_get_request R_handle_send_object)

lemma R_run_delayed: "run_delayed env now n st = Inr st' \<Longrightarrow> R st st'"
proof (induction n arbitrary: st)
  case (Suc n)
  show ?case
  proof (cases "sd_delay_call_queue st")
    case (Cons c cs)
    then obtain st1 where 1: "schedule_func_call env now (dc_session_id c) (dc_app_name c) (dc_func_name c)
        (dc_func_args c) (dc_arg_flag c) st = Inr st1"
      and 2: "run_delayed env now n (st1\<lparr>sd_delay_call_queue := tl (sd_delay_call_queue st1)\<rparr>) = Inr st'"
      using Suc.prems by (auto simp: rbind_eq_Inr)
    show ?thesis by (rule R_trans [OF R_schedule [OF 1] R_after [OF neutral_update(4) Suc.IH [OF 2]]])
  qed (use Suc.prems in simp)
qed simp

lemma R_forward_expired: "forward_expired env now cs st = Inr st' \<Longrightarrow> R st st'"
proof (induction cs arbitrary: st)
  case (Cons c cs)
  show ?case
  proof (cases "to_us (now - dc_trigger_time c) > uint (se_sched_delay_time env)")
    case True
    then obtain st1 where "comm_frame st st1" and 2: "forward_expired env now cs (st1\<lparr>sd_delay_call_queue := cs\<rparr>) = Inr st'"
      using Cons.prems by (auto simp: rbind_eq_Inr split: if_splits dest: comm_frame_forward)
    then show ?thesis using R_after [OF neutral_update(4) Cons.IH [OF 2]] by (blast intro: R_trans R_comm)
  qed (use Cons.prems in simp)
qed simp

lemma R_delay_forwarding: "delay_forwarding env now st = Inr st' \<Longrightarrow> R st st'"
  by (auto simp: delay_forwarding_def rbind_eq_Inr split: if_splits
      intro: R_trans [OF R_run_delayed R_forward_expired])

lemma R_rerun_item: "rerun_item env now item st = Inr st' \<Longrightarrow> R st st'"
  by (auto simp: rerun_item_def rbind_eq_Inr Let_def elim!: R_rfold intro: R_after [OF neutral_update(12) R_schedule])

lemma R_rerun_checks: "rerun_checks env now report_end st = Some r \<Longrightarrow> case r of Inl _ \<Rightarrow> True | Inr st' \<Rightarrow> R st st'"
proof (induction rule: rerun_checks.raw_induct [rotated, consumes 1, case_names 1])
  case (1 rec env now report_end st r)
  show ?case
  proof (cases "queue_top (sd_rerun_check_queue st)")
    case None
    then show ?thesis using 1(2) by auto
  next
    case (Some item)
    show ?thesis
    proof (cases "rq_check_time item \<le> report_end \<and> (\<exists>st1. rerun_item env now item st = Inr st1)")
      case True
      then obtain st1 where 2: "rerun_item env now item st = Inr st1" by blast
      let ?st2 = "st1\<lparr>sd_rerun_check_queue := queue_pop (sd_rerun_check_queue st1)\<rparr>"
      have "rec env now report_end ?st2 = Some r" using 1(2) Some True 2 by simp
      moreover have "R st ?st2" by (rule R_trans [OF R_rerun_item [OF 2] R_pop])
      ultimately show ?thesis using 1(1) [of env now report_end ?st2 r] by (auto split: sum.splits intro: R_trans)
    next
      case False
      then show ?thesis using 1(2) Some by (auto split: sum.splits if_splits)
    qed
  qed
qed

lemma R_timer:
  assumes "timer env report_end after st = Inr st'"
  shows "R st st'"
proof (cases "to_ms (report_end - sd_report_start st) \<ge> uint schedTimerThreshold")
  case True
  then obtain st1 where 1: "rerun_checks env after report_end st = Some (Inr st1)"
    and 2: "st' = (helper_update_status (int (get_avail_executor_num st1)) (sd_function_cache st1) st1)\<lparr>sd_report_start := after\<rparr>"
    using assms by (auto simp: timer_def rbind_eq_Inr returned_def split: option.splits)
  show ?thesis
    unfolding 2 by (rule R_trans [OF R_rerun_checks [OF 1, simplified] R_trans [OF R_comm [OF comm_frame_update_status]
      R_neutral [OF neutral_update(14)]]])
qed (use assms in \<open>simp add: timer_def\<close>)

theorem R_sched_round:
  assumes "sched_round env ri st = Inr st'"
  shows "R (after_report (ri_message ri) st) st'"
proof -
  obtain st1 ms st2 st3 st4 where 1: "optional (handle_executor_msg env (ri_now ri)) (ri_message ri) st = Inr st1"
    and 2: "try_recv_msg env (ri_now ri) (ri_polled ri) st1 = Inr (ms, st2)"
    and 3: "rfold (handle_recv_msg env (ri_now ri)) st2 ms = Inr st3"
    and 4: "delay_forwarding env (ri_now ri) st3 = Inr st4"
    and 5: "timer env (ri_report_end ri) (ri_after ri) st4 = Inr st'"
    using assms by (auto simp: sched_round_def rbind_eq_Inr)
  have "R (after_report (ri_message ri) st) st1"
    using 1 by (cases "ri_message ri") (auto simp: optional_def after_report_def [of None] dest: R_handle_executor_msg)
  moreover have "R st2 st3" using 3 by (rule R_rfold) (rule R_handle_recv_msg)
  ultimately show ?thesis
    using R_try_recv_msg [OF 2] R_delay_forwarding [OF 4] R_timer [OF 5] by (blast intro: R_trans)
qed

end

end
