(* ===== verification/Sched_Call_Laws.thy ===== *)
theory Sched_Call_Laws
  imports Sched_Rounds
begin

text \<open>
  What \<open>schedule_func_call\<close> does: either one idle executor is given the call and awaits its report, or no
  executor can run the function and the call is delayed, dropped or forwarded.
\<close>

subsection \<open>Choosing an executor\<close>

definition idle :: "8 word \<Rightarrow> sched \<Rightarrow> bool" where
  "idle e st \<longleftrightarrow> (e, 0) \<in> set (sd_executor_status_map st) \<or> (e, 1) \<in> set (sd_executor_status_map st)"

text \<open>An executor that may run the function: one that has not run anything yet, one that has run this
  function, and with shared executors any idle one.\<close>

definition eligible :: "sched_env \<Rightarrow> string \<Rightarrow> 8 word \<Rightarrow> sched \<Rightarrow> bool" where
  "eligible env f e st \<longleftrightarrow>
     (e, 0) \<in> set (sd_executor_status_map st) \<or>
     (e, 1) \<in> set (sd_executor_status_map st) \<and>
       (se_shared_executor env \<or> e \<in> set (um_get [] f (sd_function_executor_map st)))"

lemma eligible_idle: "eligible env f e st \<Longrightarrow> idle e st"
  by (auto simp: eligible_def idle_def)

lemma find_warm: "e \<in> set (fst (find_executors sh fs m)) \<Longrightarrow> (e, 1) \<in> set m \<and> e \<in> set fs"
  by (induction m) (auto split: if_splits prod.splits simp: case_prod_beta)

lemma find_cold: "e \<in> set (snd (find_executors sh fs m)) \<Longrightarrow> (e, 0) \<in> set m \<or> sh \<and> (e, 1) \<in> set m"
  by (induction m) (auto split: if_splits prod.splits simp: case_prod_beta)

lemma find_none:
  "find_executors sh fs m = ([], []) \<Longrightarrow>
     (e, 0) \<notin> set m \<and> ((e, 1) \<in> set m \<longrightarrow> \<not> sh \<and> e \<notin> set fs)"
  by (induction m) (auto split: if_splits prod.splits)

subsection \<open>Starting a call\<close>

definition rerun_entry :: "TimePoint \<Rightarrow> string \<Rightarrow> RerunTriggerTimeout \<Rightarrow> RerunCheckQueueItem" where
  "rerun_entry now s meta =
     \<lparr>rq_check_time = now + uint (rt_timeout meta) * 1000000, rq_session = s, rq_trigger_ptr = rt_trigger_ptr meta\<rparr>"

text \<open>The same triggers and the same channels.\<close>

definition same_setup :: "sched \<Rightarrow> sched \<Rightarrow> bool" where
  "same_setup st st' \<longleftrightarrow>
     (\<forall>e. um_get False e (sd_executor_chans_map st') = um_get False e (sd_executor_chans_map st)) \<and>
     length (sd_trigger_store st') = length (sd_trigger_store st) \<and>
     (\<forall>b. um_get [] b (sd_bucket_triggers_map st') = um_get [] b (sd_bucket_triggers_map st)) \<and>
     (\<forall>f. um_get [] f (sd_func_trigger_timeout_map st') = um_get [] f (sd_func_trigger_timeout_map st))"

lemma rerun_loop:
  "rfold (\<lambda>st meta.
       rbind (update_trigger (rt_trigger_ptr meta) (g meta) st)
         (\<lambda>st'. Inr (st'\<lparr>sd_rerun_check_queue := sd_rerun_check_queue st' @ [rerun_entry now s meta]\<rparr>)))
     st metas = Inr st' \<Longrightarrow>
     same_setup st st' \<and> sd_executor_status_map st' = sd_executor_status_map st \<and> exec_sent st' = exec_sent st \<and>
     sd_delay_call_queue st' = sd_delay_call_queue st \<and>
     sd_rerun_check_queue st' = sd_rerun_check_queue st @ map (rerun_entry now s) metas"
proof (induction metas arbitrary: st)
  case (Cons m ms)
  let ?st1 = "\<lambda>t. st\<lparr>sd_trigger_store := (sd_trigger_store st)[rt_trigger_ptr m := t],
    sd_rerun_check_queue := sd_rerun_check_queue st @ [rerun_entry now s m]\<rparr>"
  have "same_setup st (?st1 t)" and "exec_sent (?st1 t) = exec_sent st" for t
    by (simp_all add: same_setup_def exec_sent_def)
  then show ?case using Cons by (auto simp: rbind_eq_Inr update_trigger_Inr same_setup_def)
qed (simp add: same_setup_def)

lemma note_rerun_effect:
  assumes "note_rerun now f s args flag st = Inr st'"
  shows "same_setup st st' \<and> sd_executor_status_map st' = sd_executor_status_map st \<and> exec_sent st' = exec_sent st \<and>
     sd_delay_call_queue st' = sd_delay_call_queue st \<and>
     sd_rerun_check_queue st' = sd_rerun_check_queue st @
       map (rerun_entry now s) (um_get [] f (sd_func_trigger_timeout_map st))"
proof -
  let ?st0 = "st\<lparr>sd_func_trigger_timeout_map := um_touch [] f (sd_func_trigger_timeout_map st)\<rparr>"
  have "same_setup st ?st0" and "exec_sent ?st0 = exec_sent st" by (simp_all add: same_setup_def exec_sent_def)
  then show ?thesis
    using rerun_loop [OF assms [unfolded note_rerun_def Let_def, folded rerun_entry_def]] by (simp add: same_setup_def)
qed

text \<open>The executor \<open>e\<close> has been given the call.\<close>

definition started ::
    "TimePoint \<Rightarrow> string \<Rightarrow> string \<Rightarrow> string list \<Rightarrow> int \<Rightarrow> 8 word \<Rightarrow> sched \<Rightarrow> sched \<Rightarrow> bool" where
  "started now s f args flag e st st' \<longleftrightarrow>
     sd_executor_status_map st' = um_put e 2 (sd_executor_status_map st) \<and>
     exec_sent st' = exec_sent st @
       (if um_get False e (sd_executor_chans_map st)
        then [(e, call_message flag (session_client_addr s st = []) s f args)] else []) \<and>
     sd_delay_call_queue st' = sd_delay_call_queue st \<and> same_setup st st' \<and>
     sd_rerun_check_queue st' = sd_rerun_check_queue st @
       map (rerun_entry now s) (um_get [] f (sd_func_trigger_timeout_map st))"

lemma start_call_started:
  assumes "start_call now e s f args flag st = Inr st'"
  shows "started now s f args flag e st st'"
proof -
  define msg where "msg = call_message flag (session_client_addr s st = []) s f args"
  define st1 where "st1 = send_to_executer e msg (touch_session s st)"
  let ?st2 = "st1\<lparr>sd_executor_status_map := um_put e 2 (sd_executor_status_map st1)\<rparr>"
  have "note_rerun now f s args flag ?st2 = Inr st'" using assms by (simp add: start_call_def st1_def msg_def Let_def)
  note n = note_rerun_effect [OF this]
  have "sd_executor_status_map st1 = sd_executor_status_map st" "same_setup st ?st2"
    "sd_func_trigger_timeout_map st1 = sd_func_trigger_timeout_map st" "sd_rerun_check_queue st1 = sd_rerun_check_queue st"
    "sd_delay_call_queue st1 = sd_delay_call_queue st"
    "exec_sent ?st2 = exec_sent st @ (if um_get False e (sd_executor_chans_map st) then [(e, msg)] else [])"
    by (simp_all add: st1_def send_to_executer_def touch_session_def emit_def exec_sent_def same_setup_def Let_def)
  then show ?thesis using n by (simp add: started_def msg_def same_setup_def)
qed

subsection \<open>schedule_func_call\<close>

text \<open>No executor here: the call is put into the queue of delayed calls, dropped or forwarded.\<close>

definition not_started ::
    "sched_env \<Rightarrow> TimePoint \<Rightarrow> string \<Rightarrow> string \<Rightarrow> string \<Rightarrow> string list \<Rightarrow> int \<Rightarrow> sched \<Rightarrow> sched \<Rightarrow> bool" where
  "not_started env now s app f args flag st st' \<longleftrightarrow>
     neutral st st' \<and>
     sd_delay_call_queue st' = sd_delay_call_queue st @
       (if se_sched_delay_time env > 0
        then [\<lparr>dc_session_id = s, dc_app_name = app, dc_func_name = f, dc_func_args = args, dc_arg_flag = flag,
               dc_trigger_time = now\<rparr>] else [])"

lemma no_local_executor_not_started:
  assumes "no_local_executor env now s app f args flag st = Inr st'"
  shows "not_started env now s app f args flag st st'"
proof (cases "se_sched_delay_time env > 0 \<or> se_reject_extra_req env")
  case True
  then show ?thesis using assms by (auto simp: no_local_executor_def not_started_def)
next
  case False
  then have "comm_frame st st'" using assms
    by (auto simp: no_local_executor_def split: if_splits dest: comm_frame_forward)
  then show ?thesis using False comm_frame_neutral [of st st'] core_fields [of st' st]
    by (simp add: not_started_def comm_frame_def)
qed

lemma started_cong:
  assumes "started now s f args flag e st1 st'"
    and "sd_executor_status_map st1 = sd_executor_status_map st" "exec_sent st1 = exec_sent st"
    "sd_delay_call_queue st1 = sd_delay_call_queue st" "sd_rerun_check_queue st1 = sd_rerun_check_queue st"
    "sd_executor_chans_map st1 = sd_executor_chans_map st" "same_setup st st1"
    "sd_session_client_addr_map st1 = sd_session_client_addr_map st"
    "sd_func_trigger_timeout_map st1 = sd_func_trigger_timeout_map st"
  shows "started now s f args flag e st st'"
  using assms by (simp add: started_def same_setup_def session_client_addr_def)

lemma schedule_outcome:
  assumes "schedule_func_call env now s app f args flag st = Inr st'"
  shows "(\<exists>e. eligible env f e st \<and> started now s f args flag e st st') \<or>
    (\<forall>e. \<not> eligible env f e st) \<and> not_started env now s app f args flag st st'"
proof -
  obtain warm cold where w: "find_executors (se_shared_executor env) (um_get [] f (sd_function_executor_map st))
      (sd_executor_status_map st) = (warm, cold)" by fastforce
  define st0 where "st0 = (if 1 \<in> snd ` set (sd_executor_status_map st)
      then st\<lparr>sd_function_executor_map := um_touch [] f (sd_function_executor_map st)\<rparr> else st)"
  note eq = assms [unfolded schedule_func_call_def w Let_def, folded st0_def, simplified]
  have el: "eligible env f e st" if "e \<in> set warm \<or> e \<in> set cold" for e
    using that find_warm [of e "se_shared_executor env" "um_get [] f (sd_function_executor_map st)" "sd_executor_status_map st"]
      find_cold [of e "se_shared_executor env" "um_get [] f (sd_function_executor_map st)" "sd_executor_status_map st"]
    by (auto simp: w eligible_def)
  have st: "started now s f args flag e st st'"
    if "start_call now e s f args flag (st0\<lparr>sd_ram_seed := r\<rparr>) = Inr st' \<or>
        start_call now e s f args flag (st0\<lparr>sd_ram_seed := r, sd_function_executor_map := m\<rparr>) = Inr st'" for e r m
    using that by (auto dest!: start_call_started elim!: started_cong
        simp: st0_def exec_sent_def same_setup_def)
  show ?thesis
  proof (cases "warm = [] \<and> cold = []")
    case True
    then have "not_started env now s app f args flag st0 st'"
      using eq by (intro no_local_executor_not_started) simp
    then have "not_started env now s app f args flag st st'"
      by (auto simp: st0_def not_started_def neutral_def exec_sent_def split: if_splits)
    moreover have "\<not> eligible env f e st" for e
      using find_none [of "se_shared_executor env" _ _ e] w True by (auto simp: eligible_def)
    ultimately show ?thesis by blast
  next
    case False
    have "\<exists>e. (e \<in> set warm \<or> e \<in> set cold) \<and> started now s f args flag e st st'"
      using eq False by (auto simp: rbind_eq_Inr sd_rand_mod_def split: if_splits prod.splits
          intro!: st nth_mem mod_less_divisor)
    then show ?thesis using el by blast
  qed
qed

end
