(* ===== verification/Sched_Invariants.thy ===== *)
theory Sched_Invariants
  imports Sched_Call_Laws
begin

text \<open>
  A relation of the interface \<open>node_relation\<close>, which bounds what an executor is given: the calls sent to it plus one
  if it is idle never increase, except when the executor reports that it is available.
\<close>

subsection \<open>Calls sent to an executor\<close>

definition is_call_to :: "8 word \<Rightarrow> 8 word \<times> bytes \<Rightarrow> bool" where
  "is_call_to e = (\<lambda>(e', msg). e' = e \<and> msg \<noteq> [] \<and> hd msg = byte 1)"

definition calls_to :: "8 word \<Rightarrow> sched_out list \<Rightarrow> nat" where
  "calls_to e outs = length (filter (is_call_to e) (concat (map exec_out outs)))"

definition avail :: "8 word \<Rightarrow> sched \<Rightarrow> nat" where
  "avail e st = (if map_of (sd_executor_status_map st) e \<in> {Some 0, Some 1} then 1 else 0)"

definition pot :: "8 word \<Rightarrow> sched \<Rightarrow> nat" where
  "pot e st = length (filter (is_call_to e) (exec_sent st)) + avail e st"

definition fewer :: "sched \<Rightarrow> sched \<Rightarrow> bool" where
  "fewer st st' \<longleftrightarrow>
     (um_wf (sd_executor_status_map st) \<longrightarrow> um_wf (sd_executor_status_map st') \<and> (\<forall>e. pot e st' \<le> pot e st))"

lemma is_call_message [simp]: "is_call_to e (e', call_message flag p s f args) \<longleftrightarrow> e' = e"
  by (simp add: is_call_to_def call_message_def)

lemma is_call_answer [simp]: "\<not> is_call_to e (e', executor_answer r payload)"
  by (simp add: is_call_to_def executor_answer_def)

lemma pot_same:
  "sd_executor_status_map st' = sd_executor_status_map st \<Longrightarrow> exec_sent st' = exec_sent st \<Longrightarrow> pot e st' = pot e st"
  by (simp add: pot_def avail_def)

lemma fewer_status_sent:
  "sd_executor_status_map st' = sd_executor_status_map st \<Longrightarrow> exec_sent st' = exec_sent st \<Longrightarrow> fewer st st'"
  using pot_same [of st' st] by (simp add: fewer_def)

lemma fewer_schedule:
  assumes "schedule_func_call env now s app f args flag st = Inr st'"
  shows "fewer st st'"
proof -
  consider (run) e where "eligible env f e st" "started now s f args flag e st st'"
    | (other) "not_started env now s app f args flag st st'"
    using schedule_outcome [OF assms] by blast
  then show ?thesis
  proof cases
    case run
    have st': "sd_executor_status_map st' = um_put e 2 (sd_executor_status_map st)" using run(2) by (simp add: started_def)
    have "avail e st' = 0" "e' \<noteq> e \<Longrightarrow> avail e' st' = avail e' st" for e' by (simp_all add: avail_def st')
    moreover have "avail e st = 1" if "um_wf (sd_executor_status_map st)"
      using eligible_idle [OF run(1)] that by (auto simp: idle_def avail_def)
    ultimately have "pot e' st' \<le> pot e' st" if "um_wf (sd_executor_status_map st)" for e'
      using run(2) that by (cases "e' = e") (simp_all add: started_def pot_def)
    then show ?thesis by (simp add: fewer_def st')
  next
    case other
    then show ?thesis by (auto simp: not_started_def neutral_def intro: fewer_status_sent)
  qed
qed

lemma fewer_trans: "fewer st st1 \<Longrightarrow> fewer st1 st2 \<Longrightarrow> fewer st st2"
  unfolding fewer_def by (meson le_trans)

lemma pot_busy: "pot e (executor_busy a st) \<le> pot e st"
  by (auto simp: pot_def avail_def exec_sent_def executor_busy_def)

interpretation handing_out: node_relation fewer
proof
  show "fewer st st'" if "neutral st st'" for st st'
    using that by (auto simp: neutral_def intro: fewer_status_sent)
  show "fewer st (send_to_executer e (executor_answer r payload) st)" for st e r payload
    by (simp add: fewer_def pot_def avail_def send_to_executer_def emit_def exec_sent_def Let_def)
  show "fewer st (with_new_trigger b hints t st)" for st b hints t
    by (rule fewer_status_sent) (simp_all add: with_new_trigger_def exec_sent_def Let_def)
qed (auto intro: fewer_trans fewer_schedule fewer_status_sent simp: exec_sent_def)

lemma after_report_cases:
  obtains "after_report m st = st" "\<And>a. \<not> says m a 6" "\<And>a. \<not> says m a 7"
  | a where "\<And>b k. says m b k \<longleftrightarrow> b = a \<and> k = 6" "after_report m st = executor_busy a st"
  | a where "\<And>b k. says m b k \<longleftrightarrow> b = a \<and> k = 7" "after_report m st = executor_available a st"
proof (cases "\<exists>a. says m a 6 \<or> says m a 7")
  case False
  then have "after_report m st = st"
    by (auto simp: after_report_def says_def split: option.splits sum.splits) (metis diff_add_cancel)+
  then show thesis using that(1) False by blast
next
  case True
  then obtain a str where a: "m = Some str" "byte_at str 0 = Inr (a + 1)" "byte_at str 1 = Inr 6 \<or> byte_at str 1 = Inr 7"
    by (auto simp: says_def split: option.splits)
  then show thesis
  proof (elim disjE)
    assume "byte_at str 1 = Inr 6"
    with a(1,2) show thesis by (intro that(2) [of a]) (auto simp: says_def after_report_def)
  next
    assume "byte_at str 1 = Inr 7"
    with a(1,2) show thesis by (intro that(3) [of a]) (auto simp: says_def after_report_def)
  qed
qed

lemma pot_available: "pot e (executor_available a st) \<le> pot e st + (if e = a then 1 else 0)"
  by (auto simp: executor_available_def pot_def avail_def exec_sent_def Let_def)

lemma pot_after_report:
  assumes "um_wf (sd_executor_status_map st)"
  shows "um_wf (sd_executor_status_map (after_report m st)) \<and>
     pot e (after_report m st) \<le> pot e st + (if reports m e then 1 else 0)"
proof (cases rule: after_report_cases [of m st])
  case (2 a)
  then show ?thesis using assms pot_busy [of e a st] by (simp add: reports_def executor_busy_def)
next
  case (3 a)
  then show ?thesis using assms pot_available [of e a st] by (simp add: reports_def executor_available_def Let_def)
qed (use assms in simp)

definition ev_reports :: "8 word \<Rightarrow> sched_event \<Rightarrow> bool" where
  "ev_reports e ev = (case ev of MainRound ri \<Rightarrow> reports (ri_message ri) e | _ \<Rightarrow> False)"

lemma pot_step:
  assumes "sched_step env st ev = Inr st'" and wf: "um_wf (sd_executor_status_map st)"
  shows "um_wf (sd_executor_status_map st') \<and> pot e st' \<le> pot e st + (if ev_reports e ev then 1 else 0)"
proof (cases ev)
  case (MainRound ri)
  then have "sched_round env ri st = Inr st'" using assms by simp
  note f = handing_out.R_sched_round [OF this, unfolded fewer_def] and p = pot_after_report [OF wf, of "ri_message ri" e]
  have "um_wf (sd_executor_status_map st')" and "pot e st' \<le> pot e (after_report (ri_message ri) st)"
    using f p by blast+
  then show ?thesis using p by (simp add: MainRound ev_reports_def)
next
  case (IoRound tid now po)
  then have "neutral st st'" using assms by (auto intro: neutral_io_thread_round)
  then show ?thesis using wf pot_same [of st' st e] by (simp add: neutral_def)
next
  case (ShmWrite name data)
  then have "sd_executor_status_map st' = sd_executor_status_map st" "exec_sent st' = exec_sent st"
    using assms by (auto simp: copy_to_shm_obj_def exec_sent_def split: if_splits)
  then show ?thesis using wf pot_same [of st' st e] by simp
qed

lemma pot_calls: "pot e st = calls_to e (sd_sent st) + avail e st"
  by (simp add: pot_def calls_to_def exec_sent_def)

lemma calls_to_append [simp]: "calls_to e (xs @ ys) = calls_to e xs + calls_to e ys"
  by (simp add: calls_to_def)

lemma avail_sent [simp]: "avail e (st\<lparr>sd_sent := x\<rparr>) = avail e st"
  by (simp add: avail_def)

lemma calls_of_run:
  "run_events (sched_handle env) st es = Inr (st', out) \<Longrightarrow> um_wf (sd_executor_status_map st) \<Longrightarrow> sd_sent st = [] \<Longrightarrow>
     calls_to e out + avail e st' \<le> avail e st + length (filter (ev_reports e) es)"
proof (induction es arbitrary: st out)
  case Nil
  then show ?case by (simp add: calls_to_def)
next
  case (Cons ev es)
  obtain st1 out2 where 1: "sched_step env st ev = Inr st1"
    and 2: "run_events (sched_handle env) (st1\<lparr>sd_sent := []\<rparr>) es = Inr (st', out2)" and o: "out = sd_sent st1 @ out2"
    using Cons.prems(1) by (auto simp: rbind_eq_Inr sched_handle_def [of env st ev])
  note s = pot_step [OF 1 Cons.prems(2), of e]
  have "calls_to e out2 + avail e st' \<le> avail e (st1\<lparr>sd_sent := []\<rparr>) + length (filter (ev_reports e) es)"
    by (rule Cons.IH [OF 2]) (use s in simp_all)
  then show ?case using s Cons.prems(3) by (simp add: o pot_calls calls_to_def [of _ "[]"] split: if_splits)
qed

end
