(* ===== verification/Sched_Laws.thy ===== *)
theory Sched_Laws
  imports Sched_Invariants
begin

text \<open>
  The queue of rerun checks and the loop that empties it, the data protocol between nodes, and the initial state
  of a node.
\<close>

subsection \<open>The queue of rerun checks\<close>

lemma queue_top_min: "queue_top q = Some x \<Longrightarrow> x \<in> set q \<and> (\<forall>y\<in>set q. rq_check_time x \<le> rq_check_time y)"
proof (induction q arbitrary: x)
  case (Cons a q)
  show ?case
  proof (cases "queue_top q")
    case None
    then have "q = []" by (cases q) (auto split: option.splits if_splits)
    then show ?thesis using Cons.prems by simp
  next
    case (Some y)
    from Cons.IH [OF this] show ?thesis using Cons.prems Some by (auto split: if_splits)
  qed
qed simp

lemma queue_top_None [simp]: "queue_top q = None \<longleftrightarrow> q = []"
  by (cases q) (auto split: option.splits)

text \<open>Later checks do not disturb the first one.\<close>

lemma queue_top_append:
  "queue_top q = Some x \<Longrightarrow> \<forall>y\<in>set new. rq_check_time x < rq_check_time y \<Longrightarrow> queue_top (q @ new) = Some x"
proof (induction q arbitrary: x)
  case (Cons a q)
  show ?case
  proof (cases "queue_top q")
    case None
    then have [simp]: "q = []" "x = a" using Cons.prems by auto
    show ?thesis using Cons.prems(2) queue_top_min [of new]
      by (cases "queue_top new") (force split: option.splits)+
  next
    case (Some y)
    show ?thesis
    proof (cases "rq_check_time y < rq_check_time a")
      case True
      then have "x = y" using Cons.prems(1) Some by simp
      then have "queue_top (q @ new) = Some y" using Cons.prems(2) by (intro Cons.IH [OF Some]) simp
      then show ?thesis using True \<open>x = y\<close> by simp
    next
      case False
      then have "x = a" and "\<forall>z\<in>set (q @ new). rq_check_time a \<le> rq_check_time z"
        using Cons.prems Some queue_top_min [OF Some] by auto
      then show ?thesis using queue_top_min [of "q @ new"] by (cases "queue_top (q @ new)") fastforce+
    qed
  qed
qed simp

lemma queue_pop_append:
  "queue_top q = Some x \<Longrightarrow> \<forall>y\<in>set new. rq_check_time x < rq_check_time y \<Longrightarrow>
     queue_pop (q @ new) = remove1 x q @ new"
  using queue_top_min [of q x] by (simp add: queue_pop_def queue_top_append remove1_append)

definition due :: "TimePoint \<Rightarrow> RerunCheckQueueItem list \<Rightarrow> RerunCheckQueueItem list" where
  "due t q = filter (\<lambda>i. rq_check_time i \<le> t) q"

lemma due_pop:
  "queue_top q = Some x \<Longrightarrow> rq_check_time x \<le> t \<Longrightarrow> \<forall>y\<in>set new. t < rq_check_time y \<Longrightarrow>
     length (due t (queue_pop (q @ new))) < length (due t q)"
proof -
  assume x: "queue_top q = Some x" "rq_check_time x \<le> t" and new: "\<forall>y\<in>set new. t < rq_check_time y"
  have "due t (queue_pop (q @ new)) = due t (remove1 x q)"
    using queue_pop_append [OF x(1)] x(2) new by (fastforce simp: due_def filter_empty_conv)
  also have "\<dots> = remove1 x (due t q)" by (simp add: due_def filter_remove1)
  finally have "due t (queue_pop (q @ new)) = remove1 x (due t q)" .
  moreover have "x \<in> set (due t q)" using queue_top_min [OF x(1)] x(2) by (simp add: due_def)
  ultimately show ?thesis using length_pos_if_in_set [of x "due t q"] by (simp add: length_remove1)
qed

text \<open>Scheduling adds checks in the future only.\<close>

definition adds_checks :: "TimePoint \<Rightarrow> sched \<Rightarrow> sched \<Rightarrow> bool" where
  "adds_checks now st st' \<longleftrightarrow>
     (\<exists>new. sd_rerun_check_queue st' = sd_rerun_check_queue st @ new \<and> (\<forall>i\<in>set new. now \<le> rq_check_time i))"

lemma adds_checks_schedule:
  assumes "schedule_func_call env now s app f args flag st = Inr st'"
  shows "adds_checks now st st'"
  using schedule_outcome [OF assms]
  by (auto simp: adds_checks_def started_def not_started_def neutral_def rerun_entry_def)

lemma adds_checks_trans: "adds_checks now a b \<Longrightarrow> adds_checks now b c \<Longrightarrow> adds_checks now a c"
  unfolding adds_checks_def by (metis (no_types, lifting) Un_iff append.assoc set_append)

lemma adds_checks_rerun_item:
  assumes "rerun_item env now item st = Inr st'"
  shows "adds_checks now st st'"
proof -
  let ?step = "\<lambda>st meta. let func = tfm_func_name meta
         in schedule_func_call env now (rq_session item) (um_get [] func (sd_func_app_map st)) func
              (tfm_func_args meta) (tfm_arg_flag meta)
              (st\<lparr>sd_func_app_map := um_touch [] func (sd_func_app_map st)\<rparr>)"
  obtain t where "rfold ?step st (action_for_rerun (rq_session item) t) = Inr st'"
    using assms by (auto simp: rerun_item_def rbind_eq_Inr)
  then show ?thesis
  proof (rule rfold_rel [where R = "adds_checks now"])
    show "adds_checks now a b" if "?step a meta = Inr b" for a b meta
      using adds_checks_schedule [OF that [unfolded Let_def]] by (simp add: adds_checks_def)
  qed (auto intro: adds_checks_trans simp: adds_checks_def [of now st st])
qed

lemma rerun_checks_end:
  assumes "report_end < now"
  shows "\<exists>r. rerun_checks env now report_end st = Some r \<and>
    (\<forall>st'. r = Inr st' \<longrightarrow> due report_end (sd_rerun_check_queue st') = [])"
proof (induction "length (due report_end (sd_rerun_check_queue st))" arbitrary: st rule: less_induct)
  case less
  show ?case
  proof (cases "queue_top (sd_rerun_check_queue st)")
    case None
    then show ?thesis by (simp add: rerun_checks.simps [of env now report_end st] due_def)
  next
    case (Some item)
    show ?thesis
    proof (cases "rq_check_time item \<le> report_end")
      case False
      then show ?thesis using Some queue_top_min [OF Some]
        by (force simp: rerun_checks.simps [of env now report_end st] due_def filter_empty_conv)
    next
      case True
      show ?thesis
      proof (cases "rerun_item env now item st")
        case (Inl e)
        then show ?thesis using Some True by (simp add: rerun_checks.simps [of env now report_end st])
      next
        case (Inr st1)
        then obtain new where new: "sd_rerun_check_queue st1 = sd_rerun_check_queue st @ new"
          "\<forall>i\<in>set new. report_end < rq_check_time i"
          using adds_checks_rerun_item [OF Inr] assms unfolding adds_checks_def by fastforce
        let ?st2 = "st1\<lparr>sd_rerun_check_queue := queue_pop (sd_rerun_check_queue st1)\<rparr>"
        have "length (due report_end (sd_rerun_check_queue ?st2)) < length (due report_end (sd_rerun_check_queue st))"
          using due_pop [OF Some True new(2)] new(1) by simp
        from less [OF this] show ?thesis using Some True Inr by (simp add: rerun_checks.simps [of env now report_end st])
      qed
    qed
  qed
qed

subsection \<open>The data protocol\<close>

lemma split_key_message:
  "length key < 256 \<Longrightarrow> split_key (byte (of_nat (length key)) # key @ rest) = Inr (key, rest)"
  by (simp add: split_key_def unat_of_nat Let_def)

subsection \<open>The initial state\<close>

lemma init_sched_facts:
  assumes "init_sched cf now seed = Inr st"
  shows "um_wf (sd_executor_status_map st)" "avail e st = 0" "sd_sent st = []"
proof -
  have n: "cf_executor_num cf \<le> 255" and st: "sd_executor_status_map st = map (\<lambda>e. (of_nat e, 2)) [0..<cf_executor_num cf]"
    and "sd_sent st = []"
    using assms by (auto simp: init_sched_def init_executors_def Let_def split: if_splits)
  then show "sd_sent st = []" by simp
  have "inj_on (of_nat :: nat \<Rightarrow> 8 word) {0..<cf_executor_num cf}"
    using n by (intro inj_onI) (simp add: word_unat_eq_iff unat_of_nat)
  then show "um_wf (sd_executor_status_map st)" by (simp add: st distinct_map comp_def)
  show "avail e st = 0" using map_of_SomeD [of "sd_executor_status_map st" e] by (auto simp: avail_def st)
qed

end
