(* ===== verification/Sched_Status.thy ===== *)
theory Sched_Status
  imports Sched_Laws
begin

text \<open>
  A second relation of the interface \<open>node_relation\<close>: how the status of an executor follows from what it reports and
  from the calls it is sent.
\<close>

definition status_of :: "8 word \<Rightarrow> sched \<Rightarrow> 8 word option" where
  "status_of e st = map_of (sd_executor_status_map st) e"

definition has_chan :: "8 word \<Rightarrow> sched \<Rightarrow> bool" where
  "has_chan e st = um_get False e (sd_executor_chans_map st)"

definition calls_made :: "8 word \<Rightarrow> sched \<Rightarrow> nat" where
  "calls_made e st = length (filter (is_call_to e) (exec_sent st))"

text \<open>Either nothing happens to the executor, or it was idle, is sent one call and awaits its report.\<close>

definition handed :: "8 word \<Rightarrow> sched \<Rightarrow> sched \<Rightarrow> bool" where
  "handed e st st' \<longleftrightarrow>
     status_of e st' = status_of e st \<and> calls_made e st' = calls_made e st \<or>
     status_of e st \<in> {Some 0, Some 1} \<and> status_of e st' = Some 2 \<and>
       calls_made e st' = calls_made e st + (if has_chan e st then 1 else 0)"

definition follows :: "sched \<Rightarrow> sched \<Rightarrow> bool" where
  "follows st st' \<longleftrightarrow>
     (um_wf (sd_executor_status_map st) \<longrightarrow>
        um_wf (sd_executor_status_map st') \<and> (\<forall>e. has_chan e st' = has_chan e st \<and> handed e st st'))"

lemma follows_same:
  "sd_executor_status_map st' = sd_executor_status_map st \<Longrightarrow> exec_sent st' = exec_sent st \<Longrightarrow>
     (\<And>e. has_chan e st' = has_chan e st) \<Longrightarrow> follows st st'"
  by (simp add: follows_def handed_def status_of_def calls_made_def)

lemma follows_trans:
  assumes "follows st st1" "follows st1 st2"
  shows "follows st st2"
proof -
  have "handed e st st2" if "handed e st st1" "handed e st1 st2" "has_chan e st1 = has_chan e st" for e
    using that unfolding handed_def by auto
  then show ?thesis using assms unfolding follows_def by blast
qed

lemma follows_schedule:
  assumes "schedule_func_call env now s app f args flag st = Inr st'"
  shows "follows st st'"
proof -
  consider (run) e where "eligible env f e st" "started now s f args flag e st st'"
    | (other) "not_started env now s app f args flag st st'"
    using schedule_outcome [OF assms] by blast
  then show ?thesis
  proof cases
    case run
    have "status_of e st \<in> {Some 0, Some 1}" if "um_wf (sd_executor_status_map st)"
      using eligible_idle [OF run(1)] that by (auto simp: idle_def status_of_def)
    then have "handed e' st st'" if "um_wf (sd_executor_status_map st)" for e'
      using run(2) that by (cases "e' = e") (simp_all add: handed_def started_def status_of_def calls_made_def has_chan_def)
    then show ?thesis using run(2) by (simp add: follows_def started_def same_setup_def has_chan_def)
  next
    case other
    then show ?thesis by (auto simp: not_started_def neutral_def has_chan_def intro: follows_same)
  qed
qed

interpretation statuses: node_relation follows
proof
  show "follows st st'" if "neutral st st'" for st st'
    using that by (auto simp: neutral_def has_chan_def intro: follows_same)
  show "follows st (send_to_executer e (executor_answer r payload) st)" for st e r payload
    by (simp add: follows_def handed_def status_of_def calls_made_def has_chan_def send_to_executer_def emit_def
        exec_sent_def Let_def)
  show "follows st (with_new_trigger b hints t st)" for st b hints t
    by (rule follows_same) (simp_all add: with_new_trigger_def exec_sent_def has_chan_def Let_def)
qed (auto intro: follows_trans follows_schedule follows_same simp: exec_sent_def has_chan_def)

subsection \<open>Reports\<close>

text \<open>The status after a report: busy, or available. An executor that reports to be available without having been
  busy is empty.\<close>

definition reported :: "bytes option \<Rightarrow> 8 word \<Rightarrow> 8 word option \<Rightarrow> 8 word option" where
  "reported m e s =
     (if says m e 6 then Some 3
      else if says m e 7 then Some (if s \<in> {None, Some 0, Some 2} then 0 else 1) else s)"

definition ev_message :: "sched_event \<Rightarrow> bytes option" where
  "ev_message ev = (case ev of MainRound ri \<Rightarrow> ri_message ri | _ \<Rightarrow> None)"

lemma says_None [simp]: "\<not> says None e k"
  by (simp add: says_def)

lemma reported_None [simp]: "reported None e s = s"
  by (simp add: reported_def)

lemma after_report_effect:
  "status_of e (after_report m st) = reported m e (status_of e st)"
  "has_chan e (after_report m st) = has_chan e st" "calls_made e (after_report m st) = calls_made e st"
  "um_wf (sd_executor_status_map st) \<Longrightarrow> um_wf (sd_executor_status_map (after_report m st))"
proof -
  show "status_of e (after_report m st) = reported m e (status_of e st)"
  proof (cases rule: after_report_cases [of m st])
    case (2 a)
    then show ?thesis by (simp add: reported_def status_of_def executor_busy_def)
  next
    case (3 a)
    then show ?thesis
      by (auto simp: reported_def status_of_def executor_available_def um_get_def Let_def split: option.splits)
  qed (simp add: reported_def)
qed (auto simp: after_report_def executor_busy_def executor_available_def has_chan_def calls_made_def exec_sent_def Let_def
    split: option.splits sum.splits)

lemma follows_step:
  assumes "sched_step env st ev = Inr st'"
  shows "follows (after_report (ev_message ev) st) st'"
proof (cases ev)
  case (MainRound ri)
  then show ?thesis using assms statuses.R_sched_round by (simp add: ev_message_def)
next
  case (IoRound tid now po)
  then show ?thesis
    using assms statuses.R_neutral [OF neutral_io_thread_round] by (auto simp: ev_message_def after_report_def)
next
  case (ShmWrite name data)
  then show ?thesis using assms
    by (auto simp: ev_message_def after_report_def copy_to_shm_obj_def exec_sent_def has_chan_def split: if_splits
        intro: follows_same)
qed

text \<open>What holds in every state that a node with \<open>n\<close> executors reaches.\<close>

definition node_ok :: "nat \<Rightarrow> sched \<Rightarrow> bool" where
  "node_ok n st \<longleftrightarrow>
     um_wf (sd_executor_status_map st) \<and> sd_sent st = [] \<and> (\<forall>e. unat e < n \<longrightarrow> has_chan e st)"

lemma status_step:
  assumes "node_ok n st" "sched_handle env st ev = Inr (st', out)"
  shows "node_ok n st'"
    "unat e < n \<Longrightarrow> calls_to e out = 0 \<and> status_of e st' = reported (ev_message ev) e (status_of e st) \<or>
       calls_to e out = 1 \<and> reported (ev_message ev) e (status_of e st) \<in> {Some 0, Some 1} \<and> status_of e st' = Some 2"
proof -
  obtain st1 where 1: "sched_step env st ev = Inr st1" and st': "st' = st1\<lparr>sd_sent := []\<rparr>" and o: "out = sd_sent st1"
    using assms(2) by (auto simp: sched_handle_def rbind_eq_Inr)
  have wf: "um_wf (sd_executor_status_map st)" and "sd_sent st = []" using assms(1) by (simp_all add: node_ok_def)
  note f = follows_step [OF 1, unfolded follows_def, rule_format, OF after_report_effect(4) [OF wf]]
  show "node_ok n st'"
    using f assms(1) by (simp add: node_ok_def st' has_chan_def [symmetric] after_report_effect(2))
      (simp add: has_chan_def)
  have "status_of e st' = status_of e st1" by (simp add: status_of_def st')
  have "calls_made e st = 0" by (simp add: calls_made_def exec_sent_def \<open>sd_sent st = []\<close>)
  moreover have "calls_made e st1 = calls_to e out" by (simp add: calls_made_def calls_to_def exec_sent_def o)
  ultimately show "calls_to e out = 0 \<and> status_of e st' = reported (ev_message ev) e (status_of e st) \<or>
       calls_to e out = 1 \<and> reported (ev_message ev) e (status_of e st) \<in> {Some 0, Some 1} \<and> status_of e st' = Some 2"
    if "unat e < n"
    using conjunct2 [OF f, rule_format, of e] assms(1) that
    by (auto simp: node_ok_def handed_def after_report_effect \<open>status_of e st' = status_of e st1\<close>)
qed

interpretation sched_status: step_system "sched_handle env" "node_ok n" for env n
  by unfold_locales (rule status_step(1))

lemma init_status: "init_sched cf now seed = Inr st \<Longrightarrow> node_ok (cf_executor_num cf) st"
proof -
  assume i: "init_sched cf now seed = Inr st"
  have c: "sd_executor_chans_map st = map (\<lambda>e. (of_nat e, True)) [0..<cf_executor_num cf]"
    using i by (auto simp: init_sched_def init_executors_def Let_def split: if_splits)
  have "has_chan e st" if "unat e < cf_executor_num cf" for e
  proof -
    have "e \<in> fst ` set (sd_executor_chans_map st)" using that by (auto simp: c image_iff intro!: bexI [of _ "unat e"])
    then obtain b where "map_of (sd_executor_chans_map st) e = Some b" by (auto simp: map_of_eq_None_iff dest: weak_map_of_SomeI)
    moreover from this have "b" using map_of_SomeD [of "sd_executor_chans_map st" e b] by (auto simp: c)
    ultimately show ?thesis by (simp add: has_chan_def um_get_def)
  qed
  then show ?thesis using init_sched_facts(1,3) [OF i] by (simp add: node_ok_def)
qed

end
