(* ===== verification/Sample_Codec.thy ===== *)
theory Sample_Codec
  imports Messages Lattice_Serialization
begin

text \<open>
  Concrete codecs for the messages of trigger primitives and of lattices, with lengths in unary and
  strings prefixed by their length. They are not the wire format of the protobuf library, which is a
  parameter of the model; they show that \<^const>\<open>codec_ok\<close> and \<^const>\<open>lattice_codec_ok\<close> can
  be satisfied.
\<close>

definition put_nat :: "nat \<Rightarrow> bytes" where
  "put_nat n = replicate n CHR ''1'' @ ''0''"

fun get_nat :: "bytes \<Rightarrow> nat \<times> bytes" where
  "get_nat [] = (0, [])"
| "get_nat (c # cs) = (if c = CHR ''1'' then map_prod Suc id (get_nat cs) else (0, cs))"

definition put_word :: "32 word \<Rightarrow> bytes" where
  "put_word w = put_nat (unat w)"

definition get_word :: "bytes \<Rightarrow> 32 word \<times> bytes" where
  "get_word bs = map_prod of_nat id (get_nat bs)"

definition put_str :: "string \<Rightarrow> bytes" where
  "put_str s = put_nat (length s) @ s"

definition get_str :: "bytes \<Rightarrow> string \<times> bytes" where
  "get_str bs = (let (n, r) = get_nat bs in (take n r, drop n r))"

fun get_strs_n :: "nat \<Rightarrow> bytes \<Rightarrow> string list \<times> bytes" where
  "get_strs_n 0 bs = ([], bs)"
| "get_strs_n (Suc n) bs = (let (x, r) = get_str bs in map_prod (Cons x) id (get_strs_n n r))"

definition put_strs :: "string list \<Rightarrow> bytes" where
  "put_strs xs = put_nat (length xs) @ concat (map put_str xs)"

definition get_strs :: "bytes \<Rightarrow> string list \<times> bytes" where
  "get_strs bs = (let (n, r) = get_nat bs in get_strs_n n r)"

definition sample_codec :: prim_codec where
  "sample_codec =
     \<lparr>ser_immediate = put_str, par_immediate = (\<lambda>bs. fst (get_str bs)),
      ser_by_name = (\<lambda>(f, k). put_str f @ put_str k),
      par_by_name = (\<lambda>bs. let (f, r) = get_str bs in (f, fst (get_str r))),
      ser_by_batch_size = (\<lambda>(f, n). put_str f @ put_word n),
      par_by_batch_size = (\<lambda>bs. let (f, r) = get_str bs in (f, fst (get_word r))),
      ser_by_set = (\<lambda>(f, ks). put_str f @ put_strs ks),
      par_by_set = (\<lambda>bs. let (f, r) = get_str bs in (f, fst (get_strs r))),
      ser_dynamic_group = (\<lambda>(f, ks). put_str f @ put_strs ks),
      par_dynamic_group = (\<lambda>bs. let (f, r) = get_str bs in (f, fst (get_strs r))),
      ser_redundant = (\<lambda>(f, k, n). put_str f @ put_word k @ put_word n),
      par_redundant = (\<lambda>bs. let (f, r) = get_str bs; (k, r') = get_word r in (f, k, fst (get_word r'))),
      ser_by_time = (\<lambda>(f, w). put_str f @ put_word w),
      par_by_time = (\<lambda>bs. let (f, r) = get_str bs in (f, fst (get_word r)))\<rparr>"

lemma get_put_nat [simp]: "get_nat (put_nat n @ r) = (n, r)"
  by (induction n) (simp_all add: put_nat_def)

lemma get_put_word [simp]: "get_word (put_word w @ r) = (w, r)"
  by (simp add: get_word_def put_word_def)

lemma get_put_str [simp]: "get_str (put_str s @ r) = (s, r)"
  by (simp add: get_str_def put_str_def)

lemma get_put_strs_n: "get_strs_n (length xs) (concat (map put_str xs) @ r) = (xs, r)"
  by (induction xs) simp_all

lemma get_put_strs [simp]: "get_strs (put_strs xs @ r) = (xs, r)"
  by (simp add: get_strs_def put_strs_def get_put_strs_n)

lemma get_put_end [simp]:
  "get_word (put_word w) = (w, [])" "get_str (put_str s) = (s, [])" "get_strs (put_strs xs) = (xs, [])"
  using get_put_word [of w "[]"] get_put_str [of s "[]"] get_put_strs [of xs "[]"] by simp_all

lemma sample_codec_ok: "codec_ok sample_codec"
  by (simp add: codec_ok_def sample_codec_def split: prod.splits)

subsection \<open>Lattices\<close>

fun get_clock_n :: "nat \<Rightarrow> bytes \<Rightarrow> (string, 32 word) umap \<times> bytes" where
  "get_clock_n 0 bs = ([], bs)"
| "get_clock_n (Suc n) bs =
     (let (k, r) = get_str bs; (w, r') = get_word r in map_prod (Cons (k, w)) id (get_clock_n n r'))"

definition put_clock :: "(string, 32 word) umap \<Rightarrow> bytes" where
  "put_clock vc = put_nat (length vc) @ concat (map (\<lambda>(k, w). put_str k @ put_word w) vc)"

definition get_clock :: "bytes \<Rightarrow> (string, 32 word) umap \<times> bytes" where
  "get_clock bs = (let (n, r) = get_nat bs in get_clock_n n r)"

definition sample_lattice_codec :: "nat lattice_codec" where
  "sample_lattice_codec =
     \<lparr>ser_lww = (\<lambda>m. put_nat (unat (lv_timestamp m)) @ put_str (lv_value m)),
      par_lww = (\<lambda>bs. let (n, r) = get_nat bs in \<lparr>lv_timestamp = of_nat n, lv_value = fst (get_str r)\<rparr>),
      ser_set = put_strs, par_set = (\<lambda>bs. fst (get_strs bs)),
      ser_causal = (\<lambda>m. put_clock (sc_vector_clock m) @ put_strs (sc_values m)),
      par_causal = (\<lambda>bs. let (vc, r) = get_clock bs
                         in \<lparr>sc_vector_clock = rev vc, sc_values = fst (get_strs r)\<rparr>),
      ser_multi = (\<lambda>m. put_clock (mc_vector_clock m)),
      par_multi = (\<lambda>bs. \<lparr>mc_vector_clock = fst (get_clock bs), mc_dependencies = [], mc_values = []\<rparr>),
      ser_priority = (\<lambda>m. put_nat (prv_priority m) @ put_str (prv_value m)),
      par_priority = (\<lambda>bs. let (n, r) = get_nat bs in \<lparr>prv_priority = n, prv_value = fst (get_str r)\<rparr>)\<rparr>"

lemma get_put_clock_n:
  "get_clock_n (length vc) (concat (map (\<lambda>(k, w). put_str k @ put_word w) vc) @ r) = (vc, r)"
  by (induction vc) auto

lemma get_put_clock [simp]: "get_clock (put_clock vc @ r) = (vc, r)"
  by (simp add: get_clock_def put_clock_def get_put_clock_n)

lemma sample_lattice_codec_ok: "lattice_codec_ok sample_lattice_codec"
  by (simp add: lattice_codec_ok_def sample_lattice_codec_def)

end
