(* ===== verification/Kvs_Client_Laws.thy ===== *)
theory Kvs_Client_Laws
  imports Kvs_Client
begin

text \<open>
  The invariant of the client of the key-value store: what waits under a key is a request for that key.
  Every method keeps it, none fails while the routing tier is configured and the answers it gives are
  complete, and no request is forgotten: what waits goes on waiting or is answered.
\<close>

subsection \<open>Invariant\<close>

definition req_for :: "Key \<Rightarrow> KeyRequest \<Rightarrow> bool" where
  "req_for k r \<longleftrightarrow> (\<exists>tp tps. kr_tuples r = tp # tps \<and> kt_key tp = k)"

definition key_of :: "KeyRequest \<Rightarrow> Key" where
  "key_of r = kt_key (hd (kr_tuples r))"

text \<open>An address with a second part after a split at the colons, like \<open>tcp://ip:port\<close>.\<close>

definition addr_ok :: "Address \<Rightarrow> bool" where
  "addr_ok a \<longleftrightarrow> 2 \<le> length (split a (CHR '':''))"

definition get_ok :: "Key \<Rightarrow> PendingRequest \<Rightarrow> bool" where
  "get_ok k p \<longleftrightarrow> req_for k (pr_request p) \<and> kr_type (pr_request p) = GET \<and> addr_ok (pr_worker_addr p)"

definition put_ok :: "Key \<Rightarrow> string \<Rightarrow> PendingRequest \<Rightarrow> bool" where
  "put_ok k i p \<longleftrightarrow> req_for k (pr_request p) \<and> kr_type (pr_request p) \<noteq> GET \<and>
     kr_request_id (pr_request p) = i \<and> addr_ok (pr_worker_addr p)"

definition kvs_inv :: "KvsClient \<Rightarrow> bool" where
  "kvs_inv c \<longleftrightarrow>
     kc_routing_threads c \<noteq> [] \<and> um_wf (kc_key_address_cache c) \<and> um_wf (kc_pending_request_map c) \<and>
     um_wf (kc_pending_get_response_map c) \<and> um_wf (kc_pending_put_response_map c) \<and>
     (\<forall>k as. map_of (kc_key_address_cache c) k = Some as \<longrightarrow> (\<forall>a\<in>set as. addr_ok a)) \<and>
     (\<forall>k tp rs. map_of (kc_pending_request_map c) k = Some (tp, rs) \<longrightarrow> (\<forall>r\<in>set rs. req_for k r)) \<and>
     (\<forall>k p. map_of (kc_pending_get_response_map c) k = Some p \<longrightarrow> get_ok k p) \<and>
     (\<forall>k ids. map_of (kc_pending_put_response_map c) k = Some ids \<longrightarrow>
        um_wf ids \<and> (\<forall>i p. map_of ids i = Some p \<longrightarrow> put_ok k i p))"

lemma kvs_inv_new: "routing \<noteq> [] \<Longrightarrow> kvs_inv (new_KvsClient routing ip tid timeout seed)"
  by (simp add: kvs_inv_def new_KvsClient_def)

lemma addr_ok_not_Nil [simp]: "\<not> addr_ok []"
  by (simp add: addr_ok_def split_def)

lemma kvs_inv_cache: "kvs_inv c \<Longrightarrow> a \<in> set (um_get [] k (kc_key_address_cache c)) \<Longrightarrow> addr_ok a"
  by (cases "map_of (kc_key_address_cache c) k") (auto simp: kvs_inv_def)

lemma kvs_inv_routing: "kvs_inv c \<Longrightarrow> kc_routing_threads c \<noteq> []"
  by (simp add: kvs_inv_def)

lemma kvs_inv_put:
  "kvs_inv c \<Longrightarrow> um_wf (um_get [] k (kc_pending_put_response_map c)) \<and>
     (\<forall>i p. map_of (um_get [] k (kc_pending_put_response_map c)) i = Some p \<longrightarrow> put_ok k i p)"
  by (cases "map_of (kc_pending_put_response_map c) k") (auto simp: kvs_inv_def)

text \<open>What waits: for a GET the key, for any other request the key and the identifier.\<close>

type_synonym ticket = "bool \<times> Key \<times> string"

definition ticket :: "KeyRequest \<Rightarrow> ticket" where
  "ticket r = (if kr_type r = GET then (True, key_of r, []) else (False, key_of r, kr_request_id r))"

definition answers :: "KeyResponse \<Rightarrow> ticket" where
  "answers s = (let k = kt_key (hd (ks_tuples s))
     in if ks_type s = GET then (True, k, []) else (False, k, ks_response_id s))"

definition queued :: "KvsClient \<Rightarrow> Key \<Rightarrow> KeyRequest list" where
  "queued c k = (case map_of (kc_pending_request_map c) k of None \<Rightarrow> [] | Some (tp, rs) \<Rightarrow> rs)"

definition unrouted :: "KvsClient \<Rightarrow> ticket set" where
  "unrouted c = (\<Union>k. ticket ` set (queued c k))"

definition in_flight :: "KvsClient \<Rightarrow> ticket set" where
  "in_flight c = {(True, k, []) | k. um_has k (kc_pending_get_response_map c)} \<union>
     {(False, k, i) | k i. um_has i (um_get [] k (kc_pending_put_response_map c))}"

definition waiting :: "KvsClient \<Rightarrow> ticket set" where
  "waiting c = unrouted c \<union> in_flight c"

lemma in_flight_get [simp]: "(True, k, i) \<in> in_flight c \<longleftrightarrow> i = [] \<and> um_has k (kc_pending_get_response_map c)"
  by (auto simp: in_flight_def)

lemma in_flight_put [simp]:
  "(False, k, i) \<in> in_flight c \<longleftrightarrow> um_has i (um_get [] k (kc_pending_put_response_map c))"
  by (auto simp: in_flight_def)

lemma queued_update [simp]:
  "queued (c\<lparr>kc_pending_get_response_map := g\<rparr>) = queued c"
  "queued (c\<lparr>kc_pending_put_response_map := p\<rparr>) = queued c"
  "queued (c\<lparr>kc_key_address_cache := a\<rparr>) = queued c"
  by (simp_all add: queued_def [abs_def])

lemma in_flight_update [simp]:
  "in_flight (c\<lparr>kc_pending_request_map := q\<rparr>) = in_flight c"
  "in_flight (c\<lparr>kc_key_address_cache := a\<rparr>) = in_flight c"
  by (simp_all add: in_flight_def)

lemma in_flight_eqI:
  assumes "\<And>k i. (True, k, i) \<in> S \<longleftrightarrow> (True, k, i) \<in> T" and "\<And>k i. (False, k, i) \<in> S \<longleftrightarrow> (False, k, i) \<in> T"
  shows "S = (T :: ticket set)"
proof (rule set_eqI)
  fix t :: ticket
  obtain b k i where "t = (b, k, i)" by (cases t)
  then show "t \<in> S \<longleftrightarrow> t \<in> T" using assms by (cases b) simp_all
qed

subsection \<open>Choosing a server\<close>

text \<open>The two states differ in the counter, the seed and what has been sent only.\<close>

definition kvs_same :: "KvsClient \<Rightarrow> KvsClient \<Rightarrow> bool" where
  "kvs_same c c' \<longleftrightarrow> kc_routing_threads c' = kc_routing_threads c \<and> kc_ut c' = kc_ut c \<and>
     kc_timeout c' = kc_timeout c \<and> kc_key_address_cache c' = kc_key_address_cache c \<and>
     kc_pending_request_map c' = kc_pending_request_map c \<and>
     kc_pending_get_response_map c' = kc_pending_get_response_map c \<and>
     kc_pending_put_response_map c' = kc_pending_put_response_map c"

lemma kvs_same_inv: "kvs_same c c' \<Longrightarrow> kvs_inv c' = kvs_inv c"
  by (simp add: kvs_same_def kvs_inv_def)

lemma kvs_same_waiting:
  "kvs_same c c' \<Longrightarrow> queued c' = queued c \<and> unrouted c' = unrouted c \<and> in_flight c' = in_flight c \<and>
     waiting c' = waiting c"
  by (simp add: kvs_same_def waiting_def unrouted_def queued_def [abs_def] in_flight_def)

lemma get_request_id_same: "get_request_id c = (i, c') \<Longrightarrow> kvs_same c c'"
  by (auto simp: get_request_id_def kvs_same_def split: prod.splits)

lemma query_routing_async_total:
  assumes "kc_routing_threads c \<noteq> []"
  shows "\<exists>c'. query_routing_async rnd key c = Inr c' \<and> kvs_same c c'"
  using assms
  by (simp add: query_routing_async_def get_request_id_def request_id_def get_routing_thread_def
      kc_rand_mod_def kvs_send_def kvs_same_def Let_def split_beta)

text \<open>The server chosen for a key is cached; there is one as soon as the cache has one.\<close>

lemma get_worker_thread_total:
  assumes "kc_routing_threads c \<noteq> []"
  shows "\<exists>worker c'. get_worker_thread rnd key c = Inr (worker, c') \<and> kvs_same c c' \<and>
    (let cached = um_get [] key (kc_key_address_cache c)
     in if cached = [] then worker = [] else worker \<in> set cached)"
proof (cases "um_get [] key (kc_key_address_cache c) = []")
  case True
  obtain c' where "query_routing_async rnd key c = Inr c'" "kvs_same c c'"
    using query_routing_async_total [OF assms] by blast
  with True show ?thesis
    by (simp add: get_worker_thread_def get_all_worker_threads_def kvs_same_def)
next
  case False
  then show ?thesis
    by (simp add: get_worker_thread_def get_all_worker_threads_def kc_rand_mod_def kvs_same_def
        split_beta Let_def)
qed

subsection \<open>Issuing a request\<close>

lemma with_cache_size_simps [simp]:
  "kr_type (with_cache_size n r) = kr_type r" "kr_request_id (with_cache_size n r) = kr_request_id r"
  "req_for k (with_cache_size n r) = req_for k r"
  by (auto simp: with_cache_size_def req_for_def split: list.splits)

lemma key_of_req_for: "req_for k r \<Longrightarrow> key_of r = k"
  by (auto simp: req_for_def key_of_def)

lemma ticket_eq: "req_for k r \<Longrightarrow> ticket r = (if kr_type r = GET then (True, k, []) else (False, k, kr_request_id r))"
  by (simp add: ticket_def key_of_req_for)

lemma ticket_with_cache_size [simp]: "req_for k r \<Longrightarrow> ticket (with_cache_size n r) = ticket r"
  by (simp add: ticket_eq [of k])

lemma queued_await_address:
  "queued (await_address now key r c) = (queued c)(key := queued c key @ [r])"
  by (rule ext) (auto simp: queued_def await_address_def um_get_def split: option.splits prod.splits)

lemma in_flight_await_address [simp]: "in_flight (await_address now key r c) = in_flight c"
  by (simp add: in_flight_def await_address_def)

lemma queued_await_get [simp]: "queued (await_get now key worker r c) = queued c"
  by (simp add: queued_def [abs_def] await_get_def)

lemma queued_await_put [simp]: "queued (await_put now key worker r c) = queued c"
  by (simp add: queued_def [abs_def] await_put_def)

lemma in_flight_await_get:
  "in_flight (await_get now key worker r c) = insert (True, key, []) (in_flight c)"
  by (rule in_flight_eqI) (auto simp: await_get_def)

lemma in_flight_await_put:
  "in_flight (await_put now key worker r c) = insert (False, key, kr_request_id r) (in_flight c)"
  by (rule in_flight_eqI) (auto simp: await_put_def)

lemma await_address_cache [simp]: "kc_key_address_cache (await_address now key r c) = kc_key_address_cache c"
  by (simp add: await_address_def)

lemma await_address_inv: "kvs_inv c \<Longrightarrow> req_for key r \<Longrightarrow> kvs_inv (await_address now key r c)"
  by (auto simp: kvs_inv_def await_address_def um_get_def split: option.splits prod.splits if_splits)

lemma await_get_inv:
  "kvs_inv c \<Longrightarrow> req_for key r \<Longrightarrow> kr_type r = GET \<Longrightarrow> addr_ok worker \<Longrightarrow> kvs_inv (await_get now key worker r c)"
  by (auto simp: kvs_inv_def await_get_def get_ok_def um_get_def split: option.splits if_splits)

lemma await_put_inv:
  "kvs_inv c \<Longrightarrow> req_for key r \<Longrightarrow> kr_type r \<noteq> GET \<Longrightarrow> addr_ok worker \<Longrightarrow> kvs_inv (await_put now key worker r c)"
  using kvs_inv_put [of c key]
  by (auto simp: kvs_inv_def await_put_def put_ok_def um_get_def split: option.splits if_splits)

lemma waiting_await_address:
  "waiting (await_address now key r c) = insert (ticket r) (waiting c)"
proof -
  have "\<And>k. ticket ` set (queued (await_address now key r c) k) =
      ticket ` set (queued c k) \<union> (if k = key then {ticket r} else {})"
    by (simp add: queued_await_address)
  then have "unrouted (await_address now key r c) = unrouted c \<union> (\<Union>k. if k = key then {ticket r} else {})"
    by (simp add: unrouted_def UN_Un_distrib)
  also have "(\<Union>k. if k = key then {ticket r} else {}) = {ticket r}" by (auto split: if_splits)
  finally show ?thesis by (simp add: waiting_def)
qed

lemma kvs_send_same: "kvs_same c (kvs_send a m c)"
  by (simp add: kvs_send_def kvs_same_def)

text \<open>A request either joins those that wait for the routing tier, when no server is cached, or is sent
  and joins those that wait for an answer.\<close>

lemma try_request_total:
  assumes inv: "kvs_inv c" and r: "req_for key r"
  shows "\<exists>r' c'. try_request rnd now r c = Inr (r', c') \<and> kvs_inv c' \<and>
    req_for key r' \<and> kr_type r' = kr_type r \<and> kr_request_id r' = kr_request_id r \<and>
    waiting c' = insert (ticket r) (waiting c) \<and> kc_key_address_cache c' = kc_key_address_cache c \<and>
    in_flight c \<subseteq> in_flight c' \<and>
    (um_get [] key (kc_key_address_cache c) \<noteq> [] \<longrightarrow>
       kc_pending_request_map c' = kc_pending_request_map c \<and> ticket r \<in> in_flight c')"
proof -
  let ?cached = "um_get [] key (kc_key_address_cache c)"
  obtain tp tps where tps: "kr_tuples r = tp # tps" "kt_key tp = key" using r by (auto simp: req_for_def)
  have "kc_routing_threads c \<noteq> []" using inv by (simp add: kvs_inv_def)
  then obtain worker c1 where w: "get_worker_thread rnd key c = Inr (worker, c1)" and same: "kvs_same c c1"
    and worker: "if ?cached = [] then worker = [] else worker \<in> set ?cached"
    using get_worker_thread_total [of c rnd key] by (auto simp: Let_def)
  have inv1: "kvs_inv c1" using inv same by (simp add: kvs_same_inv)
  have flight1: "in_flight c1 = in_flight c" using same kvs_same_waiting by blast
  have wait1: "waiting c1 = waiting c" using same kvs_same_waiting by blast
  have cache1: "kc_key_address_cache c1 = kc_key_address_cache c"
    "kc_pending_request_map c1 = kc_pending_request_map c" using same by (simp_all add: kvs_same_def)
  show ?thesis
  proof (cases "worker = []")
    case True
    then have "?cached = []" using worker kvs_inv_cache [OF inv, of worker key] by (auto split: if_splits)
    with True show ?thesis
      using r inv1 wait1 cache1 await_address_inv [OF inv1 r] flight1
      by (auto simp: try_request_def tps w waiting_await_address)
  next
    case False
    then have ok: "addr_ok worker" using worker kvs_inv_cache [OF inv] by (auto split: if_splits)
    let ?r' = "with_cache_size (length (um_get [] key (kc_key_address_cache c1))) r"
    let ?c2 = "kvs_send worker (W_KeyRequest ?r') c1"
    let ?c3 = "if kr_type r = GET then await_get now key worker ?r' ?c2 else await_put now key worker ?r' ?c2"
    have inv2: "kvs_inv ?c2" using inv1 kvs_same_inv [OF kvs_send_same] by blast
    have "try_request rnd now r c = Inr (?r', ?c3)"
      using False by (simp add: try_request_def tps w Let_def)
    moreover have "kvs_inv ?c3"
      using await_get_inv [OF inv2, of key ?r' worker now] await_put_inv [OF inv2, of key ?r' worker now] ok r
      by simp
    moreover have "in_flight ?c3 = insert (ticket r) (in_flight ?c2)" "queued ?c3 = queued ?c2"
      using r by (simp_all add: in_flight_await_get in_flight_await_put ticket_eq)
    moreover have "queued ?c2 = queued c1" "in_flight ?c2 = in_flight c1"
      using kvs_same_waiting [OF kvs_send_same] by blast+
    moreover have "kc_key_address_cache ?c3 = kc_key_address_cache c"
      "kc_pending_request_map ?c3 = kc_pending_request_map c"
      using cache1 by (simp_all add: await_get_def await_put_def kvs_send_def)
    ultimately show ?thesis
      using r wait1 flight1 by (intro exI [of _ ?r'] exI [of _ ?c3]) (auto simp: waiting_def unrouted_def)
  qed
qed

subsection \<open>Answers of the routing tier\<close>

lemma retry_pending_total:
  assumes "kvs_inv c" and "\<forall>r\<in>set reqs. req_for key r" and "um_get [] key (kc_key_address_cache c) \<noteq> []"
  shows "\<exists>c'. retry_pending rnd now key reqs c = Inr c' \<and> kvs_inv c' \<and>
    kc_pending_request_map c' = kc_pending_request_map c \<and> in_flight c \<subseteq> in_flight c' \<and>
    ticket ` set reqs \<subseteq> in_flight c'"
  using assms
proof (induction reqs arbitrary: c)
  case Nil
  then show ?case by (simp add: retry_pending_def)
next
  case (Cons r reqs)
  obtain r' c1 where t: "try_request rnd now r c = Inr (r', c1)" and inv1: "kvs_inv c1"
    and cache: "kc_key_address_cache c1 = kc_key_address_cache c"
    and preq: "kc_pending_request_map c1 = kc_pending_request_map c"
    and fl: "ticket r \<in> in_flight c1" "in_flight c \<subseteq> in_flight c1"
    using try_request_total [OF Cons.prems(1), of key r rnd now] Cons.prems(2,3) by auto
  obtain c' where "retry_pending rnd now key reqs c1 = Inr c'" "kvs_inv c'"
    "kc_pending_request_map c' = kc_pending_request_map c1" "in_flight c1 \<subseteq> in_flight c'"
    "ticket ` set reqs \<subseteq> in_flight c'"
    using Cons.IH [OF inv1] Cons.prems(2,3) cache by auto
  with t preq fl show ?case by (auto simp: retry_pending_def)
qed

text \<open>Without a server for the key the loop appends to the vector that it runs over.\<close>

lemma retry_pending_no_server:
  assumes inv: "kvs_inv c" and r: "req_for key r" and none: "um_get [] key (kc_key_address_cache c) = []"
  shows "retry_pending rnd now key (r # reqs) c = Inl IterInvalid"
proof -
  obtain tp tps where tps: "kr_tuples r = tp # tps" "kt_key tp = key" using r by (auto simp: req_for_def)
  obtain c1 where w: "get_worker_thread rnd key c = Inr ([], c1)" and same: "kvs_same c c1"
    using get_worker_thread_total [of c rnd key] inv none by (auto simp: Let_def kvs_inv_def)
  have preq: "kc_pending_request_map c1 = kc_pending_request_map c" using same by (simp add: kvs_same_def)
  have "map_of (kc_pending_request_map (await_address now key r c1)) key \<noteq> map_of (kc_pending_request_map c) key"
    by (auto simp: await_address_def preq um_get_def split: option.splits)
  then show ?thesis by (simp add: retry_pending_def try_request_def tps w)
qed

text \<open>What a step of the client must not do is to forget a request.\<close>

definition step_ok :: "KvsClient \<Rightarrow> KeyResponse list \<Rightarrow> KvsClient \<Rightarrow> bool" where
  "step_ok c result c' \<longleftrightarrow> kvs_inv c' \<and> waiting c \<subseteq> waiting c' \<union> answers ` set result"

lemma step_ok_trans: "step_ok c r1 c1 \<Longrightarrow> step_ok c1 r2 c2 \<Longrightarrow> step_ok c (r1 @ r2) c2"
  by (auto simp: step_ok_def)

lemma step_ok_same: "kvs_inv c \<Longrightarrow> kvs_same c c' \<Longrightarrow> step_ok c [] c'"
  by (simp add: step_ok_def kvs_same_inv kvs_same_waiting)

definition addresses_ok :: "KeyAddressResponse \<Rightarrow> bool" where
  "addresses_ok r \<longleftrightarrow> (\<exists>a as. kas_addresses r = a # as \<and> (kas_error r \<noteq> NO_SERVERS \<longrightarrow> ka_ips a \<noteq> []) \<and>
     (\<forall>ip\<in>set (ka_ips a). addr_ok ip))"

definition add_servers :: "Key \<Rightarrow> Address list \<Rightarrow> KvsClient \<Rightarrow> KvsClient" where
  "add_servers key ips c = fold (\<lambda>ip c. c\<lparr>kc_key_address_cache :=
     um_alter [] (us_insert ip) key (kc_key_address_cache c)\<rparr>) ips c"

lemma add_servers_fields [simp]:
  "kc_pending_request_map (add_servers key ips c) = kc_pending_request_map c"
  "kc_pending_get_response_map (add_servers key ips c) = kc_pending_get_response_map c"
  "kc_pending_put_response_map (add_servers key ips c) = kc_pending_put_response_map c"
  "kc_routing_threads (add_servers key ips c) = kc_routing_threads c"
  by (induction ips arbitrary: c) (simp_all add: add_servers_def)

lemma add_servers_cached: "ips \<noteq> [] \<Longrightarrow> um_get [] key (kc_key_address_cache (add_servers key ips c)) \<noteq> []"
proof -
  have keep: "um_get [] key (kc_key_address_cache c) \<noteq> [] \<Longrightarrow>
    um_get [] key (kc_key_address_cache (add_servers key ips c)) \<noteq> []" for ips c
    by (induction ips arbitrary: c) (simp_all add: add_servers_def)
  assume "ips \<noteq> []"
  then obtain ip rest where "ips = ip # rest" by (cases ips) auto
  then show ?thesis using keep [of _ rest] by (simp add: add_servers_def)
qed

lemma add_servers_inv: "kvs_inv c \<Longrightarrow> \<forall>ip\<in>set ips. addr_ok ip \<Longrightarrow> kvs_inv (add_servers key ips c)"
proof (induction ips arbitrary: c)
  case (Cons ip ips)
  have "kvs_inv (c\<lparr>kc_key_address_cache := um_alter [] (us_insert ip) key (kc_key_address_cache c)\<rparr>)"
    using Cons.prems kvs_inv_cache [OF Cons.prems(1)] by (auto simp: kvs_inv_def)
  with Cons show ?case by (simp add: add_servers_def)
qed (simp add: add_servers_def)

lemma add_servers_waiting: "queued (add_servers key ips c) = queued c" "in_flight (add_servers key ips c) = in_flight c"
  by (simp_all add: queued_def [abs_def] in_flight_def)

lemma drop_routed:
  assumes "kvs_inv c" and "ticket ` set (queued c key) \<subseteq> in_flight c"
  shows "step_ok c [] (c\<lparr>kc_pending_request_map := um_erase key (kc_pending_request_map c)\<rparr>)" (is "step_ok c [] ?c'")
proof -
  have "kvs_inv ?c'" using assms(1) by (auto simp: kvs_inv_def)
  moreover have "queued ?c' = (queued c)(key := [])" by (rule ext) (simp add: queued_def)
  moreover have "in_flight ?c' = in_flight c" by (simp add: in_flight_def)
  moreover have "unrouted c \<subseteq> unrouted ?c' \<union> in_flight c"
  proof
    fix t
    assume "t \<in> unrouted c"
    then obtain k where k: "t \<in> ticket ` set (queued c k)" by (auto simp: unrouted_def)
    show "t \<in> unrouted ?c' \<union> in_flight c"
    proof (cases "k = key")
      case True
      then show ?thesis using k assms(2) by blast
    next
      case False
      then have "queued ?c' k = queued c k" by (simp add: queued_def)
      then show ?thesis using k unfolding unrouted_def by (metis UNIV_I UN_I UnI1)
    qed
  qed
  ultimately show ?thesis by (auto simp: step_ok_def waiting_def)
qed

lemma receive_addresses_total:
  assumes inv: "kvs_inv c" and ok: "addresses_ok r"
  shows "\<exists>c'. receive_addresses rnd now r c = Inr c' \<and> step_ok c [] c'"
proof -
  obtain a as where a: "kas_addresses r = a # as" "kas_error r \<noteq> NO_SERVERS \<Longrightarrow> ka_ips a \<noteq> []"
    "\<forall>ip\<in>set (ka_ips a). addr_ok ip" using ok by (auto simp: addresses_ok_def)
  let ?key = "ka_key a"
  show ?thesis
  proof (cases "map_of (kc_pending_request_map c) ?key")
    case None
    then show ?thesis using inv by (simp add: receive_addresses_def a(1) step_ok_def)
  next
    case (Some e)
    then obtain tp reqs where e: "map_of (kc_pending_request_map c) ?key = Some (tp, reqs)" by (cases e) auto
    then have q: "queued c ?key = reqs" and reqs: "\<forall>x\<in>set reqs. req_for ?key x"
      using inv by (auto simp: queued_def kvs_inv_def)
    show ?thesis
    proof (cases "kas_error r = NO_SERVERS")
      case True
      let ?c1 = "c\<lparr>kc_pending_request_map := um_put ?key (now, reqs) (kc_pending_request_map c)\<rparr>"
      have inv1: "kvs_inv ?c1" using inv reqs by (auto simp: kvs_inv_def)
      obtain c' where c': "query_routing_async rnd ?key ?c1 = Inr c'" "kvs_same ?c1 c'"
        using query_routing_async_total [OF kvs_inv_routing [OF inv1], of rnd ?key] by blast
      have "queued ?c1 = queued c" using q by (auto simp: queued_def e)
      moreover have "in_flight ?c1 = in_flight c" by (simp add: in_flight_def)
      ultimately have "waiting c' = waiting c"
        using kvs_same_waiting [OF c'(2)] by (simp add: waiting_def unrouted_def)
      then show ?thesis using c' inv1 True e
        by (simp add: receive_addresses_def a(1) step_ok_def kvs_same_inv)
    next
      case False
      let ?c1 = "add_servers ?key (ka_ips a) c"
      have inv1: "kvs_inv ?c1" using add_servers_inv [OF inv a(3)] .
      obtain c2 where c2: "retry_pending rnd now ?key reqs ?c1 = Inr c2" "kvs_inv c2"
        "kc_pending_request_map c2 = kc_pending_request_map ?c1" "in_flight ?c1 \<subseteq> in_flight c2"
        "ticket ` set reqs \<subseteq> in_flight c2"
        using retry_pending_total [OF inv1 reqs] add_servers_cached a(2) False by blast
      have q2: "queued c2 = queued c" using c2(3) by (simp add: queued_def [abs_def])
      have "step_ok c [] c2" using c2(2,4) q2
        by (auto simp: step_ok_def waiting_def unrouted_def add_servers_waiting)
      moreover have "step_ok c2 [] (c2\<lparr>kc_pending_request_map := um_erase ?key (kc_pending_request_map c2)\<rparr>)"
        using c2(2,5) q q2 by (intro drop_routed) auto
      ultimately show ?thesis using False e c2(1) step_ok_trans [of c "[]" c2 "[]"]
        by (simp add: receive_addresses_def a(1) add_servers_def)
    qed
  qed
qed

subsection \<open>Answers of the servers\<close>

lemma check_tuple_inv:
  assumes "kvs_inv c" and "check_tuple tuple c = (again, c')"
  shows "kvs_inv c'" and "queued c' = queued c" and "in_flight c' = in_flight c"
    and "kc_pending_get_response_map c' = kc_pending_get_response_map c"
    and "kc_pending_put_response_map c' = kc_pending_put_response_map c"
  using assms
  by (auto simp: check_tuple_def invalidate_cache_for_key_def kvs_inv_def queued_def in_flight_def
      split: if_splits)

lemma waiting_update_get:
  assumes "queued c' = queued c" and "kc_pending_put_response_map c' = kc_pending_put_response_map c"
    and "\<And>k. um_has k (kc_pending_get_response_map c) \<Longrightarrow> um_has k (kc_pending_get_response_map c')"
  shows "waiting c \<subseteq> waiting c'"
  using assms by (auto simp: waiting_def unrouted_def in_flight_def)

lemma waiting_update_put:
  assumes "queued c' = queued c" and "kc_pending_get_response_map c' = kc_pending_get_response_map c"
    and "\<And>k i. um_has i (um_get [] k (kc_pending_put_response_map c)) \<Longrightarrow>
      um_has i (um_get [] k (kc_pending_put_response_map c'))"
  shows "waiting c \<subseteq> waiting c'"
  using assms by (auto simp: waiting_def unrouted_def in_flight_def)

lemma receive_get_total:
  assumes inv: "kvs_inv c" and resp: "ks_tuples r = tuple # tps" "ks_type r = GET"
  shows "\<exists>result c'. receive_get rnd now tuple r c = Inr (result, c') \<and> step_ok c result c'"
proof (cases "map_of (kc_pending_get_response_map c) (kt_key tuple)")
  case None
  then show ?thesis using inv by (simp add: receive_get_def step_ok_def)
next
  case (Some pending)
  let ?key = "kt_key tuple"
  have pok: "get_ok ?key pending" using inv Some by (auto simp: kvs_inv_def)
  obtain again c1 where ct: "check_tuple tuple c = (again, c1)" by fastforce
  note c1 = check_tuple_inv [OF inv ct]
  show ?thesis
  proof (cases again)
    case True
    let ?c2 = "c1\<lparr>kc_pending_get_response_map :=
      um_put ?key (pending\<lparr>pr_tp := now\<rparr>) (kc_pending_get_response_map c1)\<rparr>"
    have inv2: "kvs_inv ?c2" using c1(1) pok by (auto simp: kvs_inv_def get_ok_def)
    obtain req c3 where t: "try_request rnd now (pr_request pending) ?c2 = Inr (req, c3)" and inv3: "kvs_inv c3"
      and req: "req_for ?key req" "kr_type req = GET" and wait3: "waiting ?c2 \<subseteq> waiting c3"
      using try_request_total [OF inv2, of ?key "pr_request pending" rnd now] pok by (auto simp: get_ok_def)
    let ?c4 = "c3\<lparr>kc_pending_get_response_map :=
      um_alter pending (\<lambda>p. p\<lparr>pr_request := req\<rparr>) ?key (kc_pending_get_response_map c3)\<rparr>"
    have "get_ok ?key (um_get pending ?key (kc_pending_get_response_map c3))"
      using inv3 pok by (cases "map_of (kc_pending_get_response_map c3) ?key") (auto simp: kvs_inv_def)
    then have "kvs_inv ?c4" using inv3 req by (auto simp: kvs_inv_def get_ok_def)
    moreover have "waiting c \<subseteq> waiting ?c2"
      by (rule waiting_update_get) (use c1 in \<open>auto simp: queued_def\<close>)
    moreover have "waiting c3 \<subseteq> waiting ?c4" by (rule waiting_update_get) (auto simp: queued_def)
    ultimately show ?thesis using Some ct True t wait3 by (auto simp: receive_get_def step_ok_def)
  next
    case False
    let ?c2 = "c1\<lparr>kc_pending_get_response_map := um_erase ?key (kc_pending_get_response_map c1)\<rparr>"
    have "kvs_inv ?c2" using c1(1) by (auto simp: kvs_inv_def)
    moreover have "queued ?c2 = queued c" using c1(2) by (simp add: queued_def [abs_def])
    moreover have "in_flight c \<subseteq> insert (answers r) (in_flight ?c2)"
      using c1 resp by (auto simp: in_flight_def answers_def Let_def)
    ultimately show ?thesis using Some ct False
      by (auto simp: receive_get_def step_ok_def waiting_def unrouted_def)
  qed
qed

lemma receive_put_total:
  assumes inv: "kvs_inv c" and resp: "ks_tuples r = tuple # tps" "ks_type r \<noteq> GET"
  shows "\<exists>result c'. receive_put rnd now tuple r c = Inr (result, c') \<and> step_ok c result c'"
proof (cases "map_of (um_get [] (kt_key tuple) (kc_pending_put_response_map c)) (ks_response_id r)")
  case None
  then show ?thesis using inv by (simp add: receive_put_def step_ok_def)
next
  case (Some pending)
  let ?key = "kt_key tuple" and ?rid = "ks_response_id r"
  let ?ids = "um_get [] ?key (kc_pending_put_response_map c)"
  have pok: "put_ok ?key ?rid pending" and ids: "um_wf ?ids" "\<And>i p. map_of ?ids i = Some p \<Longrightarrow> put_ok ?key i p"
    using kvs_inv_put [OF inv, of ?key] Some by auto
  obtain again c1 where ct: "check_tuple tuple c = (again, c1)" by fastforce
  note c1 = check_tuple_inv [OF inv ct]
  show ?thesis
  proof (cases again)
    case True
    let ?c2 = "c1\<lparr>kc_pending_put_response_map :=
      um_put ?key (um_put ?rid (pending\<lparr>pr_tp := now\<rparr>) ?ids) (kc_pending_put_response_map c1)\<rparr>"
    have inv2: "kvs_inv ?c2" using c1(1) pok ids by (auto simp: kvs_inv_def put_ok_def)
    obtain req c3 where t: "try_request rnd now (pr_request pending) ?c2 = Inr (req, c3)" and inv3: "kvs_inv c3"
      and req0: "req_for ?key req" "kr_type req = kr_type (pr_request pending)"
        "kr_request_id req = kr_request_id (pr_request pending)"
      and w3: "waiting c3 = insert (ticket (pr_request pending)) (waiting ?c2)"
      using try_request_total [OF inv2, of ?key "pr_request pending" rnd now] pok unfolding put_ok_def by blast
    have req: "req_for ?key req" "kr_type req \<noteq> GET" "kr_request_id req = ?rid" and wait3: "waiting ?c2 \<subseteq> waiting c3"
      using req0 w3 pok by (auto simp: put_ok_def)
    let ?c4 = "c3\<lparr>kc_pending_put_response_map := um_alter []
      (um_alter pending (\<lambda>p. p\<lparr>pr_request := req\<rparr>) ?rid) ?key (kc_pending_put_response_map c3)\<rparr>"
    have ids3: "um_wf (um_get [] ?key (kc_pending_put_response_map c3))"
      "\<And>i p. map_of (um_get [] ?key (kc_pending_put_response_map c3)) i = Some p \<Longrightarrow> put_ok ?key i p"
      using kvs_inv_put [OF inv3, of ?key] by auto
    then have "put_ok ?key ?rid (um_get pending ?rid (um_get [] ?key (kc_pending_put_response_map c3)))"
      using pok by (cases "map_of (um_get [] ?key (kc_pending_put_response_map c3)) ?rid") auto
    then have "kvs_inv ?c4" using inv3 req ids3 by (auto simp: kvs_inv_def put_ok_def)
    moreover have "waiting c \<subseteq> waiting ?c2"
      by (rule waiting_update_put) (use c1 in \<open>auto\<close>)
    moreover have "waiting c3 \<subseteq> waiting ?c4" by (rule waiting_update_put) auto
    ultimately show ?thesis using Some ct True t wait3 by (auto simp: receive_put_def step_ok_def Let_def)
  next
    case False
    let ?ids' = "um_erase ?rid ?ids"
    let ?c2 = "c1\<lparr>kc_pending_put_response_map :=
      (if ?ids' = [] then um_erase ?key (kc_pending_put_response_map c1)
       else um_put ?key ?ids' (kc_pending_put_response_map c1))\<rparr>"
    have "kvs_inv ?c2" using c1(1) ids by (auto simp: kvs_inv_def)
    moreover have "in_flight c \<subseteq> insert (answers r) (in_flight ?c2)"
    proof
      fix t :: ticket
      assume t: "t \<in> in_flight c"
      obtain b k i where bki: "t = (b, k, i)" by (cases t)
      have "map_of ?ids' = (map_of ?ids)(?rid := None)" by simp
      moreover have "?ids' = [] \<Longrightarrow> map_of ?ids' = Map.empty" by (metis map_of.simps(1))
      ultimately have "i \<noteq> ?rid \<Longrightarrow> map_of ?ids i \<noteq> None \<Longrightarrow> ?ids' \<noteq> []" by (metis fun_upd_apply)
      then show "t \<in> insert (answers r) (in_flight ?c2)"
        using t c1 resp unfolding bki by (cases b; cases "k = ?key \<and> i = ?rid") (auto simp: answers_def Let_def)
    qed
    ultimately show ?thesis using Some ct False c1
      by (auto simp: receive_put_def step_ok_def waiting_def unrouted_def Let_def)
  qed
qed

lemma receive_response_total:
  assumes "kvs_inv c" and "ks_tuples r \<noteq> []"
  shows "\<exists>result c'. receive_response rnd now r c = Inr (result, c') \<and> step_ok c result c'"
proof -
  obtain tuple tps where "ks_tuples r = tuple # tps" using assms(2) by (cases "ks_tuples r") auto
  then show ?thesis
    using receive_get_total [OF assms(1)] receive_put_total [OF assms(1)]
    by (cases "ks_type r = GET") (simp_all add: receive_response_def)
qed

end
