(* ===== verification/Kvs_Timeouts.thy ===== *)
theory Kvs_Timeouts
  imports Kvs_Client_Laws
begin

text \<open>
  What \<open>receive_async\<close> does about requests that have waited too long: each is answered with a timeout
  and dropped, and the caches that mention its server are dropped with it.
\<close>

subsection \<open>Timeouts\<close>

text \<open>The answer that the client makes up for a request that has timed out.\<close>

definition timeout_for :: "KeyRequest \<Rightarrow> KeyResponse \<Rightarrow> bool" where
  "timeout_for r s \<longleftrightarrow> answers s = ticket r \<and> ks_error s = TIMEOUT"

lemma bad_response_times_out: "generate_bad_response r = Inr s \<Longrightarrow> timeout_for r s"
  by (auto simp: generate_bad_response_def timeout_for_def answers_def ticket_def key_of_def Let_def
      split: list.splits)

lemma generate_bad_response_total: "req_for k r \<Longrightarrow> \<exists>s. generate_bad_response r = Inr s \<and> timeout_for r s"
proof -
  assume "req_for k r"
  then have "\<exists>s. generate_bad_response r = Inr s" by (auto simp: generate_bad_response_def req_for_def Let_def)
  then show ?thesis using bad_response_times_out by blast
qed

lemma timeouts_answer: "list_all2 timeout_for rs ss \<Longrightarrow> answers ` set ss = ticket ` set rs \<and> (\<forall>s\<in>set ss. ks_error s = TIMEOUT)"
  by (induction rule: list_all2_induct) (auto simp: timeout_for_def)

lemma signature_of_total: "addr_ok a \<Longrightarrow> \<exists>sig. signature_of a = Inr sig"
  by (simp add: addr_ok_def signature_of_def Let_def)

lemma caches_worker_total: "\<forall>a\<in>set as. addr_ok a \<Longrightarrow> \<exists>b. caches_worker sig as = Inr b"
proof -
  assume ok: "\<forall>a\<in>set as. addr_ok a"
  have "\<exists>b. rfold (\<lambda>found address. rbind (signature_of address) (\<lambda>v. Inr (found \<or> v = sig))) False as = Inr b \<and> True"
    by (rule rfold_total) (use ok signature_of_total in \<open>fastforce+\<close>)
  then show ?thesis by (simp add: caches_worker_def)
qed

lemma rfold_filter:
  assumes "\<forall>e\<in>set m. \<exists>b. f (snd e) = Inr b"
  shows "\<exists>P. rfold (\<lambda>kept (key, addrs). rbind (f addrs) (\<lambda>found.
      Inr (if found then kept else kept @ [(key, addrs)]))) kept m = Inr (kept @ filter P m)"
proof -
  let ?P = "\<lambda>e. f (snd e) = Inr False"
  have "rfold (\<lambda>kept (key, addrs). rbind (f addrs) (\<lambda>found.
      Inr (if found then kept else kept @ [(key, addrs)]))) kept m = Inr (kept @ filter ?P m)"
    using assms
  proof (induction m arbitrary: kept)
    case (Cons e m)
    obtain b where "f (snd e) = Inr b" using Cons.prems by auto
    then show ?case using Cons by (cases e) auto
  qed simp
  then show ?thesis by blast
qed

lemma invalidate_cache_for_worker_total:
  assumes inv: "kvs_inv c" and ok: "addr_ok worker"
  shows "\<exists>kept. invalidate_cache_for_worker worker c = Inr (c\<lparr>kc_key_address_cache := kept\<rparr>) \<and>
    kvs_inv (c\<lparr>kc_key_address_cache := kept\<rparr>)"
proof -
  obtain sig where sig: "signature_of worker = Inr sig" using signature_of_total [OF ok] by blast
  have wf: "um_wf (kc_key_address_cache c)" using inv by (simp add: kvs_inv_def)
  have "\<forall>e\<in>set (kc_key_address_cache c). \<exists>b. caches_worker sig (snd e) = Inr b"
  proof
    fix e
    assume e: "e \<in> set (kc_key_address_cache c)"
    then have "map_of (kc_key_address_cache c) (fst e) = Some (snd e)" using wf by simp
    then show "\<exists>b. caches_worker sig (snd e) = Inr b" using inv by (intro caches_worker_total) (auto simp: kvs_inv_def)
  qed
  from rfold_filter [OF this, of "[]"] obtain P where P: "invalidate_cache_for_worker worker c =
      Inr (c\<lparr>kc_key_address_cache := filter P (kc_key_address_cache c)\<rparr>)"
    by (auto simp: invalidate_cache_for_worker_def sig)
  have "kvs_inv (c\<lparr>kc_key_address_cache := filter P (kc_key_address_cache c)\<rparr>)"
    using inv by (auto simp: kvs_inv_def map_of_filter split: option.splits if_splits)
  with P show ?thesis by blast
qed

text \<open>Only the cache changes while the answers are made up.\<close>

lemma time_out_total:
  assumes "kvs_inv c" and "\<forall>p\<in>set ps. (\<exists>k. req_for k (pr_request p)) \<and> addr_ok (pr_worker_addr p)"
  shows "\<exists>ss kept. rfold time_out (result, c) ps = Inr (result @ ss, c\<lparr>kc_key_address_cache := kept\<rparr>) \<and>
    kvs_inv (c\<lparr>kc_key_address_cache := kept\<rparr>) \<and> list_all2 timeout_for (map pr_request ps) ss"
  using assms
proof (induction ps arbitrary: result c)
  case Nil
  then show ?case by (intro exI [of _ "[]"] exI [of _ "kc_key_address_cache c"]) simp
next
  case (Cons p ps)
  obtain s where s: "generate_bad_response (pr_request p) = Inr s" "timeout_for (pr_request p) s"
    using Cons.prems(2) generate_bad_response_total by force
  obtain kept where kept: "invalidate_cache_for_worker (pr_worker_addr p) c = Inr (c\<lparr>kc_key_address_cache := kept\<rparr>)"
    "kvs_inv (c\<lparr>kc_key_address_cache := kept\<rparr>)"
    using invalidate_cache_for_worker_total [OF Cons.prems(1)] Cons.prems(2) by force
  obtain ss kept' where "rfold time_out (result @ [s], c\<lparr>kc_key_address_cache := kept\<rparr>) ps =
      Inr ((result @ [s]) @ ss, c\<lparr>kc_key_address_cache := kept'\<rparr>)"
    "kvs_inv (c\<lparr>kc_key_address_cache := kept'\<rparr>)" "list_all2 timeout_for (map pr_request ps) ss"
    using Cons.IH [OF kept(2), of "result @ [s]"] Cons.prems(2) by auto
  with s kept(1) show ?case
    by (intro exI [of _ "s # ss"] exI [of _ kept']) (simp add: time_out_def)
qed

lemma gc_pending_requests_total:
  fixes now :: TimePoint
  assumes inv: "kvs_inv c"
  defines "old \<equiv> \<lambda>(key, tp, reqs). expired now (kc_timeout c) tp"
  shows "\<exists>ss. gc_pending_requests now c =
      Inr (ss, c\<lparr>kc_pending_request_map := filter (\<lambda>e. \<not> old e) (kc_pending_request_map c)\<rparr>) \<and>
    list_all2 timeout_for (concat (map (\<lambda>(key, tp, reqs). reqs) (filter old (kc_pending_request_map c)))) ss"
proof -
  let ?rs = "concat (map (\<lambda>(key, tp, reqs). reqs) (filter old (kc_pending_request_map c)))"
  have "\<forall>r\<in>set ?rs. \<exists>s. generate_bad_response r = Inr s \<and> timeout_for r s"
  proof
    fix r
    assume "r \<in> set ?rs"
    then obtain k tp reqs where "(k, tp, reqs) \<in> set (kc_pending_request_map c)" "r \<in> set reqs" by auto
    moreover have "um_wf (kc_pending_request_map c)" using inv by (simp add: kvs_inv_def)
    ultimately have "req_for k r" using inv by (auto simp: kvs_inv_def)
    then show "\<exists>s. generate_bad_response r = Inr s \<and> timeout_for r s" by (rule generate_bad_response_total)
  qed
  from rfold_collect [OF this, of "[]"] show ?thesis
    unfolding gc_pending_requests_def old_def [symmetric] Let_def by force
qed

lemma gc_pending_gets_total:
  fixes now :: TimePoint
  assumes inv: "kvs_inv c"
  defines "old \<equiv> \<lambda>(key :: Key, pending). expired now (kc_timeout c) (pr_tp pending)"
  shows "\<exists>ss kept. gc_pending_gets now c =
      Inr (ss, c\<lparr>kc_key_address_cache := kept,
                 kc_pending_get_response_map := filter (\<lambda>e. \<not> old e) (kc_pending_get_response_map c)\<rparr>) \<and>
    kvs_inv (c\<lparr>kc_key_address_cache := kept\<rparr>) \<and>
    list_all2 timeout_for (map pr_request (map snd (filter old (kc_pending_get_response_map c)))) ss"
proof -
  let ?ps = "map snd (filter old (kc_pending_get_response_map c))"
  have wf: "um_wf (kc_pending_get_response_map c)" using inv by (simp add: kvs_inv_def)
  have ok: "get_ok k p" if "(k, p) \<in> set (kc_pending_get_response_map c)" for k p
    using that wf inv by (auto simp: kvs_inv_def)
  then have "\<forall>p\<in>set ?ps. (\<exists>k. req_for k (pr_request p)) \<and> addr_ok (pr_worker_addr p)"
    by (fastforce simp: get_ok_def)
  from time_out_total [OF inv this, of "[]"] show ?thesis
    unfolding gc_pending_gets_def old_def [symmetric] Let_def by force
qed

lemma gc_pending_puts_total:
  fixes now :: TimePoint
  assumes inv: "kvs_inv c"
  defines "old \<equiv> \<lambda>(rid :: string, pending). expired now (kc_timeout c) (pr_tp pending)"
  shows "\<exists>ss kept. gc_pending_puts now c =
      Inr (ss, c\<lparr>kc_key_address_cache := kept,
                 kc_pending_put_response_map :=
                   map (\<lambda>(key, ids). (key, filter (\<lambda>e. \<not> old e) ids)) (kc_pending_put_response_map c)\<rparr>) \<and>
    kvs_inv (c\<lparr>kc_key_address_cache := kept\<rparr>) \<and>
    list_all2 timeout_for (map pr_request (concat (map (\<lambda>(key, ids). map snd (filter old ids))
      (kc_pending_put_response_map c)))) ss"
proof -
  let ?ps = "concat (map (\<lambda>(key, ids). map snd (filter old ids)) (kc_pending_put_response_map c))"
  have wf: "um_wf (kc_pending_put_response_map c)" using inv by (simp add: kvs_inv_def)
  have ok: "put_ok k i p" if kids: "(k, ids) \<in> set (kc_pending_put_response_map c)" and ip: "(i, p) \<in> set ids" for k i p ids
  proof -
    have "map_of (kc_pending_put_response_map c) k = Some ids" using kids wf by simp
    then have "um_wf ids" "\<And>i p. map_of ids i = Some p \<Longrightarrow> put_ok k i p" using inv by (auto simp: kvs_inv_def)
    then show ?thesis using ip by simp
  qed
  have "\<forall>p\<in>set ?ps. (\<exists>k. req_for k (pr_request p)) \<and> addr_ok (pr_worker_addr p)"
  proof
    fix p
    assume "p \<in> set ?ps"
    then obtain k ids i where "(k, ids) \<in> set (kc_pending_put_response_map c)" "(i, p) \<in> set ids" by auto
    from ok [OF this] show "(\<exists>k. req_for k (pr_request p)) \<and> addr_ok (pr_worker_addr p)"
      by (auto simp: put_ok_def)
  qed
  from time_out_total [OF inv this, of "[]"] show ?thesis
    unfolding gc_pending_puts_def old_def [symmetric] Let_def by force
qed

subsection \<open>Nothing is forgotten\<close>

lemma get_ok_ticket: "get_ok k p \<Longrightarrow> ticket (pr_request p) = (True, k, [])"
  by (simp add: get_ok_def ticket_def key_of_req_for)

lemma put_ok_ticket: "put_ok k i p \<Longrightarrow> ticket (pr_request p) = (False, k, i)"
  by (auto simp: put_ok_def ticket_def key_of_req_for)

lemma step_ok_requests:
  assumes inv: "kvs_inv c" and gc: "gc_pending_requests now c = Inr (ss, c')"
  shows "step_ok c ss c'"
proof -
  let ?old = "\<lambda>(key :: Key, tp, reqs :: KeyRequest list). expired now (kc_timeout c) tp"
  let ?m = "kc_pending_request_map c"
  have wf: "um_wf ?m" using inv by (simp add: kvs_inv_def)
  have c': "c' = c\<lparr>kc_pending_request_map := filter (\<lambda>e. \<not> ?old e) ?m\<rparr>"
    and ss: "list_all2 timeout_for (concat (map (\<lambda>(key, tp, reqs). reqs) (filter ?old ?m))) ss"
    using gc_pending_requests_total [OF inv, of now] gc by auto
  have "kvs_inv c'" using inv by (auto simp: c' kvs_inv_def map_of_filter split: option.splits if_splits)
  moreover have "unrouted c \<subseteq> unrouted c' \<union> answers ` set ss"
  proof
    fix t
    assume "t \<in> unrouted c"
    then obtain k r where r: "r \<in> set (queued c k)" "t = ticket r" by (auto simp: unrouted_def)
    then obtain tp reqs where e: "map_of ?m k = Some (tp, reqs)" and rr: "r \<in> set reqs"
      by (cases "map_of ?m k") (auto simp: queued_def)
    show "t \<in> unrouted c' \<union> answers ` set ss"
    proof (cases "expired now (kc_timeout c) tp")
      case True
      then have "r \<in> set (concat (map (\<lambda>(key, tp, reqs). reqs) (filter ?old ?m)))"
        using map_of_SomeD [OF e] rr by force
      then show ?thesis using timeouts_answer [OF ss] r(2) by blast
    next
      case False
      then have "queued c' k = reqs" using wf e by (simp add: c' queued_def map_of_filter)
      then show ?thesis using rr r(2) unfolding unrouted_def by blast
    qed
  qed
  ultimately show ?thesis by (auto simp: step_ok_def waiting_def c')
qed

lemma step_ok_gets:
  assumes inv: "kvs_inv c" and gc: "gc_pending_gets now c = Inr (ss, c')"
  shows "step_ok c ss c'"
proof -
  let ?old = "\<lambda>(key :: Key, pending). expired now (kc_timeout c) (pr_tp pending)"
  let ?m = "kc_pending_get_response_map c"
  have wf: "um_wf ?m" using inv by (simp add: kvs_inv_def)
  obtain kept where c': "c' = c\<lparr>kc_key_address_cache := kept, kc_pending_get_response_map := filter (\<lambda>e. \<not> ?old e) ?m\<rparr>"
    and kept: "kvs_inv (c\<lparr>kc_key_address_cache := kept\<rparr>)"
    and ss: "list_all2 timeout_for (map pr_request (map snd (filter ?old ?m))) ss"
    using gc_pending_gets_total [OF inv, of now] gc by auto
  have "kvs_inv c'" using kept by (auto simp: c' kvs_inv_def map_of_filter split: option.splits if_splits)
  moreover have "in_flight c \<subseteq> in_flight c' \<union> answers ` set ss"
  proof
    fix t
    assume t: "t \<in> in_flight c"
    obtain b k i where bki: "t = (b, k, i)" by (cases t)
    show "t \<in> in_flight c' \<union> answers ` set ss"
    proof (cases b)
      case True
      with t bki obtain p where p: "map_of ?m k = Some p" "i = []" by auto
      then have "get_ok k p" using inv by (simp add: kvs_inv_def)
      then have tk: "ticket (pr_request p) = t" using p bki True by (simp add: get_ok_ticket)
      show ?thesis
      proof (cases "expired now (kc_timeout c) (pr_tp p)")
        case True
        then have "pr_request p \<in> set (map pr_request (map snd (filter ?old ?m)))"
          using map_of_SomeD [OF p(1)] by force
        then show ?thesis using timeouts_answer [OF ss] tk by blast
      next
        case False
        then show ?thesis using p wf bki \<open>b\<close> by (simp add: c' map_of_filter)
      qed
    qed (use t bki in \<open>auto simp: c'\<close>)
  qed
  ultimately show ?thesis by (auto simp: step_ok_def waiting_def unrouted_def c')
qed

lemma step_ok_puts:
  assumes inv: "kvs_inv c" and gc: "gc_pending_puts now c = Inr (ss, c')"
  shows "step_ok c ss c'"
proof -
  let ?old = "\<lambda>(rid :: string, pending). expired now (kc_timeout c) (pr_tp pending)"
  let ?m = "kc_pending_put_response_map c"
  have wf: "um_wf ?m" using inv by (simp add: kvs_inv_def)
  obtain kept where c': "c' = c\<lparr>kc_key_address_cache := kept,
      kc_pending_put_response_map := map (\<lambda>(key, ids). (key, filter (\<lambda>e. \<not> ?old e) ids)) ?m\<rparr>"
    and kept: "kvs_inv (c\<lparr>kc_key_address_cache := kept\<rparr>)"
    and ss: "list_all2 timeout_for (map pr_request (concat (map (\<lambda>(key, ids). map snd (filter ?old ids)) ?m))) ss"
    using gc_pending_puts_total [OF inv, of now] gc by auto
  have "map fst (map (\<lambda>(key, ids). (key, filter (\<lambda>e. \<not> ?old e) ids)) ?m) = map fst ?m" by auto
  then have "kvs_inv c'" using kept
    by (auto simp: c' kvs_inv_def map_of_map_snd map_of_filter split: option.splits if_splits simp del: map_map)
  moreover have "in_flight c \<subseteq> in_flight c' \<union> answers ` set ss"
  proof
    fix t
    assume t: "t \<in> in_flight c"
    obtain b k i where bki: "t = (b, k, i)" by (cases t)
    show "t \<in> in_flight c' \<union> answers ` set ss"
    proof (cases b)
      case False
      with t bki obtain p where p: "map_of (um_get [] k ?m) i = Some p" by auto
      then obtain ids where ids: "map_of ?m k = Some ids" by (cases "map_of ?m k") auto
      with p have pi: "map_of ids i = Some p" by simp
      have wfi: "um_wf ids" and pok: "put_ok k i p" using inv ids pi by (auto simp: kvs_inv_def)
      then have tk: "ticket (pr_request p) = t" using bki False by (simp add: put_ok_ticket)
      show ?thesis
      proof (cases "expired now (kc_timeout c) (pr_tp p)")
        case True
        then have "pr_request p \<in> set (map pr_request (concat (map (\<lambda>(key, ids). map snd (filter ?old ids)) ?m)))"
          using map_of_SomeD [OF ids] map_of_SomeD [OF pi] by force
        then show ?thesis using timeouts_answer [OF ss] tk by blast
      next
        case False
        then have "map_of (um_get [] k (kc_pending_put_response_map c')) i = Some p"
          using pi ids wfi by (simp add: c' um_get_def map_of_map_snd map_of_filter)
        then show ?thesis using bki \<open>\<not> b\<close> by simp
      qed
    qed (use t bki in \<open>auto simp: c'\<close>)
  qed
  ultimately show ?thesis by (auto simp: step_ok_def waiting_def unrouted_def c')
qed

lemma gc_pending_total:
  assumes "kvs_inv c"
  shows "\<exists>ss c'. gc_pending now c = Inr (ss, c') \<and> step_ok c ss c'"
proof -
  obtain r1 c1 where 1: "gc_pending_requests now c = Inr (r1, c1)"
    using gc_pending_requests_total [OF assms, of now] by blast
  note s1 = step_ok_requests [OF assms 1]
  then have "kvs_inv c1" by (simp add: step_ok_def)
  then obtain r2 c2 where 2: "gc_pending_gets now c1 = Inr (r2, c2)" and s2: "step_ok c1 r2 c2"
    using gc_pending_gets_total [of c1 now] step_ok_gets by blast
  then have "kvs_inv c2" by (simp add: step_ok_def)
  then obtain r3 c3 where 3: "gc_pending_puts now c2 = Inr (r3, c3)" and s3: "step_ok c2 r3 c3"
    using gc_pending_puts_total [of c2 now] step_ok_puts by blast
  have "step_ok c (r1 @ r2 @ r3) c3" using s1 s2 s3 by (blast intro: step_ok_trans)
  then show ?thesis by (auto simp: gc_pending_def 1 2 3)
qed

lemma receive_async_total:
  assumes inv: "kvs_inv c" and addresses: "\<And>a. addresses = Some a \<Longrightarrow> addresses_ok a"
    and response: "\<And>r. response = Some r \<Longrightarrow> ks_tuples r \<noteq> []"
  shows "\<exists>result c'. receive_async rnd now addresses response c = Inr (result, c') \<and> step_ok c result c'"
proof -
  have "\<exists>c1. (case addresses of None \<Rightarrow> Inr c | Some a \<Rightarrow> receive_addresses rnd now a c) = Inr c1 \<and> step_ok c [] c1"
    using receive_addresses_total [OF inv] addresses inv by (cases addresses) (auto simp: step_ok_def)
  then obtain c1 where 1: "(case addresses of None \<Rightarrow> Inr c | Some a \<Rightarrow> receive_addresses rnd now a c) = Inr c1"
    and s1: "step_ok c [] c1" by blast
  have inv1: "kvs_inv c1" using s1 by (simp add: step_ok_def)
  have "\<exists>r c2. (case response of None \<Rightarrow> Inr ([], c1) | Some r \<Rightarrow> receive_response rnd now r c1) = Inr (r, c2) \<and>
      step_ok c1 r c2"
    using receive_response_total [OF inv1] response inv1 by (cases response) (auto simp: step_ok_def)
  then obtain r1 c2 where 2: "(case response of None \<Rightarrow> Inr ([], c1) | Some r \<Rightarrow> receive_response rnd now r c1) = Inr (r1, c2)"
    and s2: "step_ok c1 r1 c2" by blast
  obtain r2 c3 where 3: "gc_pending now c2 = Inr (r2, c3)" and s3: "step_ok c2 r2 c3"
    using gc_pending_total [of c2 now] s2 by (auto simp: step_ok_def)
  have "step_ok c (r1 @ r2) c3" using step_ok_trans [OF step_ok_trans [OF s1 s2] s3] by simp
  then show ?thesis unfolding receive_async_def 1 rbind_simps 2 by (simp add: 3)
qed

subsection \<open>Everything times out\<close>

definition all_expired :: "TimePoint \<Rightarrow> KvsClient \<Rightarrow> bool" where
  "all_expired now c \<longleftrightarrow>
     list_all (\<lambda>(k, tp, rs). expired now (kc_timeout c) tp) (kc_pending_request_map c) \<and>
     list_all (\<lambda>(k, p). expired now (kc_timeout c) (pr_tp p)) (kc_pending_get_response_map c) \<and>
     list_all (\<lambda>(k, ids). list_all (\<lambda>(i, p). expired now (kc_timeout c) (pr_tp p)) ids) (kc_pending_put_response_map c)"

lemma filter_none: "list_all P xs \<Longrightarrow> filter (\<lambda>x. \<not> P x) xs = []"
  by (simp add: list_all_iff)

lemma um_get_map_Nil: "um_get [] k (map (\<lambda>(k, ids). (k, [])) m) = []"
  by (simp add: um_get_def map_of_map_snd split: option.splits)

lemma gc_pending_all_expired:
  assumes inv: "kvs_inv c" and old: "all_expired now c" and gc: "gc_pending now c = Inr (ss, c')"
  shows "waiting c' = {} \<and> (\<forall>s\<in>set ss. ks_error s = TIMEOUT)"
proof -
  obtain r1 c1 where 1: "gc_pending_requests now c = Inr (r1, c1)"
    and c1: "c1 = c\<lparr>kc_pending_request_map := []\<rparr>" and t1: "\<forall>s\<in>set r1. ks_error s = TIMEOUT"
    using gc_pending_requests_total [OF inv, of now] old timeouts_answer
    by (auto simp: all_expired_def filter_none)
  have inv1: "kvs_inv c1" using step_ok_requests [OF inv 1] by (simp add: step_ok_def)
  obtain r2 c2 kept2 where 2: "gc_pending_gets now c1 = Inr (r2, c2)"
    and c2: "c2 = c1\<lparr>kc_key_address_cache := kept2, kc_pending_get_response_map := []\<rparr>"
    and t2: "\<forall>s\<in>set r2. ks_error s = TIMEOUT"
    using gc_pending_gets_total [OF inv1, of now] old timeouts_answer
    by (auto simp: all_expired_def filter_none c1)
  have inv2: "kvs_inv c2" using step_ok_gets [OF inv1 2] by (simp add: step_ok_def)
  have empty: "map (\<lambda>(k, ids). (k, filter (\<lambda>e. \<not> (case e of (i, p) \<Rightarrow> expired now (kc_timeout c) (pr_tp p))) ids))
      (kc_pending_put_response_map c) = map (\<lambda>(k, ids). (k, [])) (kc_pending_put_response_map c)"
    using old by (auto simp: all_expired_def list_all_iff)
  obtain r3 c3 kept3 where 3: "gc_pending_puts now c2 = Inr (r3, c3)"
    and c3: "c3 = c2\<lparr>kc_key_address_cache := kept3,
      kc_pending_put_response_map := map (\<lambda>(k, ids). (k, [])) (kc_pending_put_response_map c)\<rparr>"
    and t3: "\<forall>s\<in>set r3. ks_error s = TIMEOUT"
    using gc_pending_puts_total [OF inv2, of now] timeouts_answer by (auto simp: c2 c1 empty)
  have "waiting c3 = {}"
    by (auto simp: waiting_def unrouted_def queued_def in_flight_def c3 c2 c1 um_get_map_Nil)
  then show ?thesis using gc t1 t2 t3 by (auto simp: gc_pending_def 1 2 3)
qed

subsection \<open>Issuing requests\<close>

lemma put_async_total:
  assumes inv: "kvs_inv c"
  shows "\<exists>rid c'. put_async rnd now key payload lt c = Inr (rid, c') \<and> kvs_inv c' \<and>
    waiting c' = insert (False, key, rid) (waiting c)"
proof -
  obtain rid c1 where id: "get_request_id c = (rid, c1)" by fastforce
  have same: "kvs_same c c1" by (rule get_request_id_same [OF id])
  let ?r = "\<lparr>kr_type = PUT,
    kr_tuples = [no_KeyTuple\<lparr>kt_key := key, kt_lattice_type := lt, kt_payload := payload\<rparr>],
    kr_response_address = response_connect_address (kc_ut c), kr_request_id = rid\<rparr>"
  have r: "req_for key ?r" by (simp add: req_for_def)
  have "kvs_inv c1" using inv same by (simp add: kvs_same_inv)
  from try_request_total [OF this r, of rnd now]
  obtain r' c' where "try_request rnd now ?r c1 = Inr (r', c')" "kvs_inv c'" "kr_request_id r' = rid"
    "waiting c' = insert (ticket ?r) (waiting c1)" by auto
  then show ?thesis using kvs_same_waiting [OF same]
    by (simp add: put_async_def prepare_data_request_def id ticket_eq [OF r])
qed

lemma get_async_total:
  assumes inv: "kvs_inv c"
  shows "\<exists>c'. get_async rnd now key c = Inr c' \<and> kvs_inv c' \<and> waiting c' = insert (True, key, []) (waiting c)"
proof (cases "um_has key (kc_pending_get_response_map c)")
  case True
  then show ?thesis using inv by (auto simp: get_async_def waiting_def)
next
  case False
  obtain rid c1 where id: "get_request_id c = (rid, c1)" by fastforce
  have same: "kvs_same c c1" by (rule get_request_id_same [OF id])
  let ?r = "\<lparr>kr_type = GET, kr_tuples = [no_KeyTuple\<lparr>kt_key := key\<rparr>],
    kr_response_address = response_connect_address (kc_ut c), kr_request_id = rid\<rparr>"
  have r: "req_for key ?r" by (simp add: req_for_def)
  have "kvs_inv c1" using inv same by (simp add: kvs_same_inv)
  from try_request_total [OF this r, of rnd now]
  obtain r' c' where "try_request rnd now ?r c1 = Inr (r', c')" "kvs_inv c'"
    "waiting c' = insert (ticket ?r) (waiting c1)" by auto
  then show ?thesis using kvs_same_waiting [OF same] False
    by (simp add: get_async_def prepare_data_request_def id ticket_eq [OF r])
qed

subsection \<open>Request identifiers\<close>

text \<open>The counter after \<open>n\<close> identifiers.\<close>

fun rid_after :: "thread \<Rightarrow> nat \<Rightarrow> 32 word" where
  "rid_after ut 0 = 0"
| "rid_after ut (Suc n) = snd (request_id ut (rid_after ut n))"

definition nth_request_id :: "thread \<Rightarrow> nat \<Rightarrow> string" where
  "nth_request_id ut n = fst (request_id ut (rid_after ut n))"

text \<open>The counter is even between two calls, so the test for a multiple of 10000 sees odd numbers only
  and never succeeds.\<close>

lemma unat_odd_rid: "n < 2 ^ 31 \<Longrightarrow> unat (of_nat (2 * n) + 1 :: 32 word) = 2 * n + 1"
proof -
  assume "n < 2 ^ 31"
  then have "2 * n + 1 < 2 ^ LENGTH(32)" by simp
  then have "unat (of_nat (2 * n + 1) :: 32 word) = 2 * n + 1" by (simp only: unat_of_nat mod_less)
  then show ?thesis by (simp add: add.commute)
qed

lemma odd_rid_not_reset: "n < 2 ^ 31 \<Longrightarrow> (of_nat (2 * n) + 1 :: 32 word) mod 10000 \<noteq> 0"
proof
  assume n: "n < 2 ^ 31" and "(of_nat (2 * n) + 1 :: 32 word) mod 10000 = 0"
  then have "(2 * n + 1) mod 10000 = 0"
    using unat_odd_rid [OF n] unat_mod_distrib [of "of_nat (2 * n) + 1 :: 32 word" 10000] by simp
  then have "even (2 * n + 1)" by (metis dvd_trans even_numeral mod_0_imp_dvd)
  then show False by simp
qed

lemma request_id_even:
  assumes "n < 2 ^ 31"
  shows "request_id ut (of_nat (2 * n)) =
    (th_ip ut @ '':'' @ to_string (unat (th_tid ut)) @ ''_'' @ to_string (2 * n + 1), of_nat (2 * Suc n))"
  using odd_rid_not_reset [OF assms] unat_odd_rid [OF assms]
  by (simp add: request_id_def Let_def algebra_simps)

lemma rid_after_eq: "n \<le> 2 ^ 31 \<Longrightarrow> rid_after ut n = of_nat (2 * n)"
proof (induction n)
  case (Suc n)
  then show ?case using request_id_even [of n ut] by (simp del: of_nat_Suc mult_Suc_right)
qed simp

lemma nth_request_id_eq:
  "n < 2 ^ 31 \<Longrightarrow> nth_request_id ut n =
     th_ip ut @ '':'' @ to_string (unat (th_tid ut)) @ ''_'' @ to_string (2 * n + 1)"
  using request_id_even [of n ut] by (simp add: nth_request_id_def rid_after_eq)

end
