(* ===== verification/Kvs_Properties.thy ===== *)
theory Kvs_Properties
  imports Kvs_Timeouts
begin

text \<open>
  The properties of the client of the key-value store: no request is forgotten, every request is
  answered at the latest by a timeout, request identifiers are unique, and what an address list
  without addresses does.
\<close>

definition sample_rand :: rng where
  "sample_rand seed = (unat seed, seed + 1)"

definition sample_get :: KeyRequest where
  "sample_get = \<lparr>kr_type = GET, kr_tuples = [no_KeyTuple\<lparr>kt_key := ''k''\<rparr>],
     kr_response_address = ''tcp://10.0.0.1:6800'', kr_request_id = ''10.0.0.1:0_1''\<rparr>"

text \<open>A client with one GET that waits for the routing tier.\<close>

definition sample_client :: KvsClient where
  "sample_client = (new_KvsClient [mk_thread ''10.0.0.9'' 0] ''10.0.0.1'' 0 10000 7)
     \<lparr>kc_pending_request_map := [(''k'', 0, [sample_get])]\<rparr>"

definition sample_addresses :: "Address list \<Rightarrow> KeyAddressResponse" where
  "sample_addresses ips = \<lparr>kas_addresses = [\<lparr>ka_key = ''k'', ka_ips = ips\<rparr>], kas_error = NO_ERROR,
     kas_response_id = []\<rparr>"

lemma sample_client_inv: "kvs_inv sample_client"
  by (simp add: kvs_inv_def sample_client_def new_KvsClient_def sample_get_def req_for_def)

lemma sample_client_waiting: "(True, ''k'', []) \<in> waiting sample_client"
  by (auto simp: waiting_def unrouted_def queued_def sample_client_def new_KvsClient_def sample_get_def
      ticket_def key_of_def intro!: exI [of _ "''k''"])

lemma sample_addresses_ok: "addresses_ok (sample_addresses [''tcp://10.0.0.5:6200''])"
  by (simp add: addresses_ok_def sample_addresses_def addr_ok_def split_def getlines.simps)

text \<open>C38. \<open>KvsClient::receive_async\<close> does not fail and forgets no request: when the routing tier gives
  at least one address for the key it names and every address has the form \<open>scheme://host:port\<close>, then a
  GET (by its key) or a PUT (by its key and identifier) that was waiting still waits afterwards or is
  answered by one of the responses returned.\<close>

theorem kvs_requests_not_lost:
  assumes "kvs_inv c" and "\<And>a. addresses = Some a \<Longrightarrow> addresses_ok a"
    and "\<And>r. response = Some r \<Longrightarrow> ks_tuples r \<noteq> []"
  shows "\<exists>result c'. receive_async rnd now addresses response c = Inr (result, c') \<and> kvs_inv c' \<and>
    waiting c \<subseteq> waiting c' \<union> answers ` set result"
proof -
  have "\<exists>result c'. receive_async rnd now addresses response c = Inr (result, c') \<and> step_ok c result c'"
    by (rule receive_async_total) (fact assms)+
  then show ?thesis by (auto simp: step_ok_def)
qed

theorem kvs_requests_not_lost_witness:
  "(True, ''k'', []) \<in> waiting sample_client \<and>
   (\<exists>result c'. receive_async sample_rand 1 (Some (sample_addresses [''tcp://10.0.0.5:6200''])) None sample_client =
      Inr (result, c') \<and> kvs_inv c' \<and> waiting sample_client \<subseteq> waiting c' \<union> answers ` set result)"
proof -
  have "\<exists>result c'. receive_async sample_rand 1 (Some (sample_addresses [''tcp://10.0.0.5:6200''])) None
      sample_client = Inr (result, c') \<and> kvs_inv c' \<and> waiting sample_client \<subseteq> waiting c' \<union> answers ` set result"
    by (rule kvs_requests_not_lost) (use sample_client_inv sample_addresses_ok in auto)
  then show ?thesis using sample_client_waiting by blast
qed

text \<open>C39. Every request is answered at the latest by a timeout: a call of \<open>receive_async\<close> that receives
  nothing, after every request has waited longer than the timeout, returns a response with error
  \<open>TIMEOUT\<close> for each of them, and nothing waits afterwards.\<close>

theorem kvs_all_time_out:
  assumes "kvs_inv c" and "all_expired now c"
  shows "\<exists>result c'. receive_async rnd now None None c = Inr (result, c') \<and> waiting c' = {} \<and>
    waiting c \<subseteq> answers ` set result \<and> (\<forall>s\<in>set result. ks_error s = TIMEOUT)"
proof -
  obtain result c' where r: "gc_pending now c = Inr (result, c')" "step_ok c result c'"
    using gc_pending_total [OF assms(1)] by blast
  then show ?thesis using gc_pending_all_expired [OF assms r(1)]
    by (auto simp: receive_async_def step_ok_def)
qed

theorem kvs_all_time_out_witness:
  "(True, ''k'', []) \<in> waiting sample_client \<and>
   (\<exists>result c'. receive_async sample_rand 20000000000 None None sample_client = Inr (result, c') \<and> waiting c' = {} \<and>
      waiting sample_client \<subseteq> answers ` set result \<and> (\<forall>s\<in>set result. ks_error s = TIMEOUT))"
proof -
  have "all_expired 20000000000 sample_client"
    by (simp add: all_expired_def sample_client_def new_KvsClient_def expired_def to_ms_def)
  then show ?thesis using kvs_all_time_out [OF sample_client_inv] sample_client_waiting by blast
qed

text \<open>C40. The identifiers that one client (or one communication helper) generates are unique for its first
  \<open>2 ^ 31\<close> requests, although the counter is incremented twice per identifier and the reset at multiples of
  10000 never happens.\<close>

theorem request_ids_distinct:
  assumes "i < 2 ^ 31" and "j < 2 ^ 31" and "nth_request_id ut i = nth_request_id ut j"
  shows "i = j"
  using assms by (simp add: nth_request_id_eq)

theorem request_ids_distinct_witness:
  "nth_request_id (mk_thread ''10.0.0.1'' 0) 4999 \<noteq> nth_request_id (mk_thread ''10.0.0.1'' 0) 9999"
  using request_ids_distinct [of 4999 9999 "mk_thread ''10.0.0.1'' 0"] by auto

text \<open>An answer of the routing tier without any address, for a key that requests wait for, makes the
  loop over these requests append to the vector that it runs over: its iterators are invalid.\<close>

theorem empty_address_list_invalidates:
  assumes "kvs_inv c" and "map_of (kc_pending_request_map c) key = Some (tp, r # reqs)"
    and "um_get [] key (kc_key_address_cache c) = []"
    and "kas_addresses a = \<lparr>ka_key = key, ka_ips = []\<rparr> # rest" and "kas_error a \<noteq> NO_SERVERS"
  shows "receive_addresses rnd now a c = Inl IterInvalid"
proof -
  have "req_for key r" using assms(1,2) by (auto simp: kvs_inv_def)
  from retry_pending_no_server [OF assms(1) this assms(3)] show ?thesis
    using assms(2,4,5) by (simp add: receive_addresses_def)
qed

theorem empty_address_list_invalidates_witness:
  "receive_addresses sample_rand 1 (sample_addresses []) sample_client = Inl IterInvalid"
  by (rule empty_address_list_invalidates [OF sample_client_inv])
    (simp_all add: sample_client_def new_KvsClient_def sample_addresses_def)

end
