(* ===== verification/Sched_Properties.thy ===== *)
theory Sched_Properties
  imports Sched_Status Sample_Codec Kvs_Properties
begin

text \<open>The properties of a worker node, with a small node for the witnesses.\<close>

definition node_env :: sched_env where
  "node_env = \<lparr>se_sched_delay_time = 0, se_shared_executor = True, se_reject_extra_req = False,
     se_codec = sample_codec, se_lattice_codec = sample_lattice_codec, se_rand_r = sample_rand\<rparr>"

definition node_conf :: sched_conf where
  "node_conf = \<lparr>cf_coord_thread_count = 1, cf_io_thread_count = 2, cf_ip = ''10.0.0.2'', cf_executor_num = 2,
     cf_coord_ips = [''10.0.0.1''], cf_kvs_routing_ips = [''10.0.0.9'']\<rparr>"

definition node_round :: "bytes option \<Rightarrow> FunctionCall option \<Rightarrow> sched_event" where
  "node_round msg call = MainRound \<lparr>ri_message = msg, ri_polled = nothing_polled\<lparr>po_call := call\<rparr>, ri_now = 1,
     ri_report_end = 2, ri_after = 3\<rparr>"

definition node_call :: FunctionCall where
  "node_call = \<lparr>fc_app_name = ''A'', fc_requests = [\<lparr>fr_name = ''f'', fr_arguments = []\<rparr>], fc_source = [],
     fc_request_id = [], fc_resp_address = [], fc_session_id = ''s'', fc_sync_data_status = False\<rparr>"

definition node_events :: "sched_event list" where
  "node_events = [node_round (Some [byte 1, byte 7]) None, node_round None (Some node_call)]"

definition node_init :: "sched res" where
  "node_init = init_sched node_conf 0 7"

lemma node_runs:
  "case node_init of Inr st \<Rightarrow> (case run_events (sched_handle node_env) st node_events of
     Inr (st', out) \<Rightarrow> calls_to 0 out = 1 | _ \<Rightarrow> False) | _ \<Rightarrow> False"
  by code_simp

lemma node_runs_obtain:
  obtains st st' out where "init_sched node_conf 0 7 = Inr st"
    "run_events (sched_handle node_env) st node_events = Inr (st', out)" "calls_to 0 out = 1"
  using node_runs by (auto simp: node_init_def split: sum.splits)

subsection \<open>Calls on executors\<close>

text \<open>C3. In every run of a node from its start, whatever messages arrive and however the input-output threads are
  interleaved, an executor is sent at most as many calls as it has reported to be available: every call is
  covered by a report of its own.\<close>

theorem calls_need_reports:
  assumes "init_sched cf now seed = Inr st"
    and "run_events (sched_handle env) st es = Inr (st', out)"
  shows "calls_to e out \<le> length (filter (ev_reports e) es)"
  using calls_of_run [OF assms(2), of e] init_sched_facts(1,3) [OF assms(1)] init_sched_facts(2) [OF assms(1), of e] by simp

theorem calls_need_reports_witness:
  "\<exists>st st' out. init_sched node_conf 0 7 = Inr st \<and>
     run_events (sched_handle node_env) st node_events = Inr (st', out) \<and> calls_to 0 out = 1 \<and>
     calls_to 0 out \<le> length (filter (ev_reports 0) node_events)"
proof -
  obtain st st' out where run: "init_sched node_conf 0 7 = Inr st"
      "run_events (sched_handle node_env) st node_events = Inr (st', out)" "calls_to 0 out = 1" by (rule node_runs_obtain)
  show ?thesis
    by (rule exI [of _ st], rule exI [of _ st'], rule exI [of _ out])
      (use run calls_need_reports [OF run(1,2), of 0] in simp)
qed

text \<open>C16. Scheduling a call has exactly one of two outcomes. If some executor may run the function, one such
  executor is sent the call, is marked as awaiting, and the triggers that watch the function are queued for a
  check. Otherwise nothing is sent to any executor, no status changes, and the call is put at the end of the
  queue of delayed calls when a delay is configured.\<close>

theorem schedule_runs_once:
  assumes "schedule_func_call env now s app f args flag st = Inr st'"
  shows "(\<exists>e. eligible env f e st \<and>
      exec_sent st' = exec_sent st @
        (if um_get False e (sd_executor_chans_map st)
         then [(e, call_message flag (um_get [] s (sd_session_client_addr_map st) = []) s f args)] else []) \<and>
      sd_executor_status_map st' = um_put e 2 (sd_executor_status_map st) \<and>
      sd_delay_call_queue st' = sd_delay_call_queue st \<and>
      sd_rerun_check_queue st' = sd_rerun_check_queue st @
        map (rerun_entry now s) (um_get [] f (sd_func_trigger_timeout_map st))) \<or>
    (\<forall>e. \<not> eligible env f e st) \<and> exec_sent st' = exec_sent st \<and>
      sd_executor_status_map st' = sd_executor_status_map st \<and>
      sd_rerun_check_queue st' = sd_rerun_check_queue st \<and>
      sd_delay_call_queue st' = sd_delay_call_queue st @
        (if se_sched_delay_time env > 0
         then [\<lparr>dc_session_id = s, dc_app_name = app, dc_func_name = f, dc_func_args = args, dc_arg_flag = flag,
                dc_trigger_time = now\<rparr>] else [])"
  using schedule_outcome [OF assms]
proof (elim disjE exE conjE)
  fix e assume "eligible env f e st" and "started now s f args flag e st st'"
  then show ?thesis by (intro disjI1 exI [of _ e]) (simp add: started_def session_client_addr_def)
next
  assume none: "\<forall>e. \<not> eligible env f e st" and "not_started env now s app f args flag st st'"
  then show ?thesis by (intro disjI2) (simp add: not_started_def neutral_def)
qed

definition idle_node :: sched where
  "idle_node = (case node_init of Inr st \<Rightarrow> st\<lparr>sd_executor_status_map := [(0, 1)]\<rparr>)"

lemma idle_node_schedules:
  "\<exists>st'. schedule_func_call node_env 5 ''s'' ''A'' ''f'' [] 0 idle_node = Inr st' \<and> eligible node_env ''f'' 0 idle_node"
proof -
  have "case schedule_func_call node_env 5 ''s'' ''A'' ''f'' [] 0 idle_node of Inl _ \<Rightarrow> False
      | Inr _ \<Rightarrow> eligible node_env ''f'' 0 idle_node" by code_simp
  then show ?thesis by (auto split: sum.splits)
qed

theorem schedule_runs_once_witness:
  "\<exists>st' e. schedule_func_call node_env 5 ''s'' ''A'' ''f'' [] 0 idle_node = Inr st' \<and> eligible node_env ''f'' e idle_node \<and>
     sd_executor_status_map st' = um_put e 2 (sd_executor_status_map idle_node)"
  using idle_node_schedules schedule_runs_once by blast

subsection \<open>Rerun checks\<close>

text \<open>C25. When the clock has moved on since the timer was tested, the loop over the rerun checks ends although the
  functions it restarts are queued for further checks, and afterwards no check is due.\<close>

theorem rerun_loop_ends:
  assumes "report_end < now"
  shows "\<exists>r. rerun_checks env now report_end st = Some r \<and>
    (\<forall>st'. r = Inr st' \<longrightarrow> (\<forall>item\<in>set (sd_rerun_check_queue st'). report_end < rq_check_time item))"
  using rerun_checks_end [OF assms, of env st] by (force simp: due_def filter_empty_conv)

text \<open>A node with two available executors that has a trigger with a re-execution hint for the function \<open>f\<close> and has
  started \<open>f\<close>: the check is due after five milliseconds, and runs \<open>f\<close> again on the other executor.\<close>

definition rerun_node :: "sched res" where
  "rerun_node =
     (let hint = \<lparr>rh_source_function = ''f'', rh_source_key = [], rh_timeout = 5\<rparr>;
          st = with_new_trigger ''b'' [hint] (Immediate (new_ImmediateTrigger ''g'' ''t''))
                 (idle_node\<lparr>sd_executor_status_map := [(0, 1), (1, 1)]\<rparr>)
      in schedule_func_call node_env 5 ''s'' ''A'' ''f'' [''x''] 0 st)"

declare rerun_checks.simps [code]

lemma rerun_node_runs:
  "case rerun_node of Inl _ \<Rightarrow> False | Inr st \<Rightarrow>
     length (sd_rerun_check_queue st) = 1 \<and>
     (case rerun_checks node_env 6000001 6000000 st of None \<Rightarrow> False | Some r \<Rightarrow>
        (case r of Inl _ \<Rightarrow> False | Inr st' \<Rightarrow>
           length (exec_sent st') = Suc (length (exec_sent st)) \<and> length (sd_rerun_check_queue st') = 1))"
  by code_simp

theorem rerun_loop_ends_witness:
  "\<exists>st st'. rerun_node = Inr st \<and> rerun_checks node_env 6000001 6000000 st = Some (Inr st') \<and>
     length (exec_sent st') = Suc (length (exec_sent st)) \<and>
     sd_rerun_check_queue st' \<noteq> [] \<and> (\<forall>item\<in>set (sd_rerun_check_queue st'). 6000000 < rq_check_time item)"
proof -
  obtain st r where 1: "rerun_node = Inr st" and r: "rerun_checks node_env 6000001 6000000 st = Some r"
    using rerun_node_runs by (auto split: sum.splits option.splits)
  obtain st' where "r = Inr st'" "length (exec_sent st') = Suc (length (exec_sent st))"
      "length (sd_rerun_check_queue st') = 1"
    using rerun_node_runs unfolding 1 sum.case r option.case by (cases r) auto
  with 1 r show ?thesis
    using rerun_loop_ends [of 6000000 6000001 node_env st] by (intro exI [of _ st] exI [of _ st']) auto
qed

subsection \<open>Executors and threads\<close>

text \<open>C32. The status of an executor is exactly what its reports and the calls sent to it make it. In every state a node
  reaches and for every further event, an executor of the node either gets no call and has the status of its last
  report (3 after busy; after available 1, or 0 if it had not been busy before; unchanged without a report), or it was
  available (0 or 1) after that report, gets exactly one call and has the status 2.\<close>

theorem executor_status_follows:
  assumes "init_sched cf now seed = Inr st" and "run_events (sched_handle env) st es = Inr (st1, out1)"
    and "sched_handle env st1 ev = Inr (st2, out2)" and "unat e < cf_executor_num cf"
  shows "calls_to e out2 = 0 \<and> status_of e st2 = reported (ev_message ev) e (status_of e st1) \<or>
    calls_to e out2 = 1 \<and> reported (ev_message ev) e (status_of e st1) \<in> {Some 0, Some 1} \<and> status_of e st2 = Some 2"
  by (rule status_step(2) [OF sched_status.run_inv [OF init_status [OF assms(1)] assms(2)] assms(3,4)])

lemma node_statuses:
  "case node_init of Inl _ \<Rightarrow> False | Inr st \<Rightarrow>
     (case run_events (sched_handle node_env) st [node_round (Some [byte 1, byte 7]) None] of Inl _ \<Rightarrow> False
      | Inr (st1, _) \<Rightarrow> status_of 0 st1 = Some 0 \<and>
          (case sched_handle node_env st1 (node_round None (Some node_call)) of Inl _ \<Rightarrow> False
           | Inr (_, out2) \<Rightarrow> calls_to 0 out2 = 1))"
  by code_simp

theorem executor_status_follows_witness:
  "\<exists>st1 st2 out2. status_of 0 st1 = Some 0 \<and>
     sched_handle node_env st1 (node_round None (Some node_call)) = Inr (st2, out2) \<and> calls_to 0 out2 = 1 \<and>
     status_of 0 st2 = Some 2"
proof -
  obtain st st1 out1 st2 out2 where 1: "init_sched node_conf 0 7 = Inr st"
    and 2: "run_events (sched_handle node_env) st [node_round (Some [byte 1, byte 7]) None] = Inr (st1, out1)"
    and 3: "sched_handle node_env st1 (node_round None (Some node_call)) = Inr (st2, out2)"
    and 4: "status_of 0 st1 = Some 0" "calls_to 0 out2 = 1"
    using node_statuses unfolding node_init_def by (auto split: sum.splits prod.splits)
  have "unat (0 :: 8 word) < cf_executor_num node_conf" by (simp add: node_conf_def)
  from executor_status_follows [OF 1 2 3 this] 3 4 show ?thesis by auto
qed

text \<open>With at least two input-output threads, the thread chosen next is one of them, and never the main thread
  when that is excluded.\<close>

theorem io_thread_in_range:
  assumes "2 \<le> ch_io_thread_count h" "ch_io_thread_id h < ch_io_thread_count h"
  shows "\<exists>i h'. get_io_thread_id excl h = Inr (i, h') \<and> i < ch_io_thread_count h \<and> ch_io_thread_id h' = i \<and>
    (excl \<longrightarrow> i \<noteq> 0)"
proof -
  let ?n = "ch_io_thread_count h" and ?i = "ch_io_thread_id h + 1"
  have i: "unat ?i = Suc (unat (ch_io_thread_id h))" 
    using assms(2) unsigned_less [where w = ?n and 'a = nat] by (simp add: unat_word_ariths word_less_nat_alt)
  have "?i mod ?n = 0 \<longleftrightarrow> ?i = ?n"
    using assms(2) i by (auto simp: word_unat_eq_iff unat_mod_distrib word_less_nat_alt dest: dvd_imp_le)
  moreover have "?i \<noteq> ?n \<Longrightarrow> ?i < ?n" using assms(2) i by (simp add: word_unat_eq_iff word_less_nat_alt)
  moreover have "?n \<noteq> 0" "0 < ?n" "1 < ?n" "?i \<noteq> 0" using assms(1) i by (auto simp: word_less_nat_alt word_le_nat_alt word_unat_eq_iff)
  ultimately show ?thesis by (auto simp: get_io_thread_id_def Let_def)
qed

theorem io_thread_in_range_witness:
  "\<exists>i h'. get_io_thread_id True (new_CommHelper [] [] 3) = Inr (i, h') \<and> i < 3"
  using io_thread_in_range [of "new_CommHelper [] [] 3" True] by (auto simp: new_CommHelper_def)

subsection \<open>Data between nodes\<close>

text \<open>C18. An object that another node holds reaches the node that asks for it: the request of \<open>send_data_req_base\<close>
  is answered by \<open>handle_data_request\<close> to the data port of the asking thread, and \<open>handle_data_response\<close> puts
  exactly that object, with its name and size, into shared memory.\<close>

theorem data_reaches_node:
  assumes "get_key_address key (sd_helper a) = addr" "addr \<noteq> []" "key \<noteq> []" "length key < 256"
    and "map_of (sd_key_len_map b) key = Some n" "map_of (sd_shm b) key = Some data" "0 < n" "unat n = length data"
  shows "\<exists>req resp resp_addr.
    sd_sent (send_data_req_base key tid a) = sd_sent a @ [ToSocket addr (W_Raw req)] \<and>
    resp_addr = ''tcp://'' @ ch_ip (sd_helper a) @ '':'' @ to_string (unat (of_nat tid + dataAccessClientPort)) \<and>
    handle_data_request req b = Inr (b\<lparr>sd_sent := sd_sent b @ [ToSocket resp_addr (W_Raw resp)]\<rparr>) \<and>
    handle_data_response resp a' = Inr (no_RecvMsg\<lparr>rv_msg_type := DataResp, rv_data_key := key, rv_data_size := n\<rparr>,
      a'\<lparr>sd_shm := um_put key data (sd_shm a')\<rparr>)"
proof -
  let ?addr = "''tcp://'' @ ch_ip (sd_helper a) @ '':'' @ to_string (unat (of_nat tid + dataAccessClientPort))"
  let ?req = "byte (of_nat (length key)) # key @ ?addr" and ?resp = "byte (of_nat (length key)) # key @ data"
  have "data \<noteq> []" using assms(7,8) by (auto simp: word_less_nat_alt)
  have n: "of_nat (length data) = n" by (simp flip: assms(8))
  have "sd_sent (send_data_req_base key tid a) = sd_sent a @ [ToSocket addr (W_Raw ?req)]"
    using assms(1,2) by (simp add: send_data_req_base_def emit_def Let_def)
  moreover have "handle_data_request ?req b = Inr (b\<lparr>sd_sent := sd_sent b @ [ToSocket ?addr (W_Raw ?resp)]\<rparr>)"
    using assms(5-8) split_key_message [OF assms(4), of ?addr]
    by (simp add: handle_data_request_def get_shm_obj_def shm_read_def emit_def \<open>data \<noteq> []\<close>)
  moreover have "handle_data_response ?resp a' = Inr (no_RecvMsg\<lparr>rv_msg_type := DataResp, rv_data_key := key,
      rv_data_size := n\<rparr>, a'\<lparr>sd_shm := um_put key data (sd_shm a')\<rparr>)"
    using split_key_message [OF assms(4), of data] \<open>data \<noteq> []\<close> assms(3)
    by (simp add: handle_data_response_def copy_to_shm_obj_def n)
  ultimately show ?thesis by blast
qed

definition asking_node :: sched where
  "asking_node = idle_node\<lparr>sd_helper := (sd_helper idle_node)\<lparr>ch_key_address_cache :=
     [(''b|k'', ''tcp://10.0.0.3:5000'')]\<rparr>\<rparr>"

theorem data_reaches_node_witness:
  "\<exists>req resp resp_addr. handle_data_request req (idle_node\<lparr>sd_key_len_map := [(''b|k'', 3)], sd_shm := [(''b|k'', ''xyz'')]\<rparr>) =
      Inr (idle_node\<lparr>sd_key_len_map := [(''b|k'', 3)], sd_shm := [(''b|k'', ''xyz'')],
        sd_sent := sd_sent idle_node @ [ToSocket resp_addr (W_Raw resp)]\<rparr>) \<and>
    sd_sent (send_data_req_base ''b|k'' 0 asking_node) = sd_sent asking_node @ [ToSocket ''tcp://10.0.0.3:5000'' (W_Raw req)]"
  using data_reaches_node [of "''b|k''" asking_node "''tcp://10.0.0.3:5000''"
      "idle_node\<lparr>sd_key_len_map := [(''b|k'', 3)], sd_shm := [(''b|k'', ''xyz'')]\<rparr>" 3 "''xyz''" 0 idle_node]
  by (auto simp: asking_node_def get_key_address_def)

end
