(* ===== verification/Node_Properties.thy ===== *)
theory Node_Properties
  imports Executor_Laws Sched_Properties
begin

text \<open>
  The two processes of a worker node together: what the scheduler writes into the channel of an executor is what the
  executor reads, and the other way round. Fields of these messages are separated by bars and end at the first zero
  byte, so a text is transmitted when it has neither (\<open>plain\<close>).
\<close>

definition plain :: "string \<Rightarrow> bool" where
  "plain s \<longleftrightarrow> CHR ''|'' \<notin> set s \<and> CHR 0x00 \<notin> set s"

lemma join_concat: "join_with d (x # xs) = x @ concat (map (\<lambda>a. d # a) xs)"
  by (induction xs arbitrary: x) simp_all

lemma split_fields:
  assumes "list_all plain xs" "xs \<noteq> []" "last xs \<noteq> []"
  shows "split (join_with (CHR ''|'') xs) (CHR ''|'') = xs"
  unfolding split_def by (rule getlines_join_with) (use assms in \<open>auto simp: list_all_iff plain_def\<close>)

lemma join_no_zero: "list_all plain xs \<Longrightarrow> CHR 0x00 \<notin> set (join_with (CHR ''|'') xs)"
  by (induction "CHR ''|''" xs rule: join_with.induct) (auto simp: plain_def)

lemma c_string_fields:
  assumes "list_all plain xs" "length h = n" "z = [] \<or> hd z = CHR 0x00"
  shows "c_string (h @ join_with (CHR ''|'') xs @ z) n = Inr (join_with (CHR ''|'') xs)"
proof -
  have "takeWhile (\<lambda>c. c \<noteq> CHR 0x00) (join_with (CHR ''|'') xs @ z) = join_with (CHR ''|'') xs"
    using join_no_zero [OF assms(1)] assms(3) by (subst takeWhile_append2) (cases z; auto)+
  then show ?thesis using assms(2) by (simp add: c_string_def)
qed

subsection \<open>A call\<close>

lemma call_message_fields:
  "call_message flag persist s f args =
     [byte 1, byte (word_of_int (flag + 1)), byte (if persist then 1 else 2)] @ join_with (CHR ''|'') (s # f # args)"
  by (simp add: call_message_def join_concat)

lemma parse_call_message:
  assumes "plain s" "plain f" "list_all plain args" "last (f # args) \<noteq> []"
  shows "parse_call (call_message flag persist s f args) = Inr (word_of_int flag, if persist then 1 else 2, s, f, args)"
proof -
  have p: "list_all plain (s # f # args)" "last (s # f # args) \<noteq> []" using assms by simp_all
  have "word_of_int (flag + 1) - 1 = (word_of_int flag :: 8 word)" by (simp add: wi_hom_syms(1))
  then show ?thesis
    using split_fields [OF p(1) _ p(2)]
    by (simp add: parse_call_def call_message_fields byte_at_def c_string_fields [OF p(1), of "[_, _, _]" _ "[]", simplified])
qed

text \<open>The state in which the function starts: the executor has reported that it is busy, and the library knows the session,
  the function and the sizes of the arguments.\<close>

definition called_with :: "string \<Rightarrow> string \<Rightarrow> bool \<Rightarrow> 64 word list \<Rightarrow> exec \<Rightarrow> exec" where
  "called_with s f persist sizes st =
     (let st0 = exec_update_status True st
      in st0\<lparr>ex_name_func_map := if f \<in> set (ex_name_func_map st0) then ex_name_func_map st0
                                else us_insert f (ex_name_func_map st0),
             ex_lib := (ex_lib st)\<lparr>ul_function := f, ul_session_id := s, ul_persist_flag := if persist then 1 else 2,
               ul_size_of_args := ul_size_of_args (ex_lib st) @ sizes\<rparr>\<rparr>)"

definition called :: "string \<Rightarrow> string \<Rightarrow> bool \<Rightarrow> string list \<Rightarrow> exec \<Rightarrow> exec" where
  "called s f persist args st = called_with s f persist (map (\<lambda>a. of_nat (length a)) args) st"

lemma called_with_fields [simp]:
  "ul_session_id (ex_lib (called_with s f persist sizes st)) = s" "ul_function (ex_lib (called_with s f persist sizes st)) = f"
  "ul_persist_flag (ex_lib (called_with s f persist sizes st)) = (if persist then 1 else 2)"
  "ul_size_of_args (ex_lib (called_with s f persist sizes st)) = ul_size_of_args (ex_lib st) @ sizes"
  "ul_chan_id (ex_lib (called_with s f persist sizes st)) = ul_chan_id (ex_lib st)"
  "ex_sent (called_with s f persist sizes st) = ex_sent st @ [report (ucast (ex_thread_id st + 1)) True]"
  "ex_thread_id (called_with s f persist sizes st) = ex_thread_id st"
  by (simp_all add: called_with_def Let_def)

lemma called_fields [simp]:
  "ul_session_id (ex_lib (called s f persist args st)) = s" "ul_function (ex_lib (called s f persist args st)) = f"
  by (simp_all add: called_def)

lemma exec_call_args:
  assumes "parse_call msg = Inr (flag, if persist then 1 else 2, s, f, parts)" and "ee_functions env f = Some prog"
    and "call_args flag parts (ex_shm st) = Inr (Some (vals, sizes))"
  shows "exec_call env msg st =
    rbind (run_prog (prog vals) (called_with s f persist sizes st)) (\<lambda>(_, st2).
      Inr (True, exec_update_status False (st2\<lparr>ex_lib := clear_session (ex_lib st2)\<rparr>)))"
proof -
  let ?st0 = "exec_update_status True st"
  let ?lib = "(ex_lib st)\<lparr>ul_function := f, ul_session_id := s, ul_persist_flag := if persist then 1 else 2\<rparr>"
  let ?names = "if f \<in> set (ex_name_func_map ?st0) then ex_name_func_map ?st0 else us_insert f (ex_name_func_map ?st0)"
  have add: "fold add_arg_size sizes l = l\<lparr>ul_size_of_args := ul_size_of_args l @ sizes\<rparr>" for sizes l
    by (induction sizes arbitrary: l) (simp_all add: add_arg_size_def)
  have c: "called_with s f persist sizes st = ?st0\<lparr>ex_name_func_map := ?names, ex_lib := fold add_arg_size sizes ?lib\<rparr>"
    by (simp add: called_with_def add Let_def)
  have "run_call env ?st0 (flag, if persist then 1 else 2, s, f, parts) =
      run_loaded env flag f parts (?st0\<lparr>ex_lib := ?lib, ex_name_func_map := ?names\<rparr>)"
    using assms(2) by (simp add: run_call_def load_function_def)
  moreover have "ex_shm (?st0\<lparr>ex_lib := ?lib, ex_name_func_map := ?names\<rparr>) = ex_shm st"
    by (simp add: exec_update_status_def chan_send_retry_def)
  ultimately have "exec_call env msg st = rbind (execute env f vals (called_with s f persist sizes st))
        (\<lambda>st'. Inr (True, exec_update_status False st'))"
    using assms(3) by (simp add: exec_call_def assms(1) run_loaded_def c)
  then show ?thesis by (simp add: execute_def assms(2) rbind_def split: sum.splits prod.splits)
qed

lemma exec_call_runs:
  assumes "plain s" "plain f" "list_all plain args" "last (f # args) \<noteq> []" and "ee_functions env f = Some prog"
  shows "exec_call env (call_message 0 persist s f args) st =
    rbind (run_prog (prog (map (\<lambda>a. HeapData (a @ [CHR 0x00])) args)) (called s f persist args st)) (\<lambda>(_, st2).
      Inr (True, exec_update_status False (st2\<lparr>ex_lib := clear_session (ex_lib st2)\<rparr>)))"
  using parse_call_message [OF assms(1-4), of 0 persist] assms(5)
  by (simp add: exec_call_args call_args_def plain_args_def called_def)

paragraph \<open>Arguments of every kind\<close>

text \<open>What is left of bytes that are sent as the last fields of a message: they are cut at the first zero byte, split at
  bars, and an empty last field is lost.\<close>

definition cut_fields :: "bytes \<Rightarrow> string list" where
  "cut_fields v = split (takeWhile (\<lambda>c. c \<noteq> CHR 0x00) v) (CHR ''|'')"

lemma cut_fields_Nil [simp]: "cut_fields [] = []"
  by (simp add: cut_fields_def split_def)

lemma takeWhile_plain: "plain x \<Longrightarrow> takeWhile (\<lambda>c. c \<noteq> CHR 0x00) (x @ rest) = x @ takeWhile (\<lambda>c. c \<noteq> CHR 0x00) rest"
  by (rule takeWhile_append2) (auto simp: plain_def)

lemma cut_fields_Cons: "plain x \<Longrightarrow> cut_fields (x @ CHR ''|'' # rest) = x # cut_fields rest"
  by (simp add: cut_fields_def split_def takeWhile_plain getlines_item plain_def [of x])

lemma cut_fields_last:
  assumes "plain x" "x \<noteq> []"
  shows "cut_fields x = [x]"
proof -
  have "takeWhile (\<lambda>c. c \<noteq> CHR 0x00) x = x" using assms(1) by (auto simp: plain_def takeWhile_eq_all_conv)
  moreover have "getlines (CHR ''|'') x = [x]" using assms by (simp add: plain_def getlines_last)
  ultimately show ?thesis by (simp only: cut_fields_def split_def)
qed

lemma cut_fields_plain: "list_all plain xs \<Longrightarrow> xs = [] \<or> last xs \<noteq> [] \<Longrightarrow> cut_fields (join_with (CHR ''|'') xs) = xs"
  by (induction "CHR ''|''" xs rule: join_with.induct) (auto simp: cut_fields_Cons cut_fields_last split: if_splits)

text \<open>The arguments of a call: values, or objects by bucket, key and size. For an object the function gets the key too
  if the trigger asks for both. The scheduler writes the name of an object, which has a bar in it, and its size.\<close>

datatype arguments = Values "bytes list" | Objects bool "(string \<times> string \<times> 32 word) list"

fun args_flag :: "arguments \<Rightarrow> int" where
  "args_flag (Values vs) = 0"
| "args_flag (Objects both objs) = (if both then 2 else 1)"

fun sent_args :: "arguments \<Rightarrow> string list" where
  "sent_args (Values vs) = vs"
| "sent_args (Objects both objs) = concat (map (\<lambda>(b, k, n). [b @ kDelimiter @ k, to_string (unat n)]) objs)"

fun args_fit :: "arguments \<Rightarrow> bool" where
  "args_fit (Values vs) \<longleftrightarrow> True"
| "args_fit (Objects both objs) \<longleftrightarrow> list_all (\<lambda>(b, k, n). plain b \<and> plain k \<and> unat n < 2 ^ 31) objs"

lemma action_args_sent:
  "concat (map (\<lambda>n. [n, to_string (unat (um_get 0 n lens))]) (object_names bucket action)) =
     sent_args (Objects both (map (\<lambda>(session, key). (bucket, get_key_session_name key session,
       um_get 0 (get_local_object_name bucket key session) lens)) (ta_session_keys action)))"
  by (simp add: object_names_def get_local_object_name_def comp_def case_prod_beta)

text \<open>The pointers that the function gets and their sizes.\<close>

definition object_ptr :: "(string, bytes) umap \<Rightarrow> string \<Rightarrow> string \<Rightarrow> data_ptr" where
  "object_ptr shm b k = (let name = b @ kDelimiter @ k in if um_has name shm then ShmData name else NoData)"

fun passed_args :: "(string, bytes) umap \<Rightarrow> arguments \<Rightarrow> data_ptr list \<times> 64 word list" where
  "passed_args shm (Values vs) = plain_args (cut_fields (join_with (CHR ''|'') vs))"
| "passed_args shm (Objects both objs) =
     (concat (map (\<lambda>(b, k, n). (if both then [HeapData (k @ [CHR 0x00])] else []) @ [object_ptr shm b k]) objs),
      concat (map (\<lambda>(b, k, n). (if both then [of_nat (length k)] else []) @ [of_nat (unat n)]) objs))"

fun arg_fields :: "arguments \<Rightarrow> string list" where
  "arg_fields (Values vs) = cut_fields (join_with (CHR ''|'') vs)"
| "arg_fields (Objects both objs) = concat (map (\<lambda>(b, k, n). [b, k, to_string (unat n)]) objs)"

lemma plain_to_string [simp]: "plain (to_string n)"
  by (simp add: plain_def is_digit_def)

lemma cut_objects:
  "list_all (\<lambda>(b, k, n). plain b \<and> plain k \<and> unat n < 2 ^ 31) objs \<Longrightarrow>
     cut_fields (join_with (CHR ''|'') (sent_args (Objects both objs))) = arg_fields (Objects both objs)"
proof (induction objs)
  case (Cons x objs)
  obtain b k n where x: "x = (b, k, n)" by (metis prod_cases3)
  have p: "plain b" "plain k" using Cons.prems x by simp_all
  then have "cut_fields (b @ CHR ''|'' # k @ CHR ''|'' # to_string (unat n)) = [b, k, to_string (unat n)]"
    by (simp add: cut_fields_Cons cut_fields_last)
  moreover have "cut_fields (b @ CHR ''|'' # k @ CHR ''|'' # to_string (unat n) @ CHR ''|'' # rest) =
      b # k # to_string (unat n) # cut_fields rest" for rest
    using p by (simp add: cut_fields_Cons)
  ultimately show ?case
    using Cons x by (cases objs) (auto simp: kDelimiter_def)
qed simp

lemma parse_call_sent:
  assumes "plain s" "plain f" "f \<noteq> []" "args_fit a"
  shows "parse_call (call_message (args_flag a) persist s f (sent_args a)) =
    Inr (word_of_int (args_flag a), if persist then 1 else 2, s, f, arg_fields a)"
proof -
  have a: "cut_fields (join_with (CHR ''|'') (sent_args a)) = arg_fields a"
    using assms(4) cut_objects by (cases a) auto
  have "cut_fields (join_with (CHR ''|'') (s # f # sent_args a)) = s # f # arg_fields a"
    using assms(1-3) a [symmetric] by (cases "sent_args a") (simp_all add: cut_fields_Cons cut_fields_last)
  moreover have "word_of_int (args_flag a + 1) - 1 = (word_of_int (args_flag a) :: 8 word)" by (simp add: wi_hom_syms(1))
  ultimately show ?thesis
    by (simp add: parse_call_def call_message_fields byte_at_def c_string_def cut_fields_def del: join_with.simps)
qed

lemma key_args_objects:
  "list_all (\<lambda>(b, k, n). plain b \<and> plain k \<and> unat n < 2 ^ 31) objs \<Longrightarrow>
     key_args (if both then 2 else 1) (arg_fields (Objects both objs)) shm = Inr (passed_args shm (Objects both objs))"
  by (induction objs) (auto simp: object_ptr_def Let_def)

lemma call_args_sent:
  assumes "args_fit a"
  shows "call_args (word_of_int (args_flag a)) (arg_fields a) shm = Inr (Some (passed_args shm a))"
proof (cases a)
  case (Objects both objs)
  have "length (arg_fields (Objects both objs)) mod 3 = 0" by (induction objs) (auto simp: mod_add_eq)
  moreover have "word_of_int (args_flag a) = (if both then 2 else 1 :: 8 word)" by (simp add: Objects)
  ultimately show ?thesis
    using key_args_objects [of objs both shm] assms
    by (auto simp: call_args_def Objects simp del: arg_fields.simps passed_args.simps)
qed (simp add: call_args_def)

text \<open>C9. The call that the scheduler sends to an executor is the call that the executor runs: same session, same
  function, between the report that it is busy and the report that it is available. Arguments that are objects reach
  the function as pointers to the segments of exactly these objects with their sizes, together with the keys if the
  trigger asks for them; names of sessions, functions, buckets and keys must not contain a bar or a zero byte. Arguments
  that are values may be any bytes, but the function gets what cutting the text at the first zero byte and splitting it
  at bars leaves of them, which is exactly the arguments if they have neither and the last one is not empty.\<close>

theorem call_reaches_executor:
  assumes "plain s" "plain f" "f \<noteq> []" "args_fit a" and "ee_functions env f = Some prog"
  shows "\<exists>st1. exec_call env (call_message (args_flag a) persist s f (sent_args a)) st =
      rbind (run_prog (prog (fst (passed_args (ex_shm st) a))) st1) (\<lambda>(_, st2).
        Inr (True, exec_update_status False (st2\<lparr>ex_lib := clear_session (ex_lib st2)\<rparr>))) \<and>
    ul_session_id (ex_lib st1) = s \<and> ul_function (ex_lib st1) = f \<and>
    ul_persist_flag (ex_lib st1) = (if persist then 1 else 2) \<and>
    ul_size_of_args (ex_lib st1) = ul_size_of_args (ex_lib st) @ snd (passed_args (ex_shm st) a) \<and>
    ex_sent st1 = ex_sent st @ [report (ucast (ex_thread_id st + 1)) True] \<and>
    (\<forall>vs. a = Values vs \<and> list_all plain vs \<and> (vs = [] \<or> last vs \<noteq> []) \<longrightarrow>
       passed_args (ex_shm st) a = (map (\<lambda>v. HeapData (v @ [CHR 0x00])) vs, map (\<lambda>v. of_nat (length v)) vs))"
proof -
  obtain vals sizes where v: "passed_args (ex_shm st) a = (vals, sizes)" by fastforce
  have "exec_call env (call_message (args_flag a) persist s f (sent_args a)) st =
      rbind (run_prog (prog vals) (called_with s f persist sizes st)) (\<lambda>(_, st2).
        Inr (True, exec_update_status False (st2\<lparr>ex_lib := clear_session (ex_lib st2)\<rparr>)))"
    by (rule exec_call_args [OF parse_call_sent [OF assms(1-4)] assms(5)]) (simp add: call_args_sent [OF assms(4)] v)
  moreover have "\<forall>vs. a = Values vs \<and> list_all plain vs \<and> (vs = [] \<or> last vs \<noteq> []) \<longrightarrow>
      passed_args (ex_shm st) a = (map (\<lambda>v. HeapData (v @ [CHR 0x00])) vs, map (\<lambda>v. of_nat (length v)) vs)"
    using cut_fields_plain by (simp add: plain_args_def)
  ultimately show ?thesis
    unfolding v by (intro exI [of _ "called_with s f persist sizes st"] conjI) simp_all
qed

definition node_function :: "data_ptr list \<Rightarrow> prog" where
  "node_function args = Return (int (length args))"

definition node_functions :: exec_env where
  "node_functions = \<lparr>ee_functions = (\<lambda>name. if name = ''f'' then Some node_function else None)\<rparr>"

theorem call_reaches_executor_witness:
  "\<exists>st1. exec_call node_functions (call_message 2 True ''s'' ''f'' [''b|k'', ''300''])
      ((init_exec ''10.0.0.2'' 0 0)\<lparr>ex_shm := [(''b|k'', replicate 300 (CHR ''x''))]\<rparr>) =
      rbind (run_prog (node_function [HeapData [CHR ''k'', CHR 0x00], ShmData ''b|k'']) st1) (\<lambda>(_, st2).
        Inr (True, exec_update_status False (st2\<lparr>ex_lib := clear_session (ex_lib st2)\<rparr>))) \<and>
    ul_size_of_args (ex_lib st1) = [1, 300]"
proof -
  have d: "to_string 300 = ''300''" by code_simp
  have "plain ''s''" "plain ''f''" "''f'' \<noteq> []" "args_fit (Objects True [(''b'', ''k'', 300)])"
      "ee_functions node_functions ''f'' = Some node_function"
    by (simp_all add: plain_def node_functions_def)
  from call_reaches_executor [OF this, of True "(init_exec ''10.0.0.2'' 0 0)\<lparr>ex_shm := [(''b|k'', replicate 300 (CHR ''x''))]\<rparr>"]
  show ?thesis
    by (auto simp: d kDelimiter_def object_ptr_def init_exec_def new_UserLibrary_def)
qed

subsection \<open>An object\<close>

definition packing_of :: "EpheObject \<Rightarrow> 8 word" where
  "packing_of obj = (if unat (eo_size obj) \<le> msgDataPackingThreshold then 1 else 2)"

definition sent_info :: "UserLibrary \<Rightarrow> EpheObject \<Rightarrow> string \<Rightarrow> string \<Rightarrow> bytes \<Rightarrow> object_info" where
  "sent_info lib obj bucket sk payload =
     \<lparr>oi_session_id = ul_session_id lib, oi_src_function = ul_function lib, oi_tgt_function = eo_target_func obj,
      oi_bucket = bucket, oi_session_key = sk, oi_data = payload\<rparr>"

text \<open>What the scheduler does with an object whose message can be read.\<close>

definition take_object ::
    "sched_env \<Rightarrow> TimePoint \<Rightarrow> UserLibrary \<Rightarrow> 8 word \<Rightarrow> bool \<Rightarrow> 8 word \<Rightarrow> object_info \<Rightarrow> sched \<Rightarrow> sched res" where
  "take_object env now lib r output packing info st =
     (if \<not> output then send_ephemeral env now packing info st
      else if ul_persist_flag lib = 1 then send_to_kvs env now (ul_chan_id lib - 1) r packing info st
      else send_to_client packing info st)"

lemma object_message_handled:
  assumes "eo_obj_name obj = b @ ''|'' @ k" and "list_all plain [ul_session_id lib, ul_function lib, eo_target_func obj, b, k]"
  shows "handle_executor_msg env now (object_message lib r output obj payload) st =
    (case cut_fields payload of
       [] \<Rightarrow> Inr st
     | data # _ \<Rightarrow> take_object env now lib r output (packing_of obj) (sent_info lib obj b k data) st)"
proof -
  define rest where "rest = ul_session_id lib @ CHR ''|'' # ul_function lib @ CHR ''|'' # eo_target_func obj @
    CHR ''|'' # b @ CHR ''|'' # k @ CHR ''|'' # payload"
  have "cut_fields rest = [ul_session_id lib, ul_function lib, eo_target_func obj, b, k] @ cut_fields payload"
    using assms(2) by (simp add: rest_def cut_fields_Cons)
  then have "parse_object (c0 # c1 # c2 # c3 # rest) =
      Inr (case cut_fields payload of [] \<Rightarrow> None | data # _ \<Rightarrow> Some (sent_info lib obj b k data))" for c0 c1 c2 c3
    by (simp add: parse_object_def c_string_def cut_fields_def sent_info_def split: list.splits)
  moreover have "object_message lib r output obj payload =
      [byte (ul_chan_id lib), byte (if output then if ul_persist_flag lib = 1 then 3 else 4 else 2), byte r,
       byte (packing_of obj)] @ rest"
    by (simp add: object_message_def packing_of_def assms(1) rest_def)
  ultimately show ?thesis
    by (simp add: handle_executor_msg_def handle_send_object_def byte_at_def take_object_def split: list.splits)
qed

lemma cut_fields_zero:
  assumes "plain x" "x \<noteq> []" "z = [] \<or> hd z = CHR 0x00"
  shows "cut_fields (x @ z) = [x]"
proof -
  have "takeWhile (\<lambda>c. c \<noteq> CHR 0x00) z = []" using assms(3) by (cases z) auto
  then have "takeWhile (\<lambda>c. c \<noteq> CHR 0x00) (x @ z) = x" using takeWhile_plain [OF assms(1), of z] by simp
  moreover have "takeWhile (\<lambda>c. c \<noteq> CHR 0x00) x = x" using assms(1) by (auto simp: plain_def takeWhile_eq_all_conv)
  ultimately have "cut_fields (x @ z) = cut_fields x" by (simp only: cut_fields_def)
  then show ?thesis using cut_fields_last [OF assms(1,2)] by simp
qed

lemma object_handled:
  assumes "eo_obj_name obj = b @ ''|'' @ k"
    and "list_all plain [ul_session_id lib, ul_function lib, eo_target_func obj, b, k, payload]" "payload \<noteq> []"
    and "z = [] \<or> hd z = CHR 0x00"
  shows "handle_executor_msg env now (object_message lib r output obj (payload @ z)) st =
    take_object env now lib r output (packing_of obj) (sent_info lib obj b k payload) st"
  using object_message_handled [OF assms(1), where payload = "payload @ z"] assms(2)
    cut_fields_zero [OF _ assms(3,4)] by simp

text \<open>C19. What a function sends through the library is what the scheduler handles: an ephemeral object goes to the
  triggers, an output to the key-value store or to the client, with the session, the function, the bucket and the key
  that the function gave (names without bars and zero bytes). The size of an object that is not packed arrives as it
  is. The bytes of a packed object may be anything, but the scheduler gets them only up to the first bar or zero byte,
  and an object that is empty or starts with a zero byte is dropped without a trace.\<close>

theorem object_reaches_scheduler:
  assumes "eo_obj_name obj = b @ ''|'' @ k" and "list_all plain [ul_session_id lib, ul_function lib, eo_target_func obj, b, k]"
  shows "handle_executor_msg env now (object_message lib r output obj payload) st =
      (if payload = [] \<or> hd payload = CHR 0x00 then Inr st
       else take_object env now lib r output (packing_of obj)
         (sent_info lib obj b k (takeWhile (\<lambda>c. c \<noteq> CHR ''|'' \<and> c \<noteq> CHR 0x00) payload)) st)"
proof -
  let ?cut = "takeWhile (\<lambda>c. c \<noteq> CHR 0x00) payload"
  have "?cut = [] \<longleftrightarrow> payload = [] \<or> hd payload = CHR 0x00" by (cases payload) auto
  moreover have "takeWhile (\<lambda>c. c \<noteq> CHR ''|'') ?cut = takeWhile (\<lambda>c. c \<noteq> CHR ''|'' \<and> c \<noteq> CHR 0x00) payload"
    by (induction payload) auto
  ultimately show ?thesis
    using object_message_handled [OF assms, where payload = payload]
    by (simp add: cut_fields_def split_def getlines.simps [of _ ?cut])
qed

definition sent_object :: EpheObject where
  "sent_object = \<lparr>eo_obj_name = ''b|k'', eo_size = 4, eo_target_func = [], eo_mapped = True\<rparr>"

theorem object_reaches_scheduler_witness:
  "handle_executor_msg node_env 5 (object_message (new_UserLibrary ''10.0.0.2'' 0) 7 False sent_object ''xy|z'') idle_node =
     send_ephemeral node_env 5 1 (sent_info (new_UserLibrary ''10.0.0.2'' 0) sent_object ''b'' ''k'' ''xy'') idle_node"
proof -
  have p: "packing_of sent_object = 1" by (simp add: packing_of_def sent_object_def msgDataPackingThreshold_def)
  have l: "list_all plain [ul_session_id (new_UserLibrary ''10.0.0.2'' 0), ul_function (new_UserLibrary ''10.0.0.2'' 0),
      eo_target_func sent_object, ''b'', ''k'']" by (simp add: plain_def new_UserLibrary_def sent_object_def)
  have n: "eo_obj_name sent_object = ''b'' @ ''|'' @ ''k''" by (simp add: sent_object_def)
  show ?thesis
    using object_reaches_scheduler [OF n l, of node_env 5 7 False "''xy|z''" idle_node]
    unfolding p take_object_def by simp
qed

subsection \<open>Asking for an object\<close>

lemma get_answer_number:
  assumes "n < 2 ^ 31"
  shows "get_answer r nm (executor_answer r (to_string n)) ex =
    (let (p, ex') = new_EpheObject nm [] (of_nat n) False ex in Inr (Got (Some p), ex'))"
proof -
  have "CHR 0x00 \<notin> set (to_string n)" by (rule delim_notin_to_string) (simp add: is_digit_def)
  then have "takeWhile (\<lambda>c. c \<noteq> CHR 0x00) (to_string n) = to_string n" by (auto simp: takeWhile_eq_all_conv)
  then have "c_string (executor_answer r (to_string n)) 3 = Inr (to_string n)"
    by (simp add: c_string_def executor_answer_def)
  then show ?thesis using assms
    by (simp add: get_answer_def executor_answer_def byte_at_def open_object_def split: prod.splits)
qed

text \<open>A function that asks for an object the node has gets it: the request names the object, the scheduler
  answers the executor that asked, and the library opens the object with the size the scheduler has recorded.\<close>

theorem get_is_answered:
  assumes "length nm < 256" "map_of (sd_key_len_map st) nm = Some n" "unat n < 2 ^ 31"
    and "um_get False (ul_chan_id lib - 1) (sd_executor_chans_map st)"
  shows "\<exists>st' answer. handle_executor_msg env now (get_message lib True r nm) st = Inr st' \<and>
    exec_sent st' = exec_sent st @ [(ul_chan_id lib - 1, answer)] \<and>
    get_answer r nm answer ex = Inr (Got (Some (length (ex_objects ex))), ex\<lparr>ex_objects := ex_objects ex @
      [\<lparr>eo_obj_name = nm, eo_size = ucast n, eo_target_func = [], eo_mapped = nm \<noteq> [] \<and> um_has nm (ex_shm ex)\<rparr>]\<rparr>)"
proof -
  let ?answer = "executor_answer r (to_string (unat n))"
  have "bytes_at (get_message lib True r nm) 5 (length nm) = Inr nm"
    by (simp add: bytes_at_def get_message_def)
  then have "handle_executor_msg env now (get_message lib True r nm) st =
      Inr (send_to_executer (ul_chan_id lib - 1) ?answer st)"
    using assms(1,2)
    by (simp add: handle_executor_msg_def handle_get_request_def get_message_def byte_at_def get_object_def unat_of_nat Let_def)
  moreover have "exec_sent (send_to_executer (ul_chan_id lib - 1) ?answer st) = exec_sent st @ [(ul_chan_id lib - 1, ?answer)]"
    using assms(4) by (simp add: send_to_executer_def emit_def exec_sent_def Let_def)
  moreover have "get_answer r nm ?answer ex = Inr (Got (Some (length (ex_objects ex))), ex\<lparr>ex_objects := ex_objects ex @
      [\<lparr>eo_obj_name = nm, eo_size = ucast n, eo_target_func = [], eo_mapped = nm \<noteq> [] \<and> um_has nm (ex_shm ex)\<rparr>]\<rparr>)"
    using get_answer_number [OF assms(3), of r nm ex]
    by (auto simp: new_EpheObject_def shm_acquire_def Let_def)
  ultimately show ?thesis by blast
qed

theorem get_is_answered_witness:
  "\<exists>st' answer. handle_executor_msg node_env 5 (get_message (new_UserLibrary ''10.0.0.2'' 0) True 7 ''b|k'')
      (idle_node\<lparr>sd_key_len_map := [(''b|k'', 300)]\<rparr>) = Inr st' \<and>
    (\<exists>ex'. get_answer 7 ''b|k'' answer (init_exec ''10.0.0.2'' 0 0) = Inr (Got (Some 0), ex') \<and>
      map eo_size (ex_objects ex') = [300])"
proof -
  let ?ex = "init_exec ''10.0.0.2'' 0 0"
  have "um_get False (ul_chan_id (new_UserLibrary ''10.0.0.2'' 0) - 1) (sd_executor_chans_map idle_node)" by code_simp
  then obtain st' answer where 1: "handle_executor_msg node_env 5 (get_message (new_UserLibrary ''10.0.0.2'' 0) True 7 ''b|k'')
      (idle_node\<lparr>sd_key_len_map := [(''b|k'', 300)]\<rparr>) = Inr st'"
    and 2: "get_answer 7 ''b|k'' answer ?ex = Inr (Got (Some (length (ex_objects ?ex))), ?ex\<lparr>ex_objects := ex_objects ?ex @
      [\<lparr>eo_obj_name = ''b|k'', eo_size = ucast (300 :: 32 word), eo_target_func = [],
        eo_mapped = ''b|k'' \<noteq> [] \<and> um_has ''b|k'' (ex_shm ?ex)\<rparr>]\<rparr>)"
    using get_is_answered [of "''b|k''" "idle_node\<lparr>sd_key_len_map := [(''b|k'', 300)]\<rparr>" 300
      "new_UserLibrary ''10.0.0.2'' 0" node_env 5 7 ?ex] by auto
  have "length (ex_objects ?ex) = 0" by (simp add: init_exec_def)
  then show ?thesis using 1 2 by (intro exI conjI) (auto simp: init_exec_def)
qed

lemma stoi_one: "stoi [c] = Inr v \<Longrightarrow> 0 \<le> v \<and> v < 10"
  by (auto simp: stoi_def Let_def digits_val_def digit_val_def is_digit_def split: if_splits)

lemma get_answer_one_byte:
  assumes "get_answer r nm (executor_answer r [c]) ex = Inr (Got (Some p), ex')"
  shows "unat (eo_size (ex_objects ex' ! p)) < 10"
proof -
  obtain ds where "c_string (executor_answer r [c]) 3 = Inr ds" and o: "open_object nm ds ex = (Got (Some p), ex')"
    using assms by (auto simp: get_answer_def executor_answer_def byte_at_def rbind_eq_Inr)
  then have "ds = [] \<or> ds = [c]" by (auto simp: c_string_def executor_answer_def split: if_splits)
  moreover obtain v where "stoi ds = Inr v" and v: "new_EpheObject nm [] (word_of_int v) False ex = (p, ex')"
    using o by (auto simp: open_object_def split: sum.splits prod.splits)
  moreover have "stoi [] = Inl InvalidArgument" by (simp add: stoi_def)
  ultimately have "0 \<le> v" "v < 10" using stoi_one [of c v] by auto
  then have "unat (word_of_int v :: 64 word) < 10" by (simp add: unat_eq_nat_uint uint_word_of_int)
  then show ?thesis using v by (auto simp: new_EpheObject_def Let_def split: prod.splits)
qed

text \<open>C21. A function that asks for an object of another node does not get it. When the object arrives, the scheduler
  appends its size to the answer as a single character instead of as digits, so for every size from 10 on the
  library throws, returns no object or returns one of the wrong size.\<close>

theorem remote_get_size_lost:
  assumes "map_of (sd_key_remote_get_map st) (rv_data_key m) = Some [req]"
    and "map_of (sd_key_call_id_map st) (rv_data_key m) = None"
    and "um_get False (io_executor_id req) (sd_executor_chans_map st)" and "10 \<le> rv_data_size m"
  shows "\<exists>st' answer. handle_data_arrived env now m st = Inr st' \<and>
    exec_sent st' = exec_sent st @ [(io_executor_id req, answer)] \<and>
    (\<forall>p ex'. get_answer (io_req_id req) (rv_data_key m) answer ex = Inr (Got (Some p), ex') \<longrightarrow>
       eo_size (ex_objects ex' ! p) \<noteq> ucast (rv_data_size m))"
proof -
  let ?answer = "executor_answer (io_req_id req) [byte (ucast (rv_data_size m))]"
  have "uint (ucast (rv_data_size m) :: 64 word) = uint (rv_data_size m)" by (rule uint_up_ucast) (simp add: is_up)
  then have "unat (ucast (rv_data_size m) :: 64 word) = unat (rv_data_size m)" by (simp only: unat_eq_nat_uint)
  then have big: "10 \<le> unat (ucast (rv_data_size m) :: 64 word)" using assms(4) by (simp add: word_le_nat_alt)
  have "\<exists>st'. handle_data_arrived env now m st = Inr st' \<and> exec_sent st' = exec_sent st @ [(io_executor_id req, ?answer)]"
    using assms(1-3) by (simp add: handle_data_arrived_def answer_gets_def answer_all_def send_to_executer_def
        resume_calls_def emit_def exec_sent_def Let_def)
  moreover have "eo_size (ex_objects ex' ! p) \<noteq> ucast (rv_data_size m)"
    if "get_answer (io_req_id req) (rv_data_key m) ?answer ex = Inr (Got (Some p), ex')" for p ex'
    using get_answer_one_byte [OF that] big by auto
  ultimately show ?thesis by blast
qed

definition waiting_node :: sched where
  "waiting_node = idle_node\<lparr>sd_key_remote_get_map := [(''b|k'', [\<lparr>io_executor_id = 0, io_req_id = 7, io_recv_time = 0\<rparr>])]\<rparr>"

theorem remote_get_size_lost_witness:
  "\<exists>st' answer. handle_data_arrived node_env 5 (no_RecvMsg\<lparr>rv_msg_type := DataResp, rv_data_key := ''b|k'', rv_data_size := 300\<rparr>)
      waiting_node = Inr st' \<and>
    (\<forall>p ex'. get_answer 7 ''b|k'' answer (init_exec ''10.0.0.2'' 0 0) = Inr (Got (Some p), ex') \<longrightarrow>
       eo_size (ex_objects ex' ! p) \<noteq> 300)"
proof -
  let ?m = "no_RecvMsg\<lparr>rv_msg_type := DataResp, rv_data_key := ''b|k'', rv_data_size := 300\<rparr>"
  have "um_get False 0 (sd_executor_chans_map waiting_node)" "sd_key_call_id_map waiting_node = []" by code_simp+
  then show ?thesis
    using remote_get_size_lost [of waiting_node ?m "\<lparr>io_executor_id = 0, io_req_id = 7, io_recv_time = 0\<rparr>" node_env 5
        "init_exec ''10.0.0.2'' 0 0"]
    by (auto simp: waiting_node_def)
qed

subsection \<open>Reports of an executor\<close>

text \<open>C10. Whatever functions an executor runs and whatever its channels do, its messages follow the protocol: each
  starts with its number, every call it takes opens with the report that it is busy and closes with the report that
  it is available, the requests of the function lie between the two, and all other messages are reports that it is
  available.\<close>

theorem executor_reports:
  assumes "rfold (exec_step env) (init_exec ip thread_id now) es = Inr st'"
  shows "exec_trace (ucast (thread_id + 1)) (ex_sent st')"
  using exec_run_trace [OF assms] by (simp add: exec_ok_def init_exec_def new_UserLibrary_def)

definition executor_run :: "exec res" where
  "executor_run = rfold (exec_step node_functions) (init_exec ''10.0.0.2'' 0 0)
     [([Some (call_message 0 True ''s'' ''f'' [])], [], [], 1, 2), ([], [], [], 2000000000, 2000000001)]"

lemma executor_run_sends:
  "case executor_run of Inl _ \<Rightarrow> False | Inr st \<Rightarrow> ex_sent st = [[byte 1, byte 6], [byte 1, byte 7], [byte 1, byte 7]]"
  by code_simp

theorem executor_reports_witness:
  "\<exists>st'. executor_run = Inr st' \<and> ex_sent st' \<noteq> [] \<and> exec_trace 1 (ex_sent st')"
proof -
  obtain st' where 1: "executor_run = Inr st'" and 2: "ex_sent st' \<noteq> []"
    using executor_run_sends by (auto split: sum.splits)
  show ?thesis using executor_reports [OF 1 [unfolded executor_run_def]] 1 2 by auto
qed

text \<open>A put whose answer does not come in time: the library reports the timeout and then reads the answer.\<close>

lemma put_timeout_crashes:
  assumes "obj_at p st = Inr obj" "unat (eo_size obj) > msgDataPackingThreshold" "ul_persist_flag (ex_lib st) = 1"
    and "ex_chan st = []" "ex_inbox st = None # rest"
  shows "send_object p True st = Inl NullDeref"
  using assms by (simp add: send_object_def lib_request_id_def chan_send_def await_put_answer_def chan_recv_def Let_def)

end
