(* ===== verification/Client_Library.thy ===== *)
theory Client_Library
  imports Common Threads
begin

text \<open>
  The client library, \<^verbatim>\<open>src/include/pheromone_client.h\<close>. An operation returns what it sends, with the addresses;
  the answers it waits for are arguments. The address of the socket to the manager is \<open>manager_address\<close>.
\<close>

definition BUCKET_REQ_PORT :: int where "BUCKET_REQ_PORT = 12070"

definition BUCKET_OP_PORT :: "32 word" where "BUCKET_OP_PORT = 7800"

definition TRIGGER_REQ_PORT :: int where "TRIGGER_REQ_PORT = 12170"

definition TRIGGER_OP_PORT :: "32 word" where "TRIGGER_OP_PORT = 7900"

record OperationRequestThread =
  ort_ip_addr :: string
  ort_thread_id :: int

definition int_to_string :: "int \<Rightarrow> string" where
  "int_to_string i = (if i < 0 then ''-'' @ to_string (nat (- i)) else to_string (nat i))"

definition bucket_req_connect_addr :: "OperationRequestThread \<Rightarrow> Address" where
  "bucket_req_connect_addr t = ''tcp://'' @ ort_ip_addr t @ '':'' @ int_to_string (BUCKET_REQ_PORT + ort_thread_id t)"

definition bucket_req_bind_address :: "OperationRequestThread \<Rightarrow> Address" where
  "bucket_req_bind_address t = ''tcp://*:'' @ int_to_string (BUCKET_REQ_PORT + ort_thread_id t)"

definition trigger_req_connect_addr :: "OperationRequestThread \<Rightarrow> Address" where
  "trigger_req_connect_addr t = ''tcp://'' @ ort_ip_addr t @ '':'' @ int_to_string (TRIGGER_REQ_PORT + ort_thread_id t)"

definition trigger_req_bind_address :: "OperationRequestThread \<Rightarrow> Address" where
  "trigger_req_bind_address t = ''tcp://*:'' @ int_to_string (TRIGGER_REQ_PORT + ort_thread_id t)"

record PheromoneClient =
  pc_manager_ip :: string
  pc_ort :: OperationRequestThread
  pc_req_id :: "32 word"
  pc_app_coord_map :: "(string, string \<times> 32 word) umap"

definition new_PheromoneClient :: "string \<Rightarrow> int \<Rightarrow> PheromoneClient" where
  "new_PheromoneClient manager_ip thread_id =
     \<lparr>pc_manager_ip = manager_ip, pc_ort = \<lparr>ort_ip_addr = manager_ip, ort_thread_id = thread_id\<rparr>,
      pc_req_id = 0, pc_app_coord_map = []\<rparr>"

definition manager_address :: "PheromoneClient \<Rightarrow> Address" where
  "manager_address c = ''tcp://'' @ pc_manager_ip c @ '':'' @ to_string 6002"

text \<open>The counter is an \<open>int\<close>: 32 bits, printed with its sign.\<close>

definition client_request_id :: "PheromoneClient \<Rightarrow> string \<times> PheromoneClient" where
  "client_request_id c = (int_to_string (sint (pc_req_id c)), c\<lparr>pc_req_id := pc_req_id c + 1\<rparr>)"

text \<open>The manager is asked once for every application; \<open>reply\<close> is its answer.\<close>

definition get_coord :: "string \<Rightarrow> CoordResponse \<Rightarrow> PheromoneClient \<Rightarrow> (string \<times> 32 word) \<times> sends \<times> PheromoneClient" where
  "get_coord app_name reply c =
     (case map_of (pc_app_coord_map c) app_name of
        Some coord \<Rightarrow> (coord, [], c)
      | None \<Rightarrow>
          let coord = (cr_coord_ip reply, cr_thread_id reply)
          in (coord, [(manager_address c, W_CoordQuery \<lparr>cq_application = app_name, cq_request_id = []\<rparr>)],
              c\<lparr>pc_app_coord_map := um_put app_name coord (pc_app_coord_map c)\<rparr>))"

definition coord_address :: "string \<times> 32 word \<Rightarrow> 32 word \<Rightarrow> Address" where
  "coord_address coord port = ''tcp://'' @ fst coord @ '':'' @ to_string (unat (snd coord + port))"

definition register_app ::
    "string \<Rightarrow> string list \<Rightarrow> (string list \<times> string list \<times> DependencyType) list \<Rightarrow> CoordResponse \<Rightarrow> PheromoneClient
       \<Rightarrow> sends \<times> PheromoneClient" where
  "register_app app_name funcs dependency reply c =
     (let (coord, asked, c') = get_coord app_name reply c;
          msg = \<lparr>ar_app_name = app_name, ar_functions = funcs,
                 ar_dependencies = map (\<lambda>(srcs, tgts, tp). \<lparr>dd_type = tp, dd_src_functions = srcs,
                   dd_tgt_functions = tgts, dd_description = []\<rparr>) dependency\<rparr>
      in (asked @ [(coord_address coord 5020, W_AppRegistration msg)], c'))"

definition call_app :: "string \<Rightarrow> string \<Rightarrow> string list \<Rightarrow> CoordResponse \<Rightarrow> PheromoneClient \<Rightarrow> sends \<times> PheromoneClient" where
  "call_app app_name func_name args reply c =
     (let (coord, asked, c') = get_coord app_name reply c;
          req = \<lparr>fr_name = func_name, fr_arguments = map (\<lambda>a. no_Argument\<lparr>arg_body := a, arg_arg_flag := 0\<rparr>) args\<rparr>
      in (asked @ [(coord_address coord 5050, W_FunctionCall
            (no_FunctionCall\<lparr>fc_app_name := app_name, fc_requests := [req]\<rparr>))], c'))"

text \<open>\<open>strtok_r\<close> with the blank as the only delimiter: runs of blanks separate, and the text ends at a zero byte.\<close>

definition tokens :: "string \<Rightarrow> string list" where
  "tokens s = filter (\<lambda>t. t \<noteq> []) (getlines (CHR '' '') (takeWhile (\<lambda>c. c \<noteq> CHR 0x00) s))"

text \<open>Only two kinds of triggers have their parameters encoded.\<close>

definition client_primitive :: "prim_codec \<Rightarrow> PrimitiveType \<Rightarrow> (string, string) umap \<Rightarrow> bytes" where
  "client_primitive codec primitive_type prim =
     (case primitive_type of
        IMMEDIATE \<Rightarrow> ser_immediate codec (um_get [] ''function'' prim)
      | BY_SET \<Rightarrow> ser_by_set codec (um_get [] ''function'' prim, tokens (um_get [] ''key_name'' prim))
      | _ \<Rightarrow> [])"

text \<open>The last component of the result says whether the operation is reported as successful.\<close>

definition client_add_trigger ::
    "prim_codec \<Rightarrow> string \<Rightarrow> string \<Rightarrow> string \<Rightarrow> PrimitiveType \<Rightarrow> (string, string) umap \<Rightarrow> int \<Rightarrow> CoordResponse
       \<Rightarrow> TriggerOperationResponse \<Rightarrow> PheromoneClient \<Rightarrow> sends \<times> PheromoneClient \<times> bool" where
  "client_add_trigger codec app_name bucket_name tn primitive_type prim opt reply resp c =
     (let (coord, asked, c1) = get_coord app_name reply c;
          (rid, c2) = client_request_id c1;
          req = \<lparr>tor_operation_type = ADD_TRIGGER, tor_app_name = app_name, tor_bucket_name = bucket_name,
                 tor_trigger_name = tn, tor_trigger_option = opt, tor_primitive_type = primitive_type,
                 tor_primitive = client_primitive codec primitive_type prim, tor_request_id = rid,
                 tor_response_address = trigger_req_connect_addr (pc_ort c), tor_hints = []\<rparr>
      in (asked @ [(coord_address coord TRIGGER_OP_PORT, W_TriggerOperationRequest req)], c2, tos_error resp = SUCCESS))"

definition client_create_bucket ::
    "string \<Rightarrow> string \<Rightarrow> CoordResponse \<Rightarrow> BucketOperationResponse \<Rightarrow> PheromoneClient
       \<Rightarrow> sends \<times> PheromoneClient \<times> bool" where
  "client_create_bucket app_name bucket_name reply resp c =
     (let (coord, asked, c1) = get_coord app_name reply c;
          (rid, c2) = client_request_id c1;
          req = \<lparr>bor_operation_type = CREATE_BUCKET, bor_app_name = app_name, bor_bucket_name = bucket_name,
                 bor_request_id = rid, bor_response_address = bucket_req_connect_addr (pc_ort c)\<rparr>
      in (asked @ [(coord_address coord BUCKET_OP_PORT, W_BucketOperationRequest req)], c2, bos_error resp = SUCCESS))"

text \<open>The public operations on an application, with the answer of the coordinator for those that wait for one, and the
  messages of a sequence of them. Each comes with its application and with the answer that the manager would give.\<close>

datatype client_op =
    RegisterApp "string list" "(string list \<times> string list \<times> DependencyType) list"
  | CallApp string "string list"
  | AddTrigger string string PrimitiveType "(string, string) umap" int TriggerOperationResponse
  | CreateBucket string BucketOperationResponse

fun client_step :: "prim_codec \<Rightarrow> string \<Rightarrow> client_op \<Rightarrow> CoordResponse \<Rightarrow> PheromoneClient \<Rightarrow> sends \<times> PheromoneClient" where
  "client_step codec app (RegisterApp funcs deps) reply c = register_app app funcs deps reply c"
| "client_step codec app (CallApp func args) reply c = call_app app func args reply c"
| "client_step codec app (AddTrigger b tn ty prim opt resp) reply c =
     (let (out, c', _) = client_add_trigger codec app b tn ty prim opt reply resp c in (out, c'))"
| "client_step codec app (CreateBucket b resp) reply c =
     (let (out, c', _) = client_create_bucket app b reply resp c in (out, c'))"

fun client_run :: "prim_codec \<Rightarrow> (string \<times> client_op \<times> CoordResponse) list \<Rightarrow> PheromoneClient \<Rightarrow> sends list" where
  "client_run codec [] c = []"
| "client_run codec ((app, p, reply) # ops) c =
     (let (out, c') = client_step codec app p reply c in out # client_run codec ops c')"

subsection \<open>Which coordinator\<close>

text \<open>A client that connects to \<open>addr\<close> reaches the socket that a thread on the machine \<open>ip\<close> has bound to \<open>bound\<close>:
  the two name the same port.\<close>

definition reaches :: "Address \<Rightarrow> string \<Rightarrow> Address \<Rightarrow> bool" where
  "reaches addr ip bound \<longleftrightarrow> (\<exists>port. addr = ''tcp://'' @ ip @ '':'' @ port \<and> bound = kBindBase @ port)"

text \<open>The socket of a coordinator thread that serves an operation, and the request it has to find there.\<close>

fun op_bind_address :: "client_op \<Rightarrow> HandlerThread \<Rightarrow> Address" where
  "op_bind_address (RegisterApp _ _) t = app_regist_bind_address t"
| "op_bind_address (CallApp _ _) t = func_call_bind_address t"
| "op_bind_address (AddTrigger _ _ _ _ _ _) t = trigger_op_bind_address t"
| "op_bind_address (CreateBucket _ _) t = bucket_op_bind_address t"

fun op_request :: "string \<Rightarrow> client_op \<Rightarrow> wire \<Rightarrow> bool" where
  "op_request app (RegisterApp funcs deps) (W_AppRegistration m) \<longleftrightarrow>
     ar_app_name m = app \<and> ar_functions m = funcs \<and> length (ar_dependencies m) = length deps"
| "op_request app (CallApp func args) (W_FunctionCall m) \<longleftrightarrow>
     fc_app_name m = app \<and> map fr_name (fc_requests m) = [func] \<and>
     map (map arg_body \<circ> fr_arguments) (fc_requests m) = [args]"
| "op_request app (AddTrigger b tn ty prim opt _) (W_TriggerOperationRequest m) \<longleftrightarrow>
     tor_operation_type m = ADD_TRIGGER \<and> tor_app_name m = app \<and> tor_bucket_name m = b \<and>
     tor_trigger_name m = tn \<and> tor_primitive_type m = ty \<and> tor_trigger_option m = opt"
| "op_request app (CreateBucket b _) (W_BucketOperationRequest m) \<longleftrightarrow>
     bor_operation_type m = CREATE_BUCKET \<and> bor_app_name m = app \<and> bor_bucket_name m = b"
| "op_request _ _ _ \<longleftrightarrow> False"

definition manager_query :: "PheromoneClient \<Rightarrow> string \<Rightarrow> sends" where
  "manager_query c app = [(manager_address c, W_CoordQuery \<lparr>cq_application = app, cq_request_id = []\<rparr>)]"

text \<open>The coordinator thread that an operation uses: the cached one, otherwise the one of the answer.\<close>

definition coord_used :: "string \<Rightarrow> CoordResponse \<Rightarrow> PheromoneClient \<Rightarrow> string \<times> 32 word" where
  "coord_used app reply c =
     (case map_of (pc_app_coord_map c) app of Some coord \<Rightarrow> coord | None \<Rightarrow> (cr_coord_ip reply, cr_thread_id reply))"

lemma client_step_sends:
  fixes c :: PheromoneClient
  assumes "client_step codec app p reply c = (out, c')" and "coord_used app reply c = (ip, tid)"
  shows "\<exists>addr req. out = (if um_has app (pc_app_coord_map c) then [] else manager_query c app) @ [(addr, req)] \<and>
      reaches addr ip (op_bind_address p (mk_thread ip tid)) \<and> op_request app p req"
    and "map_of (pc_app_coord_map c') = (map_of (pc_app_coord_map c))(app \<mapsto> (ip, tid))"
    and "manager_address c' = manager_address c"
proof -
  note defs = register_app_def call_app_def client_add_trigger_def client_create_bucket_def get_coord_def
    coord_address_def client_request_id_def mk_thread_def address_defs port_addr_def port_defs manager_query_def
    TRIGGER_OP_PORT_def BUCKET_OP_PORT_def reaches_def coord_used_def manager_address_def Let_def
  show "\<exists>addr req. out = (if um_has app (pc_app_coord_map c) then [] else manager_query c app) @ [(addr, req)] \<and>
      reaches addr ip (op_bind_address p (mk_thread ip tid)) \<and> op_request app p req"
    using assms by (cases p) (auto simp: defs comp_def split: option.splits)
  show "map_of (pc_app_coord_map c') = (map_of (pc_app_coord_map c))(app \<mapsto> (ip, tid))"
    using assms by (cases p) (auto simp: defs split: option.splits)
  show "manager_address c' = manager_address c"
    using assms by (cases p) (auto simp: defs split: option.splits)
qed

text \<open>The answer that decides about an application: that to its first operation.\<close>

fun first_answer :: "string \<Rightarrow> (string \<times> client_op \<times> CoordResponse) list \<Rightarrow> CoordResponse" where
  "first_answer app ((app', _, reply) # ops) = (if app' = app then reply else first_answer app ops)"
| "first_answer app [] = \<lparr>cr_coord_ip = [], cr_thread_id = 0, cr_request_id = []\<rparr>"

lemma client_run_nth:
  assumes "i < length ops" and "ops ! i = (app, p, reply)"
    and "coord_used app (first_answer app ops) c = (ip, tid)"
  shows "\<exists>addr req. client_run codec ops c ! i =
      (if um_has app (pc_app_coord_map c) \<or> app \<in> fst ` set (take i ops) then [] else manager_query c app) @ [(addr, req)] \<and>
    reaches addr ip (op_bind_address p (mk_thread ip tid)) \<and> op_request app p req"
  using assms
proof (induction ops arbitrary: i c)
  case (Cons o1 ops)
  obtain app1 p1 reply1 where o1: "o1 = (app1, p1, reply1)" by (cases o1)
  obtain out c' where step: "client_step codec app1 p1 reply1 c = (out, c')" by force
  obtain ip1 tid1 where used: "coord_used app1 reply1 c = (ip1, tid1)" by force
  note sends = client_step_sends [OF step used]
  show ?case
  proof (cases i)
    case 0
    then have same: "app1 = app" "p1 = p" "ip1 = ip" "tid1 = tid" using Cons.prems used by (auto simp: o1)
    have "client_run codec (o1 # ops) c ! i = out" by (simp add: o1 step 0)
    then show ?thesis using sends(1) 0 unfolding same by simp
  next
    case (Suc j)
    have *: "coord_used app (first_answer app ops) c' = (ip, tid)"
      using Cons.prems(3) used sends(2) by (auto simp: o1 coord_used_def split: if_splits option.splits)
    have asks: "manager_query c' app = manager_query c app" by (simp add: manager_query_def sends(3))
    have known: "(um_has app (pc_app_coord_map c') \<or> app \<in> fst ` set (take j ops)) =
        (um_has app (pc_app_coord_map c) \<or> app \<in> fst ` set (take i (o1 # ops)))"
      using sends(2) by (auto simp: o1 Suc)
    have "client_run codec (o1 # ops) c ! i = client_run codec ops c' ! j" by (simp add: o1 step Suc)
    then show ?thesis using Cons.IH [of j c'] Cons.prems(1,2) * unfolding asks known by (simp add: Suc)
  qed
qed simp

end
