(* ===== verification/Chain_Payload.thy ===== *)
theory Chain_Payload
  imports Node_Properties Client_Library
begin

text \<open>
  The texts that the functions of the sample application \<^verbatim>\<open>src/benchmarks/00\<close> exchange (\<^verbatim>\<open>utils/utils.h\<close>): the payload
  of a chain of calls, four numbers in front of a filler, and sizes like \<^verbatim>\<open>4KB\<close>.
\<close>

subsection \<open>Payloads\<close>

definition fill :: "int \<Rightarrow> bytes" where
  "fill len = replicate (nat len - 1) (CHR 0xff) @ [CHR 0x00]"

text \<open>The text that \<open>set_payload\<close> copies to the start of the buffer; \<open>strncpy\<close> adds no zero byte.\<close>

definition set_payload :: "int \<Rightarrow> int \<Rightarrow> int \<Rightarrow> int \<Rightarrow> string" where
  "set_payload total_chain_len cur_chain_len payload_size send_time =
     int_to_string total_chain_len @ '','' @ int_to_string cur_chain_len @ '','' @
     int_to_string payload_size @ '','' @ int_to_string send_time @ '',#''"

text \<open>\<open>strtok_r\<close> with the comma as the only delimiter: the next token, what it leaves of the text it has passed (the
  delimiter after the token becomes a zero byte), and the remaining text.\<close>

definition strtok :: "string \<Rightarrow> (string \<times> string \<times> string) option" where
  "strtok s =
     (let t = dropWhile (\<lambda>c. c = CHR '','') s;
          token = takeWhile (\<lambda>c. c \<noteq> CHR '','') t;
          r = dropWhile (\<lambda>c. c \<noteq> CHR '','') t
      in if t = [] then None
         else Some (token, takeWhile (\<lambda>c. c = CHR '','') s @ token @ (if r = [] then [] else [CHR 0x00]), drop 1 r))"

lemma strtok_shorter: "strtok s = Some (token, before, r) \<Longrightarrow> length r < length s"
proof -
  assume a: "strtok s = Some (token, before, r)"
  let ?t = "dropWhile (\<lambda>c. c = CHR '','') s"
  have t: "?t \<noteq> []" and r: "r = drop 1 (dropWhile (\<lambda>c. c \<noteq> CHR '','') ?t)"
    using a by (auto simp: strtok_def Let_def split: if_splits)
  have "hd ?t \<noteq> CHR '',''" using t by (rule hd_dropWhile)
  then have "length (dropWhile (\<lambda>c. c \<noteq> CHR '','') ?t) < length ?t"
    using t by (cases ?t) (auto simp: le_imp_less_Suc length_dropWhile_le)
  then show ?thesis using r length_dropWhile_le [of "\<lambda>c. c = CHR '',''" s] by simp
qed

text \<open>The loop over the tokens, which are copied to eight buffers of 64 bytes, and the text it leaves.\<close>

function payload_tokens :: "nat \<Rightarrow> string \<Rightarrow> (string list \<times> string) res" where
  "payload_tokens cnt s =
     (case strtok s of
        None \<Rightarrow> Inr ([], s)
      | Some (token, before, r) \<Rightarrow>
          if hd token = CHR ''#'' then Inr ([], before @ r)
          else if 8 \<le> cnt \<or> 64 \<le> length token then Inl OutOfRange
          else rbind (payload_tokens (cnt + 1) r) (\<lambda>(tokens, s'). Inr (token # tokens, before @ s')))"
  by pat_completeness auto
termination by (relation "measure (\<lambda>(cnt, s). length s)") (auto simp: strtok_shorter)

declare payload_tokens.simps [simp del]

definition stol :: "string \<Rightarrow> int res" where
  "stol s =
     (let t = dropWhile is_space s;
          neg = (t \<noteq> [] \<and> hd t = CHR ''-'');
          u = (if t \<noteq> [] \<and> (hd t = CHR ''-'' \<or> hd t = CHR ''+'') then tl t else t);
          ds = takeWhile is_digit u;
          v = (if neg then - int (digits_val ds) else int (digits_val ds))
      in if ds = [] then Inl InvalidArgument
         else if v < - (2 ^ 63) \<or> 2 ^ 63 \<le> v then Inl OutOfRange
         else Inr v)"

text \<open>\<open>None\<close> stands for the result -1: the number of tokens is wrong or a conversion throws.\<close>

definition payload_numbers :: "string list \<Rightarrow> (int \<times> int \<times> int \<times> int) option" where
  "payload_numbers payloads =
     (if length payloads \<noteq> 4 then None
      else case rbind (stoi (payloads ! 0)) (\<lambda>a. rbind (stoi (payloads ! 1)) (\<lambda>b.
                rbind (stol (payloads ! 2)) (\<lambda>c. rbind (stol (payloads ! 3)) (\<lambda>d. Inr (a, b, c, d))))) of
             Inl _ \<Rightarrow> None
           | Inr v \<Rightarrow> Some v)"

definition get_payload :: "string \<Rightarrow> ((int \<times> int \<times> int \<times> int) option \<times> string) res" where
  "get_payload serialized =
     rbind (payload_tokens 0 serialized) (\<lambda>(payloads, s'). Inr (payload_numbers payloads, s'))"

subsection \<open>Sizes\<close>

definition long_value :: "int \<Rightarrow> int res" where
  "long_value v = (if v < - (2 ^ 63) \<or> 2 ^ 63 \<le> v then Inl Overflow else Inr v)"

definition unit_factor :: "char \<Rightarrow> int" where
  "unit_factor prefix =
     (if prefix = CHR ''K'' then 1024 else if prefix = CHR ''M'' then 1024 * 1024
      else if prefix = CHR ''G'' then 1024 * 1024 * 1024 else 1)"

text \<open>The loop over the text: the value and what follows the final \<^verbatim>\<open>B\<close>, or \<open>None\<close> for a character that is not
  allowed or a text without a \<^verbatim>\<open>B\<close>.\<close>

fun size_loop :: "int \<Rightarrow> char \<Rightarrow> string \<Rightarrow> (int \<times> string) option res" where
  "size_loop v prefix [] = Inr None"
| "size_loop v prefix (ch # cs) =
     (if ch = CHR ''B'' then rbind (long_value (v * unit_factor prefix)) (\<lambda>v'. Inr (Some (v', cs)))
      else if ch \<in> {CHR ''K'', CHR ''M'', CHR ''G''} then size_loop v ch cs
      else if is_digit ch then rbind (long_value (v * 10 + int (digit_val ch))) (\<lambda>v'. size_loop v' prefix cs)
      else Inr None)"

definition parse_payload_size :: "string \<Rightarrow> int res" where
  "parse_payload_size input =
     rbind (size_loop 0 (CHR ''&'') (dropWhile (\<lambda>c. c = CHR '' '') input)) (\<lambda>r.
       Inr (case r of
              None \<Rightarrow> - 1
            | Some (v, tail) \<Rightarrow> if \<forall>c\<in>set tail. c = CHR '' '' then v else - 1))"

subsection \<open>Numbers as texts\<close>

lemma int_to_string_chars: "c \<in> set (int_to_string i) \<Longrightarrow> is_digit c \<or> c = CHR ''-''"
  by (auto simp: int_to_string_def split: if_splits dest: to_string_digits)

lemma int_to_string_no:
  "CHR '','' \<notin> set (int_to_string i)" "CHR ''|'' \<notin> set (int_to_string i)" "CHR 0x00 \<notin> set (int_to_string i)"
  using int_to_string_chars [of _ i] by (fastforce simp: is_digit_def)+

lemma int_to_string_hd: "int_to_string i \<noteq> []" "hd (int_to_string i) \<noteq> CHR ''#''"
proof -
  show n: "int_to_string i \<noteq> []" by (simp add: int_to_string_def)
  show "hd (int_to_string i) \<noteq> CHR ''#''" using int_to_string_chars [OF hd_in_set [OF n]] by (auto simp: is_digit_def)
qed

lemma length_to_string: "n < 10 ^ k \<Longrightarrow> 0 < k \<Longrightarrow> length (to_string n) \<le> k"
proof (induction k arbitrary: n)
  case (Suc k)
  show ?case
  proof (cases "n < 10")
    case False
    then have "0 < k" using Suc.prems(1) by (cases k) auto
    moreover have "n div 10 < 10 ^ k" using Suc.prems(1) by (simp add: div_less_iff_less_mult mult.commute)
    ultimately have "length (to_string (n div 10)) \<le> k" using Suc.IH by simp
    then show ?thesis using False by (subst to_string.simps) simp
  qed (simp add: to_string.simps)
qed simp

lemma length_to_string_div: "length (to_string n) \<le> n div 10 + 1"
proof (induction n rule: to_string.induct)
  case (1 n)
  show ?case
  proof (cases "n < 10")
    case False
    then have "length (to_string (n div 10)) \<le> n div 10 div 10 + 1" using 1 by simp
    moreover have "n div 10 div 10 + 1 \<le> n div 10" using False by linarith
    ultimately show ?thesis using False by (subst to_string.simps) simp
  qed (simp add: to_string.simps)
qed

definition in_int :: "int \<Rightarrow> bool" where
  "in_int i \<longleftrightarrow> - (2 ^ 31) \<le> i \<and> i < 2 ^ 31"

definition in_long :: "int \<Rightarrow> bool" where
  "in_long i \<longleftrightarrow> - (2 ^ 63) \<le> i \<and> i < 2 ^ 63"

lemma length_int_to_string:
  "in_int i \<Longrightarrow> length (int_to_string i) \<le> 11" "in_long i \<Longrightarrow> length (int_to_string i) \<le> 20"
proof -
  have "nat i < 10 ^ 10 \<and> nat (- i) < 10 ^ 10" if "in_int i" using that unfolding in_int_def by simp linarith
  then show "in_int i \<Longrightarrow> length (int_to_string i) \<le> 11"
    using length_to_string [of "nat i" 10] length_to_string [of "nat (- i)" 10] by (simp add: int_to_string_def)
  have "nat i < 10 ^ 19 \<and> nat (- i) < 10 ^ 19" if "in_long i" using that unfolding in_long_def by simp linarith
  then show "in_long i \<Longrightarrow> length (int_to_string i) \<le> 20"
    using length_to_string [of "nat i" 19] length_to_string [of "nat (- i)" 19] by (simp add: int_to_string_def)
qed

lemma digits_int_to_string:
  "stol (int_to_string i) = (if in_long i then Inr i else Inl OutOfRange)"
  "stoi (int_to_string i) = (if in_int i then Inr i else Inl OutOfRange)"
proof -
  have d: "takeWhile is_digit (to_string n) = to_string n" for n using takeWhile_digits_to_string [of "[]" n] by simp
  have h: "is_digit (hd (to_string n))" for n using to_string_digits [OF hd_in_set] by simp
  then have hd: "hd (to_string n) \<noteq> CHR ''-''" "hd (to_string n) \<noteq> CHR ''+''" for n
    by (metis not_digit_delims(4), metis not_digit_delims(5))
  have sp: "dropWhile is_space (to_string n) = to_string n" for n
    using digit_not_space [OF h [of n]] by (cases "to_string n") auto
  have sn: "\<not> is_space (CHR ''-'')" by (simp add: is_space_def Let_def)
  show "stol (int_to_string i) = (if in_long i then Inr i else Inl OutOfRange)"
    by (auto simp: stol_def int_to_string_def in_long_def Let_def d sp sn hd)
  show "stoi (int_to_string i) = (if in_int i then Inr i else Inl OutOfRange)"
    by (auto simp: stoi_def int_to_string_def in_int_def Let_def d sp sn hd)
qed

subsection \<open>Payloads are read back\<close>

lemma strtok_item:
  assumes "x \<noteq> []" "CHR '','' \<notin> set x"
  shows "strtok (x @ CHR '','' # r) = Some (x, x @ [CHR 0x00], r)" "strtok x = Some (x, x, [])"
proof -
  obtain c cs where x: "x = c # cs" "c \<noteq> CHR '',''" using assms by (cases x) auto
  have a: "\<forall>c\<in>set x. c \<noteq> CHR '',''" using assms(2) by auto
  have "dropWhile (\<lambda>c. c = CHR '','') (x @ r') = x @ r'" "takeWhile (\<lambda>c. c = CHR '','') (x @ r') = []" for r'
    using x by simp_all
  note s = this this [of "[]", simplified]
  have w: "takeWhile (\<lambda>c. c \<noteq> CHR '','') x = x" "dropWhile (\<lambda>c. c \<noteq> CHR '','') x = []"
    using a by (auto simp: takeWhile_eq_all_conv dropWhile_eq_Nil_conv)
  show "strtok (x @ CHR '','' # r) = Some (x, x @ [CHR 0x00], r)"
    using a assms(1) by (simp add: strtok_def Let_def s takeWhile_append2 dropWhile_append2 w)
  show "strtok x = Some (x, x, [])" using assms(1) by (simp add: strtok_def Let_def s w)
qed

lemma payload_tokens_item:
  assumes "x \<noteq> []" "CHR '','' \<notin> set x" "hd x \<noteq> CHR ''#''" "length x < 64" "cnt < 8"
  shows "payload_tokens cnt (x @ CHR '','' # r) =
    rbind (payload_tokens (cnt + 1) r) (\<lambda>(tokens, s'). Inr (x # tokens, x @ CHR 0x00 # s'))"
  using assms by (subst payload_tokens.simps) (simp add: strtok_item(1))

text \<open>What the reader leaves of a payload: the delimiters are zero bytes.\<close>

definition read_payload :: "int \<Rightarrow> int \<Rightarrow> int \<Rightarrow> int \<Rightarrow> string \<Rightarrow> string" where
  "read_payload a b n t filler =
     int_to_string a @ CHR 0x00 # int_to_string b @ CHR 0x00 # int_to_string n @ CHR 0x00 #
     int_to_string t @ CHR 0x00 # CHR ''#'' # filler"

lemma get_set_payload:
  assumes "in_int a" "in_int b" "in_long n" "in_long t" "CHR '','' \<notin> set filler"
  shows "get_payload (set_payload a b n t @ filler) = Inr (Some (a, b, n, t), read_payload a b n t filler)"
proof -
  have l: "length (int_to_string i) < 64" if "in_int i \<or> in_long i" for i using that length_int_to_string [of i] by auto
  have "payload_tokens (Suc (Suc (Suc (Suc 0)))) (CHR ''#'' # filler) = Inr ([], CHR ''#'' # filler)"
    using strtok_item(2) [of "CHR ''#'' # filler"] assms(5) by (subst payload_tokens.simps) simp
  then have "payload_tokens 0 (set_payload a b n t @ filler) =
      Inr ([int_to_string a, int_to_string b, int_to_string n, int_to_string t], read_payload a b n t filler)"
    using assms l by (simp add: set_payload_def payload_tokens_item int_to_string_no int_to_string_hd read_payload_def)
  then show ?thesis using assms by (simp add: get_payload_def payload_numbers_def digits_int_to_string)
qed

text \<open>The buffer is long enough: the shortest has 64 bytes, and the length of the numbers grows slower than the buffer.\<close>

lemma payload_fits:
  assumes "in_int a" "in_int b" "64 \<le> n" "in_long t"
  shows "length (set_payload a b n t) < nat n"
proof -
  have "length (int_to_string n) \<le> nat n div 10 + 1" using length_to_string_div [of "nat n"] assms(3) by (simp add: int_to_string_def)
  moreover have "nat n div 10 + 1 + 47 < nat n" using assms(3) by linarith
  ultimately show ?thesis
    using length_int_to_string(1) [OF assms(1)] length_int_to_string(1) [OF assms(2)] length_int_to_string(2) [OF assms(4)]
    by (simp add: set_payload_def)
qed

subsection \<open>Sizes are read\<close>

lemma digits_mono: "0 \<le> v \<Longrightarrow> v \<le> foldl (\<lambda>a c. 10 * a + int (digit_val c)) v ds"
proof (induction ds arbitrary: v)
  case (Cons d ds)
  show ?case using Cons.IH [of "10 * v + int (digit_val d)"] Cons.prems by simp
qed simp

lemma size_loop_digits:
  assumes "\<And>c. c \<in> set ds \<Longrightarrow> is_digit c" "foldl (\<lambda>a c. 10 * a + int (digit_val c)) v ds < 2 ^ 63" "0 \<le> v"
  shows "size_loop v prefix (ds @ r) = size_loop (foldl (\<lambda>a c. 10 * a + int (digit_val c)) v ds) prefix r"
  using assms
proof (induction ds arbitrary: v)
  case (Cons d ds)
  let ?w = "10 * v + int (digit_val d)"
  have d: "is_digit d" using Cons.prems(1) by simp
  then have n: "d \<noteq> CHR ''B''" "d \<notin> {CHR ''K'', CHR ''M'', CHR ''G''}" by (auto simp: is_digit_def)
  have "?w < 2 ^ 63" using Cons.prems(2,3) digits_mono [of ?w ds] by simp
  then have "long_value (v * 10 + int (digit_val d)) = Inr ?w" using Cons.prems(3) by (simp add: long_value_def mult.commute)
  then show ?case using Cons.IH [of ?w] Cons.prems d n by simp
qed simp

lemma size_loop_number:
  assumes "int n < 2 ^ 63"
  shows "size_loop 0 prefix (to_string n @ r) = size_loop (int n) prefix r"
proof -
  have "foldl (\<lambda>a c. 10 * a + int (digit_val c)) (int v) ds = int (foldl (\<lambda>a c. 10 * a + digit_val c) v ds)" for v ds
    by (induction ds arbitrary: v) (simp, metis (no_types, lifting) foldl_Cons of_nat_add of_nat_mult of_nat_numeral)
  from this [of 0 "to_string n"] have "foldl (\<lambda>a c. 10 * a + int (digit_val c)) 0 (to_string n) = int n"
    using digits_val_to_string [of n] by (simp add: digits_val_def)
  then show ?thesis using size_loop_digits [of "to_string n" 0 prefix r] to_string_digits assms by simp
qed

lemma parse_number:
  assumes "int n * f < 2 ^ 63" "(u, f) \<in> {([], 1), (''K'', 1024), (''M'', 1024 * 1024), (''G'', 1024 * 1024 * 1024)}"
  shows "parse_payload_size (replicate i (CHR '' '') @ to_string n @ u @ ''B'' @ replicate j (CHR '' '')) = Inr (int n * f)"
proof -
  have f: "1 \<le> f" using assms(2) by auto
  then have "int n \<le> int n * f" by (simp add: mult_le_cancel_left1)
  then have n: "int n < 2 ^ 63" using assms(1) by simp
  have "hd (to_string n) \<noteq> CHR '' ''" using to_string_digits [OF hd_in_set [OF to_string_not_Nil [of n]]] by auto
  then have "dropWhile (\<lambda>c. c = CHR '' '') (replicate i (CHR '' '') @ to_string n @ r) = to_string n @ r" for r
    by (cases "to_string n") (simp, induction i, simp_all)
  moreover have "long_value (int n * f) = Inr (int n * f)" using assms(1) \<open>int n \<le> int n * f\<close> by (simp add: long_value_def)
  ultimately show ?thesis
    using assms(2) by (auto simp: parse_payload_size_def size_loop_number [OF n] unit_factor_def)
qed

end
