(* ===== verification/Coord_State.thy ===== *)
theory Coord_State
  imports Threads Trigger_Specs
begin

text \<open>
  The state of a coordinator thread (the variables of \<open>run\<close> in
  \<^verbatim>\<open>src/src/coordinator/coordinator.cpp\<close>) and the handlers for addresses, key queries, bucket
  operations and node status. A handler takes the message that it parses and returns the new state
  and the messages that it sends. The configuration, the codec of trigger primitives and \<open>rand_r\<close> are
  in the environment \<open>coord_env\<close>; what the clock reads is an argument.
\<close>

subsection \<open>State\<close>

record NodeStatus =
  ns_tp :: TimePoint
  ns_avail_executors :: int
  ns_functions :: "string uset"

text \<open>\<open>node_status_map[ip]\<close> stores this value for a node that is not known.\<close>

definition no_NodeStatus :: NodeStatus where
  "no_NodeStatus = \<lparr>ns_tp = 0, ns_avail_executors = 0, ns_functions = []\<rparr>"

definition update_status :: "TimePoint \<Rightarrow> int \<Rightarrow> string uset \<Rightarrow> NodeStatus \<Rightarrow> NodeStatus" where
  "update_status now avail_executors functions ns =
     ns\<lparr>ns_avail_executors := avail_executors, ns_functions := functions, ns_tp := now\<rparr>"

type_synonym address_map = "(Bucket, (Key, Address uset) umap) umap"

record coord =
  bucket_key_address_map :: address_map
  bucket_key_val_map :: "(string, string) umap"
  bucket_node_map :: "(string, Address uset) umap"
  bucket_triggers_map :: "(Bucket, TriggerPtr list) umap"
  app_buckets_map :: "(string, Bucket uset) umap"
  bucket_app_map :: "(Bucket, string) umap"
  node_status_map :: "(Address, NodeStatus) umap"
  co_seed :: "32 word"

record coord_env =
  ce_private_ip :: Address
  ce_public_ip :: Address
  ce_thread_id :: "32 word"
  ce_io_thread_num :: "32 word"
  ce_management_address :: Address
  ce_codec :: prim_codec
  ce_rand_r :: rng

definition init_coord :: "32 word \<Rightarrow> coord" where
  "init_coord seed =
     \<lparr>bucket_key_address_map = [], bucket_key_val_map = [], bucket_node_map = [],
      bucket_triggers_map = [], app_buckets_map = [], bucket_app_map = [], node_status_map = [],
      co_seed = seed\<rparr>"

text \<open>\<open>rand_r(&seed) % n\<close>.\<close>

definition rand_mod :: "coord_env \<Rightarrow> nat \<Rightarrow> coord \<Rightarrow> (nat \<times> coord) res" where
  "rand_mod env n st =
     (if n = 0 then Inl DivByZero
      else let (r, seed') = ce_rand_r env (co_seed st) in Inr (r mod n, st\<lparr>co_seed := seed'\<rparr>))"

definition get_func_exec_address :: "Address \<Rightarrow> 32 word \<Rightarrow> Address" where
  "get_func_exec_address ip io_thread = ''tcp://'' @ ip @ '':'' @ to_string (unat (funcExecPort + io_thread))"

definition trigger_update_address :: "Address \<Rightarrow> Address" where
  "trigger_update_address ip = ''tcp://'' @ ip @ '':'' @ to_string (unat TriggerUpdatePort)"

subsection \<open>update_address and get_address\<close>

definition update_address :: "BucketKey \<Rightarrow> Address \<Rightarrow> address_map \<Rightarrow> address_map" where
  "update_address bk addr m =
     um_alter [] (um_alter [] (us_insert addr) (bk_key bk)) (bk_bucket bk) m"

text \<open>The addresses recorded for a key, \<open>None\<close> when the bucket or the key is not there.\<close>

definition recorded :: "address_map \<Rightarrow> Bucket \<Rightarrow> Key \<Rightarrow> Address uset option" where
  "recorded m b k = (case map_of m b of None \<Rightarrow> None | Some keys \<Rightarrow> map_of keys k)"

record GetAddressResult =
  gar_error :: KVSError
  gar_addr :: "Address uset"

definition get_address :: "BucketKey \<Rightarrow> address_map \<Rightarrow> GetAddressResult" where
  "get_address bk m =
     (if um_has (bk_bucket bk) m \<and> um_has (bk_key bk) (um_get [] (bk_bucket bk) m)
      then \<lparr>gar_error = SUCCESS, gar_addr = um_get [] (bk_key bk) (um_get [] (bk_bucket bk) m)\<rparr>
      else \<lparr>gar_error = KEY_NE, gar_addr = []\<rparr>)"

subsection \<open>query_handler\<close>

text \<open>The loop over the queried addresses stops at the first error.\<close>

fun query_loop :: "address_map \<Rightarrow> BucketKeyAddress list \<Rightarrow> (BucketKey \<times> GetAddressResult) list \<times> KVSError" where
  "query_loop m [] = ([], SUCCESS)"
| "query_loop m (address # rest) =
     (let bk = get_bucket_key_from_addr address
      in if um_has (bk_bucket bk) m then
           let get_result = get_address bk m
           in if gar_error get_result = SUCCESS
              then map_prod (Cons (bk, get_result)) id (query_loop m rest)
              else ([(bk, get_result)], gar_error get_result)
         else ([(bk, \<lparr>gar_error = BUCKET_NE, gar_addr = []\<rparr>)], BUCKET_NE))"

definition query_handler :: "KeyQueryRequest \<Rightarrow> coord \<Rightarrow> coord \<times> sends" where
  "query_handler query_request st =
     (let (query_results, reported_error) =
            query_loop (bucket_key_address_map st) (kqr_addresses query_request);
          addresses = map (\<lambda>(bk, res).
            (get_addr_from_bucket_key bk no_BucketKeyAddress)
              \<lparr>bka_ips := (if reported_error = SUCCESS then gar_addr res else [])\<rparr>) query_results;
          response = \<lparr>kqs_addresses = addresses, kqs_error = reported_error,
                      kqs_response_id = kqr_request_id query_request\<rparr>
      in (st, [(kqr_response_address query_request, W_KeyQueryResponse response)]))"

subsection \<open>bucket_op_handler\<close>

definition bucket_op_handler :: "BucketOperationRequest \<Rightarrow> coord \<Rightarrow> coord \<times> sends" where
  "bucket_op_handler request st =
     (let bucket_name = bor_bucket_name request;
          app_name = bor_app_name request;
          response = no_BucketOperationResponse
            \<lparr>bos_response_id := bor_request_id request, bos_bucket_name := bucket_name\<rparr>;
          (st', response') =
            (case bor_operation_type request of
               CREATE_BUCKET \<Rightarrow>
                 if um_has bucket_name (bucket_app_map st)
                 then (st, response\<lparr>bos_error := BUCKET_EXIST\<rparr>)
                 else (st\<lparr>app_buckets_map := um_alter [] (us_insert bucket_name) app_name (app_buckets_map st),
                          bucket_app_map := um_put bucket_name app_name (bucket_app_map st)\<rparr>,
                       response\<lparr>bos_error := SUCCESS\<rparr>)
             | DELETE_BUCKET \<Rightarrow>
                 if \<not> um_has bucket_name (bucket_app_map st)
                 then (st, response\<lparr>bos_error := BUCKET_NE\<rparr>)
                 else (st\<lparr>app_buckets_map := um_alter [] (us_erase bucket_name) app_name (app_buckets_map st),
                          bucket_app_map := um_erase bucket_name (bucket_app_map st),
                          bucket_triggers_map := um_erase bucket_name (bucket_triggers_map st)\<rparr>,
                       response\<lparr>bos_error := SUCCESS\<rparr>)
             | UnknownBucketOp _ \<Rightarrow> (st, response))
      in (st', [(bor_response_address request, W_BucketOperationResponse response')]))"

subsection \<open>The status of a node\<close>

definition update_status_handler :: "TimePoint \<Rightarrow> UpdateStatusMessage \<Rightarrow> coord \<Rightarrow> coord" where
  "update_status_handler now msg st =
     (let ip = us_ip msg; avail_executors = us_avail_executors msg;
          functions = us_of_list (us_functions msg)
      in if um_has ip (node_status_map st)
         then st\<lparr>node_status_map :=
                um_alter no_NodeStatus (update_status now avail_executors functions) ip (node_status_map st)\<rparr>
         else st\<lparr>node_status_map :=
                um_put ip \<lparr>ns_tp = now, ns_avail_executors = avail_executors, ns_functions = functions\<rparr>
                  (node_status_map st)\<rparr>)"

end
