(* ===== verification/Coord_Triggers.thy ===== *)
theory Coord_Triggers
  imports Coord_State
begin

text \<open>
  The coordinator's handlers for trigger operations and application registrations
  (\<^verbatim>\<open>trigger_op_handler.cpp\<close>, \<^verbatim>\<open>app_register_handler.cpp\<close>).
\<close>

subsection \<open>trigger_op_handler\<close>

definition broadcast :: "UpdateCoordMsg \<Rightarrow> coord \<Rightarrow> sends" where
  "broadcast msg st =
     map (\<lambda>(ip, status). (trigger_update_address ip, W_UpdateCoord msg)) (node_status_map st)"

text \<open>The branch of \<open>ADD_TRIGGER\<close> for a bucket that exists. The type of the new trigger is read
  through the pointer also when the pointer is null.\<close>

definition add_trigger ::
    "coord_env \<Rightarrow> TimePoint \<Rightarrow> TriggerOperationRequest \<Rightarrow> UpdateCoordMsg \<Rightarrow> coord \<Rightarrow> (coord \<times> UpdateCoordMsg) res" where
  "add_trigger env now request trigger_msg st =
     (let bucket_name = tor_bucket_name request; trigger_name = tor_trigger_name request
      in case gen_trigger_pointer (ce_codec env) now (tor_primitive_type request) trigger_name
                (tor_primitive request) of
           None \<Rightarrow> Inl NullDeref
         | Some ptr \<Rightarrow>
             let trigger_ptr = set_trigger_option (tor_trigger_option request) ptr;
                 st' = st\<lparr>bucket_triggers_map :=
                         um_alter [] (\<lambda>ts. ts @ [trigger_ptr]) bucket_name (bucket_triggers_map st)\<rparr>;
                 msg' = trigger_msg\<lparr>ucm_msg_type := 0\<rparr>;
                 entity = no_TriggerEntity
                   \<lparr>te_bucket_name := bucket_name, te_trigger_name := trigger_name,
                    te_trigger_option := tor_trigger_option request,
                    te_primitive_type := tor_primitive_type request,
                    te_primitive := dump_pritimive (ce_codec env) trigger_ptr,
                    te_hints := tor_hints request\<rparr>
             in Inr (st', if get_type trigger_ptr \<noteq> BY_TIME
                          then msg'\<lparr>ucm_triggers := ucm_triggers msg' @ [entity]\<rparr> else msg'))"

text \<open>The branch of \<open>DELETE_TRIGGER\<close> for a bucket that exists.\<close>

definition delete_trigger ::
    "TriggerOperationRequest \<Rightarrow> UpdateCoordMsg \<Rightarrow> coord \<Rightarrow> coord \<times> UpdateCoordMsg" where
  "delete_trigger request trigger_msg st =
     (let bucket_name = tor_bucket_name request; trigger_name = tor_trigger_name request;
          triggers = um_get [] bucket_name (bucket_triggers_map st);
          find_trigger = (trigger_name \<in> get_trigger_name ` set triggers);
          st' = st\<lparr>bucket_triggers_map :=
                  um_alter [] (filter (\<lambda>t. get_trigger_name t \<noteq> trigger_name)) bucket_name
                    (bucket_triggers_map st)\<rparr>;
          entity = no_TriggerEntity\<lparr>te_bucket_name := bucket_name, te_trigger_name := trigger_name\<rparr>
      in (st', if find_trigger
               then trigger_msg\<lparr>ucm_msg_type := 2, ucm_triggers := ucm_triggers trigger_msg @ [entity]\<rparr>
               else trigger_msg))"

definition trigger_op_handler ::
    "coord_env \<Rightarrow> TimePoint \<Rightarrow> TriggerOperationRequest \<Rightarrow> coord \<Rightarrow> (coord \<times> sends) res" where
  "trigger_op_handler env now request st =
     (let bucket_name = tor_bucket_name request;
          response = no_TriggerOperationResponse
            \<lparr>tos_response_id := tor_request_id request, tos_bucket_name := bucket_name,
             tos_trigger_name := tor_trigger_name request\<rparr>;
          trigger_msg = no_UpdateCoordMsg
            \<lparr>ucm_ip := ce_private_ip env, ucm_thread_id := ce_thread_id env,
             ucm_app_name := tor_app_name request\<rparr>
      in rbind
           (case tor_operation_type request of
              ADD_TRIGGER \<Rightarrow>
                if um_has bucket_name (bucket_app_map st)
                then rbind (add_trigger env now request trigger_msg st) (\<lambda>(st', msg).
                       Inr (st', msg, response\<lparr>tos_error := SUCCESS\<rparr>))
                else Inr (st, trigger_msg, response\<lparr>tos_error := BUCKET_NE\<rparr>)
            | DELETE_TRIGGER \<Rightarrow>
                if um_has bucket_name (bucket_app_map st)
                then let (st', msg) = delete_trigger request trigger_msg st in Inr (st', msg, response)
                else Inr (st, trigger_msg, response\<lparr>tos_error := BUCKET_NE\<rparr>)
            | UnknownTriggerOp _ \<Rightarrow> Inr (st, trigger_msg, response))
           (\<lambda>(st', msg, resp).
             Inr (st', (tor_response_address request, W_TriggerOperationResponse resp) # broadcast msg st')))"

subsection \<open>app_register_handler\<close>

definition claim_bucket :: "string \<Rightarrow> Bucket \<Rightarrow> coord \<Rightarrow> coord" where
  "claim_bucket app_name bucket_name st =
     st\<lparr>app_buckets_map := um_alter [] (us_insert bucket_name) app_name (app_buckets_map st),
        bucket_app_map := um_put bucket_name app_name (bucket_app_map st)\<rparr>"

definition add_app_trigger :: "Bucket \<Rightarrow> TriggerPtr \<Rightarrow> coord \<Rightarrow> coord" where
  "add_app_trigger bucket_name trigger_ptr st =
     st\<lparr>bucket_triggers_map :=
       um_alter [] (\<lambda>ts. ts @ [trigger_ptr]) bucket_name (bucket_triggers_map st)\<rparr>"

definition app_entity :: "coord_env \<Rightarrow> Bucket \<Rightarrow> TriggerPtr \<Rightarrow> TriggerEntity" where
  "app_entity env bucket_name trigger_ptr =
     no_TriggerEntity
       \<lparr>te_bucket_name := bucket_name, te_trigger_name := get_trigger_name trigger_ptr,
        te_trigger_option := get_trigger_option trigger_ptr,
        te_primitive_type := get_type trigger_ptr,
        te_primitive := dump_pritimive (ce_codec env) trigger_ptr\<rparr>"

definition many_to_one_trigger :: "string \<Rightarrow> string list \<Rightarrow> TriggerPtr" where
  "many_to_one_trigger tgt_function src_functions =
     BySet (new_BySetTrigger tgt_function (''t_'' @ ''1'' @ ''_'' @ tgt_function)
       (fold (\<lambda>func names. us_insert (''k_'' @ func) names) src_functions []))"

definition k_out_of_n_trigger :: "string \<Rightarrow> string \<Rightarrow> TriggerPtr res" where
  "k_out_of_n_trigger tgt_function description =
     (case split description (CHR '','') of
        [] \<Rightarrow> Inl OutOfRange
      | metadata0 # rest \<Rightarrow>
          rbind (stoi metadata0) (\<lambda>k.
            case rest of
              [] \<Rightarrow> Inl OutOfRange
            | metadata1 # _ \<Rightarrow>
                rbind (stoi metadata1) (\<lambda>n.
                  Inr (Redundant (new_RedundantTrigger tgt_function (''t_'' @ ''2'' @ ''_'' @ tgt_function)
                    (word_of_int k) (word_of_int n))))))"

definition periodic_trigger :: "TimePoint \<Rightarrow> string \<Rightarrow> string \<Rightarrow> TriggerPtr res" where
  "periodic_trigger now tgt_function description =
     rbind (stoi description) (\<lambda>time_window.
       Inr (ByTime (new_ByTimeTrigger now tgt_function (''t_'' @ ''3'' @ ''_'' @ tgt_function)
         (word_of_int time_window))))"

text \<open>One dependency: the state and the message to the schedulers. The entity of a dependency that is
  not direct is added to the message before its kind is examined, and stays in it with only the
  bucket set when the dependency is periodic or unknown.\<close>

definition register_dependency ::
    "coord_env \<Rightarrow> TimePoint \<Rightarrow> string \<Rightarrow> coord \<times> UpdateCoordMsg \<Rightarrow> DataDependency \<Rightarrow> (coord \<times> UpdateCoordMsg) res" where
  "register_dependency env now app_name = (\<lambda>(st, coord_msg) dependency.
     if dd_type dependency = DIRECT
     then Inr (st, coord_msg\<lparr>ucm_dependencies := ucm_dependencies coord_msg @ [dependency]\<rparr>)
     else if dd_tgt_functions dependency = [] then Inl OutOfRange
     else
       let tgt_function = dd_tgt_functions dependency ! 0;
           bucket_name = ''b_'' @ tgt_function;
           st1 = claim_bucket app_name bucket_name st;
           with_entity = (\<lambda>entity. coord_msg\<lparr>ucm_triggers := ucm_triggers coord_msg @ [entity]\<rparr>);
           bare = no_TriggerEntity\<lparr>te_bucket_name := bucket_name\<rparr>
       in case dd_type dependency of
            MANY_TO_ONE \<Rightarrow>
              let trigger_ptr = many_to_one_trigger tgt_function (dd_src_functions dependency)
              in Inr (add_app_trigger bucket_name trigger_ptr st1,
                      with_entity (app_entity env bucket_name trigger_ptr))
          | K_OUT_OF_N \<Rightarrow>
              rbind (k_out_of_n_trigger tgt_function (dd_description dependency)) (\<lambda>trigger_ptr.
                Inr (add_app_trigger bucket_name trigger_ptr st1,
                     with_entity (app_entity env bucket_name trigger_ptr)))
          | PERIODIC \<Rightarrow>
              rbind (periodic_trigger now tgt_function (dd_description dependency)) (\<lambda>trigger_ptr.
                Inr (add_app_trigger bucket_name trigger_ptr st1, with_entity bare))
          | _ \<Rightarrow> Inr (st1, with_entity bare))"

definition app_register_handler ::
    "coord_env \<Rightarrow> TimePoint \<Rightarrow> AppRegistration \<Rightarrow> coord \<Rightarrow> (coord \<times> sends) res" where
  "app_register_handler env now appRegist st =
     (let coord_msg = no_UpdateCoordMsg
            \<lparr>ucm_ip := ce_private_ip env, ucm_thread_id := ce_thread_id env,
             ucm_app_name := ar_app_name appRegist, ucm_msg_type := 0,
             ucm_functions := ar_functions appRegist\<rparr>
      in rbind (rfold (register_dependency env now (ar_app_name appRegist)) (st, coord_msg)
                  (ar_dependencies appRegist)) (\<lambda>(st', msg).
           Inr (st', broadcast msg st')))"

end
