(* ===== verification/Coord_Calls.thy ===== *)
theory Coord_Calls
  imports Coord_State
begin

text \<open>
  The scheduling of function calls by the coordinator (\<^verbatim>\<open>func_call_handler.cpp\<close>): a batch of
  requests goes to one node when a node has enough executors, otherwise it is dealt out round robin.
\<close>

subsection \<open>Choosing nodes\<close>

text \<open>The loop over the nodes of a batch: the executors in total, the available nodes, and the node
  with the most executors. The node that issued the call is skipped. The counts are \<open>int\<close> in the code; their sum
  is taken not to leave 32 bits.\<close>

record node_scan =
  sc_total_executors :: int
  sc_avail_nodes :: "(Address \<times> int) list"
  sc_max_executors :: int
  sc_node_with_max :: Address

definition scan_node :: "string \<Rightarrow> Address \<times> NodeStatus \<Rightarrow> node_scan \<Rightarrow> node_scan" where
  "scan_node source = (\<lambda>(ip, status) s.
     if source \<noteq> [] \<and> source = ip then s
     else
       let avail = ns_avail_executors status;
           s1 = (if avail > 0
                 then s\<lparr>sc_total_executors := sc_total_executors s + avail,
                        sc_avail_nodes := sc_avail_nodes s @ [(ip, avail)]\<rparr>
                 else s)
       in if avail > sc_max_executors s1
          then s1\<lparr>sc_max_executors := avail, sc_node_with_max := ip\<rparr> else s1)"

definition scan_nodes :: "string \<Rightarrow> (Address, NodeStatus) umap \<Rightarrow> node_scan" where
  "scan_nodes source nodes =
     fold (scan_node source) nodes
       \<lparr>sc_total_executors = 0, sc_avail_nodes = [], sc_max_executors = 0, sc_node_with_max = []\<rparr>"

text \<open>The loop over the nodes for a single request.\<close>

definition max_node :: "string \<Rightarrow> (Address, NodeStatus) umap \<Rightarrow> int \<times> Address" where
  "max_node source nodes =
     fold (\<lambda>(ip, status) (mx, node).
       if source \<noteq> [] \<and> source = ip then (mx, node)
       else if ns_avail_executors status > mx then (ns_avail_executors status, ip) else (mx, node))
       nodes (0, [])"

subsection \<open>Dealing out a batch\<close>

text \<open>\<open>while (avail_nodes[node_idx].second <= 0)\<close>: \<open>None\<close> when it does not end.\<close>

partial_function (option) next_node :: "int list \<Rightarrow> nat \<Rightarrow> nat option" where
  "next_node avail node_idx =
     (if avail ! node_idx \<le> 0 then next_node avail ((node_idx + 1) mod length avail)
      else Some node_idx)"

text \<open>The loads of the nodes after \<open>n\<close> rounds of the loop over the requests.\<close>

fun deal :: "nat \<Rightarrow> int list \<Rightarrow> nat list \<Rightarrow> nat \<Rightarrow> (int list \<times> nat list \<times> nat) option" where
  "deal 0 avail loads node_idx = Some (avail, loads, node_idx)"
| "deal (Suc n) avail loads node_idx =
     (case next_node avail node_idx of
        None \<Rightarrow> None
      | Some i \<Rightarrow> deal n (avail[i := avail ! i - 1]) (loads[i := loads ! i + 1]) ((i + 1) mod length avail))"

text \<open>The loop that cuts the requests into one call per node. \<open>part\<close> holds the requests of the
  current call, whose number is \<open>cur_load\<close>.\<close>

fun cut_requests ::
    "FunctionCall \<Rightarrow> Address list \<Rightarrow> nat list \<Rightarrow> nat \<Rightarrow> FunctionRequest list \<Rightarrow> FunctionRequest list
       \<Rightarrow> (Address, FunctionCall) umap \<Rightarrow> (Address, FunctionCall) umap res" where
  "cut_requests routed nodes loads idx part [] scheduled = Inr scheduled"
| "cut_requests routed nodes loads idx part (req # reqs) scheduled =
     (let part' = part @ [req]
      in if length loads \<le> idx then Inl OutOfRange
         else if length part' = loads ! idx
         then cut_requests routed nodes loads (idx + 1) [] reqs
                (um_put (nodes ! idx) (routed\<lparr>fc_requests := part'\<rparr>) scheduled)
         else cut_requests routed nodes loads idx part' reqs scheduled)"

text \<open>\<open>None\<close>: the loop over the nodes does not end.\<close>

definition schedule_batch ::
    "FunctionCall \<Rightarrow> (Address, NodeStatus) umap \<Rightarrow> (Address, FunctionCall) umap res option" where
  "schedule_batch call_msg nodes =
     (let s = scan_nodes (fc_source call_msg) nodes; req_num = length (fc_requests call_msg)
      in if sc_max_executors s \<ge> int req_num then Some (Inr [(sc_node_with_max s, call_msg)])
         else if sc_total_executors s \<ge> int req_num then
           case deal req_num (map snd (sc_avail_nodes s)) (replicate (length (sc_avail_nodes s)) 0) 0 of
             None \<Rightarrow> None
           | Some (_, loads, _) \<Rightarrow>
               Some (cut_requests
                 (no_FunctionCall\<lparr>fc_app_name := fc_app_name call_msg,
                    fc_resp_address := fc_resp_address call_msg, fc_sync_data_status := True\<rparr>)
                 (map fst (sc_avail_nodes s)) loads 0 [] (fc_requests call_msg) [])
         else Some (Inr []))"

definition schedule_single ::
    "coord_env \<Rightarrow> FunctionCall \<Rightarrow> coord \<Rightarrow> ((Address, FunctionCall) umap \<times> coord) res" where
  "schedule_single env call_msg st =
     (let (mx, node) = max_node (fc_source call_msg) (node_status_map st)
      in if mx > 0 then Inr ([(node, call_msg)], st)
         else if node_status_map st \<noteq> [] then
           rbind (rand_mod env (length (node_status_map st)) st) (\<lambda>(i, st').
             Inr ([(fst (node_status_map st ! i), call_msg)], st'))
         else Inr ([], st))"

subsection \<open>func_call_handler\<close>

fun send_calls :: "coord_env \<Rightarrow> (Address, FunctionCall) umap \<Rightarrow> coord \<Rightarrow> (coord \<times> sends) res" where
  "send_calls env [] st = Inr (st, [])"
| "send_calls env ((ip, msg) # rest) st =
     rbind (rand_mod env (unat (ce_io_thread_num env)) st) (\<lambda>(io, st1).
     rbind (send_calls env rest st1) (\<lambda>(st2, out).
     Inr (st2, (get_func_exec_address ip (of_nat io), W_FunctionCall msg) # out)))"

definition with_session :: "coord_env \<Rightarrow> FunctionCall \<Rightarrow> coord \<Rightarrow> FunctionCall \<times> coord" where
  "with_session env call_msg st =
     (if fc_session_id call_msg = [] then
        let (session_id, seed') = gen_random (ce_rand_r env) (co_seed st) 16
        in (call_msg\<lparr>fc_session_id := session_id\<rparr>, st\<lparr>co_seed := seed'\<rparr>)
      else (call_msg, st))"

definition schedule_call ::
    "coord_env \<Rightarrow> FunctionCall \<Rightarrow> coord \<Rightarrow> ((Address, FunctionCall) umap \<times> coord) res option" where
  "schedule_call env call_msg st =
     (if length (fc_requests call_msg) > 1
      then map_option (\<lambda>r. rbind r (\<lambda>sched. Inr (sched, st))) (schedule_batch call_msg (node_status_map st))
      else Some (schedule_single env call_msg st))"

definition answer_call ::
    "coord_env \<Rightarrow> FunctionCall \<Rightarrow> (Address, FunctionCall) umap \<Rightarrow> coord \<Rightarrow> (coord \<times> sends) res" where
  "answer_call env call_msg scheduled_node_msg st =
     (if scheduled_node_msg = [] then
        Inr (st, if fc_resp_address call_msg \<noteq> []
                 then [(fc_resp_address call_msg,
                        W_FunctionCallResponse (no_FunctionCallResponse
                          \<lparr>fcr_app_name := fc_app_name call_msg,
                           fcr_request_id := fc_request_id call_msg, fcr_error_no := 1\<rparr>))]
                 else [])
      else send_calls env scheduled_node_msg st)"

text \<open>\<open>None\<close>: the handler does not return.\<close>

definition func_call_handler :: "coord_env \<Rightarrow> FunctionCall \<Rightarrow> coord \<Rightarrow> (coord \<times> sends) res option" where
  "func_call_handler env msg st =
     (let (call_msg, st1) = with_session env msg st
      in map_option (\<lambda>r. rbind r (\<lambda>(scheduled_node_msg, st2).
           answer_call env call_msg scheduled_node_msg st2)) (schedule_call env call_msg st1))"

end
