(* ===== verification/Coord_Call_Laws.thy ===== *)
theory Coord_Call_Laws
  imports Coord_Calls
begin

text \<open>
  The laws of the coordinator's call scheduling: what the scan of the nodes finds, that dealing out a
  batch ends and never exceeds a node's executors, and that cutting a batch keeps every request.
\<close>

subsection \<open>Scanning the nodes\<close>

definition is_eligible :: "string \<Rightarrow> Address \<times> NodeStatus \<Rightarrow> bool" where
  "is_eligible source = (\<lambda>(ip, status). \<not> (source \<noteq> [] \<and> source = ip) \<and> ns_avail_executors status > 0)"

abbreviation eligible :: "string \<Rightarrow> (Address, NodeStatus) umap \<Rightarrow> (Address, NodeStatus) umap" where
  "eligible source nodes \<equiv> filter (is_eligible source) nodes"

abbreviation executors :: "Address \<times> NodeStatus \<Rightarrow> int" where
  "executors p \<equiv> ns_avail_executors (snd p)"

lemma scan_node_avail:
  "sc_avail_nodes (scan_node source p s) =
     sc_avail_nodes s @ (if is_eligible source p then [(fst p, executors p)] else [])"
  "sc_total_executors (scan_node source p s) =
     sc_total_executors s + (if is_eligible source p then executors p else 0)"
  by (auto simp: scan_node_def is_eligible_def Let_def split_beta)

lemma scan_node_max:
  assumes "0 \<le> sc_max_executors s"
  shows "sc_max_executors (scan_node source p s) =
      (if is_eligible source p then max (sc_max_executors s) (executors p) else sc_max_executors s)"
    and "sc_node_with_max (scan_node source p s) =
      (if is_eligible source p \<and> executors p > sc_max_executors s then fst p else sc_node_with_max s)"
  using assms by (auto simp: scan_node_def is_eligible_def Let_def split_beta max_def)

lemma scan_avail_nodes:
  "sc_avail_nodes (fold (scan_node source) nodes s) =
     sc_avail_nodes s @ map (\<lambda>p. (fst p, executors p)) (eligible source nodes)"
  by (induction nodes arbitrary: s) (simp_all add: scan_node_avail)

lemma scan_total:
  "sc_total_executors (fold (scan_node source) nodes s) =
     sc_total_executors s + sum_list (map executors (eligible source nodes))"
  by (induction nodes arbitrary: s) (simp_all add: scan_node_avail)

lemma scan_max:
  assumes "0 \<le> sc_max_executors s"
  shows "sc_max_executors (fold (scan_node source) nodes s) =
      fold max (map executors (eligible source nodes)) (sc_max_executors s)"
  using assms by (induction nodes arbitrary: s) (simp_all add: scan_node_max max.commute)

lemma scan_node_with_max:
  assumes "0 \<le> sc_max_executors s"
  shows "(sc_max_executors (fold (scan_node source) nodes s) = sc_max_executors s \<and>
        sc_node_with_max (fold (scan_node source) nodes s) = sc_node_with_max s) \<or>
      (\<exists>p\<in>set (eligible source nodes). fst p = sc_node_with_max (fold (scan_node source) nodes s) \<and>
        executors p = sc_max_executors (fold (scan_node source) nodes s))"
  using assms
proof (induction nodes arbitrary: s)
  case (Cons p nodes)
  have "0 \<le> sc_max_executors (scan_node source p s)"
    using Cons.prems by (simp add: scan_node_max le_max_iff_disj)
  from Cons.IH [OF this] show ?case
    using Cons.prems by (auto simp: scan_node_max split: if_splits)
qed simp

lemmas scan_laws = scan_avail_nodes scan_total scan_max

subsection \<open>Dealing out\<close>

text \<open>The cyclic distance to a node with executors shrinks.\<close>

lemma next_closer:
  assumes "j < (n::nat)" and "i < n" and "i \<noteq> j"
  shows "(j + n - (i + 1) mod n) mod n < (j + n - i) mod n"
proof (cases "i < j")
  case True
  then obtain e where e: "j = Suc (i + e)" using less_imp_Suc_add by blast
  have "(i + 1) mod n = Suc i" using assms e by simp
  moreover have "j + n - Suc i = e + n" "j + n - i = Suc e + n" using e by auto
  moreover have "(e + n) mod n = e" "(Suc e + n) mod n = Suc e"
    using assms e by (simp_all del: add_Suc)
  ultimately show ?thesis by simp
next
  case False
  then have gt: "j < i" using assms(3) by simp
  have "(j + n - i) mod n = j + n - i" using gt assms by simp
  moreover have "(j + n - (i + 1) mod n) mod n = j + n - i - 1"
  proof (cases "i + 1 = n")
    case True
    then show ?thesis using assms gt by simp
  next
    case False
    then have "(i + 1) mod n = i + 1" using assms by simp
    then show ?thesis using assms gt by simp
  qed
  ultimately show ?thesis using assms by simp
qed

lemma next_node_exists:
  assumes "j < length avail" and "avail ! j > 0" and "i < length avail"
  shows "\<exists>k. next_node avail i = Some k \<and> k < length avail \<and> avail ! k > 0"
  using assms(3)
proof (induction "(j + length avail - i) mod length avail" arbitrary: i rule: less_induct)
  case less
  let ?n = "length avail"
  show ?case
  proof (cases "avail ! i \<le> 0")
    case True
    then have ne: "i \<noteq> j" using assms(2) by auto
    let ?i = "(i + 1) mod ?n"
    have "(j + ?n - ?i) mod ?n < (j + ?n - i) mod ?n"
      using next_closer [OF assms(1) less.prems ne] .
    moreover have "?i < ?n" using less.prems by (intro mod_less_divisor) auto
    ultimately obtain k where "next_node avail ?i = Some k \<and> k < ?n \<and> avail ! k > 0"
      using less.hyps by blast
    then show ?thesis using True by (simp add: next_node.simps)
  qed (use less.prems in \<open>auto simp: next_node.simps\<close>)
qed

definition front :: "int list \<Rightarrow> nat list \<Rightarrow> nat \<Rightarrow> bool" where
  "front avail loads i \<longleftrightarrow> (\<forall>j<length loads. 0 < loads ! j) \<or>
     (i < length loads \<and> (\<forall>j<i. 0 < loads ! j) \<and>
       (\<forall>j<length loads. i \<le> j \<longrightarrow> loads ! j = 0 \<and> 0 < avail ! j))"

definition deal_inv :: "int list \<Rightarrow> int list \<Rightarrow> nat list \<Rightarrow> nat \<Rightarrow> bool" where
  "deal_inv avail0 avail loads i \<longleftrightarrow>
     length avail = length avail0 \<and> length loads = length avail0 \<and> i < length avail0 \<and>
     (\<forall>j<length avail0. 0 \<le> avail ! j \<and> avail ! j + int (loads ! j) = avail0 ! j) \<and>
     front avail loads i"

lemma sum_list_pos_nth:
  fixes xs :: "int list"
  assumes "0 < sum_list xs"
  shows "\<exists>j<length xs. 0 < xs ! j"
proof (rule ccontr)
  assume "\<not> (\<exists>j<length xs. 0 < xs ! j)"
  then have "sum_list xs \<le> 0" by (intro sum_list_nonpos) (force simp: in_set_conv_nth)
  then show False using assms by simp
qed

lemma sum_list_update_add:
  "i < length xs \<Longrightarrow> sum_list (xs[i := xs ! i + d]) = sum_list xs + (d :: 'a :: ab_group_add)"
  by (induction xs arbitrary: i) (auto split: nat.splits simp: algebra_simps)

lemma sum_list_update_Suc:
  "i < length xs \<Longrightarrow> sum_list (xs[i := Suc (xs ! i)]) = Suc (sum_list xs)"
  by (induction xs arbitrary: i) (auto split: nat.splits)

lemma front_step:
  assumes inv: "deal_inv avail0 avail loads i" and k: "next_node avail i = Some k" "k < length avail0"
  shows "front (avail[k := avail ! k - 1]) (loads[k := loads ! k + 1]) ((k + 1) mod length avail0)"
proof -
  have len: "length avail = length avail0" "length loads = length avail0" "i < length avail0"
    and fr: "front avail loads i" using inv by (auto simp: deal_inv_def)
  show ?thesis
  proof (cases "\<forall>j<length loads. 0 < loads ! j")
    case True
    then have "\<forall>j<length loads. 0 < loads[k := loads ! k + 1] ! j"
      using k(2) len by (simp add: nth_list_update)
    then show ?thesis by (simp add: front_def)
  next
    case False
    then have lo: "\<And>j. j < i \<Longrightarrow> 0 < loads ! j"
      and hi: "\<And>j. j < length loads \<Longrightarrow> i \<le> j \<Longrightarrow> loads ! j = 0 \<and> 0 < avail ! j"
      using fr by (auto simp: front_def)
    have "\<not> avail ! i \<le> 0" using hi [of i] len by auto
    then have ki: "k = i" using k(1) by (simp add: next_node.simps)
    show ?thesis
    proof (cases "i + 1 = length loads")
      case True
      then have "\<forall>j<length loads. 0 < loads[k := loads ! k + 1] ! j"
        using lo ki by (auto simp: nth_list_update less_Suc_eq)
      then show ?thesis by (simp add: front_def)
    next
      case False
      then have "(i + 1) mod length avail0 = i + 1" using len by simp
      then show ?thesis
        using lo hi ki len False by (auto simp: front_def nth_list_update less_Suc_eq)
    qed
  qed
qed

lemma deal_step:
  assumes inv: "deal_inv avail0 avail loads i" and pos: "0 < sum_list avail"
  shows "\<exists>k. next_node avail i = Some k \<and> k < length avail0 \<and>
    deal_inv avail0 (avail[k := avail ! k - 1]) (loads[k := loads ! k + 1]) ((k + 1) mod length avail0)"
proof -
  have len: "length avail = length avail0" "length loads = length avail0" "i < length avail0"
    using inv by (auto simp: deal_inv_def)
  obtain j where "j < length avail" "0 < avail ! j" using sum_list_pos_nth [OF pos] by blast
  then obtain k where k: "next_node avail i = Some k" "k < length avail0" "0 < avail ! k"
    using next_node_exists [of j avail i] len by auto
  have "(k + 1) mod length avail0 < length avail0" using len(3) by (intro mod_less_divisor) auto
  then have "deal_inv avail0 (avail[k := avail ! k - 1]) (loads[k := loads ! k + 1]) ((k + 1) mod length avail0)"
    using inv k front_step [OF inv k(1,2)] by (auto simp: deal_inv_def nth_list_update)
  then show ?thesis using k by blast
qed

lemma deal_ends:
  assumes "deal_inv avail0 avail loads i" and "int n \<le> sum_list avail"
  shows "\<exists>avail' loads' i'. deal n avail loads i = Some (avail', loads', i') \<and>
    deal_inv avail0 avail' loads' i' \<and> sum_list loads' = sum_list loads + n"
  using assms
proof (induction n arbitrary: avail loads i)
  case (Suc n)
  have "0 < sum_list avail" using Suc.prems(2) by simp
  then obtain k where k: "next_node avail i = Some k" "k < length avail0"
    and inv: "deal_inv avail0 (avail[k := avail ! k - 1]) (loads[k := loads ! k + 1]) ((k + 1) mod length avail0)"
    using deal_step [OF Suc.prems(1)] by blast
  have len: "length avail = length avail0" "length loads = length avail0"
    using Suc.prems(1) by (auto simp: deal_inv_def)
  have "sum_list (avail[k := avail ! k - 1]) = sum_list avail - 1"
    using sum_list_update_add [of k avail "-1"] k len by simp
  then have "int n \<le> sum_list (avail[k := avail ! k - 1])" using Suc.prems(2) by simp
  from Suc.IH [OF inv this] show ?case
    using k len sum_list_update_Suc [of k loads] by simp
qed auto

subsection \<open>Cutting a batch\<close>

fun chunks :: "nat list \<Rightarrow> 'a list \<Rightarrow> 'a list list" where
  "chunks [] xs = []"
| "chunks (n # ns) xs = take n xs # chunks ns (drop n xs)"

lemma length_chunks [simp]: "length (chunks ns xs) = length ns"
  by (induction ns xs rule: chunks.induct) auto

lemma concat_chunks: "length xs \<le> sum_list ns \<Longrightarrow> concat (chunks ns xs) = xs"
  by (induction ns xs rule: chunks.induct) auto

lemma length_nth_chunks: "sum_list ns = length xs \<Longrightarrow> map length (chunks ns xs) = ns"
  by (induction ns xs rule: chunks.induct) auto

lemma update_new: "k \<notin> fst ` set m \<Longrightarrow> um_put k v m = m @ [(k, v)]"
  by (induction m) auto

text \<open>One call: up to the load of the current node.\<close>

lemma cut_one:
  assumes "i < length loads" and "length part + length xs = loads ! i" and "xs \<noteq> []"
  shows "cut_requests routed nodes loads i part (xs @ ys) scheduled =
    cut_requests routed nodes loads (i + 1) [] ys
      (um_put (nodes ! i) (routed\<lparr>fc_requests := part @ xs\<rparr>) scheduled)"
  using assms
proof (induction xs arbitrary: part)
  case (Cons x xs)
  then show ?case
  proof (cases "xs = []")
    case False
    have "length (part @ [x]) + length xs = loads ! i" using Cons.prems by simp
    moreover have "Suc (length part) \<noteq> loads ! i" using Cons.prems False by (cases xs) auto
    moreover note Cons.prems(1)
    ultimately show ?thesis
      using Cons.IH [of "part @ [x]"] False by (simp add: Let_def)
  qed (simp add: Let_def)
qed simp

lemma cut_all:
  assumes "i + length ps \<le> length loads" and "take (length ps) (drop i loads) = ps"
    and "\<forall>p\<in>set ps. 0 < p" and "sum_list ps = length reqs"
    and "length nodes = length loads" and "distinct (map fst scheduled @ take (length ps) (drop i nodes))"
  shows "cut_requests routed nodes loads i [] reqs scheduled =
    Inr (scheduled @ zip (take (length ps) (drop i nodes))
           (map (\<lambda>part. routed\<lparr>fc_requests := part\<rparr>) (chunks ps reqs)))"
  using assms
proof (induction ps arbitrary: i reqs scheduled)
  case (Cons p ps)
  have i: "i < length loads" using Cons.prems(1) by simp
  have dl: "drop i loads = loads ! i # drop (Suc i) loads" and dn: "drop i nodes = nodes ! i # drop (Suc i) nodes"
    using i Cons.prems(5) by (simp_all add: Cons_nth_drop_Suc)
  have p: "loads ! i = p" "take (length ps) (drop (Suc i) loads) = ps" using Cons.prems(2) dl by auto
  let ?xs = "take p reqs" and ?ys = "drop p reqs"
  have len: "length ?xs = p" "?xs \<noteq> []" using Cons.prems(3,4) by auto
  have "um_put (nodes ! i) c scheduled = scheduled @ [(nodes ! i, c)]" for c
    using Cons.prems(6) dn by (simp add: update_new)
  then have "cut_requests routed nodes loads i [] (?xs @ ?ys) scheduled =
      cut_requests routed nodes loads (Suc i) [] ?ys (scheduled @ [(nodes ! i, routed\<lparr>fc_requests := ?xs\<rparr>)])"
    using cut_one [of i loads "[]" ?xs routed nodes ?ys scheduled] i len p(1) by simp
  moreover have "distinct (map fst (scheduled @ [(nodes ! i, routed\<lparr>fc_requests := ?xs\<rparr>)]) @
      take (length ps) (drop (Suc i) nodes))"
    using Cons.prems(6) dn by auto
  ultimately show ?case
    using Cons.IH [of "Suc i" ?ys] Cons.prems p dn by simp
qed simp

subsection \<open>Scheduling a batch\<close>

lemma front_split:
  assumes "front avail loads i"
  shows "\<exists>ps m. loads = ps @ replicate m 0 \<and> (\<forall>p\<in>set ps. 0 < p)"
proof (cases "\<forall>j<length loads. 0 < loads ! j")
  case True
  then have "loads = loads @ replicate 0 0 \<and> (\<forall>p\<in>set loads. 0 < p)" by (auto simp: in_set_conv_nth)
  then show ?thesis by blast
next
  case False
  then have lo: "\<And>j. j < i \<Longrightarrow> 0 < loads ! j" and i: "i < length loads"
    and hi: "\<And>j. j < length loads \<Longrightarrow> i \<le> j \<Longrightarrow> loads ! j = 0"
    using assms by (auto simp: front_def)
  have "drop i loads = replicate (length loads - i) 0"
    using hi i by (intro nth_equalityI) auto
  then have "loads = take i loads @ replicate (length loads - i) 0" by (metis append_take_drop_id)
  moreover have "\<forall>p\<in>set (take i loads). 0 < p" using lo i by (auto simp: in_set_conv_nth)
  ultimately show ?thesis by blast
qed

text \<open>What a schedule of a batch promises: it has every request exactly once, and a node gets no more
  requests than it has executors.\<close>

definition good_schedule ::
    "FunctionCall \<Rightarrow> (Address, NodeStatus) umap \<Rightarrow> (Address, FunctionCall) umap \<Rightarrow> bool" where
  "good_schedule call_msg nodes sched \<longleftrightarrow>
     um_wf sched \<and>
     concat (map (fc_requests \<circ> snd) sched) = fc_requests call_msg \<and>
     list_all (\<lambda>(ip, call). fc_requests call \<noteq> [] \<and>
        (\<exists>status. (ip, status) \<in> set (eligible (fc_source call_msg) nodes) \<and>
           int (length (fc_requests call)) \<le> ns_avail_executors status)) sched"

lemma deal_inv_init:
  assumes "xs \<noteq> []" and "\<forall>x\<in>set xs. 0 < x"
  shows "deal_inv xs xs (replicate (length xs) 0) 0"
  using assms by (auto simp: deal_inv_def front_def less_imp_le)

lemma deal_loads:
  assumes "xs \<noteq> []" and "\<forall>x\<in>set xs. (0::int) < x" and "int n \<le> sum_list xs"
  shows "\<exists>avail' loads i ps m. deal n xs (replicate (length xs) 0) 0 = Some (avail', loads, i) \<and>
    loads = ps @ replicate m 0 \<and> (\<forall>p\<in>set ps. 0 < p) \<and> sum_list ps = n \<and> length loads = length xs \<and>
    (\<forall>j<length xs. int (loads ! j) \<le> xs ! j)"
proof -
  obtain avail' loads i where deal: "deal n xs (replicate (length xs) 0) 0 = Some (avail', loads, i)"
    and inv: "deal_inv xs avail' loads i" and sum: "sum_list loads = n"
    using deal_ends [OF deal_inv_init [OF assms(1,2)] assms(3)] by auto
  obtain ps m where ps: "loads = ps @ replicate m 0" "\<forall>p\<in>set ps. 0 < p"
    using inv front_split [of avail' loads i] by (auto simp: deal_inv_def)
  have "int (loads ! j) \<le> xs ! j" if "j < length xs" for j
  proof -
    have "0 \<le> avail' ! j" "avail' ! j + int (loads ! j) = xs ! j"
      using inv that by (auto simp: deal_inv_def)
    then show ?thesis by simp
  qed
  moreover have "sum_list ps = n" using sum ps(1) by (simp add: sum_list_replicate)
  moreover have "length loads = length xs" using inv by (simp add: deal_inv_def)
  ultimately show ?thesis using deal ps by blast
qed

lemma cut_good:
  assumes wf: "um_wf nodes" and es: "es = eligible (fc_source call_msg) nodes"
    and loads: "loads = ps @ replicate m 0" "\<forall>p\<in>set ps. 0 < p" "sum_list ps = length (fc_requests call_msg)"
      "length loads = length es" "\<forall>j<length es. int (loads ! j) \<le> map executors es ! j"
  shows "\<exists>sched. cut_requests routed (map fst es) loads 0 [] (fc_requests call_msg) [] = Inr sched \<and>
    good_schedule call_msg nodes sched"
proof -
  let ?n = "length ps" and ?reqs = "fc_requests call_msg"
  let ?parts = "chunks ps ?reqs"
  let ?sched = "zip (take ?n (map fst es)) (map (\<lambda>part. routed\<lparr>fc_requests := part\<rparr>) ?parts)"
  have dist: "distinct (map fst es)" using wf es by (simp add: distinct_map_filter)
  have n: "?n \<le> length es" using loads(1,4) by simp
  have cut: "cut_requests routed (map fst es) loads 0 [] ?reqs [] = Inr ?sched"
    using cut_all [of 0 ps loads ?reqs "map fst es" "[]" routed] loads n dist by simp
  have parts: "map length ?parts = ps" using length_nth_chunks [of ps ?reqs] loads(3) by simp
  have wfs: "um_wf ?sched" using dist n by simp
  have all: "concat (map (fc_requests \<circ> snd) ?sched) = ?reqs"
  proof -
    have "map (fc_requests \<circ> snd) ?sched = ?parts"
      using n by (intro nth_equalityI) auto
    then show ?thesis using concat_chunks [of ?reqs ps] loads(3) by simp
  qed
  have "fc_requests (snd (?sched ! j)) \<noteq> [] \<and>
      (\<exists>status. (fst (?sched ! j), status) \<in> set es \<and>
         int (length (fc_requests (snd (?sched ! j)))) \<le> ns_avail_executors status)" if j: "j < length ?sched" for j
  proof -
    have jn: "j < ?n" "j < length es" using j n by auto
    have len: "length (?parts ! j) = loads ! j"
      using arg_cong [OF parts, of "\<lambda>l. l ! j"] jn(1) loads(1) by (simp add: nth_append)
    have "0 < loads ! j" using loads(1,2) jn(1) by (simp add: nth_append)
    moreover have "int (loads ! j) \<le> executors (es ! j)" using loads(5) jn(2) by simp
    moreover have "(fst (es ! j), snd (es ! j)) \<in> set es" using jn(2) by simp
    moreover have "?sched ! j = (fst (es ! j), routed\<lparr>fc_requests := ?parts ! j\<rparr>)" using jn n by simp
    ultimately show ?thesis using len by (intro conjI exI [of _ "snd (es ! j)"]) auto
  qed
  then have "list_all (\<lambda>(ip, call). fc_requests call \<noteq> [] \<and>
      (\<exists>status. (ip, status) \<in> set es \<and> int (length (fc_requests call)) \<le> ns_avail_executors status)) ?sched"
    by (simp add: list_all_length split_beta)
  then show ?thesis using cut wfs all es by (auto simp: good_schedule_def)
qed

lemma scan_nodes_laws:
  "sc_avail_nodes (scan_nodes source nodes) = map (\<lambda>p. (fst p, executors p)) (eligible source nodes)"
  "sc_total_executors (scan_nodes source nodes) = sum_list (map executors (eligible source nodes))"
  by (simp_all add: scan_nodes_def scan_laws)

lemma scan_nodes_max:
  "sc_max_executors (scan_nodes source nodes) = 0 \<or>
     (\<exists>p\<in>set (eligible source nodes). fst p = sc_node_with_max (scan_nodes source nodes) \<and>
        executors p = sc_max_executors (scan_nodes source nodes))"
  using scan_node_with_max [of "\<lparr>sc_total_executors = 0, sc_avail_nodes = [], sc_max_executors = 0,
      sc_node_with_max = []\<rparr>" source nodes]
  by (auto simp: scan_nodes_def)

lemma schedule_batch_good:
  assumes wf: "um_wf nodes" and some: "fc_requests call_msg \<noteq> []"
    and enough: "int (length (fc_requests call_msg)) \<le>
      sum_list (map executors (eligible (fc_source call_msg) nodes))"
  shows "\<exists>sched. schedule_batch call_msg nodes = Some (Inr sched) \<and> good_schedule call_msg nodes sched"
proof -
  let ?source = "fc_source call_msg" and ?n = "length (fc_requests call_msg)"
  let ?es = "eligible ?source nodes" and ?s = "scan_nodes ?source nodes"
  show ?thesis
  proof (cases "int ?n \<le> sc_max_executors ?s")
    case True
    then have "sc_max_executors ?s \<noteq> 0" using some by auto
    then obtain p where p: "p \<in> set ?es" "fst p = sc_node_with_max ?s" "executors p = sc_max_executors ?s"
      using scan_nodes_max [of ?source nodes] by auto
    then have "(sc_node_with_max ?s, snd p) \<in> set ?es" by (metis prod.collapse)
    then have "good_schedule call_msg nodes [(sc_node_with_max ?s, call_msg)]"
      using p(3) True some by (auto simp: good_schedule_def)
    then show ?thesis using True by (simp add: schedule_batch_def Let_def)
  next
    case False
    have "?es \<noteq> []" using enough some by auto
    moreover have "\<forall>x\<in>set (map executors ?es). 0 < x" by (auto simp: is_eligible_def)
    ultimately obtain avail' loads i ps m where
      deal: "deal ?n (map executors ?es) (replicate (length ?es) 0) 0 = Some (avail', loads, i)"
      and loads: "loads = ps @ replicate m 0" "\<forall>p\<in>set ps. 0 < p" "sum_list ps = ?n" "length loads = length ?es"
        "\<forall>j<length ?es. int (loads ! j) \<le> map executors ?es ! j"
      using deal_loads [of "map executors ?es" ?n] enough by auto
    let ?routed = "no_FunctionCall\<lparr>fc_app_name := fc_app_name call_msg,
        fc_resp_address := fc_resp_address call_msg, fc_sync_data_status := True\<rparr>"
    obtain sched where "cut_requests ?routed (map fst ?es) loads 0 [] (fc_requests call_msg) [] = Inr sched"
      "good_schedule call_msg nodes sched"
      using cut_good [OF wf refl loads, of ?routed] by blast
    then show ?thesis
      using False enough deal by (simp add: schedule_batch_def Let_def scan_nodes_laws comp_def)
  qed
qed

end
