(* ===== verification/Coord_Notify.thy ===== *)
theory Coord_Notify
  imports Coord_State
begin

text \<open>
  The coordinator's handler for notifications of new objects (\<^verbatim>\<open>notify_handler.cpp\<close>): it records
  where the object is, runs the triggers of the bucket, and routes one function call per action to a
  worker. The clock is read once per notification.
\<close>

subsection \<open>Recording the object\<close>

text \<open>\<open>False\<close>: the loop over the addresses is left because the bucket does not exist.\<close>

definition store_object :: "BucketKeyAddress \<Rightarrow> coord \<Rightarrow> (coord \<times> bool) res" where
  "store_object address st =
     (case bka_ips address of
        [] \<Rightarrow> Inl OutOfRange
      | ip # _ \<Rightarrow>
          let bk = get_bucket_key_from_addr address;
              payload = bka_payload address;
              record_address = (\<lambda>node. st
                \<lparr>bucket_node_map := um_alter [] (us_insert node) (bk_bucket bk) (bucket_node_map st),
                 bucket_key_address_map := update_address bk ip (bucket_key_address_map st)\<rparr>)
          in if payload \<noteq> [] then
               rbind (ip_of_address ip) (\<lambda>node.
                 Inr ((record_address node)
                        \<lparr>bucket_key_val_map := um_put (shm_key_name bk) payload (bucket_key_val_map st)\<rparr>,
                      True))
             else if um_has (bk_bucket bk) (bucket_app_map st) then
               rbind (ip_of_address ip) (\<lambda>node. Inr (record_address node, True))
             else Inr (st, False))"

subsection \<open>The arguments of a triggered call\<close>

definition batchDelim :: string where
  "batchDelim = ''|''"

text \<open>The values of the objects of an action; \<open>None\<close> when one of them is not at hand.\<close>

fun collect_values :: "(string, string) umap \<Rightarrow> Bucket \<Rightarrow> (Session \<times> Key) list \<Rightarrow> string list option" where
  "collect_values vals bucket [] = Some []"
| "collect_values vals bucket ((session, key) # rest) =
     (case map_of vals (get_local_object_name bucket key session) of
        None \<Rightarrow> None
      | Some v \<Rightarrow> map_option (Cons v) (collect_values vals bucket rest))"

definition imploded :: "string list \<Rightarrow> string" where
  "imploded vals = concat (map (\<lambda>v. v @ batchDelim) vals)"

text \<open>An argument by reference: the first address recorded for the key. The set of addresses is
  dereferenced without a check that it has an element.\<close>

definition reference_arg ::
    "address_map \<Rightarrow> Bucket \<Rightarrow> int \<Rightarrow> Argument list \<times> Address uset \<Rightarrow> Session \<times> Key
       \<Rightarrow> (Argument list \<times> Address uset) res" where
  "reference_arg m bucket arg_flag = (\<lambda>(args, data_node) (session, key).
     case um_get [] key (um_get [] bucket m) of
       [] \<Rightarrow> Inl IterInvalid
     | data_address # _ \<Rightarrow>
         rbind (ip_of_address data_address) (\<lambda>ip.
           Inr (args @ [\<lparr>arg_body = get_local_object_name bucket key session, arg_arg_flag = arg_flag,
                         arg_data_address = data_address\<rparr>],
                us_insert ip data_node)))"

definition call_arguments ::
    "coord \<Rightarrow> Bucket \<Rightarrow> int \<Rightarrow> (Session \<times> Key) list \<Rightarrow> (Argument list \<times> Address uset) res" where
  "call_arguments st bucket arg_flag session_keys =
     (case collect_values (bucket_key_val_map st) bucket session_keys of
        Some vals \<Rightarrow> Inr ([no_Argument\<lparr>arg_body := imploded vals, arg_arg_flag := 0\<rparr>], [])
      | None \<Rightarrow> rfold (reference_arg (bucket_key_address_map st) bucket arg_flag) ([], []) session_keys)"

subsection \<open>Choosing a worker\<close>

text \<open>The node with data that has the most available executors. \<open>node_status_map[ip]\<close> adds a node
  that is not known.\<close>

definition data_worker ::
    "Address \<Rightarrow> int \<times> Address \<times> (Address, NodeStatus) umap \<Rightarrow> int \<times> Address \<times> (Address, NodeStatus) umap" where
  "data_worker ip = (\<lambda>(max_executors, routed_worker, nodes).
     let nodes' = um_touch no_NodeStatus ip nodes;
         avail = ns_avail_executors (um_get no_NodeStatus ip nodes)
     in if avail > max_executors then (avail, ip, nodes') else (max_executors, routed_worker, nodes'))"

definition any_worker :: "Address \<times> NodeStatus \<Rightarrow> int \<times> Address \<Rightarrow> int \<times> Address" where
  "any_worker = (\<lambda>(ip, status) (max_executors, routed_worker).
     if ns_avail_executors status > max_executors then (ns_avail_executors status, ip)
     else (max_executors, routed_worker))"

definition pick_worker ::
    "Address uset \<Rightarrow> (Address, NodeStatus) umap \<Rightarrow> Address \<times> (Address, NodeStatus) umap" where
  "pick_worker data_node nodes =
     (let (max_executors, routed_worker, nodes') = fold data_worker data_node (0, [], nodes)
      in if routed_worker = [] then (snd (fold any_worker nodes' (max_executors, routed_worker)), nodes')
         else (routed_worker, nodes'))"

subsection \<open>One action of a trigger\<close>

definition dispatch_action ::
    "coord_env \<Rightarrow> Address \<Rightarrow> BucketKey \<Rightarrow> int \<Rightarrow> coord \<times> sends \<Rightarrow> TriggerAction \<Rightarrow> (coord \<times> sends) res" where
  "dispatch_action env resp_address bk arg_flag = (\<lambda>(st, out) action.
     let bucket = bk_bucket bk;
         st1 = st\<lparr>bucket_app_map := um_touch [] bucket (bucket_app_map st)\<rparr>
     in rbind (call_arguments st1 bucket arg_flag (ta_session_keys action)) (\<lambda>(args, data_node).
        let internalCall = no_FunctionCall
              \<lparr>fc_app_name := um_get [] bucket (bucket_app_map st),
               fc_resp_address := resp_address, fc_sync_data_status := True,
               fc_session_id := bk_session bk,
               fc_requests := [\<lparr>fr_name = ta_function action, fr_arguments = args\<rparr>]\<rparr>;
            (routed_worker, nodes) = pick_worker data_node (node_status_map st1);
            st2 = st1\<lparr>node_status_map := nodes\<rparr>
        in if routed_worker = [] then Inr (st2, out)
           else rbind (rand_mod env (unat (ce_io_thread_num env)) st2) (\<lambda>(io, st3).
             Inr (st3\<lparr>node_status_map :=
                        um_alter no_NodeStatus (\<lambda>ns. ns\<lparr>ns_avail_executors := ns_avail_executors ns - 1\<rparr>)
                          routed_worker (node_status_map st3)\<rparr>,
                  out @ [(get_func_exec_address routed_worker (of_nat io), W_FunctionCall internalCall)]))))"

subsection \<open>The triggers of the bucket\<close>

text \<open>The option of a trigger is an \<open>int32\<close> of the request; its successor, the flag of the arguments, is taken not to
  leave 32 bits.\<close>

fun notify_triggers ::
    "coord_env \<Rightarrow> TimePoint \<Rightarrow> Address \<Rightarrow> string uset \<Rightarrow> BucketKey \<Rightarrow> TriggerPtr list \<Rightarrow> coord \<times> sends
       \<Rightarrow> (TriggerPtr list \<times> string list \<times> coord \<times> sends) res" where
  "notify_triggers env now resp active bk [] (st, out) = Inr ([], [], st, out)"
| "notify_triggers env now resp active bk (trigger # rest) (st, out) =
     (let (actions, trigger') = action_for_new_object now bk trigger
      in if get_trigger_name trigger' \<in> set active \<or> actions = [] then
           rbind (notify_triggers env now resp active bk rest (st, out)) (\<lambda>(ts, names, r).
             Inr (trigger' # ts, names, r))
         else
           let name = (if get_type trigger' \<noteq> BY_TIME then [get_trigger_name trigger'] else [])
           in rbind (rfold (dispatch_action env resp bk (get_trigger_option trigger' + 1)) (st, out) actions) (\<lambda>s1.
              rbind (notify_triggers env now resp active bk rest s1) (\<lambda>(ts, names, r).
                Inr (trigger' # ts, name @ names, r))))"

definition sync_nodes :: "BucketKey \<Rightarrow> string list \<Rightarrow> coord \<Rightarrow> coord \<times> sends" where
  "sync_nodes bk triggered_name st =
     (if triggered_name = [] then (st, [])
      else
        let coord_msg = no_UpdateCoordMsg
              \<lparr>ucm_msg_type := 1,
               ucm_triggers := map (\<lambda>name. no_TriggerEntity
                 \<lparr>te_bucket_name := bk_bucket bk, te_trigger_name := name, te_session := bk_session bk\<rparr>)
                 triggered_name\<rparr>
        in (st\<lparr>bucket_node_map := um_touch [] (bk_bucket bk) (bucket_node_map st)\<rparr>,
            map (\<lambda>ip. (trigger_update_address ip, W_UpdateCoord coord_msg))
              (um_get [] (bk_bucket bk) (bucket_node_map st))))"

subsection \<open>notify_handler\<close>

definition run_bucket_triggers ::
    "coord_env \<Rightarrow> TimePoint \<Rightarrow> Address \<Rightarrow> string uset \<Rightarrow> BucketKey \<Rightarrow> coord \<Rightarrow> (coord \<times> sends) res" where
  "run_bucket_triggers env now resp active bk st =
     rbind (notify_triggers env now resp active bk (um_get [] (bk_bucket bk) (bucket_triggers_map st)) (st, []))
       (\<lambda>(ts, names, st1, out).
         let st2 = st1\<lparr>bucket_triggers_map := um_put (bk_bucket bk) ts (bucket_triggers_map st1)\<rparr>;
             (st3, out') = sync_nodes bk names st2
         in Inr (st3, out @ out'))"

fun notify_addresses ::
    "coord_env \<Rightarrow> TimePoint \<Rightarrow> Address \<Rightarrow> string uset \<Rightarrow> BucketKeyAddress list \<Rightarrow> coord \<Rightarrow> (coord \<times> sends) res" where
  "notify_addresses env now resp active [] st = Inr (st, [])"
| "notify_addresses env now resp active (address # rest) st =
     rbind (store_object address st) (\<lambda>(st1, continue).
       if continue then
         rbind (run_bucket_triggers env now resp active (get_bucket_key_from_addr address) st1) (\<lambda>(st2, out).
         rbind (notify_addresses env now resp active rest st2) (\<lambda>(st3, out').
         Inr (st3, out @ out')))
       else Inr (st1, []))"

definition notify_handler ::
    "coord_env \<Rightarrow> TimePoint \<Rightarrow> KeyNotifyRequest \<Rightarrow> coord \<Rightarrow> (coord \<times> sends) res" where
  "notify_handler env now req st =
     notify_addresses env now (knr_response_address req) (us_of_list (knr_active_trigger_names req))
       (knr_addresses req) st"

end
