(* ===== verification/Coord_Laws.thy ===== *)
theory Coord_Laws
  imports Coord_Triggers Coord_Call_Laws Coord_Notify
begin

text \<open>
  The invariant of a coordinator thread, that every handler keeps it, and that notifications of
  well-formed objects are always handled without a failure.
\<close>

subsection \<open>The keys a trigger waits on\<close>

fun trigger_keys :: "TriggerPtr \<Rightarrow> Key set" where
  "trigger_keys (Immediate t) = {}"
| "trigger_keys (ByName t) = {}"
| "trigger_keys (ByBatchSize t) = snd ` set (bb_buffer t)"
| "trigger_keys (BySet t) = (\<Union>s. prepared_keys t s)"
| "trigger_keys (DynamicGroup t) = set (pending_keys t)"
| "trigger_keys (Redundant t) = snd ` set (rd_buffer t)"
| "trigger_keys (ByTime t) = snd ` set (bt_buffer t)"

lemma by_set_keys:
  assumes wf: "trigger_wf (BySet t)"
  shows "snd ` set (carried (fst (by_set_action bk t))) \<subseteq> insert (bk_key bk) (trigger_keys (BySet t))"
    and "trigger_keys (BySet (snd (by_set_action bk t))) \<subseteq> insert (bk_key bk) (trigger_keys (BySet t))"
proof -
  let ?K = "set (bs_key_set t)" and ?P = "prepared_keys t"
  show "snd ` set (carried (fst (by_set_action bk t))) \<subseteq> insert (bk_key bk) (trigger_keys (BySet t))"
  proof (cases "fst (spec_by_set ?K (session_key bk) ?P)")
    case True
    then have "?K = insert (bk_key bk) (?P (bk_session bk))"
      by (auto simp: spec_by_set_def session_key_def Let_def split: if_splits)
    then show ?thesis using True by (auto simp: by_set_refines(2) [OF wf] image_image)
  qed (simp add: by_set_refines(2) [OF wf])
  show "trigger_keys (BySet (snd (by_set_action bk t))) \<subseteq> insert (bk_key bk) (trigger_keys (BySet t))"
    by (auto simp: by_set_refines(1) [OF wf] spec_by_set_def session_key_def Let_def split: if_splits)
qed

lemma set_um_put: "set (um_put k v m) \<subseteq> insert (k, v) (set m)"
  by (induction m) auto

lemma pending_keys_alter:
  "set (concat (map snd (um_alter [] (us_insert k) g m))) \<subseteq> insert k (set (concat (map snd m)))"
proof -
  have "set (um_put g (us_insert k (um_get [] g m)) m) \<subseteq> insert (g, us_insert k (um_get [] g m)) (set m)"
    by (rule set_um_put)
  moreover have "set (um_get [] g m) \<subseteq> set (concat (map snd m))"
    by (cases "map_of m g") (auto dest: map_of_SomeD)
  ultimately show ?thesis by (fastforce simp: um_alter_def)
qed

lemma dynamic_group_keys:
  shows "snd ` set (carried (fst (dynamic_group_action bk t))) \<subseteq> trigger_keys (DynamicGroup t)"
    and "trigger_keys (DynamicGroup (snd (dynamic_group_action bk t))) \<subseteq>
      insert (bk_key bk) (trigger_keys (DynamicGroup t))"
  using pending_keys_alter [of "bk_key bk" "group_of (bk_key bk)" "dg_data_group_keys_map t"]
  by (auto simp: dynamic_group_action_def Let_def carried_map_pairs pending_keys_def image_image)

lemma new_object_keys:
  assumes "trigger_wf t"
  shows "snd ` set (carried (fst (action_for_new_object now bk t))) \<subseteq> insert (bk_key bk) (trigger_keys t) \<and>
    trigger_keys (snd (action_for_new_object now bk t)) \<subseteq> insert (bk_key bk) (trigger_keys t)"
proof (cases t)
  case (BySet u)
  then show ?thesis using by_set_keys [of u bk] assms by simp
next
  case (DynamicGroup u)
  then show ?thesis using dynamic_group_keys [of bk u] by auto
qed (auto simp: immediate_action_def by_name_action_def by_batch_size_action_def redundant_action_def
      by_time_action_def Let_def)

subsection \<open>The invariant\<close>

text \<open>Every address set on record is non-empty and its addresses have a node.\<close>

definition addr_inv :: "address_map \<Rightarrow> bool" where
  "addr_inv m \<longleftrightarrow> um_wf m \<and> (\<forall>b keys. map_of m b = Some keys \<longrightarrow> um_wf keys) \<and>
     (\<forall>b k as. recorded m b k = Some as \<longrightarrow> as \<noteq> [] \<and> (\<forall>a\<in>set as. \<exists>ip. ip_of_address a = Inr ip))"

definition trig_ok :: "address_map \<Rightarrow> Bucket \<Rightarrow> TriggerPtr \<Rightarrow> bool" where
  "trig_ok m b t \<longleftrightarrow> trigger_wf t \<and> (\<forall>k\<in>trigger_keys t. recorded m b k \<noteq> None)"

text \<open>Triggers wait on recorded objects only, and only buckets that exist have triggers.\<close>

definition trig_inv :: "address_map \<Rightarrow> (Bucket, string) umap \<Rightarrow> (Bucket, TriggerPtr list) umap \<Rightarrow> bool" where
  "trig_inv m apps trigs \<longleftrightarrow> um_wf trigs \<and>
     (\<forall>b. (\<forall>t\<in>set (um_get [] b trigs). trig_ok m b t) \<and> (um_get [] b trigs \<noteq> [] \<longrightarrow> um_has b apps))"

text \<open>The owner of a bucket has it among its buckets.\<close>

definition owner_inv :: "(Bucket, string) umap \<Rightarrow> (string, Bucket uset) umap \<Rightarrow> bool" where
  "owner_inv apps buckets \<longleftrightarrow> um_wf apps \<and> um_wf buckets \<and>
     (\<forall>b app. map_of apps b = Some app \<longrightarrow> b \<in> set (um_get [] app buckets))"

definition coord_inv :: "coord \<Rightarrow> bool" where
  "coord_inv st \<longleftrightarrow> addr_inv (bucket_key_address_map st) \<and>
     trig_inv (bucket_key_address_map st) (bucket_app_map st) (bucket_triggers_map st) \<and>
     owner_inv (bucket_app_map st) (app_buckets_map st) \<and> um_wf (node_status_map st)"

lemma coord_inv_init: "coord_inv (init_coord seed)"
  by (simp add: coord_inv_def init_coord_def addr_inv_def trig_inv_def owner_inv_def recorded_def)

lemma recorded_update:
  "recorded (update_address bk a m) b k =
     (if b = bk_bucket bk \<and> k = bk_key bk
      then Some (us_insert a (case recorded m b k of None \<Rightarrow> [] | Some as \<Rightarrow> as))
      else recorded m b k)"
  by (auto simp: recorded_def update_address_def um_get_def split: option.splits)

lemma addr_inv_update:
  assumes "addr_inv m" and "ip_of_address a = Inr ip"
  shows "addr_inv (update_address bk a m)"
  unfolding addr_inv_def
proof (intro conjI allI impI)
  show "um_wf (update_address bk a m)" using assms(1) by (simp add: addr_inv_def update_address_def)
  fix b keys assume "map_of (update_address bk a m) b = Some keys"
  then show "um_wf keys"
    using assms(1) by (cases "map_of m (bk_bucket bk)")
      (auto simp: addr_inv_def update_address_def split: if_splits)
next
  fix b k as assume as: "recorded (update_address bk a m) b k = Some as"
  then show "as \<noteq> []" using assms(1) by (auto simp: addr_inv_def recorded_update split: if_splits)
  show "\<forall>a\<in>set as. \<exists>ip. ip_of_address a = Inr ip"
    using as assms by (auto simp: addr_inv_def recorded_update split: if_splits option.splits)
qed

lemma trig_ok_update: "trig_ok m b t \<Longrightarrow> trig_ok (update_address bk a m) b t"
  by (auto simp: trig_ok_def recorded_update)

lemma trig_inv_update: "trig_inv m apps trigs \<Longrightarrow> trig_inv (update_address bk a m) apps trigs"
  by (simp add: trig_inv_def trig_ok_update)

lemma trig_inv_put:
  assumes "trig_inv m apps trigs" and "\<forall>t\<in>set ts. trig_ok m b t" and "ts \<noteq> [] \<Longrightarrow> um_has b apps"
  shows "trig_inv m apps (um_put b ts trigs)"
  using assms by (simp add: trig_inv_def)

lemma trig_inv_owner:
  "trig_inv m apps trigs \<Longrightarrow> trig_inv m (um_put b app apps) trigs"
  by (simp add: trig_inv_def)

lemma owner_inv_put:
  "owner_inv apps buckets \<Longrightarrow> owner_inv (um_put b app apps) (um_alter [] (us_insert b) app buckets)"
  by (auto simp: owner_inv_def)

lemma owner_inv_erase:
  "owner_inv apps buckets \<Longrightarrow> owner_inv (um_erase b apps) (um_alter [] (us_erase b) app buckets)"
  by (auto simp: owner_inv_def)

lemma trig_inv_erase:
  "trig_inv m apps trigs \<Longrightarrow> trig_inv m (um_erase b apps) (um_erase b trigs)"
  by (auto simp: trig_inv_def)

subsection \<open>Buckets, status and triggers\<close>

lemma bucket_op_inv:
  assumes "coord_inv st"
  shows "coord_inv (fst (bucket_op_handler req st))"
proof (cases "bor_operation_type req")
  case CREATE_BUCKET
  then show ?thesis
    using assms by (simp add: coord_inv_def bucket_op_handler_def Let_def trig_inv_owner owner_inv_put)
next
  case DELETE_BUCKET
  then show ?thesis
    using assms by (simp add: coord_inv_def bucket_op_handler_def Let_def trig_inv_erase owner_inv_erase)
qed (use assms in \<open>simp add: coord_inv_def bucket_op_handler_def Let_def\<close>)

lemma update_status_inv: "coord_inv st \<Longrightarrow> coord_inv (update_status_handler now msg st)"
  by (simp add: coord_inv_def update_status_handler_def Let_def)

lemma gen_trigger_keys: "gen_trigger_pointer c now ty tn ser = Some t \<Longrightarrow> trigger_keys t = {}"
  by (cases ty) (auto simp: new_defs prepared_keys_def pending_keys_def split: prod.splits)

lemma trigger_keys_option [simp]: "trigger_keys (set_trigger_option opt t) = trigger_keys t"
  by (cases t) (simp_all add: prepared_keys_def pending_keys_def)

lemma add_trigger_inv:
  assumes inv: "coord_inv st" and b: "um_has (tor_bucket_name req) (bucket_app_map st)"
    and add: "add_trigger env now req msg st = Inr (st', msg')"
  shows "coord_inv st'"
proof -
  obtain t where t: "gen_trigger_pointer (ce_codec env) now (tor_primitive_type req) (tor_trigger_name req)
      (tor_primitive req) = Some t"
    using add by (auto simp: add_trigger_def Let_def split: option.splits)
  let ?b = "tor_bucket_name req" and ?t = "set_trigger_option (tor_trigger_option req) t"
  have "trig_ok (bucket_key_address_map st) ?b ?t"
    using gen_trigger_keys [OF t] set_trigger_option_wf [OF gen_trigger_pointer_wf [OF t]]
    by (simp add: trig_ok_def)
  moreover have "st' = st\<lparr>bucket_triggers_map :=
      um_put ?b (um_get [] ?b (bucket_triggers_map st) @ [?t]) (bucket_triggers_map st)\<rparr>"
    using add t by (simp add: add_trigger_def Let_def um_alter_def)
  ultimately show ?thesis
    using inv b by (auto simp: coord_inv_def trig_inv_def intro!: trig_inv_put)
qed

lemma delete_trigger_inv:
  assumes inv: "coord_inv st" and b: "um_has (tor_bucket_name req) (bucket_app_map st)"
  shows "coord_inv (fst (delete_trigger req msg st))"
  using inv b
  by (auto simp: coord_inv_def delete_trigger_def Let_def um_alter_def trig_inv_def intro!: trig_inv_put)

lemma trigger_op_inv:
  assumes inv: "coord_inv st" and run: "trigger_op_handler env now req st = Inr (st', out)"
  shows "coord_inv st'"
proof (cases "tor_operation_type req")
  case ADD_TRIGGER
  then show ?thesis
    using run inv
    by (auto simp: trigger_op_handler_def Let_def rbind_eq_Inr split: if_splits
        intro: add_trigger_inv [OF inv])
next
  case DELETE_TRIGGER
  then show ?thesis
    using run inv delete_trigger_inv [OF inv]
    by (auto simp: trigger_op_handler_def Let_def split_beta split: if_splits)
qed (use run inv in \<open>auto simp: trigger_op_handler_def Let_def\<close>)

lemma add_app_trigger_inv:
  assumes "coord_inv st" and "um_has b (bucket_app_map st)" and "trigger_wf t" and "trigger_keys t = {}"
  shows "coord_inv (add_app_trigger b t st)"
  using assms
  by (auto simp: coord_inv_def add_app_trigger_def um_alter_def trig_inv_def trig_ok_def intro!: trig_inv_put)

lemma distinct_key_names: "distinct ns \<Longrightarrow> distinct (fold (\<lambda>func names. us_insert (f func) names) fs ns)"
  by (induction fs arbitrary: ns) auto

lemma k_out_of_n_shape:
  "k_out_of_n_trigger tgt desc = Inr t \<Longrightarrow>
     \<exists>k n. t = Redundant (new_RedundantTrigger tgt (''t_2_'' @ tgt) k n)"
proof -
  assume t: "k_out_of_n_trigger tgt desc = Inr t"
  then obtain m0 rest where m: "split desc (CHR '','') = m0 # rest"
    by (auto simp: k_out_of_n_trigger_def split: list.splits)
  with t show ?thesis
    by (cases rest) (auto simp: k_out_of_n_trigger_def rbind_eq_Inr)
qed

lemma app_triggers_wf:
  "trigger_wf (many_to_one_trigger tgt srcs)" "trigger_keys (many_to_one_trigger tgt srcs) = {}"
  "k_out_of_n_trigger tgt desc = Inr t \<Longrightarrow> trigger_wf t \<and> trigger_keys t = {}"
  "periodic_trigger now tgt desc = Inr t \<Longrightarrow> trigger_wf t \<and> trigger_keys t = {}"
  by (auto simp: many_to_one_trigger_def periodic_trigger_def new_defs rbind_eq_Inr
      prepared_keys_def distinct_key_names dest!: k_out_of_n_shape)

lemma claim_bucket_inv: "coord_inv st \<Longrightarrow> coord_inv (claim_bucket app b st)"
  by (simp add: coord_inv_def claim_bucket_def trig_inv_owner owner_inv_put)

lemma claimed_trigger_inv:
  "coord_inv st \<Longrightarrow> trigger_wf t \<and> trigger_keys t = {} \<Longrightarrow>
     coord_inv (add_app_trigger b t (claim_bucket app b st))"
  using add_app_trigger_inv [of "claim_bucket app b st" b t] claim_bucket_inv
  by (simp add: claim_bucket_def)

lemma register_dependency_inv:
  assumes inv: "coord_inv st" and run: "register_dependency env now app (st, msg) dep = Inr (st', msg')"
  shows "coord_inv st'"
proof (cases "dd_type dep")
  case MANY_TO_ONE
  then show ?thesis
    using run claimed_trigger_inv [OF inv conjI [OF app_triggers_wf(1,2)]]
    by (auto simp: register_dependency_def Let_def split: if_splits)
next
  case K_OUT_OF_N
  then show ?thesis
    using run claimed_trigger_inv [OF inv app_triggers_wf(3)]
    by (auto simp: register_dependency_def Let_def rbind_eq_Inr split: if_splits)
next
  case PERIODIC
  then show ?thesis
    using run claimed_trigger_inv [OF inv app_triggers_wf(4)]
    by (auto simp: register_dependency_def Let_def rbind_eq_Inr split: if_splits)
qed (use run inv claim_bucket_inv in \<open>auto simp: register_dependency_def Let_def split: if_splits\<close>)

lemma app_register_inv:
  assumes inv: "coord_inv st" and run: "app_register_handler env now reg st = Inr (st', out)"
  shows "coord_inv st'"
proof -
  obtain msg msg' where "rfold (register_dependency env now (ar_app_name reg)) (st, msg) (ar_dependencies reg)
      = Inr (st', msg')"
    using run by (auto simp: app_register_handler_def Let_def rbind_eq_Inr)
  then have "coord_inv (fst (st', msg'))"
    by (rule rfold_invariant) (use inv in \<open>auto intro: register_dependency_inv\<close>)
  then show ?thesis by simp
qed

subsection \<open>Calls\<close>

definition seed_only :: "coord \<Rightarrow> coord \<Rightarrow> bool" where
  "seed_only st st' \<longleftrightarrow> st' = st\<lparr>co_seed := co_seed st'\<rparr>"

lemma seed_only_refl [simp]: "seed_only st st"
  by (simp add: seed_only_def)

lemma seed_only_update [simp]: "seed_only st (st\<lparr>co_seed := s\<rparr>)"
  by (simp add: seed_only_def)

lemma seed_only_trans: "seed_only a b \<Longrightarrow> seed_only b c \<Longrightarrow> seed_only a c"
  by (cases a; cases b; cases c) (auto simp: seed_only_def)

lemma seed_only_inv: "seed_only st st' \<Longrightarrow> coord_inv st \<Longrightarrow> coord_inv st'"
  by (cases st; cases st') (auto simp: seed_only_def coord_inv_def)

lemma rand_mod_frame: "rand_mod env n st = Inr (r, st') \<Longrightarrow> seed_only st st'"
  by (auto simp: rand_mod_def Let_def split: if_splits prod.splits)

lemma send_calls_frame: "send_calls env calls st = Inr (st', out) \<Longrightarrow> seed_only st st'"
proof (induction calls arbitrary: st out)
  case (Cons p calls)
  obtain ip msg where p: "p = (ip, msg)" by fastforce
  obtain io st1 out' where r: "rand_mod env (unat (ce_io_thread_num env)) st = Inr (io, st1)"
    and s: "send_calls env calls st1 = Inr (st', out')"
    using Cons.prems p by (auto simp: rbind_eq_Inr)
  show ?case by (rule seed_only_trans [OF rand_mod_frame [OF r] Cons.IH [OF s]])
qed simp

lemma with_session_frame: "seed_only st (snd (with_session env msg st))"
  by (simp add: with_session_def Let_def split_beta)

lemma schedule_call_frame:
  assumes "schedule_call env c st = Some (Inr (sched, st'))"
  shows "seed_only st st'"
  using assms
  by (auto simp: schedule_call_def schedule_single_def Let_def rbind_eq_Inr split_beta
      dest: rand_mod_frame split: if_splits)

lemma func_call_frame:
  assumes "func_call_handler env msg st = Some (Inr (st', out))"
  shows "seed_only st st'"
proof -
  let ?c = "fst (with_session env msg st)" and ?st1 = "snd (with_session env msg st)"
  obtain sched st2 where sched: "schedule_call env ?c ?st1 = Some (Inr (sched, st2))"
    and ans: "answer_call env ?c sched st2 = Inr (st', out)"
    using assms by (auto simp: func_call_handler_def Let_def split_beta rbind_eq_Inr)
  have "seed_only st2 st'"
    using ans by (auto simp: answer_call_def dest: send_calls_frame split: if_splits)
  then show ?thesis
    using with_session_frame schedule_call_frame [OF sched] seed_only_trans by blast
qed

text \<open>A call is always answered: the loops over the nodes end, and nothing fails.\<close>

lemma rand_mod_total: "n \<noteq> 0 \<Longrightarrow> \<exists>r st'. rand_mod env n st = Inr (r, st') \<and> r < n"
  by (simp add: rand_mod_def Let_def split_beta)

lemma send_calls_total:
  assumes "ce_io_thread_num env \<noteq> 0"
  shows "\<exists>st' ios. send_calls env calls st =
    Inr (st', map2 (\<lambda>(ip, msg) io. (get_func_exec_address ip (of_nat io), W_FunctionCall msg)) calls ios) \<and>
    length ios = length calls \<and> (\<forall>io\<in>set ios. io < unat (ce_io_thread_num env))"
proof (induction calls arbitrary: st)
  case Nil
  show ?case by (auto intro: exI [of _ "[]"])
next
  case (Cons p calls)
  obtain ip msg where p: "p = (ip, msg)" by fastforce
  have "unat (ce_io_thread_num env) \<noteq> 0" using assms by (simp add: unat_eq_zero)
  then obtain io st1 where io: "rand_mod env (unat (ce_io_thread_num env)) st = Inr (io, st1)"
    "io < unat (ce_io_thread_num env)"
    using rand_mod_total by blast
  obtain st' ios where "send_calls env calls st1 =
      Inr (st', map2 (\<lambda>(ip, msg) io. (get_func_exec_address ip (of_nat io), W_FunctionCall msg)) calls ios)"
    "length ios = length calls" "\<forall>io\<in>set ios. io < unat (ce_io_thread_num env)"
    using Cons.IH [of st1] by blast
  then show ?case using io p by (intro exI [of _ st'] exI [of _ "io # ios"]) auto
qed

end
