(* ===== verification/Coord_Notify_Laws.thy ===== *)
theory Coord_Notify_Laws
  imports Coord_Laws
begin

text \<open>
  Notifications keep the invariant of the coordinator, and a notification of well-formed objects is
  handled without a failure: in particular an address set is never dereferenced when it is empty.
\<close>

subsection \<open>What a triggered call leaves as it is\<close>

definition call_frame :: "Bucket \<Rightarrow> coord \<Rightarrow> coord \<Rightarrow> bool" where
  "call_frame b st st' \<longleftrightarrow>
     bucket_key_address_map st' = bucket_key_address_map st \<and>
     bucket_key_val_map st' = bucket_key_val_map st \<and>
     bucket_node_map st' = bucket_node_map st \<and>
     bucket_triggers_map st' = bucket_triggers_map st \<and>
     app_buckets_map st' = app_buckets_map st \<and>
     (um_has b (bucket_app_map st) \<longrightarrow> bucket_app_map st' = bucket_app_map st) \<and>
     (um_wf (node_status_map st) \<longrightarrow> um_wf (node_status_map st'))"

lemma call_frame_refl [simp]: "call_frame b st st"
  by (simp add: call_frame_def)

lemma call_frame_trans: "call_frame b st st' \<Longrightarrow> call_frame b st' st'' \<Longrightarrow> call_frame b st st''"
  by (simp add: call_frame_def)

lemma um_wf_data_workers:
  "um_wf nodes \<Longrightarrow> um_wf (snd (snd (fold data_worker ips (mx, w, nodes))))"
  by (induction ips arbitrary: mx w nodes) (auto simp: data_worker_def Let_def)

lemma um_wf_pick_worker: "um_wf nodes \<Longrightarrow> um_wf (snd (pick_worker ips nodes))"
  using um_wf_data_workers [of nodes ips 0 "[]"]
  by (auto simp: pick_worker_def Let_def split_beta)

lemma rand_mod_frame': "rand_mod env n st = Inr (r, st') \<Longrightarrow> \<exists>s. st' = st\<lparr>co_seed := s\<rparr>"
  by (auto simp: rand_mod_def Let_def split: if_splits prod.splits)

lemma dispatch_frame:
  assumes run: "dispatch_action env resp bk flag (st, out) action = Inr (st', out')"
  shows "call_frame (bk_bucket bk) st st' \<and> (\<exists>new. out' = out @ new)"
proof -
  let ?st1 = "st\<lparr>bucket_app_map := um_touch [] (bk_bucket bk) (bucket_app_map st)\<rparr>"
  obtain args ips where
    "call_arguments ?st1 (bk_bucket bk) flag (ta_session_keys action) = Inr (args, ips)"
    using run by (auto simp: dispatch_action_def Let_def rbind_eq_Inr)
  then show ?thesis
    using run um_wf_pick_worker [of "node_status_map st" ips]
    by (auto simp: dispatch_action_def Let_def rbind_eq_Inr split_beta call_frame_def
        dest!: rand_mod_frame' split: if_splits)
qed

lemma dispatch_all_frame:
  assumes "rfold (dispatch_action env resp bk flag) (st, out) actions = Inr (st', out')"
  shows "call_frame (bk_bucket bk) st st' \<and> (\<exists>new. out' = out @ new)"
proof -
  have "call_frame (bk_bucket bk) st (fst (st', out')) \<and> (\<exists>new. snd (st', out') = out @ new)"
    by (rule rfold_invariant [OF assms])
      (auto dest!: dispatch_frame intro: call_frame_trans)
  then show ?thesis by simp
qed

subsection \<open>Running the triggers\<close>

lemma trig_ok_new_object:
  assumes "trig_ok m b t" and "recorded m b (bk_key bk) \<noteq> None"
  shows "trig_ok m b (snd (action_for_new_object now bk t))"
    and "a \<in> set (fst (action_for_new_object now bk t)) \<Longrightarrow> (s, k) \<in> set (ta_session_keys a) \<Longrightarrow>
      recorded m b k \<noteq> None"
proof -
  have wf: "trigger_wf t" using assms(1) by (simp add: trig_ok_def)
  note keys = new_object_keys [OF wf, of now bk]
  show "trig_ok m b (snd (action_for_new_object now bk t))"
    using assms keys action_for_new_object_wf [OF wf] by (auto simp: trig_ok_def)
  assume "a \<in> set (fst (action_for_new_object now bk t))" "(s, k) \<in> set (ta_session_keys a)"
  then have "k \<in> snd ` set (carried (fst (action_for_new_object now bk t)))"
    by (force simp: carried_def)
  then have "k \<in> insert (bk_key bk) (trigger_keys t)" using keys by blast
  then show "recorded m b k \<noteq> None" using assms by (auto simp: trig_ok_def)
qed

lemma notify_triggers_frame:
  assumes "notify_triggers env now resp active bk ts (st, out) = Inr (ts', names, st', out')"
    and "\<forall>t\<in>set ts. trig_ok m b t" and "recorded m b (bk_key bk) \<noteq> None"
  shows "call_frame (bk_bucket bk) st st' \<and> (\<forall>t\<in>set ts'. trig_ok m b t) \<and> length ts' = length ts"
  using assms
proof (induction ts arbitrary: st out ts' names)
  case (Cons t ts)
  let ?acts = "fst (action_for_new_object now bk t)" and ?t = "snd (action_for_new_object now bk t)"
  have "trig_ok m b t" using Cons.prems(2) by simp
  from trig_ok_new_object(1) [OF this Cons.prems(3)] have t: "trig_ok m b ?t" .
  show ?case
  proof (cases "get_trigger_name ?t \<in> set active \<or> ?acts = []")
    case True
    then obtain ts1 names1 where
      r: "notify_triggers env now resp active bk ts (st, out) = Inr (ts1, names1, st', out')" "ts' = ?t # ts1"
      using Cons.prems(1) by (auto simp: Let_def split_beta rbind_eq_Inr)
    have "call_frame (bk_bucket bk) st st' \<and> (\<forall>t\<in>set ts1. trig_ok m b t) \<and> length ts1 = length ts"
      by (rule Cons.IH [OF r(1) _ Cons.prems(3)]) (use Cons.prems(2) in simp)
    then show ?thesis using r(2) t by simp
  next
    case False
    then obtain st1 out1 ts1 names1 where
      d: "rfold (dispatch_action env resp bk (get_trigger_option ?t + 1)) (st, out) ?acts = Inr (st1, out1)"
      and r: "notify_triggers env now resp active bk ts (st1, out1) = Inr (ts1, names1, st', out')" "ts' = ?t # ts1"
      using Cons.prems(1) by (auto simp: Let_def split_beta rbind_eq_Inr)
    have "call_frame (bk_bucket bk) st1 st' \<and> (\<forall>t\<in>set ts1. trig_ok m b t) \<and> length ts1 = length ts"
      by (rule Cons.IH [OF r(1) _ Cons.prems(3)]) (use Cons.prems(2) in simp)
    then show ?thesis
      using call_frame_trans [OF conjunct1 [OF dispatch_all_frame [OF d]]] r(2) t by simp
  qed
qed simp

subsection \<open>The invariant\<close>

lemma store_object_inv:
  assumes inv: "coord_inv st" and run: "store_object address st = Inr (st', continue)"
  shows "coord_inv st' \<and> (continue \<longrightarrow>
    recorded (bucket_key_address_map st') (bka_bucket address) (bka_key address) \<noteq> None)"
proof -
  obtain ip ips where ips: "bka_ips address = ip # ips"
    using run by (auto simp: store_object_def split: list.splits)
  let ?bk = "get_bucket_key_from_addr address"
  show ?thesis
  proof (cases continue)
    case True
    then obtain node where node: "ip_of_address ip = Inr node"
      and maps: "bucket_key_address_map st' = update_address ?bk ip (bucket_key_address_map st)"
        "bucket_triggers_map st' = bucket_triggers_map st" "bucket_app_map st' = bucket_app_map st"
        "app_buckets_map st' = app_buckets_map st" "node_status_map st' = node_status_map st"
      using run ips by (auto simp: store_object_def Let_def rbind_eq_Inr split: if_splits)
    then show ?thesis
      using inv addr_inv_update [OF _ node] trig_inv_update
      by (simp add: coord_inv_def recorded_update get_bucket_key_from_addr_def)
  qed (use run ips inv in \<open>auto simp: store_object_def Let_def rbind_eq_Inr split: if_splits\<close>)
qed

lemma sync_nodes_inv: "coord_inv st \<Longrightarrow> coord_inv (fst (sync_nodes bk names st))"
  by (simp add: coord_inv_def sync_nodes_def Let_def)

lemma bucket_triggers_ok:
  assumes "coord_inv st"
  shows "\<forall>t\<in>set (um_get [] b (bucket_triggers_map st)). trig_ok (bucket_key_address_map st) b t"
    and "um_get [] b (bucket_triggers_map st) \<noteq> [] \<Longrightarrow> um_has b (bucket_app_map st)"
  using assms unfolding coord_inv_def trig_inv_def by blast+

lemma run_bucket_triggers_inv:
  assumes inv: "coord_inv st" and run: "run_bucket_triggers env now resp active bk st = Inr (st', out)"
    and rec: "recorded (bucket_key_address_map st) (bk_bucket bk) (bk_key bk) \<noteq> None"
  shows "coord_inv st' \<and> bucket_key_address_map st' = bucket_key_address_map st"
proof -
  let ?b = "bk_bucket bk"
  let ?ts = "um_get [] ?b (bucket_triggers_map st)"
  obtain ts names st1 out1 where
    n: "notify_triggers env now resp active bk ?ts (st, []) = Inr (ts, names, st1, out1)"
    and st': "st' = fst (sync_nodes bk names
      (st1\<lparr>bucket_triggers_map := um_put ?b ts (bucket_triggers_map st1)\<rparr>))"
    using run by (auto simp: run_bucket_triggers_def rbind_eq_Inr Let_def split_beta)
  note fr = notify_triggers_frame [OF n bucket_triggers_ok(1) [OF inv] rec]
  let ?st2 = "st1\<lparr>bucket_triggers_map := um_put ?b ts (bucket_triggers_map st1)\<rparr>"
  have "coord_inv ?st2"
  proof (cases "?ts = []")
    case True
    then have "ts = []" "st1 = st" using n by auto
    then show ?thesis using inv by (auto simp: coord_inv_def intro!: trig_inv_put)
  next
    case False
    then have "um_has ?b (bucket_app_map st)" by (rule bucket_triggers_ok(2) [OF inv])
    then show ?thesis
      using fr inv by (auto simp: coord_inv_def call_frame_def intro!: trig_inv_put)
  qed
  then show ?thesis
    using fr by (simp add: st' sync_nodes_inv) (simp add: sync_nodes_def call_frame_def Let_def)
qed

lemma notify_addresses_inv:
  assumes "coord_inv st" and "notify_addresses env now resp active addresses st = Inr (st', out)"
  shows "coord_inv st'"
  using assms
proof (induction addresses arbitrary: st out)
  case (Cons address rest)
  obtain st1 continue where store: "store_object address st = Inr (st1, continue)"
    using Cons.prems(2) by (auto simp: rbind_eq_Inr)
  note inv1 = store_object_inv [OF Cons.prems(1) store]
  show ?case
  proof (cases continue)
    case True
    then obtain st2 out2 out3 where
      r: "run_bucket_triggers env now resp active (get_bucket_key_from_addr address) st1 = Inr (st2, out2)"
      and n: "notify_addresses env now resp active rest st2 = Inr (st', out3)"
      using Cons.prems(2) store by (auto simp: rbind_eq_Inr)
    have "coord_inv st2"
      using run_bucket_triggers_inv [OF _ r] inv1 True by (simp add: get_bucket_key_from_addr_def)
    then show ?thesis by (rule Cons.IH [OF _ n])
  qed (use Cons.prems(2) store inv1 in auto)
qed simp

lemma notify_handler_inv:
  "coord_inv st \<Longrightarrow> notify_handler env now req st = Inr (st', out) \<Longrightarrow> coord_inv st'"
  by (simp add: notify_handler_def notify_addresses_inv)

subsection \<open>Notifications do not fail\<close>

definition reachable_ip :: "BucketKeyAddress \<Rightarrow> bool" where
  "reachable_ip address \<longleftrightarrow>
     (case bka_ips address of [] \<Rightarrow> False | ip # _ \<Rightarrow> (case ip_of_address ip of Inl _ \<Rightarrow> False | Inr _ \<Rightarrow> True))"

lemma reference_args_total:
  assumes inv: "addr_inv m" and rec: "\<And>s k. (s, k) \<in> set sks \<Longrightarrow> recorded m b k \<noteq> None"
  shows "\<exists>r. rfold (reference_arg m b flag) acc sks = Inr r"
proof -
  have "\<exists>r. rfold (reference_arg m b flag) acc sks = Inr r \<and> True"
  proof (rule rfold_total)
    fix acc sk assume "sk \<in> set sks"
    obtain s k where sk: "sk = (s, k)" by fastforce
    obtain as where as: "recorded m b k = Some as" using rec \<open>sk \<in> set sks\<close> sk by blast
    then have "as \<noteq> []" "\<forall>a\<in>set as. \<exists>ip. ip_of_address a = Inr ip"
      using inv by (auto simp: addr_inv_def)
    then obtain a rest ip where "as = a # rest" "ip_of_address a = Inr ip" by (cases as) auto
    moreover have "um_get [] k (um_get [] b m) = as"
      using as by (auto simp: recorded_def split: option.splits)
    ultimately show "\<exists>acc'. reference_arg m b flag acc sk = Inr acc' \<and> True"
      by (cases acc) (simp add: reference_arg_def sk)
  qed simp
  then show ?thesis by simp
qed

lemma dispatch_total:
  assumes io: "ce_io_thread_num env \<noteq> 0" and inv: "addr_inv (bucket_key_address_map st)"
    and rec: "\<And>s k. (s, k) \<in> set (ta_session_keys action) \<Longrightarrow>
      recorded (bucket_key_address_map st) (bk_bucket bk) k \<noteq> None"
  shows "\<exists>r. dispatch_action env resp bk flag (st, out) action = Inr r"
proof -
  let ?st1 = "st\<lparr>bucket_app_map := um_touch [] (bk_bucket bk) (bucket_app_map st)\<rparr>"
  have "\<exists>r. call_arguments ?st1 (bk_bucket bk) flag (ta_session_keys action) = Inr r"
    using reference_args_total [OF inv rec]
    by (auto simp: call_arguments_def split: option.splits)
  then obtain args ips where
    args: "call_arguments ?st1 (bk_bucket bk) flag (ta_session_keys action) = Inr (args, ips)" by auto
  have n: "unat (ce_io_thread_num env) \<noteq> 0" using io by (simp add: unat_eq_zero)
  let ?st2 = "?st1\<lparr>node_status_map := snd (pick_worker ips (node_status_map ?st1))\<rparr>"
  obtain r st3 where "rand_mod env (unat (ce_io_thread_num env)) ?st2 = Inr (r, st3)"
    using rand_mod_total [OF n, of env ?st2] by blast
  then show ?thesis
    using args by (cases "pick_worker ips (node_status_map ?st1)")
      (auto simp: dispatch_action_def Let_def)
qed

lemma dispatch_all_total:
  assumes io: "ce_io_thread_num env \<noteq> 0" and inv: "addr_inv (bucket_key_address_map st)"
    and rec: "\<And>a s k. a \<in> set actions \<Longrightarrow> (s, k) \<in> set (ta_session_keys a) \<Longrightarrow>
      recorded (bucket_key_address_map st) (bk_bucket bk) k \<noteq> None"
  shows "\<exists>r. rfold (dispatch_action env resp bk flag) (st, out) actions = Inr r"
proof -
  have "\<exists>r. rfold (dispatch_action env resp bk flag) (st, out) actions = Inr r \<and>
      bucket_key_address_map (fst r) = bucket_key_address_map st"
  proof (rule rfold_total)
    fix s :: "coord \<times> sends" and a assume a: "a \<in> set actions" and s: "bucket_key_address_map (fst s) = bucket_key_address_map st"
    obtain st1 out1 where s1: "s = (st1, out1)" by fastforce
    obtain st2 out2 where d: "dispatch_action env resp bk flag (st1, out1) a = Inr (st2, out2)"
      using dispatch_total [OF io, of st1 a bk resp flag out1] inv rec [OF a] s s1 by auto
    then have "bucket_key_address_map st2 = bucket_key_address_map st"
      using dispatch_frame [OF d] s s1 by (simp add: call_frame_def)
    then show "\<exists>s'. dispatch_action env resp bk flag s a = Inr s' \<and>
        bucket_key_address_map (fst s') = bucket_key_address_map st"
      using d s1 by auto
  qed simp
  then show ?thesis by blast
qed

lemma notify_triggers_total:
  assumes io: "ce_io_thread_num env \<noteq> 0" and inv: "addr_inv (bucket_key_address_map st)"
    and ts: "\<forall>t\<in>set ts. trig_ok (bucket_key_address_map st) (bk_bucket bk) t"
    and rec: "recorded (bucket_key_address_map st) (bk_bucket bk) (bk_key bk) \<noteq> None"
  shows "\<exists>r. notify_triggers env now resp active bk ts (st, out) = Inr r"
  using inv ts rec
proof (induction ts arbitrary: st out)
  case (Cons t ts)
  let ?acts = "fst (action_for_new_object now bk t)" and ?t = "snd (action_for_new_object now bk t)"
  have t: "trig_ok (bucket_key_address_map st) (bk_bucket bk) t" using Cons.prems(2) by simp
  show ?case
  proof (cases "get_trigger_name ?t \<in> set active \<or> ?acts = []")
    case True
    then show ?thesis
      using Cons.IH [of st out] Cons.prems by (auto simp: Let_def split_beta)
  next
    case False
    have "\<exists>r. rfold (dispatch_action env resp bk (get_trigger_option ?t + 1)) (st, out) ?acts = Inr r"
      by (rule dispatch_all_total [OF io Cons.prems(1)]) (rule trig_ok_new_object(2) [OF t Cons.prems(3)])
    then obtain st1 out1 where
      d: "rfold (dispatch_action env resp bk (get_trigger_option ?t + 1)) (st, out) ?acts = Inr (st1, out1)"
      by auto
    have "bucket_key_address_map st1 = bucket_key_address_map st"
      using dispatch_all_frame [OF d] by (simp add: call_frame_def)
    then obtain r where "notify_triggers env now resp active bk ts (st1, out1) = Inr r"
      using Cons.IH [of st1 out1] Cons.prems by auto
    then show ?thesis using d False by (auto simp: Let_def split_beta)
  qed
qed simp

lemma store_object_total:
  "reachable_ip address \<Longrightarrow> \<exists>r. store_object address st = Inr r"
  by (auto simp: reachable_ip_def store_object_def Let_def split: list.splits sum.splits)

lemma notify_addresses_total:
  assumes io: "ce_io_thread_num env \<noteq> 0" and "coord_inv st" and "list_all reachable_ip addresses"
  shows "\<exists>r. notify_addresses env now resp active addresses st = Inr r"
  using assms(2,3)
proof (induction addresses arbitrary: st)
  case (Cons address rest)
  let ?bk = "get_bucket_key_from_addr address"
  obtain st1 continue where store: "store_object address st = Inr (st1, continue)"
    using store_object_total [of address st] Cons.prems(2) by auto
  note inv1 = store_object_inv [OF Cons.prems(1) store]
  show ?case
  proof (cases continue)
    case True
    then have rec: "recorded (bucket_key_address_map st1) (bk_bucket ?bk) (bk_key ?bk) \<noteq> None"
      and c1: "coord_inv st1" using inv1 by (simp_all add: get_bucket_key_from_addr_def)
    have "addr_inv (bucket_key_address_map st1)" using c1 by (simp add: coord_inv_def)
    from notify_triggers_total [OF io this bucket_triggers_ok(1) [OF c1] rec, of now resp active "[]"]
    obtain st3 out3 where
      r: "run_bucket_triggers env now resp active ?bk st1 = Inr (st3, out3)"
      by (auto simp: run_bucket_triggers_def Let_def split_beta)
    have "coord_inv st3" using run_bucket_triggers_inv [OF c1 r rec] by simp
    then show ?thesis using Cons.IH [of st3] Cons.prems(2) store r True by auto
  qed (use store in auto)
qed simp

lemma notify_handler_total:
  assumes "ce_io_thread_num env \<noteq> 0" and "coord_inv st" and "list_all reachable_ip (knr_addresses req)"
  obtains st' out where "notify_handler env now req st = Inr (st', out)"
proof -
  have "\<exists>r. notify_handler env now req st = Inr r"
    unfolding notify_handler_def by (rule notify_addresses_total [OF assms])
  then show thesis using that by auto
qed

end
