(* ===== verification/Coord_Workers.thy ===== *)
theory Coord_Workers
  imports Coord_Notify_Laws
begin

text \<open>
  How the coordinator places triggered calls: the worker it picks has an executor, holds data of the
  call when a node with data has an executor, and the executors on the books go down by exactly the
  number of calls that are sent.
\<close>

subsection \<open>The executors on the books\<close>

definition avail_of :: "(Address, NodeStatus) umap \<Rightarrow> Address \<Rightarrow> int" where
  "avail_of nodes ip = ns_avail_executors (um_get no_NodeStatus ip nodes)"

definition total_executors :: "(Address, NodeStatus) umap \<Rightarrow> int" where
  "total_executors nodes = sum_list (map executors nodes)"

abbreviation take_slot :: "Address \<Rightarrow> (Address, NodeStatus) umap \<Rightarrow> (Address, NodeStatus) umap" where
  "take_slot ip nodes \<equiv>
     um_alter no_NodeStatus (\<lambda>ns. ns\<lparr>ns_avail_executors := ns_avail_executors ns - 1\<rparr>) ip nodes"

lemma avail_no_NodeStatus [simp]: "ns_avail_executors no_NodeStatus = 0"
  by (simp add: no_NodeStatus_def)

lemma avail_of_touch [simp]: "avail_of (um_touch no_NodeStatus ip nodes) = avail_of nodes"
  by (simp add: avail_of_def fun_eq_iff)

lemma avail_of_take_slot [simp]:
  "avail_of (take_slot ip nodes) ip' = (if ip' = ip then avail_of nodes ip - 1 else avail_of nodes ip')"
  by (simp add: avail_of_def)

lemma total_touch [simp]: "total_executors (um_touch no_NodeStatus ip nodes) = total_executors nodes"
  by (simp add: total_executors_def um_touch_def split: option.splits)

lemma total_put:
  "total_executors (um_put ip ns nodes) = total_executors nodes - avail_of nodes ip + ns_avail_executors ns"
  by (induction nodes) (auto simp: total_executors_def avail_of_def um_get_def split: if_splits)

lemma total_take_slot [simp]: "total_executors (take_slot ip nodes) = total_executors nodes - 1"
  by (simp add: um_alter_def total_put avail_of_def)

subsection \<open>Picking a worker\<close>

lemma data_worker_step:
  "data_worker ip (mx, w, nodes) =
     (if avail_of nodes ip > mx then (avail_of nodes ip, ip, um_touch no_NodeStatus ip nodes)
      else (mx, w, um_touch no_NodeStatus ip nodes))"
  by (simp add: data_worker_def avail_of_def)

lemma any_worker_step:
  "any_worker p (mx, w) = (if executors p > mx then (executors p, fst p) else (mx, w))"
  by (simp add: any_worker_def split_beta)

lemma fold_data_worker_nodes:
  "avail_of (snd (snd (fold data_worker ips (mx, w, nodes)))) = avail_of nodes \<and>
   total_executors (snd (snd (fold data_worker ips (mx, w, nodes)))) = total_executors nodes"
  by (induction ips arbitrary: mx w nodes) (auto simp: data_worker_step)

lemma fold_data_worker:
  assumes "fold data_worker ips (mx, w, nodes) = (mx', w', nodes')"
  shows "mx \<le> mx' \<and> (\<forall>ip\<in>set ips. avail_of nodes ip \<le> mx') \<and>
    (mx' = mx \<and> w' = w \<or> w' \<in> set ips \<and> avail_of nodes w' = mx' \<and> mx < mx')"
  using assms
proof (induction ips arbitrary: mx w nodes)
  case (Cons ip ips)
  let ?nodes = "um_touch no_NodeStatus ip nodes"
  show ?case
  proof (cases "avail_of nodes ip > mx")
    case True
    then have "fold data_worker ips (avail_of nodes ip, ip, ?nodes) = (mx', w', nodes')"
      using Cons.prems by (simp add: data_worker_step)
    from Cons.IH [OF this] True show ?thesis by auto
  next
    case False
    then have "fold data_worker ips (mx, w, ?nodes) = (mx', w', nodes')"
      using Cons.prems by (simp add: data_worker_step)
    from Cons.IH [OF this] False show ?thesis by auto
  qed
qed simp

lemma fold_any_worker:
  assumes "fold any_worker nodes (mx, w) = (mx', w')"
  shows "mx \<le> mx' \<and> (\<forall>p\<in>set nodes. executors p \<le> mx') \<and>
    (mx' = mx \<and> w' = w \<or> (\<exists>p\<in>set nodes. fst p = w' \<and> executors p = mx' \<and> mx < mx'))"
  using assms
proof (induction nodes arbitrary: mx w)
  case (Cons p nodes)
  show ?case
  proof (cases "executors p > mx")
    case True
    then have "fold any_worker nodes (executors p, fst p) = (mx', w')"
      using Cons.prems by (simp add: any_worker_step)
    from Cons.IH [OF this] True show ?thesis by auto
  next
    case False
    then have "fold any_worker nodes (mx, w) = (mx', w')"
      using Cons.prems by (simp add: any_worker_step)
    from Cons.IH [OF this] False show ?thesis by auto
  qed
qed simp

lemma avail_of_mem: "um_wf nodes \<Longrightarrow> p \<in> set nodes \<Longrightarrow> avail_of nodes (fst p) = executors p"
  by (cases p) (simp add: avail_of_def)

lemma pick_worker_nodes:
  assumes "pick_worker ips nodes = (w, nodes')"
  shows "avail_of nodes' = avail_of nodes \<and> total_executors nodes' = total_executors nodes \<and>
    (um_wf nodes \<longrightarrow> um_wf nodes')"
  using assms fold_data_worker_nodes [of ips 0 "[]" nodes] um_wf_data_workers [of nodes ips 0 "[]"]
  by (auto simp: pick_worker_def Let_def split_beta split: if_splits)

lemma pick_worker_data:
  assumes "pick_worker ips nodes = (w, nodes')" and "[] \<notin> set ips"
    and "ip \<in> set ips" and "0 < avail_of nodes ip"
  shows "w \<in> set ips \<and> w \<noteq> [] \<and> (\<forall>ip\<in>set ips. avail_of nodes ip \<le> avail_of nodes w)"
proof -
  obtain mx w1 n1 where f: "fold data_worker ips (0, [], nodes) = (mx, w1, n1)" by (metis prod_cases3)
  from fold_data_worker [OF f] assms(3,4) have "w1 \<in> set ips" "avail_of nodes w1 = mx"
    "\<forall>ip\<in>set ips. avail_of nodes ip \<le> mx" by fastforce+
  moreover from this have "w1 \<noteq> []" using assms(2) by auto
  moreover have "w = w1" using assms(1) f \<open>w1 \<noteq> []\<close> by (simp add: pick_worker_def)
  ultimately show ?thesis by simp
qed

lemma pick_worker_avail:
  assumes "pick_worker ips nodes = (w, nodes')" and "um_wf nodes" and "w \<noteq> []"
  shows "0 < avail_of nodes w"
proof -
  obtain mx w1 n1 where f: "fold data_worker ips (0, [], nodes) = (mx, w1, n1)" by (metis prod_cases3)
  note fd = fold_data_worker [OF f]
  show ?thesis
  proof (cases "w1 = []")
    case True
    obtain mx2 w2 where g: "fold any_worker n1 (mx, w1) = (mx2, w2)" by fastforce
    have w: "w = w2" using assms(1) f g True by (auto simp: pick_worker_def)
    have "um_wf n1" "avail_of n1 = avail_of nodes"
      using um_wf_data_workers [OF assms(2), of ips 0 "[]"] fold_data_worker_nodes [of ips 0 "[]" nodes] f
      by simp_all
    moreover obtain p where "p \<in> set n1" "fst p = w2" "executors p = mx2" "mx < mx2"
      using fold_any_worker [OF g] assms(3) w True by auto
    ultimately show ?thesis using avail_of_mem [of n1 p] fd w by auto
  next
    case False
    then show ?thesis using fd assms(1) f by (auto simp: pick_worker_def)
  qed
qed

subsection \<open>Slots and calls\<close>

definition is_call :: "Address \<times> wire \<Rightarrow> bool" where
  "is_call = (\<lambda>(address, msg). case msg of W_FunctionCall _ \<Rightarrow> True | _ \<Rightarrow> False)"

definition calls_sent :: "sends \<Rightarrow> int" where
  "calls_sent out = int (length (filter is_call out))"

lemma calls_sent_append [simp]: "calls_sent (out @ out') = calls_sent out + calls_sent out'"
  by (simp add: calls_sent_def)

lemma calls_sent_Nil [simp]: "calls_sent [] = 0"
  by (simp add: calls_sent_def)

lemma calls_sent_call [simp]: "calls_sent [(a, W_FunctionCall c)] = 1"
  by (simp add: calls_sent_def is_call_def)

text \<open>No node has fewer than zero executors on the books, and the calls sent are the executors taken.\<close>

definition slots_ok :: "(Address, NodeStatus) umap \<Rightarrow> sends \<Rightarrow> coord \<times> sends \<Rightarrow> bool" where
  "slots_ok nodes out r \<longleftrightarrow> um_wf (node_status_map (fst r)) \<and>
     (\<forall>ip. 0 \<le> avail_of (node_status_map (fst r)) ip) \<and>
     total_executors (node_status_map (fst r)) + calls_sent (snd r) = total_executors nodes + calls_sent out"

lemma dispatch_slots:
  assumes run: "dispatch_action env resp bk flag r action = Inr r'" and ok: "slots_ok nodes out r"
  shows "slots_ok nodes out r'"
proof -
  obtain st o1 where r: "r = (st, o1)" by fastforce
  let ?st1 = "st\<lparr>bucket_app_map := um_touch [] (bk_bucket bk) (bucket_app_map st)\<rparr>"
  obtain args ips where
    args: "call_arguments ?st1 (bk_bucket bk) flag (ta_session_keys action) = Inr (args, ips)"
    using run r by (auto simp: dispatch_action_def Let_def rbind_eq_Inr)
  obtain w nodes2 where w: "pick_worker ips (node_status_map st) = (w, nodes2)" by fastforce
  note n2 = pick_worker_nodes [OF w]
  have wf: "um_wf (node_status_map st)" and nn: "\<And>ip. 0 \<le> avail_of (node_status_map st) ip"
    using ok r by (auto simp: slots_ok_def)
  show ?thesis
  proof (cases "w = []")
    case True
    then show ?thesis using run ok r args w n2 by (auto simp: dispatch_action_def Let_def slots_ok_def)
  next
    case False
    have "0 < avail_of (node_status_map st) w" by (rule pick_worker_avail [OF w wf False])
    then have nn': "0 \<le> avail_of (take_slot w nodes2) ip" for ip using n2 nn [of ip] by simp
    obtain st3 a c where "node_status_map (fst r') = take_slot w nodes2" "snd r' = o1 @ [(a, W_FunctionCall c)]"
      using run r args w False
      by (auto simp: dispatch_action_def Let_def rbind_eq_Inr dest!: rand_mod_frame')
    then show ?thesis using ok r n2 nn' wf by (simp add: slots_ok_def)
  qed
qed

lemma notify_triggers_slots:
  assumes "notify_triggers env now resp active bk ts r = Inr (ts', names, r')" and "slots_ok nodes out r"
  shows "slots_ok nodes out r'"
  using assms
proof (induction ts arbitrary: r ts' names)
  case Nil
  then show ?case by (cases r) auto
next
  case (Cons t ts)
  obtain st o1 where r: "r = (st, o1)" by fastforce
  let ?acts = "fst (action_for_new_object now bk t)" and ?t = "snd (action_for_new_object now bk t)"
  show ?case
  proof (cases "get_trigger_name ?t \<in> set active \<or> ?acts = []")
    case True
    then obtain ts1 names1 where "notify_triggers env now resp active bk ts r = Inr (ts1, names1, r')"
      using Cons.prems(1) r by (auto simp: Let_def split_beta rbind_eq_Inr)
    then show ?thesis by (rule Cons.IH [OF _ Cons.prems(2)])
  next
    case False
    then obtain r1 ts1 names1 where
      d: "rfold (dispatch_action env resp bk (get_trigger_option ?t + 1)) r ?acts = Inr r1"
      and n: "notify_triggers env now resp active bk ts r1 = Inr (ts1, names1, r')"
      using Cons.prems(1) r by (auto simp: Let_def split_beta rbind_eq_Inr)
    have "slots_ok nodes out r1"
      by (rule rfold_invariant [OF d, of "slots_ok nodes out"]) (use Cons.prems(2) dispatch_slots in auto)
    then show ?thesis by (rule Cons.IH [OF n])
  qed
qed

lemma calls_sent_sync [simp]: "calls_sent (snd (sync_nodes bk names st)) = 0"
  by (simp add: sync_nodes_def Let_def calls_sent_def is_call_def comp_def)

lemma sync_nodes_status [simp]: "node_status_map (fst (sync_nodes bk names st)) = node_status_map st"
  by (simp add: sync_nodes_def Let_def)

lemma run_bucket_triggers_slots:
  assumes "run_bucket_triggers env now resp active bk st = Inr (st', out')"
    and "slots_ok nodes out (st, o1)"
  shows "slots_ok nodes out (st', o1 @ out')"
proof -
  have "slots_ok (node_status_map st) [] (st, [])" using assms(2) by (simp add: slots_ok_def)
  then show ?thesis
    using assms notify_triggers_slots
    by (fastforce simp: run_bucket_triggers_def rbind_eq_Inr Let_def split_beta slots_ok_def)
qed

lemma store_object_status:
  "store_object address st = Inr (st', c) \<Longrightarrow> node_status_map st' = node_status_map st"
  by (auto simp: store_object_def Let_def rbind_eq_Inr split: list.splits if_splits)

lemma notify_addresses_slots:
  assumes "slots_ok nodes out (st, o1)" and "notify_addresses env now resp active addresses st = Inr (st', out')"
  shows "slots_ok nodes out (st', o1 @ out')"
  using assms
proof (induction addresses arbitrary: st o1 out')
  case (Cons address rest)
  obtain st1 continue where store: "store_object address st = Inr (st1, continue)"
    using Cons.prems(2) by (auto simp: rbind_eq_Inr)
  have ok1: "slots_ok nodes out (st1, o1)"
    using Cons.prems(1) store_object_status [OF store] by (simp add: slots_ok_def)
  show ?case
  proof (cases continue)
    case True
    then obtain st2 out2 out3 where
      r: "run_bucket_triggers env now resp active (get_bucket_key_from_addr address) st1 = Inr (st2, out2)"
      and n: "notify_addresses env now resp active rest st2 = Inr (st', out3)" and "out' = out2 @ out3"
      using Cons.prems(2) store by (auto simp: rbind_eq_Inr)
    then show ?thesis
      using Cons.IH [OF run_bucket_triggers_slots [OF r ok1] n] by simp
  qed (use Cons.prems(2) store ok1 in auto)
qed simp

subsection \<open>Function calls\<close>

lemma cut_requests_session:
  assumes "cut_requests routed nodes loads i part reqs scheduled = Inr sched"
    and "\<forall>(ip, c)\<in>set scheduled. fc_session_id c = fc_session_id routed \<and> fc_request_id c = fc_request_id routed"
  shows "\<forall>(ip, c)\<in>set sched. fc_session_id c = fc_session_id routed \<and> fc_request_id c = fc_request_id routed"
  using assms
proof (induction reqs arbitrary: i part scheduled)
  case (Cons req reqs)
  let ?ok = "\<lambda>m. \<forall>(ip, c)\<in>set m. fc_session_id c = fc_session_id routed \<and> fc_request_id c = fc_request_id routed"
  have "?ok (um_put k (routed\<lparr>fc_requests := rs\<rparr>) scheduled)" for k rs
    using set_um_put [of k "routed\<lparr>fc_requests := rs\<rparr>" scheduled] Cons.prems(2) by fastforce
  then show ?case
    using Cons by (auto simp: Let_def split: if_splits)
qed simp

end
