(* ===== verification/Coordinator.thy ===== *)
theory Coordinator
  imports Coord_Workers
begin

text \<open>
  The event loop of a coordinator thread (\<open>run\<close> in \<^verbatim>\<open>coordinator.cpp\<close>). Each round of the loop
  handles at most one message per socket; a run is the sequence of the messages in the order in which
  they are handled, so every interleaving of the sockets is a run.
\<close>

subsection \<open>Events\<close>

datatype coord_event =
    Ev_Notify TimePoint KeyNotifyRequest
  | Ev_Query KeyQueryRequest
  | Ev_BucketOp BucketOperationRequest
  | Ev_TriggerOp TimePoint TriggerOperationRequest
  | Ev_UpdateStatus TimePoint UpdateStatusMessage
  | Ev_FuncCreate
  | Ev_AppRegist TimePoint AppRegistration
  | Ev_FuncCall FunctionCall
  | Ev_ForwardFunc FunctionCall

datatype failure = Throws cpp_error | NoReturn

definition of_res :: "'a res \<Rightarrow> failure + 'a" where
  "of_res r = (case r of Inl e \<Rightarrow> Inl (Throws e) | Inr a \<Rightarrow> Inr a)"

definition of_res_option :: "'a res option \<Rightarrow> failure + 'a" where
  "of_res_option r = (case r of None \<Rightarrow> Inl NoReturn | Some x \<Rightarrow> of_res x)"

lemma of_res_simps [simp]:
  "of_res r = Inr a \<longleftrightarrow> r = Inr a" "of_res_option ro = Inr a \<longleftrightarrow> ro = Some (Inr a)"
  by (auto simp: of_res_def of_res_option_def split: sum.splits option.splits)

text \<open>What a thread sends before it enters the loop.\<close>

definition coord_start :: "coord_env \<Rightarrow> sends" where
  "coord_start env =
     [(ce_management_address env,
       W_CoordSync \<lparr>cs_public_ip = ce_public_ip env, cs_private_ip = ce_private_ip env,
                    cs_thread_id = ce_thread_id env\<rparr>)]"

fun coord_handle :: "coord_env \<Rightarrow> coord \<Rightarrow> coord_event \<Rightarrow> failure + (coord \<times> (Address \<times> wire) list)" where
  "coord_handle env st (Ev_Notify now req) = of_res (notify_handler env now req st)"
| "coord_handle env st (Ev_Query req) = Inr (query_handler req st)"
| "coord_handle env st (Ev_BucketOp req) = Inr (bucket_op_handler req st)"
| "coord_handle env st (Ev_TriggerOp now req) = of_res (trigger_op_handler env now req st)"
| "coord_handle env st (Ev_UpdateStatus now msg) = Inr (update_status_handler now msg st, [])"
| "coord_handle env st Ev_FuncCreate = Inr (st, [])"
| "coord_handle env st (Ev_AppRegist now reg) = of_res (app_register_handler env now reg st)"
| "coord_handle env st (Ev_FuncCall msg) = of_res_option (func_call_handler env msg st)"
| "coord_handle env st (Ev_ForwardFunc msg) = of_res_option (func_call_handler env msg st)"

subsection \<open>Addresses stay on record\<close>

definition addr_grows :: "address_map \<Rightarrow> address_map \<Rightarrow> bool" where
  "addr_grows m m' \<longleftrightarrow> (\<forall>b k as. recorded m b k = Some as \<longrightarrow>
     (\<exists>as'. recorded m' b k = Some as' \<and> set as \<subseteq> set as'))"

lemma addr_grows_refl [simp]: "addr_grows m m"
  by (auto simp: addr_grows_def)

lemma addr_grows_trans: "addr_grows m m' \<Longrightarrow> addr_grows m' m'' \<Longrightarrow> addr_grows m m''"
  by (fastforce simp: addr_grows_def)

lemma addr_grows_update: "addr_grows m (update_address bk a m)"
  by (auto simp: addr_grows_def recorded_update)

lemma store_object_grows:
  "store_object address st = Inr (st', c) \<Longrightarrow>
     addr_grows (bucket_key_address_map st) (bucket_key_address_map st')"
  by (auto simp: store_object_def Let_def rbind_eq_Inr addr_grows_update split: list.splits if_splits)

lemma notify_addresses_grows:
  assumes "coord_inv st" and "notify_addresses env now resp active addresses st = Inr (st', out)"
  shows "addr_grows (bucket_key_address_map st) (bucket_key_address_map st')"
  using assms
proof (induction addresses arbitrary: st out)
  case (Cons address rest)
  obtain st1 continue where store: "store_object address st = Inr (st1, continue)"
    using Cons.prems(2) by (auto simp: rbind_eq_Inr)
  note inv1 = store_object_inv [OF Cons.prems(1) store] and grows = store_object_grows [OF store]
  show ?case
  proof (cases continue)
    case True
    then obtain st2 out2 out3 where
      r: "run_bucket_triggers env now resp active (get_bucket_key_from_addr address) st1 = Inr (st2, out2)"
      and n: "notify_addresses env now resp active rest st2 = Inr (st', out3)"
      using Cons.prems(2) store by (auto simp: rbind_eq_Inr)
    have "coord_inv st2 \<and> bucket_key_address_map st2 = bucket_key_address_map st1"
      using run_bucket_triggers_inv [OF _ r] inv1 True by (simp add: get_bucket_key_from_addr_def)
    then show ?thesis using Cons.IH [OF _ n] grows addr_grows_trans by auto
  qed (use Cons.prems(2) store grows in auto)
qed simp

lemma add_trigger_addresses:
  "add_trigger env now req msg st = Inr (st', msg') \<Longrightarrow> bucket_key_address_map st' = bucket_key_address_map st"
  by (auto simp: add_trigger_def Let_def split: option.splits)

lemma trigger_op_addresses:
  "trigger_op_handler env now req st = Inr (st', out) \<Longrightarrow>
     bucket_key_address_map st' = bucket_key_address_map st"
  by (cases "tor_operation_type req")
    (auto simp: trigger_op_handler_def delete_trigger_def Let_def rbind_eq_Inr split: if_splits
      dest: add_trigger_addresses)

lemma register_dependency_addresses:
  assumes "register_dependency env now app (st, msg) dep = Inr (st', msg')"
  shows "bucket_key_address_map st' = bucket_key_address_map st"
  using assms
  by (cases "dd_type dep")
    (auto simp: register_dependency_def claim_bucket_def add_app_trigger_def Let_def rbind_eq_Inr split: if_splits)

lemma app_register_addresses:
  assumes run: "app_register_handler env now reg st = Inr (st', out)"
  shows "bucket_key_address_map st' = bucket_key_address_map st"
proof -
  obtain msg msg' where "rfold (register_dependency env now (ar_app_name reg)) (st, msg) (ar_dependencies reg)
      = Inr (st', msg')"
    using run by (auto simp: app_register_handler_def Let_def rbind_eq_Inr)
  then have "bucket_key_address_map (fst (st', msg')) = bucket_key_address_map st"
    by (rule rfold_invariant) (auto dest: register_dependency_addresses)
  then show ?thesis by simp
qed

lemma bucket_op_addresses:
  "bucket_key_address_map (fst (bucket_op_handler req st)) = bucket_key_address_map st"
  by (cases "bor_operation_type req") (auto simp: bucket_op_handler_def Let_def)

subsection \<open>The loop keeps the invariant\<close>

lemma coord_handle_keeps:
  assumes inv: "coord_inv st" and run: "coord_handle env st e = Inr (st', out)"
  shows "coord_inv st' \<and> addr_grows (bucket_key_address_map st) (bucket_key_address_map st')"
proof (cases e)
  case (Ev_Notify now req)
  then show ?thesis
    using run notify_handler_inv [OF inv] notify_addresses_grows [OF inv]
    by (auto simp: notify_handler_def)
next
  case (Ev_Query req)
  then show ?thesis using run inv by (auto simp: query_handler_def Let_def split_beta)
next
  case (Ev_BucketOp req)
  then show ?thesis using run bucket_op_inv [OF inv, of req] bucket_op_addresses [of req st] by simp
next
  case (Ev_TriggerOp now req)
  then show ?thesis using run trigger_op_inv [OF inv] trigger_op_addresses by auto
next
  case (Ev_UpdateStatus now msg)
  then show ?thesis
    using run update_status_inv [OF inv, of now msg] by (auto simp: update_status_handler_def Let_def)
next
  case (Ev_AppRegist now reg)
  then show ?thesis using run app_register_inv [OF inv] app_register_addresses by auto
next
  case (Ev_FuncCall msg)
  then have "seed_only st st'" using run func_call_frame by simp
  then show ?thesis using inv seed_only_inv by (auto simp: seed_only_def dest: arg_cong [of _ _ bucket_key_address_map])
next
  case (Ev_ForwardFunc msg)
  then have "seed_only st st'" using run func_call_frame by simp
  then show ?thesis using inv seed_only_inv by (auto simp: seed_only_def dest: arg_cong [of _ _ bucket_key_address_map])
qed (use run inv in simp)

interpretation coord_sys: step_system "coord_handle env" coord_inv for env
  by unfold_locales (use coord_handle_keeps in blast)

interpretation coord_addr: step_system "coord_handle env"
  "\<lambda>st. coord_inv st \<and> addr_grows m (bucket_key_address_map st)" for env m
  by unfold_locales (use coord_handle_keeps addr_grows_trans in blast)

end
