(* ===== verification/Coord_Properties.thy ===== *)
theory Coord_Properties
  imports Coordinator Sample_Codec
begin

text \<open>The properties of the coordinator.\<close>

definition sample_env :: coord_env where
  "sample_env =
     \<lparr>ce_private_ip = ''10.0.0.1'', ce_public_ip = ''1.2.3.4'', ce_thread_id = 0, ce_io_thread_num = 1,
      ce_management_address = ''tcp://10.0.0.9:6001'', ce_codec = sample_codec, ce_rand_r = (\<lambda>s. (7, s))\<rparr>"

definition sample_notify :: KeyNotifyRequest where
  "sample_notify =
     \<lparr>knr_response_address = [],
      knr_addresses = [\<lparr>bka_bucket = ''B'', bka_key = ''k'', bka_session = ''s'',
                        bka_ips = [''tcp://10.0.0.2:4400''], bka_payload = []\<rparr>],
      knr_active_trigger_names = [], knr_request_id = []\<rparr>"

definition sample_create :: BucketOperationRequest where
  "sample_create = \<lparr>bor_operation_type = CREATE_BUCKET, bor_app_name = ''A'', bor_bucket_name = ''B'',
     bor_request_id = [], bor_response_address = ''r''\<rparr>"

lemma sample_ip: "ip_of_address ''tcp://10.0.0.2:4400'' = Inr ''10.0.0.2''"
  by (simp add: ip_of_address_def substr_def str_find_def)

lemmas sample_defs = sample_env_def sample_notify_def sample_create_def

lemma sample_ok:
  "ce_io_thread_num sample_env \<noteq> 0" "list_all reachable_ip (knr_addresses sample_notify)"
  by (simp_all add: sample_defs reachable_ip_def sample_ip)

text \<open>C1. In every state that a coordinator reaches, a notification whose objects name a server is
  handled: the handler returns, no address set is dereferenced when it is empty, and no lookup fails,
  whatever triggers the bucket has.\<close>

theorem notify_never_fails:
  assumes "run_events (coord_handle env) (init_coord seed) events = Inr (st, sent)"
    and "ce_io_thread_num env \<noteq> 0" and "list_all reachable_ip (knr_addresses req)"
  shows "\<exists>st' out. notify_handler env now req st = Inr (st', out) \<and> coord_inv st'"
proof -
  have inv: "coord_inv st" by (rule coord_sys.run_inv [OF coord_inv_init assms(1)])
  obtain st' out where "notify_handler env now req st = Inr (st', out)"
    by (rule notify_handler_total [OF assms(2) inv assms(3)])
  then show ?thesis using notify_handler_inv [OF inv] by blast
qed

theorem notify_never_fails_witness:
  "\<exists>st sent st' out.
     run_events (coord_handle sample_env) (init_coord 0) [Ev_BucketOp sample_create] = Inr (st, sent) \<and>
     notify_handler sample_env 0 sample_notify st = Inr (st', out)"
proof -
  obtain st sent where
    run: "run_events (coord_handle sample_env) (init_coord 0) [Ev_BucketOp sample_create] = Inr (st, sent)"
    by (cases "bucket_op_handler sample_create (init_coord 0)") auto
  show ?thesis using notify_never_fails [OF run sample_ok] run by blast
qed

text \<open>C13. A recorded address is never lost: once an object's address is on record, after any further
  messages a query for the object succeeds and its reply lists that address.\<close>

theorem recorded_then_found:
  assumes "run_events (coord_handle env) (init_coord seed) events = Inr (st, sent)"
    and "recorded (bucket_key_address_map st) b k = Some as" and "a \<in> set as"
    and "run_events (coord_handle env) st later = Inr (st', sent')"
  shows "gar_error (get_address \<lparr>bk_bucket = b, bk_key = k, bk_session = s\<rparr> (bucket_key_address_map st')) = SUCCESS \<and>
    a \<in> set (gar_addr (get_address \<lparr>bk_bucket = b, bk_key = k, bk_session = s\<rparr> (bucket_key_address_map st')))"
proof -
  have inv: "coord_inv st" by (rule coord_sys.run_inv [OF coord_inv_init assms(1)])
  have "coord_inv st' \<and> addr_grows (bucket_key_address_map st) (bucket_key_address_map st')"
    by (rule coord_addr.run_inv [OF _ assms(4)]) (simp add: inv)
  then obtain as' where "recorded (bucket_key_address_map st') b k = Some as'" "a \<in> set as'"
    using assms(2,3) by (fastforce simp: addr_grows_def)
  then show ?thesis by (auto simp: get_address_def recorded_def split: option.splits)
qed

theorem recorded_then_found_witness:
  "\<exists>st sent. run_events (coord_handle sample_env) (init_coord 0)
       [Ev_BucketOp sample_create, Ev_Notify 0 sample_notify] = Inr (st, sent) \<and>
     gar_error (get_address \<lparr>bk_bucket = ''B'', bk_key = ''k'', bk_session = []\<rparr>
       (bucket_key_address_map st)) = SUCCESS"
proof -
  let ?es = "[Ev_BucketOp sample_create, Ev_Notify 0 sample_notify]"
  obtain st sent where
    run: "run_events (coord_handle sample_env) (init_coord 0) ?es = Inr (st, sent)"
    and rec: "recorded (bucket_key_address_map st) ''B'' ''k'' = Some [''tcp://10.0.0.2:4400'']"
    by (simp add: sample_defs init_coord_def bucket_op_handler_def notify_handler_def store_object_def
        sample_ip get_bucket_key_from_addr_def run_bucket_triggers_def sync_nodes_def of_res_def
        recorded_def update_address_def um_alter_def us_insert_def um_get_def Let_def)
  show ?thesis
    using recorded_then_found [OF run rec, where a = "''tcp://10.0.0.2:4400''" and later = "[]" and s = "[]"] run
    by auto
qed

text \<open>C14. Executor slots are accounted for: when no node has a negative number of available executors,
  handling a notification keeps it so, and the executors on the books decrease by exactly the number
  of function calls that are sent.\<close>

theorem notify_conserves_slots:
  assumes "um_wf (node_status_map st)" and "\<forall>ip. 0 \<le> avail_of (node_status_map st) ip"
    and "notify_handler env now req st = Inr (st', out)"
  shows "(\<forall>ip. 0 \<le> avail_of (node_status_map st') ip) \<and>
    total_executors (node_status_map st') + calls_sent out = total_executors (node_status_map st)"
proof -
  have "slots_ok (node_status_map st) [] (st, [])" using assms(1,2) by (simp add: slots_ok_def)
  from notify_addresses_slots [OF this assms(3) [unfolded notify_handler_def]]
  show ?thesis by (simp add: slots_ok_def)
qed

definition slots_coord :: coord where
  "slots_coord = (init_coord 0)
     \<lparr>bucket_app_map := [(''B'', ''A'')], bucket_triggers_map := [(''B'', [Immediate (new_ImmediateTrigger ''f'' ''t'')])],
      node_status_map := [(''10.0.0.2'', \<lparr>ns_tp = 0, ns_avail_executors = 3, ns_functions = []\<rparr>)]\<rparr>"

lemma slots_coord_sends:
  "case notify_handler sample_env 0 sample_notify slots_coord of Inl _ \<Rightarrow> False | Inr (st', out) \<Rightarrow> calls_sent out = 1"
  by (simp add: notify_handler_def sample_notify_def slots_coord_def init_coord_def store_object_def run_bucket_triggers_def
      dispatch_action_def call_arguments_def reference_arg_def pick_worker_def data_worker_def rand_mod_def sample_env_def
      sync_nodes_def sample_ip calls_sent_def is_call_def get_bucket_key_from_addr_def update_address_def new_defs getter_defs
      Trigger.defs immediate_action_def us_of_list_def get_local_object_name_def kDelimiter_def get_key_session_name_def
      um_alter_def um_get_def um_touch_def us_insert_def no_NodeStatus_def Let_def)

theorem notify_conserves_slots_witness:
  "\<exists>st' out. notify_handler sample_env 0 sample_notify slots_coord = Inr (st', out) \<and> calls_sent out = 1 \<and>
     total_executors (node_status_map st') = 2"
proof -
  obtain st' out where run: "notify_handler sample_env 0 sample_notify slots_coord = Inr (st', out)" "calls_sent out = 1"
    using slots_coord_sends by (auto split: sum.splits prod.splits)
  have "total_executors (node_status_map slots_coord) = 3" "um_wf (node_status_map slots_coord)"
      "\<forall>ip. 0 \<le> avail_of (node_status_map slots_coord) ip"
    by (simp_all add: slots_coord_def total_executors_def avail_of_def um_get_def no_NodeStatus_def)
  then show ?thesis using notify_conserves_slots [OF _ _ run(1)] run by auto
qed

text \<open>Data locality: when a node that holds data of the call has an available executor, the call
  goes to a node that holds data, and no such node has more available executors.\<close>

theorem worker_near_data:
  assumes "pick_worker data_node nodes = (w, nodes')" and "[] \<notin> set data_node"
    and "ip \<in> set data_node" and "0 < avail_of nodes ip"
  shows "w \<in> set data_node \<and> list_all (\<lambda>ip. avail_of nodes ip \<le> avail_of nodes w) data_node"
  using pick_worker_data [OF assms] by (simp add: list_all_iff)

theorem worker_near_data_witness:
  "fst (pick_worker [''a''] [(''b'', \<lparr>ns_tp = 0, ns_avail_executors = 5, ns_functions = []\<rparr>),
      (''a'', \<lparr>ns_tp = 0, ns_avail_executors = 1, ns_functions = []\<rparr>)]) = ''a''"
  using worker_near_data [of "[''a'']" "[(''b'', \<lparr>ns_tp = 0, ns_avail_executors = 5, ns_functions = []\<rparr>),
      (''a'', \<lparr>ns_tp = 0, ns_avail_executors = 1, ns_functions = []\<rparr>)]" _ _ "''a''", OF prod.collapse [symmetric]]
  by (simp add: avail_of_def)

end
