(* ===== verification/Coord_Op_Properties.thy ===== *)
theory Coord_Op_Properties
  imports Coord_Properties
begin

text \<open>More properties of the coordinator: calls, triggers and registrations.\<close>

text \<open>C2. A batch for which the nodes have enough executors in total is always scheduled: dealing it
  out ends, every request is in exactly one of the calls and they are in order, each node gets at most
  one call, and no call has more requests than its node has available executors.\<close>

theorem batch_is_partitioned:
  assumes "um_wf nodes" and "fc_requests msg \<noteq> []"
    and "int (length (fc_requests msg)) \<le> sum_list (map executors (eligible (fc_source msg) nodes))"
  shows "\<exists>sched. schedule_batch msg nodes = Some (Inr sched) \<and> good_schedule msg nodes sched"
  by (rule schedule_batch_good [OF assms])

definition sample_node :: "int \<Rightarrow> NodeStatus" where
  "sample_node n = \<lparr>ns_tp = 0, ns_avail_executors = n, ns_functions = []\<rparr>"

definition sample_call :: FunctionCall where
  "sample_call = no_FunctionCall\<lparr>fc_app_name := ''A'', fc_session_id := ''s'', fc_request_id := ''q'',
     fc_requests := [\<lparr>fr_name = ''f'', fr_arguments = []\<rparr>, \<lparr>fr_name = ''g'', fr_arguments = []\<rparr>]\<rparr>"

theorem batch_is_partitioned_witness:
  "\<exists>sched. schedule_batch sample_call [(''a'', sample_node 1), (''b'', sample_node 1)] = Some (Inr sched) \<and>
     concat (map (fc_requests \<circ> snd) sched) = fc_requests sample_call"
  using batch_is_partitioned [of "[(''a'', sample_node 1), (''b'', sample_node 1)]" sample_call]
  by (auto simp: sample_call_def sample_node_def no_FunctionCall_def is_eligible_def good_schedule_def)

text \<open>When the nodes can take a call: a batch needs as many executors as it has requests, on nodes other than the one
  that issued the call; a single request needs a node.\<close>

definition call_fits :: "FunctionCall \<Rightarrow> (Address, NodeStatus) umap \<Rightarrow> bool" where
  "call_fits msg nodes \<longleftrightarrow>
     (if length (fc_requests msg) > 1
      then int (length (fc_requests msg)) \<le> sum_list (map executors (eligible (fc_source msg) nodes))
      else nodes \<noteq> [])"

text \<open>Every request goes to exactly one node, in order, and each node gets at most one call.\<close>

definition covers :: "FunctionCall \<Rightarrow> (Address, NodeStatus) umap \<Rightarrow> (Address, FunctionCall) umap \<Rightarrow> bool" where
  "covers msg nodes sched \<longleftrightarrow>
     sched \<noteq> [] \<and> um_wf sched \<and> fst ` set sched \<subseteq> fst ` set nodes \<and>
     concat (map (fc_requests \<circ> snd) sched) = fc_requests msg"

definition call_refused :: "FunctionCall \<Rightarrow> FunctionCallResponse" where
  "call_refused msg = no_FunctionCallResponse
     \<lparr>fcr_app_name := fc_app_name msg, fcr_request_id := fc_request_id msg, fcr_error_no := 1\<rparr>"

lemma good_schedule_covers: "good_schedule msg nodes sched \<Longrightarrow> fc_requests msg \<noteq> [] \<Longrightarrow> covers msg nodes sched"
  by (force simp: good_schedule_def covers_def list_all_iff)

lemma max_executors_le: "sc_max_executors (scan_nodes source nodes) \<le> sum_list (map executors (eligible source nodes))"
proof -
  have le: "(0 :: int) \<le> sum_list xs \<and> (\<forall>x\<in>set xs. x \<le> sum_list xs)" if "\<forall>x\<in>set xs. 0 \<le> x" for xs
    using that by (induction xs) fastforce+
  have "\<forall>x\<in>set (map executors (eligible source nodes)). 0 \<le> x" by (auto simp: is_eligible_def)
  from le [OF this] scan_nodes_max [of source nodes] show ?thesis by force
qed

lemma max_node_known:
  assumes "max_node source nodes = (mx, node)" "0 < mx"
  shows "node \<in> fst ` set nodes"
proof -
  define step where "step = (\<lambda>(ip, status :: NodeStatus) (mx, node).
    if source \<noteq> [] \<and> source = ip then (mx, node)
    else if ns_avail_executors status > mx then (ns_avail_executors status, ip) else (mx, node))"
  have one: "step p r = r \<or> snd (step p r) = fst p" for p r by (auto simp: step_def split: prod.splits)
  have "fold step nodes r = r \<or> snd (fold step nodes r) \<in> fst ` set nodes" for r
  proof (induction nodes arbitrary: r)
    case (Cons p nodes)
    show ?case using Cons.IH [of "step p r"] one [of p r] by auto
  qed simp
  from this [of "(0, [])"] show ?thesis using assms by (auto simp: max_node_def step_def)
qed

lemma schedule_call_covers:
  assumes "um_wf (node_status_map st)"
  shows "\<exists>sched st'. schedule_call env c st = Some (Inr (sched, st')) \<and>
    (if call_fits c (node_status_map st) then covers c (node_status_map st) sched else sched = [])"
proof (cases "length (fc_requests c) > 1")
  case batch: True
  then have ne: "fc_requests c \<noteq> []" by auto
  show ?thesis
  proof (cases "call_fits c (node_status_map st)")
    case True
    then show ?thesis
      using schedule_batch_good [OF assms ne] good_schedule_covers [OF _ ne] batch
      by (fastforce simp: call_fits_def schedule_call_def)
  next
    case False
    then show ?thesis using batch max_executors_le [of "fc_source c" "node_status_map st"]
      by (auto simp: call_fits_def schedule_call_def schedule_batch_def scan_nodes_laws Let_def)
  qed
next
  case single: False
  obtain mx node where m: "max_node (fc_source c) (node_status_map st) = (mx, node)" by fastforce
  show ?thesis
  proof (cases "0 < mx \<or> node_status_map st = []")
    case True
    have "mx = 0" if "node_status_map st = []" using m that by (simp add: max_node_def)
    then show ?thesis using True single m max_node_known [OF m]
      by (auto simp: call_fits_def covers_def schedule_call_def schedule_single_def Let_def)
  next
    case False
    then obtain i st' where "rand_mod env (length (node_status_map st)) st = Inr (i, st')" "i < length (node_status_map st)"
      using rand_mod_total [of "length (node_status_map st)" env st] by auto
    then show ?thesis using False single m
      by (auto simp: call_fits_def covers_def schedule_call_def schedule_single_def Let_def)
  qed
qed

text \<open>C15. The coordinator answers a function call in exactly one of two ways. If the nodes can take it (a batch needs as
  many executors in total as it has requests, a single request some node), calls are sent to function ports of known
  nodes, at most one to each node, that together have every request once and in order. Otherwise nothing is sent to
  the nodes, and the client gets one error response if it gave an address, and no answer if it did not.\<close>

theorem func_call_is_answered:
  assumes "um_wf (node_status_map st)" and "ce_io_thread_num env \<noteq> 0"
  shows "\<exists>st' out. func_call_handler env msg st = Some (Inr (st', out)) \<and>
    (if call_fits msg (node_status_map st) then
       \<exists>sched ios. covers msg (node_status_map st) sched \<and> length ios = length sched \<and>
         (\<forall>io\<in>set ios. io < unat (ce_io_thread_num env)) \<and>
         out = map2 (\<lambda>(ip, part) io. (get_func_exec_address ip (of_nat io), W_FunctionCall part)) sched ios
     else out = (if fc_resp_address msg = [] then []
                 else [(fc_resp_address msg, W_FunctionCallResponse (call_refused msg))]))"
proof -
  obtain c st1 where w: "with_session env msg st = (c, st1)" by fastforce
  have c: "node_status_map st1 = node_status_map st" "fc_resp_address c = fc_resp_address msg"
      "call_fits c = call_fits msg" "covers c = covers msg" "call_refused c = call_refused msg"
    using w by (auto simp: with_session_def call_fits_def covers_def call_refused_def Let_def fun_eq_iff
        split: if_splits prod.splits)
  obtain sched st2 where s: "schedule_call env c st1 = Some (Inr (sched, st2))"
      "if call_fits msg (node_status_map st) then covers msg (node_status_map st) sched else sched = []"
    using schedule_call_covers [of st1 env c] assms(1) unfolding c by auto
  show ?thesis
  proof (cases "call_fits msg (node_status_map st)")
    case False
    then show ?thesis using s c by (simp add: func_call_handler_def w answer_call_def call_refused_def)
  next
    case True
    then have "sched \<noteq> []" using s(2) by (simp add: covers_def)
    moreover obtain st' ios where
      "send_calls env sched st2 =
        Inr (st', map2 (\<lambda>(ip, msg) io. (get_func_exec_address ip (of_nat io), W_FunctionCall msg)) sched ios)"
      "length ios = length sched" "\<forall>io\<in>set ios. io < unat (ce_io_thread_num env)"
      using send_calls_total [OF assms(2), of sched st2] by blast
    ultimately show ?thesis using s True by (auto simp: func_call_handler_def w answer_call_def)
  qed
qed

theorem func_call_is_answered_witness:
  "\<exists>st' out (sched :: (Address, FunctionCall) umap). func_call_handler sample_env sample_call
       ((init_coord 0)\<lparr>node_status_map := [(''a'', sample_node 1), (''b'', sample_node 1)]\<rparr>) = Some (Inr (st', out)) \<and>
     length out = length sched \<and> sched \<noteq> [] \<and>
     concat (map (fc_requests \<circ> snd) sched) = fc_requests sample_call"
proof -
  let ?st = "(init_coord 0)\<lparr>node_status_map := [(''a'', sample_node 1), (''b'', sample_node 1)]\<rparr>"
  have wf: "um_wf (node_status_map ?st)" by simp
  have "call_fits sample_call (node_status_map ?st)"
    by (simp add: call_fits_def sample_call_def sample_node_def no_FunctionCall_def is_eligible_def)
  then obtain st' out sched ios where "func_call_handler sample_env sample_call ?st = Some (Inr (st', out))"
      "covers sample_call (node_status_map ?st) sched" "length ios = length sched"
      "out = map2 (\<lambda>(ip, part) io. (get_func_exec_address ip (of_nat io), W_FunctionCall part)) sched ios"
    using func_call_is_answered [of ?st sample_env sample_call, OF wf sample_ok(1)] by auto
  moreover from this have "length out = length sched \<and> sched \<noteq> [] \<and>
      concat (map (fc_requests \<circ> snd) sched) = fc_requests sample_call" by (simp add: covers_def)
  ultimately show ?thesis by blast
qed

text \<open>A batch that has to be split loses its session and its request identifier: every part that is
  sent to a node has empty ones.\<close>

theorem split_batch_loses_session:
  assumes "schedule_batch msg nodes = Some (Inr sched)"
    and "sc_max_executors (scan_nodes (fc_source msg) nodes) < int (length (fc_requests msg))"
  shows "list_all (\<lambda>(ip, part). fc_session_id part = [] \<and> fc_request_id part = []) sched"
proof (cases "int (length (fc_requests msg)) \<le> sc_total_executors (scan_nodes (fc_source msg) nodes)")
  case True
  let ?routed = "no_FunctionCall\<lparr>fc_app_name := fc_app_name msg, fc_resp_address := fc_resp_address msg,
      fc_sync_data_status := True\<rparr>"
  obtain ns loads where "cut_requests ?routed ns loads 0 [] (fc_requests msg) [] = Inr sched"
    using assms True by (auto simp: schedule_batch_def Let_def split: option.splits)
  from cut_requests_session [OF this] show ?thesis
    by (auto simp: list_all_iff no_FunctionCall_def)
qed (use assms in \<open>simp add: schedule_batch_def Let_def\<close>)

theorem split_batch_loses_session_witness:
  "\<exists>sched. schedule_batch sample_call [(''a'', sample_node 1), (''b'', sample_node 1)] = Some (Inr sched) \<and>
     sched \<noteq> [] \<and> list_all (\<lambda>(ip, part). fc_session_id part = []) sched"
proof -
  let ?nodes = "[(''a'', sample_node 1), (''b'', sample_node 1)]"
  obtain sched where s: "schedule_batch sample_call ?nodes = Some (Inr sched)" "good_schedule sample_call ?nodes sched"
    using schedule_batch_good [of ?nodes sample_call]
    by (auto simp: sample_call_def sample_node_def no_FunctionCall_def is_eligible_def)
  have mx: "sc_max_executors (scan_nodes (fc_source sample_call) ?nodes) < int (length (fc_requests sample_call))"
    by (simp add: scan_nodes_def scan_node_def sample_call_def sample_node_def no_FunctionCall_def)
  have "sched \<noteq> []" using s(2) by (auto simp: good_schedule_def sample_call_def)
  then show ?thesis
    using split_batch_loses_session [OF s(1) mx] s(1) by (auto simp: list_all_iff)
qed

text \<open>What a successful \<open>ADD_TRIGGER\<close> tells the nodes.\<close>

definition added_entity :: "coord_env \<Rightarrow> TriggerOperationRequest \<Rightarrow> TriggerPtr \<Rightarrow> TriggerEntity" where
  "added_entity env req t = no_TriggerEntity
     \<lparr>te_bucket_name := tor_bucket_name req, te_trigger_name := tor_trigger_name req,
      te_trigger_option := tor_trigger_option req, te_primitive_type := tor_primitive_type req,
      te_primitive := dump_pritimive (ce_codec env) (set_trigger_option (tor_trigger_option req) t),
      te_hints := tor_hints req\<rparr>"

definition added_message :: "coord_env \<Rightarrow> TriggerOperationRequest \<Rightarrow> TriggerPtr \<Rightarrow> UpdateCoordMsg" where
  "added_message env req t = no_UpdateCoordMsg
     \<lparr>ucm_ip := ce_private_ip env, ucm_thread_id := ce_thread_id env, ucm_app_name := tor_app_name req,
      ucm_msg_type := 0, ucm_triggers := (if tor_primitive_type req = BY_TIME then [] else [added_entity env req t])\<rparr>"

definition added_response :: "TriggerOperationRequest \<Rightarrow> TriggerOperationResponse" where
  "added_response req = no_TriggerOperationResponse
     \<lparr>tos_response_id := tor_request_id req, tos_bucket_name := tor_bucket_name req,
      tos_trigger_name := tor_trigger_name req, tos_error := SUCCESS\<rparr>"

lemma trigger_added:
  assumes "tor_operation_type req = ADD_TRIGGER" and "um_has (tor_bucket_name req) (bucket_app_map st)"
    and "gen_trigger_pointer (ce_codec env) now (tor_primitive_type req) (tor_trigger_name req)
      (tor_primitive req) = Some t"
  shows "trigger_op_handler env now req st =
    Inr (st\<lparr>bucket_triggers_map := um_alter [] (\<lambda>ts. ts @ [set_trigger_option (tor_trigger_option req) t])
           (tor_bucket_name req) (bucket_triggers_map st)\<rparr>,
      (tor_response_address req, W_TriggerOperationResponse (added_response req)) #
        map (\<lambda>(ip, status). (trigger_update_address ip, W_UpdateCoord (added_message env req t))) (node_status_map st))"
proof -
  have "get_type (set_trigger_option (tor_trigger_option req) t) = tor_primitive_type req"
    using gen_trigger_pointer_type [OF assms(3)] by (simp add: set_trigger_option_getters)
  then show ?thesis
    using assms
    by (simp add: trigger_op_handler_def add_trigger_def broadcast_def Let_def no_UpdateCoordMsg_def added_entity_def
        added_message_def added_response_def)
qed

text \<open>A node that reads the entity builds the trigger again, with an empty run-time state.\<close>

lemma added_entity_rebuilds:
  assumes "codec_ok (ce_codec env)"
    and "gen_trigger_pointer (ce_codec env) now (tor_primitive_type req) (tor_trigger_name req)
      (tor_primitive req) = Some t"
  shows "gen_trigger_pointer (ce_codec env) later (te_primitive_type (added_entity env req t))
      (te_trigger_name (added_entity env req t)) (te_primitive (added_entity env req t)) = Some (fresh later t)"
proof -
  let ?t = "set_trigger_option (tor_trigger_option req) t"
  have "trigger_wf ?t" by (rule set_trigger_option_wf [OF gen_trigger_pointer_wf [OF assms(2)]])
  then show ?thesis
    using gen_dump [OF assms(1), of ?t later] gen_trigger_pointer_type [OF assms(2)]
    by (simp add: fresh_set_trigger_option set_trigger_option_getters added_entity_def no_TriggerEntity_def)
qed

text \<open>Adding a trigger to an existing bucket appends it to the bucket's triggers, answers success,
  and tells every known node; unless it is a time-window trigger, the message lets a scheduler rebuild
  the trigger, with an empty run-time state, from the type, name and primitive that it carries.\<close>

theorem add_trigger_is_broadcast:
  assumes "codec_ok (ce_codec env)" and "tor_operation_type req = ADD_TRIGGER"
    and "um_has (tor_bucket_name req) (bucket_app_map st)"
    and "gen_trigger_pointer (ce_codec env) now (tor_primitive_type req) (tor_trigger_name req)
      (tor_primitive req) = Some t"
    and "tor_primitive_type req \<noteq> BY_TIME"
  shows "\<exists>st' resp msg entity.
    trigger_op_handler env now req st =
      Inr (st', (tor_response_address req, W_TriggerOperationResponse resp) #
        map (\<lambda>(ip, status). (trigger_update_address ip, W_UpdateCoord msg)) (node_status_map st)) \<and>
    tos_error resp = SUCCESS \<and> ucm_msg_type msg = 0 \<and> ucm_triggers msg = [entity] \<and>
    te_bucket_name entity = tor_bucket_name req \<and>
    um_get [] (tor_bucket_name req) (bucket_triggers_map st') =
      um_get [] (tor_bucket_name req) (bucket_triggers_map st) @ [set_trigger_option (tor_trigger_option req) t] \<and>
    gen_trigger_pointer (ce_codec env) later (te_primitive_type entity) (te_trigger_name entity)
      (te_primitive entity) = Some (fresh later t)"
  using trigger_added [OF assms(2-4)] added_entity_rebuilds [OF assms(1,4)] assms(5)
  by (intro exI [of _ "added_message env req t"] exI [of _ "added_entity env req t"] exI [of _ "added_response req"]
      exI conjI) (auto simp: added_message_def added_response_def added_entity_def no_TriggerEntity_def)

definition sample_add :: TriggerOperationRequest where
  "sample_add = \<lparr>tor_operation_type = ADD_TRIGGER, tor_app_name = ''A'', tor_bucket_name = ''B'',
     tor_trigger_name = ''t'', tor_trigger_option = 0, tor_primitive_type = IMMEDIATE,
     tor_primitive = put_str ''f'', tor_request_id = [], tor_response_address = ''r'', tor_hints = []\<rparr>"

theorem add_trigger_is_broadcast_witness:
  "\<exists>st' out. trigger_op_handler sample_env 0 sample_add ((init_coord 0)\<lparr>bucket_app_map := [(''B'', ''A'')]\<rparr>) =
     Inr (st', out) \<and> length (um_get [] ''B'' (bucket_triggers_map st')) = 1"
proof -
  have "codec_ok (ce_codec sample_env)" using sample_codec_ok by (simp add: sample_env_def)
  moreover obtain t where "gen_trigger_pointer (ce_codec sample_env) 0 (tor_primitive_type sample_add)
      (tor_trigger_name sample_add) (tor_primitive sample_add) = Some t"
    by (simp add: sample_add_def)
  ultimately show ?thesis
    using add_trigger_is_broadcast [of sample_env sample_add
        "(init_coord 0)\<lparr>bucket_app_map := [(''B'', ''A'')]\<rparr>" 0 t 0]
    by (auto simp: sample_add_def init_coord_def)
qed

text \<open>Deleting a trigger removes every trigger of that name from the bucket and leaves the others
  in order.\<close>

theorem delete_trigger_removes_all:
  assumes "tor_operation_type req = DELETE_TRIGGER" and "um_has (tor_bucket_name req) (bucket_app_map st)"
  shows "\<exists>st' out. trigger_op_handler env now req st = Inr (st', out) \<and>
    um_get [] (tor_bucket_name req) (bucket_triggers_map st') =
      filter (\<lambda>t. get_trigger_name t \<noteq> tor_trigger_name req)
        (um_get [] (tor_bucket_name req) (bucket_triggers_map st)) \<and>
    (\<forall>b. b \<noteq> tor_bucket_name req \<longrightarrow>
       um_get [] b (bucket_triggers_map st') = um_get [] b (bucket_triggers_map st))"
  using assms by (simp add: trigger_op_handler_def delete_trigger_def Let_def)

theorem delete_trigger_removes_all_witness:
  "\<exists>st' out. trigger_op_handler sample_env 0 (sample_add\<lparr>tor_operation_type := DELETE_TRIGGER\<rparr>)
     ((init_coord 0)\<lparr>bucket_app_map := [(''B'', ''A'')],
        bucket_triggers_map := [(''B'', [Immediate (new_ImmediateTrigger ''f'' ''t'')])]\<rparr>) = Inr (st', out) \<and>
     um_get [] ''B'' (bucket_triggers_map st') = []"
  using delete_trigger_removes_all [of "sample_add\<lparr>tor_operation_type := DELETE_TRIGGER\<rparr>"
      "(init_coord 0)\<lparr>bucket_app_map := [(''B'', ''A'')],
         bucket_triggers_map := [(''B'', [Immediate (new_ImmediateTrigger ''f'' ''t'')])]\<rparr>" sample_env 0]
  by (auto simp: sample_add_def init_coord_def new_defs getter_defs Trigger.defs)

text \<open>A request to add a trigger of an unknown primitive type to an existing bucket makes the
  coordinator dereference a null pointer.\<close>

theorem unknown_primitive_crashes:
  assumes "tor_operation_type req = ADD_TRIGGER" and "um_has (tor_bucket_name req) (bucket_app_map st)"
    and "tor_primitive_type req = UnknownPrimitive i"
  shows "trigger_op_handler env now req st = Inl NullDeref"
  using assms by (simp add: trigger_op_handler_def add_trigger_def Let_def)

theorem unknown_primitive_crashes_witness:
  "trigger_op_handler sample_env 0 (sample_add\<lparr>tor_primitive_type := UnknownPrimitive 9\<rparr>)
     ((init_coord 0)\<lparr>bucket_app_map := [(''B'', ''A'')]\<rparr>) = Inl NullDeref"
  using unknown_primitive_crashes [of "sample_add\<lparr>tor_primitive_type := UnknownPrimitive 9\<rparr>"
      "(init_coord 0)\<lparr>bucket_app_map := [(''B'', ''A'')]\<rparr>" 9 sample_env 0]
  by (simp add: sample_add_def init_coord_def)

text \<open>Registering a periodic dependency creates the time-window trigger in the coordinator, but the
  message to the schedulers has an entity with only the bucket set: a scheduler that rebuilds it gets
  an immediate trigger without a name.\<close>

theorem periodic_entity_is_bare:
  assumes "dd_type dep = PERIODIC" and "dd_tgt_functions dep = f # fs" and "stoi (dd_description dep) = Inr w"
  shows "\<exists>st' msg' ser. register_dependency env now app (st, msg) dep = Inr (st', msg') \<and>
    ucm_triggers msg' = ucm_triggers msg @ [no_TriggerEntity\<lparr>te_bucket_name := ''b_'' @ f\<rparr>] \<and>
    um_get [] (''b_'' @ f) (bucket_triggers_map st') =
      um_get [] (''b_'' @ f) (bucket_triggers_map st) @
        [ByTime (new_ByTimeTrigger now f (''t_3_'' @ f) (word_of_int w))] \<and>
    gen_trigger_pointer c later (te_primitive_type (last (ucm_triggers msg')))
      (te_trigger_name (last (ucm_triggers msg'))) (te_primitive (last (ucm_triggers msg'))) =
      Some (Immediate (new_ImmediateTrigger (par_immediate c []) []))"
  using assms
  by (simp add: register_dependency_def claim_bucket_def add_app_trigger_def periodic_trigger_def Let_def
      no_TriggerEntity_def)

theorem periodic_entity_is_bare_witness:
  "\<exists>st' msg'. register_dependency sample_env 0 ''A'' (init_coord 0, no_UpdateCoordMsg)
     \<lparr>dd_type = PERIODIC, dd_src_functions = [], dd_tgt_functions = [''f''], dd_description = ''100''\<rparr> =
       Inr (st', msg') \<and>
     ucm_triggers msg' = [no_TriggerEntity\<lparr>te_bucket_name := ''b_f''\<rparr>]"
proof -
  have "stoi ''100'' = Inr 100" by (simp add: stoi_def is_space_def is_digit_def digits_val_def digit_val_def)
  then show ?thesis
    using periodic_entity_is_bare [of "\<lparr>dd_type = PERIODIC, dd_src_functions = [], dd_tgt_functions = [''f''],
        dd_description = ''100''\<rparr>" "''f''" "[]" 100 sample_env 0 "''A''" "init_coord 0" no_UpdateCoordMsg
        sample_codec 0]
    by (auto simp: no_UpdateCoordMsg_def)
qed

text \<open>A dependency on several source functions becomes a set trigger whose keys are the objects of
  the source functions, in the bucket of the target function, and the schedulers rebuild that trigger
  from the message.\<close>

theorem many_to_one_is_by_set:
  assumes "codec_ok (ce_codec env)" and "dd_type dep = MANY_TO_ONE" and "dd_tgt_functions dep = f # fs"
  shows "\<exists>st' msg' t. register_dependency env now app (st, msg) dep = Inr (st', msg') \<and>
    um_get [] (''b_'' @ f) (bucket_triggers_map st') =
      um_get [] (''b_'' @ f) (bucket_triggers_map st) @ [BySet t] \<and>
    target_function t = f \<and> set (bs_key_set t) = (@) ''k_'' ` set (dd_src_functions dep) \<and>
    map_of (bucket_app_map st') (''b_'' @ f) = Some app \<and>
    (let entity = last (ucm_triggers msg')
     in te_bucket_name entity = ''b_'' @ f \<and>
        gen_trigger_pointer (ce_codec env) later (te_primitive_type entity) (te_trigger_name entity)
          (te_primitive entity) = Some (BySet t))"
proof -
  let ?t = "many_to_one_trigger f (dd_src_functions dep)"
  obtain t where t: "?t = BySet t" by (simp add: many_to_one_trigger_def)
  have keys: "set (fold (\<lambda>func names. us_insert (''k_'' @ func) names) fns ns) = (@) ''k_'' ` set fns \<union> set ns" for fns ns
    by (induction fns arbitrary: ns) auto
  have props: "target_function t = f" "set (bs_key_set t) = (@) ''k_'' ` set (dd_src_functions dep)"
    "fresh later ?t = ?t"
    using t keys by (auto simp: many_to_one_trigger_def new_defs)
  have "gen_trigger_pointer (ce_codec env) later (get_type ?t) (get_trigger_name ?t)
      (dump_pritimive (ce_codec env) ?t) = Some (BySet t)"
    using gen_dump [OF assms(1), of ?t later] app_triggers_wf(1) [of f "dd_src_functions dep"] props(3) t
    by metis
  then show ?thesis
    using assms(2,3) props t
    by (simp add: register_dependency_def claim_bucket_def add_app_trigger_def app_entity_def Let_def
        no_TriggerEntity_def)
qed

theorem many_to_one_is_by_set_witness:
  "\<exists>st' msg' t. register_dependency sample_env 0 ''A'' (init_coord 0, no_UpdateCoordMsg)
     \<lparr>dd_type = MANY_TO_ONE, dd_src_functions = [''g'', ''h''], dd_tgt_functions = [''f''], dd_description = []\<rparr> =
       Inr (st', msg') \<and> um_get [] ''b_f'' (bucket_triggers_map st') = [BySet t] \<and>
     set (bs_key_set t) = {''k_g'', ''k_h''}"
proof -
  have "codec_ok (ce_codec sample_env)" using sample_codec_ok by (simp add: sample_env_def)
  from many_to_one_is_by_set [OF this, of "\<lparr>dd_type = MANY_TO_ONE, dd_src_functions = [''g'', ''h''],
      dd_tgt_functions = [''f''], dd_description = []\<rparr>" "''f''" "[]" 0 "''A''" "init_coord 0" no_UpdateCoordMsg 0]
  show ?thesis by (auto simp: init_coord_def)
qed

text \<open>A bucket can be deleted in the name of any application: a request with another application's
  name succeeds, and the bucket stays among the buckets of the application that owned it.\<close>

theorem foreign_delete_leaves_stale:
  assumes "bor_operation_type req = DELETE_BUCKET" and "map_of (bucket_app_map st) (bor_bucket_name req) = Some app"
    and "coord_inv st" and "bor_app_name req \<noteq> app"
  shows "map_of (bucket_app_map (fst (bucket_op_handler req st))) (bor_bucket_name req) = None \<and>
    bor_bucket_name req \<in> set (um_get [] app (app_buckets_map (fst (bucket_op_handler req st))))"
proof -
  have "bor_bucket_name req \<in> set (um_get [] app (app_buckets_map st))"
    using assms(2,3) by (auto simp: coord_inv_def owner_inv_def)
  then show ?thesis using assms(1,2,4) by (simp add: bucket_op_handler_def Let_def)
qed

theorem foreign_delete_leaves_stale_witness:
  "''B'' \<in> set (um_get [] ''A'' (app_buckets_map (fst (bucket_op_handler
     (sample_create\<lparr>bor_operation_type := DELETE_BUCKET, bor_app_name := ''Z''\<rparr>)
     (fst (bucket_op_handler sample_create (init_coord 0)))))))"
proof -
  have "coord_inv (fst (bucket_op_handler sample_create (init_coord 0)))"
    by (rule bucket_op_inv [OF coord_inv_init])
  then show ?thesis
    using foreign_delete_leaves_stale [of "sample_create\<lparr>bor_operation_type := DELETE_BUCKET, bor_app_name := ''Z''\<rparr>"
        "fst (bucket_op_handler sample_create (init_coord 0))" "''A''"]
    by (simp add: sample_create_def bucket_op_handler_def init_coord_def Let_def)
qed

end
