(* ===== verification/Manager.thy ===== *)
theory Manager
  imports Common Threads
begin

text \<open>
  The manager, \<^verbatim>\<open>src/src/manager/manager.cpp\<close>: coordinators announce themselves, clients ask for the coordinator of
  an application. The iteration order of the set of coordinators is the order of the list.
\<close>

record CoordIp =
  ci_public_ip :: string
  ci_private_ip :: string
  ci_thread_id :: "32 word"

record manager =
  mg_app_coord_map :: "(string, string \<times> 32 word) umap"
  mg_coord_ips :: "CoordIp uset"
  mg_seed :: "32 word"

definition init_manager :: "32 word \<Rightarrow> manager" where
  "init_manager seed = \<lparr>mg_app_coord_map = [], mg_coord_ips = [], mg_seed = seed\<rparr>"

definition coord_sync :: "CoordSync \<Rightarrow> manager \<Rightarrow> manager" where
  "coord_sync msg st =
     st\<lparr>mg_coord_ips := us_insert \<lparr>ci_public_ip = cs_public_ip msg, ci_private_ip = cs_private_ip msg,
                                    ci_thread_id = cs_thread_id msg\<rparr> (mg_coord_ips st)\<rparr>"

definition ip_to_send :: "bool \<Rightarrow> CoordIp \<Rightarrow> string" where
  "ip_to_send externalUser c = (if externalUser then ci_public_ip c else ci_private_ip c)"

text \<open>\<open>rand_r(&seed) % coord_ips.size()\<close> divides by the number of coordinators.\<close>

definition pick_coord :: "bool \<Rightarrow> rng \<Rightarrow> string \<Rightarrow> manager \<Rightarrow> manager res" where
  "pick_coord externalUser rand app_name st =
     (if um_has app_name (mg_app_coord_map st) then Inr st
      else if mg_coord_ips st = [] then Inl DivByZero
      else let (r, seed) = rand (mg_seed st);
               c = mg_coord_ips st ! (r mod length (mg_coord_ips st))
           in Inr (st\<lparr>mg_seed := seed,
                mg_app_coord_map := um_put app_name (ip_to_send externalUser c, ci_thread_id c) (mg_app_coord_map st)\<rparr>))"

definition coord_query :: "bool \<Rightarrow> rng \<Rightarrow> CoordQuery \<Rightarrow> manager \<Rightarrow> (CoordResponse \<times> manager) res" where
  "coord_query externalUser rand query st =
     rbind (pick_coord externalUser rand (cq_application query) st) (\<lambda>st'.
       let coord = um_get ([], 0) (cq_application query) (mg_app_coord_map st')
       in Inr (\<lparr>cr_coord_ip = fst coord, cr_thread_id = snd coord, cr_request_id = cq_request_id query\<rparr>, st'))"

datatype manager_event = CoordSyncMsg CoordSync | CoordQueryMsg CoordQuery

fun manager_handle :: "bool \<Rightarrow> rng \<Rightarrow> manager \<Rightarrow> manager_event \<Rightarrow> cpp_error + manager \<times> CoordResponse list" where
  "manager_handle externalUser rand st (CoordSyncMsg m) = Inr (coord_sync m st, [])"
| "manager_handle externalUser rand st (CoordQueryMsg q) =
     rbind (coord_query externalUser rand q st) (\<lambda>(resp, st'). Inr (st', [resp]))"

subsection \<open>Applications keep their coordinator\<close>

definition manager_inv :: "bool \<Rightarrow> manager \<Rightarrow> bool" where
  "manager_inv ext st \<longleftrightarrow> (\<forall>app ip tid. map_of (mg_app_coord_map st) app = Some (ip, tid) \<longrightarrow>
     (\<exists>c\<in>set (mg_coord_ips st). ip = ip_to_send ext c \<and> tid = ci_thread_id c))"

lemma pick_coord_found:
  "pick_coord ext rand app st = Inr st' \<Longrightarrow>
     um_has app (mg_app_coord_map st') \<and> mg_coord_ips st' = mg_coord_ips st \<and>
     (\<forall>a v. map_of (mg_app_coord_map st) a = Some v \<longrightarrow> map_of (mg_app_coord_map st') a = Some v)"
  by (auto simp: pick_coord_def Let_def split: if_splits prod.splits)

lemma pick_coord_inv:
  assumes "pick_coord ext rand app st = Inr st'" and "manager_inv ext st"
  shows "manager_inv ext st'"
proof (cases "um_has app (mg_app_coord_map st)")
  case False
  then obtain r seed where ne: "mg_coord_ips st \<noteq> []" and r: "rand (mg_seed st) = (r, seed)"
    and st': "st' = st\<lparr>mg_seed := seed, mg_app_coord_map := um_put app
      (ip_to_send ext (mg_coord_ips st ! (r mod length (mg_coord_ips st))),
       ci_thread_id (mg_coord_ips st ! (r mod length (mg_coord_ips st)))) (mg_app_coord_map st)\<rparr>"
    using assms(1) by (auto simp: pick_coord_def Let_def split: if_splits prod.splits)
  have "mg_coord_ips st ! (r mod length (mg_coord_ips st)) \<in> set (mg_coord_ips st)" using ne by simp
  then show ?thesis using assms(2) by (auto simp: manager_inv_def st')
qed (use assms in \<open>simp add: pick_coord_def\<close>)

interpretation manager_sys: step_system "manager_handle ext rand" "manager_inv ext" for ext rand
proof
  fix s e s' out assume "manager_inv ext s" "manager_handle ext rand s e = Inr (s', out)"
  then show "manager_inv ext s'"
    by (cases e) (auto simp: coord_query_def Let_def rbind_eq_Inr coord_sync_def manager_inv_def
        dest!: pick_coord_inv [unfolded manager_inv_def])
qed

interpretation manager_keeps: step_system "manager_handle ext rand" "\<lambda>st. map_of (mg_app_coord_map st) app = Some v"
  for ext rand app v
proof
  fix s e s' out assume "map_of (mg_app_coord_map s) app = Some v" "manager_handle ext rand s e = Inr (s', out)"
  then show "map_of (mg_app_coord_map s') app = Some v"
    by (cases e) (auto simp: coord_query_def Let_def rbind_eq_Inr coord_sync_def dest!: pick_coord_found)
qed

lemma coord_query_result:
  assumes "coord_query ext rand q st = Inr (resp, st')"
  shows "map_of (mg_app_coord_map st') (cq_application q) = Some (cr_coord_ip resp, cr_thread_id resp) \<and>
    cr_request_id resp = cq_request_id q"
proof -
  obtain st1 where 1: "pick_coord ext rand (cq_application q) st = Inr st1" and [simp]: "st' = st1"
    and r: "resp = \<lparr>cr_coord_ip = fst (um_get ([], 0) (cq_application q) (mg_app_coord_map st1)),
      cr_thread_id = snd (um_get ([], 0) (cq_application q) (mg_app_coord_map st1)), cr_request_id = cq_request_id q\<rparr>"
    using assms by (auto simp: coord_query_def Let_def rbind_eq_Inr)
  obtain v where "map_of (mg_app_coord_map st1) (cq_application q) = Some v" using pick_coord_found [OF 1] by auto
  then show ?thesis by (simp add: r)
qed

end
