(* ===== verification/Requests.thy ===== *)
theory Requests
  imports Common "HOL-Library.Multiset"
begin

text \<open>
  \<^verbatim>\<open>src/common/include/requests.hpp\<close>: waiting for the responses to requests. What the socket delivers is a list
  (\<open>None\<close> is a timeout); the result \<open>None\<close> means that the loop still waits at the end of the list. The identifier
  of a response is a function, as it is a method of the message type.
\<close>

fun receive_responses ::
    "('r \<Rightarrow> string) \<Rightarrow> string uset \<Rightarrow> 32 word \<Rightarrow> 'r option list \<Rightarrow> 'r list \<Rightarrow> (bool \<times> 'r list) option" where
  "receive_responses response_id request_ids timeout_limit [] responses = None"
| "receive_responses response_id request_ids timeout_limit (Some r # events) responses =
     (let found = response_id r \<in> set request_ids;
          ids = (if found then us_erase (response_id r) request_ids else request_ids);
          rs = (if found then responses @ [r] else responses)
      in if ids = [] then Some (True, rs) else receive_responses response_id ids timeout_limit events rs)"
| "receive_responses response_id request_ids timeout_limit (None # events) responses =
     (let limit = timeout_limit - 1
      in if limit = 0 then Some (False, []) else receive_responses response_id request_ids limit events responses)"

definition receive_all :: "('r \<Rightarrow> string) \<Rightarrow> string uset \<Rightarrow> 'r option list \<Rightarrow> (bool \<times> 'r list) option" where
  "receive_all response_id request_ids events =
     receive_responses response_id request_ids (of_nat (length request_ids)) events []"

text \<open>The response, or \<open>None\<close> after a timeout (the program returns an empty message).\<close>

definition make_request :: "('r \<Rightarrow> string) \<Rightarrow> string \<Rightarrow> 'r option list \<Rightarrow> 'r option option" where
  "make_request response_id request_id events =
     (case receive_all response_id [request_id] events of
        None \<Rightarrow> None
      | Some (succeed, responses) \<Rightarrow> Some (if succeed then Some (hd responses) else None))"

text \<open>One request: the first timeout ends it, otherwise the first response with its identifier is the result.\<close>

lemma make_request_find:
  "make_request response_id rid events =
     List.find (\<lambda>e. case e of None \<Rightarrow> True | Some r \<Rightarrow> response_id r = rid) events"
  unfolding make_request_def receive_all_def
proof (induction events)
  case (Cons e events)
  then show ?case
    by (cases e) (auto simp: us_erase_def split: option.splits)
qed simp

text \<open>Success means that every request has its response: the identifiers of the responses are those of the
  requests, each once.\<close>

lemma receive_responses_ids:
  assumes "receive_responses response_id ids limit events rs = Some (True, rs')" "distinct ids"
  shows "mset (map response_id rs') = mset (map response_id rs) + mset ids"
  using assms
proof (induction response_id ids limit events rs rule: receive_responses.induct)
  case (2 response_id ids limit r events rs)
  show ?case
  proof (cases "response_id r \<in> set ids")
    case True
    have "us_erase (response_id r) ids = remove1 (response_id r) ids"
      using 2(3) by (simp add: us_erase_def distinct_remove1_removeAll removeAll_filter_not_eq eq_commute)
    with True have "add_mset (response_id r) (mset (us_erase (response_id r) ids)) = mset ids" by simp
    moreover have "distinct (us_erase (response_id r) ids)" using 2(3) by simp
    ultimately show ?thesis using 2 True by (auto simp: Let_def split: if_splits)
  next
    case False
    then show ?thesis using 2 by (auto simp: Let_def split: if_splits)
  qed
qed (auto simp: Let_def split: if_splits)

end
