(* ===== verification/System_Properties.thy ===== *)
theory System_Properties
  imports Node_Properties Coord_Op_Properties Manager Client_Library Requests
begin

text \<open>
  Properties that span the processes: clients and the manager, clients and coordinators, coordinators and worker
  nodes.
\<close>

subsection \<open>The manager\<close>

text \<open>C11. The manager gives an application one of the coordinators that have announced themselves, and gives the same
  one to everybody who asks for the application later, whatever happens in between.\<close>

theorem app_keeps_coordinator:
  assumes "run_events (manager_handle ext rand) (init_manager seed) es = Inr (st, out)"
    and "coord_query ext rand q st = Inr (resp, st1)"
    and "run_events (manager_handle ext rand) st1 es' = Inr (st2, out')" and "cq_application q' = cq_application q"
  shows "(\<exists>c\<in>set (mg_coord_ips st1). cr_coord_ip resp = ip_to_send ext c \<and> cr_thread_id resp = ci_thread_id c) \<and>
    (\<exists>resp' st3. coord_query ext rand q' st2 = Inr (resp', st3) \<and> cr_coord_ip resp' = cr_coord_ip resp \<and>
       cr_thread_id resp' = cr_thread_id resp)"
proof -
  note found = conjunct1 [OF coord_query_result [OF assms(2)]]
  have "manager_inv ext (init_manager seed)" by (simp add: manager_inv_def init_manager_def)
  then have "manager_inv ext st" by (rule manager_sys.run_inv [OF _ assms(1)])
  moreover have "manager_handle ext rand st (CoordQueryMsg q) = Inr (st1, [resp])" using assms(2) by simp
  ultimately have "manager_inv ext st1" by (rule manager_sys.handle_inv)
  moreover have "map_of (mg_app_coord_map st2) (cq_application q) = Some (cr_coord_ip resp, cr_thread_id resp)"
    by (rule manager_keeps.run_inv [OF found assms(3)])
  ultimately show ?thesis
    using found assms(4) by (auto simp: manager_inv_def coord_query_def pick_coord_def)
qed

definition some_coord :: CoordSync where
  "some_coord = \<lparr>cs_public_ip = ''1.2.3.4'', cs_private_ip = ''10.0.0.1'', cs_thread_id = 0\<rparr>"

definition some_query :: CoordQuery where
  "some_query = \<lparr>cq_application = ''A'', cq_request_id = []\<rparr>"

theorem app_keeps_coordinator_witness:
  "\<exists>st out resp st1. run_events (manager_handle False sample_rand) (init_manager 7) [CoordSyncMsg some_coord] = Inr (st, out) \<and>
     coord_query False sample_rand some_query st = Inr (resp, st1) \<and>
     (\<exists>resp' st3. coord_query False sample_rand some_query (coord_sync some_coord st1) = Inr (resp', st3) \<and>
        cr_coord_ip resp' = cr_coord_ip resp)"
proof -
  obtain st out where 1: "run_events (manager_handle False sample_rand) (init_manager 7) [CoordSyncMsg some_coord] = Inr (st, out)"
    and st: "st = coord_sync some_coord (init_manager 7)" by simp
  obtain resp st1 where 2: "coord_query False sample_rand some_query st = Inr (resp, st1)"
    by (simp add: st coord_query_def pick_coord_def coord_sync_def init_manager_def us_insert_def sample_rand_def Let_def)
  have 3: "run_events (manager_handle False sample_rand) st1 [CoordSyncMsg some_coord] = Inr (coord_sync some_coord st1, [])"
    by simp
  show ?thesis using app_keeps_coordinator [OF 1 2 3 refl] 1 2 by blast
qed

text \<open>A query before any coordinator has announced itself divides by zero.\<close>

lemma query_without_coordinators: "coord_query ext rand q (init_manager seed) = Inl DivByZero"
  by (simp add: coord_query_def pick_coord_def init_manager_def)

subsection \<open>Clients\<close>

text \<open>C20. In every sequence of operations of a client, on any applications, each operation sends its request to the
  socket that the coordinator thread of its application has bound for requests of this kind: the thread that the manager
  has named in answer to the first operation on the application. The first operation asks the manager before, the later
  ones do not ask again, whatever the manager would answer.\<close>

theorem client_reaches_coordinator:
  assumes "i < length ops" and "ops ! i = (app, p, reply)"
    and "first_answer app ops = \<lparr>cr_coord_ip = ip, cr_thread_id = tid, cr_request_id = rid\<rparr>"
  shows "\<exists>addr req. client_run codec ops (new_PheromoneClient manager_ip n) ! i =
      (if app \<in> fst ` set (take i ops) then []
       else [(''tcp://'' @ manager_ip @ '':'' @ to_string (unat coordQueryPort),
              W_CoordQuery \<lparr>cq_application = app, cq_request_id = []\<rparr>)]) @ [(addr, req)] \<and>
    reaches addr ip (op_bind_address p (mk_thread ip tid)) \<and> op_request app p req"
proof -
  let ?c = "new_PheromoneClient manager_ip n"
  have "coord_used app (first_answer app ops) ?c = (ip, tid)"
    by (simp add: assms(3) coord_used_def new_PheromoneClient_def)
  note run = client_run_nth [OF assms(1,2) this, of codec]
  have asks: "manager_query ?c app = [(''tcp://'' @ manager_ip @ '':'' @ to_string (unat coordQueryPort),
      W_CoordQuery \<lparr>cq_application = app, cq_request_id = []\<rparr>)]"
    by (simp add: manager_query_def manager_address_def new_PheromoneClient_def coordQueryPort_def)
  have "(um_has app (pc_app_coord_map ?c) \<or> app \<in> fst ` set (take i ops)) = (app \<in> fst ` set (take i ops))"
    by (simp add: new_PheromoneClient_def)
  then show ?thesis using run unfolding asks by (simp only:)
qed

text \<open>The second of two operations on an application, after one on another: it goes to the coordinator of the first.\<close>

definition two_apps :: "(string \<times> client_op \<times> CoordResponse) list" where
  "two_apps =
     [(''A'', RegisterApp [''f''] [], \<lparr>cr_coord_ip = ''10.0.0.1'', cr_thread_id = 3, cr_request_id = []\<rparr>),
      (''B'', CreateBucket ''b'' no_BucketOperationResponse, \<lparr>cr_coord_ip = ''10.0.0.2'', cr_thread_id = 1, cr_request_id = []\<rparr>),
      (''A'', CallApp ''f'' [''x''], \<lparr>cr_coord_ip = ''10.0.0.3'', cr_thread_id = 2, cr_request_id = []\<rparr>)]"

theorem client_reaches_coordinator_witness:
  "\<exists>req. client_run sample_codec two_apps (new_PheromoneClient ''10.0.0.9'' 0) ! 2 =
      [(''tcp://10.0.0.1:'' @ to_string 5053, req)] \<and> op_request ''A'' (CallApp ''f'' [''x'']) req"
proof -
  have "2 < length two_apps" "two_apps ! 2 = (''A'', CallApp ''f'' [''x''], \<lparr>cr_coord_ip = ''10.0.0.3'', cr_thread_id = 2, cr_request_id = []\<rparr>)"
    "first_answer ''A'' two_apps = \<lparr>cr_coord_ip = ''10.0.0.1'', cr_thread_id = 3, cr_request_id = []\<rparr>"
    by (simp_all add: two_apps_def)
  from client_reaches_coordinator [OF this, of sample_codec "''10.0.0.9''" 0]
  obtain addr req where
    "client_run sample_codec two_apps (new_PheromoneClient ''10.0.0.9'' 0) ! 2 = [(addr, req)]"
    and addr: "reaches addr ''10.0.0.1'' (func_call_bind_address (mk_thread ''10.0.0.1'' 3))"
    and "op_request ''A'' (CallApp ''f'' [''x'']) req"
    by (auto simp: two_apps_def)
  moreover have "addr = ''tcp://10.0.0.1:'' @ to_string 5053"
    using addr by (auto simp: reaches_def func_call_bind_address_def port_addr_def port_defs mk_thread_def)
  ultimately show ?thesis by blast
qed

text \<open>The answer to a client's bucket operation is not sent to the client: the response address that the client
  puts into the request names the machine of the manager, and the coordinator answers there.\<close>

theorem client_answer_goes_to_manager:
  assumes "c = new_PheromoneClient manager_ip thread_id"
    and "(coord, W_BucketOperationRequest req) \<in> set (fst (client_create_bucket app b reply bresp c))"
  shows "\<exists>resp. snd (bucket_op_handler req st) =
    [(''tcp://'' @ manager_ip @ '':'' @ int_to_string (12070 + thread_id), W_BucketOperationResponse resp)]"
proof -
  have "bor_response_address req = ''tcp://'' @ manager_ip @ '':'' @ int_to_string (12070 + thread_id)"
    using assms by (auto simp: client_create_bucket_def get_coord_def new_PheromoneClient_def client_request_id_def
        bucket_req_connect_addr_def BUCKET_REQ_PORT_def Let_def)
  then show ?thesis by (auto simp: bucket_op_handler_def Let_def split: prod.splits)
qed

theorem client_answer_goes_to_manager_witness:
  "\<exists>req resp. snd (bucket_op_handler req (init_coord 0)) =
     [(''tcp://10.0.0.9:'' @ int_to_string 12070, W_BucketOperationResponse resp)]"
proof -
  let ?reply = "\<lparr>cr_coord_ip = ''10.0.0.1'', cr_thread_id = 0, cr_request_id = []\<rparr>"
  let ?sent = "fst (client_create_bucket ''A'' ''B'' ?reply no_BucketOperationResponse (new_PheromoneClient ''10.0.0.9'' 0))"
  obtain coord req where "(coord, W_BucketOperationRequest req) \<in> set ?sent"
    by (auto simp: client_create_bucket_def get_coord_def new_PheromoneClient_def client_request_id_def Let_def)
  from client_answer_goes_to_manager [OF refl this, of "init_coord 0"] show ?thesis by auto
qed

subsection \<open>Coordinators and nodes\<close>

lemma node_adds_trigger:
  assumes "gen_trigger_pointer (se_codec env) now (te_primitive_type e) (te_trigger_name e) (te_primitive e) = Some t"
    and "te_trigger_name e \<noteq> []"
  shows "\<exists>st' p. add_trigger_entity env now coord app st e = Inr st' \<and>
    um_get [] (te_bucket_name e) (sd_bucket_triggers_map st') =
      um_get [] (te_bucket_name e) (sd_bucket_triggers_map st) @ [p] \<and>
    deref p st' = Inr (set_rerun_metadata (rerun_metas (te_hints e)) (set_trigger_option (te_trigger_option e) t)) \<and>
    map_of (ch_bucket_coord_map (sd_helper st')) (te_bucket_name e) = Some coord \<and>
    map_of (sd_bucket_app_map st') (te_bucket_name e) = Some app"
  using assms
  by (simp add: add_trigger_entity_def new_trigger_def update_trigger_def deref_def alter_app_def Let_def)

definition with_coord :: "string \<Rightarrow> HandlerThread \<Rightarrow> sched \<Rightarrow> sched" where
  "with_coord app thread st =
     (let h = sd_helper st in st\<lparr>sd_helper := h\<lparr>ch_app_coord_map := um_put app thread (ch_app_coord_map h)\<rparr>\<rparr>)"

lemma with_coord_simps [simp]:
  "deref p (with_coord app thread st) = deref p st"
  "sd_bucket_triggers_map (with_coord app thread st) = sd_bucket_triggers_map st"
  by (simp_all add: with_coord_def deref_def Let_def)

lemma node_handles_added:
  assumes "tor_primitive_type req \<noteq> BY_TIME"
  shows "handle_update nenv later (added_message env req t) node =
    add_trigger_entity nenv later (mk_thread (ce_private_ip env) (ce_thread_id env)) (tor_app_name req)
      (with_coord (tor_app_name req) (mk_thread (ce_private_ip env) (ce_thread_id env)) node) (added_entity env req t)"
  using assms by (simp add: handle_update_def added_message_def no_UpdateCoordMsg_def with_coord_def rbind_Inr_right Let_def)

text \<open>C8. A trigger that a coordinator accepts reaches the worker nodes: the message sent to every node, when a node
  handles it, appends to the same bucket a trigger with the parameters, the option and the re-execution hints of the
  request and an empty run-time state, and records the coordinator thread as the one responsible for the bucket.
  The exception is the time-window trigger, which stays at the coordinator.\<close>

theorem trigger_reaches_nodes:
  assumes "codec_ok (ce_codec env)" and "se_codec nenv = ce_codec env" and "tor_operation_type req = ADD_TRIGGER"
    and "um_has (tor_bucket_name req) (bucket_app_map st)"
    and "gen_trigger_pointer (ce_codec env) now (tor_primitive_type req) (tor_trigger_name req)
      (tor_primitive req) = Some t"
    and "tor_primitive_type req \<noteq> BY_TIME" and "tor_trigger_name req \<noteq> []"
  shows "\<exists>st' answer msg. trigger_op_handler env now req st = Inr (st', answer #
      map (\<lambda>(ip, status). (trigger_update_address ip, W_UpdateCoord msg)) (node_status_map st)) \<and>
    (\<forall>node. \<exists>node' p. handle_update nenv later msg node = Inr node' \<and>
      um_get [] (tor_bucket_name req) (sd_bucket_triggers_map node') =
        um_get [] (tor_bucket_name req) (sd_bucket_triggers_map node) @ [p] \<and>
      deref p node' = Inr (set_rerun_metadata (rerun_metas (tor_hints req))
        (set_trigger_option (tor_trigger_option req) (fresh later t))) \<and>
      map_of (ch_bucket_coord_map (sd_helper node')) (tor_bucket_name req) =
        Some (mk_thread (ce_private_ip env) (ce_thread_id env)))"
proof -
  let ?e = "added_entity env req t" and ?thread = "mk_thread (ce_private_ip env) (ce_thread_id env)"
  have "gen_trigger_pointer (se_codec nenv) later (te_primitive_type ?e) (te_trigger_name ?e) (te_primitive ?e) =
      Some (fresh later t)"
    using added_entity_rebuilds [OF assms(1,5)] assms(2) by simp
  moreover have "te_trigger_name ?e \<noteq> []" using assms(7) by (simp add: added_entity_def)
  ultimately have "\<exists>node' p. handle_update nenv later (added_message env req t) node = Inr node' \<and>
      um_get [] (te_bucket_name ?e) (sd_bucket_triggers_map node') =
        um_get [] (te_bucket_name ?e) (sd_bucket_triggers_map node) @ [p] \<and>
      deref p node' = Inr (set_rerun_metadata (rerun_metas (te_hints ?e))
        (set_trigger_option (te_trigger_option ?e) (fresh later t))) \<and>
      map_of (ch_bucket_coord_map (sd_helper node')) (te_bucket_name ?e) = Some ?thread" for node
    using node_adds_trigger [of nenv later ?e _ ?thread "tor_app_name req" "with_coord (tor_app_name req) ?thread node"]
    by (simp add: node_handles_added [OF assms(6)]) (auto simp: with_coord_def Let_def)
  then show ?thesis using trigger_added [OF assms(3-5)]
    by (fastforce simp: added_entity_def)
qed

theorem trigger_reaches_nodes_witness:
  "\<exists>st' answer msg node' p. trigger_op_handler sample_env 0 sample_add
       ((init_coord 0)\<lparr>bucket_app_map := [(''B'', ''A'')], node_status_map := [(''10.0.0.2'', no_NodeStatus)]\<rparr>) =
     Inr (st', [answer, (trigger_update_address ''10.0.0.2'', W_UpdateCoord msg)]) \<and>
     handle_update node_env 3 msg idle_node = Inr node' \<and>
     um_get [] ''B'' (sd_bucket_triggers_map node') = um_get [] ''B'' (sd_bucket_triggers_map idle_node) @ [p]"
proof -
  let ?st = "(init_coord 0)\<lparr>bucket_app_map := [(''B'', ''A'')], node_status_map := [(''10.0.0.2'', no_NodeStatus)]\<rparr>"
  have "codec_ok (ce_codec sample_env)" "se_codec node_env = ce_codec sample_env"
    using sample_codec_ok by (simp_all add: sample_env_def node_env_def)
  moreover obtain t where "gen_trigger_pointer (ce_codec sample_env) 0 (tor_primitive_type sample_add)
      (tor_trigger_name sample_add) (tor_primitive sample_add) = Some t"
    by (simp add: sample_add_def)
  ultimately show ?thesis
    using trigger_reaches_nodes [of sample_env node_env sample_add ?st 0 t 3]
    by (fastforce simp: sample_add_def init_coord_def)
qed

lemma find_trigger_off_the_end:
  "(\<And>p. p \<in> set ps \<Longrightarrow> \<exists>t. deref p st = Inr t \<and> get_trigger_name t \<noteq> tn) \<Longrightarrow>
     find_trigger tn st ps i = Inl IterInvalid"
  by (induction ps arbitrary: i) fastforce+

text \<open>C22. Deleting a time-window trigger brings the worker nodes down. The coordinator does not announce such a trigger
  when it is added, yet announces its deletion; a node that has no other trigger of that name in the bucket then
  searches past the end of the bucket's triggers.\<close>

theorem timed_delete_crashes_nodes:
  assumes "tor_operation_type req = ADD_TRIGGER" and "um_has (tor_bucket_name req) (bucket_app_map st)"
    and "gen_trigger_pointer (ce_codec env) now (tor_primitive_type req) (tor_trigger_name req)
      (tor_primitive req) = Some t"
    and "tor_primitive_type req = BY_TIME"
  shows "\<exists>st1 st2 answer1 answer2 msg1 msg2.
    trigger_op_handler env now req st = Inr (st1, answer1 #
      map (\<lambda>(ip, status). (trigger_update_address ip, W_UpdateCoord msg1)) (node_status_map st)) \<and>
    trigger_op_handler env now' (req\<lparr>tor_operation_type := DELETE_TRIGGER\<rparr>) st1 = Inr (st2, answer2 #
      map (\<lambda>(ip, status). (trigger_update_address ip, W_UpdateCoord msg2)) (node_status_map st)) \<and>
    (\<forall>node. (\<forall>p\<in>set (um_get [] (tor_bucket_name req) (sd_bucket_triggers_map node)).
        \<exists>t. deref p node = Inr t \<and> get_trigger_name t \<noteq> tor_trigger_name req) \<longrightarrow>
      (\<exists>node'. handle_update nenv later msg1 node = Inr node' \<and>
        handle_update nenv later' msg2 node' = Inl IterInvalid))"
proof -
  let ?t = "set_trigger_option (tor_trigger_option req) t"
  let ?del = "no_UpdateCoordMsg\<lparr>ucm_ip := ce_private_ip env, ucm_thread_id := ce_thread_id env,
    ucm_app_name := tor_app_name req, ucm_msg_type := 2,
    ucm_triggers := [no_TriggerEntity\<lparr>te_bucket_name := tor_bucket_name req, te_trigger_name := tor_trigger_name req\<rparr>]\<rparr>"
  have "get_trigger_name ?t = tor_trigger_name req"
    using gen_trigger_pointer_type [OF assms(3)] by (simp add: set_trigger_option_getters)
  with assms(1,2) have del: "\<exists>st2 answer2. trigger_op_handler env now' (req\<lparr>tor_operation_type := DELETE_TRIGGER\<rparr>)
      (st\<lparr>bucket_triggers_map := um_alter [] (\<lambda>ts. ts @ [?t]) (tor_bucket_name req) (bucket_triggers_map st)\<rparr>) =
      Inr (st2, answer2 # map (\<lambda>(ip, status). (trigger_update_address ip, W_UpdateCoord ?del)) (node_status_map st))"
    by (simp add: trigger_op_handler_def delete_trigger_def broadcast_def Let_def no_UpdateCoordMsg_def image_iff)
  have "\<exists>node'. handle_update nenv later (added_message env req t) node = Inr node' \<and>
      handle_update nenv later' ?del node' = Inl IterInvalid"
    if "\<forall>p\<in>set (um_get [] (tor_bucket_name req) (sd_bucket_triggers_map node)).
        \<exists>t. deref p node = Inr t \<and> get_trigger_name t \<noteq> tor_trigger_name req" for node
  proof -
    let ?node = "with_coord (tor_app_name req) (mk_thread (ce_private_ip env) (ce_thread_id env)) node"
    have "find_trigger (tor_trigger_name req) ?node
        (um_get [] (tor_bucket_name req) (sd_bucket_triggers_map ?node)) 0 = Inl IterInvalid"
      by (rule find_trigger_off_the_end) (use that in simp)
    then have "handle_update nenv later' ?del ?node = Inl IterInvalid"
      by (simp add: handle_update_def delete_trigger_entity_def Let_def)
    moreover have "handle_update nenv later (added_message env req t) node = Inr ?node"
      using assms(4) by (simp add: handle_update_def added_message_def no_UpdateCoordMsg_def with_coord_def Let_def)
    ultimately show ?thesis by blast
  qed
  then show ?thesis using trigger_added [OF assms(1-3)] del by blast
qed

theorem timed_delete_crashes_nodes_witness:
  "\<exists>st1 st2 out1 answer2 msg2 node'. trigger_op_handler sample_env 0
       (sample_add\<lparr>tor_primitive_type := BY_TIME, tor_primitive := ser_by_time sample_codec (''f'', 5)\<rparr>)
       ((init_coord 0)\<lparr>bucket_app_map := [(''B'', ''A'')], node_status_map := [(''10.0.0.2'', no_NodeStatus)]\<rparr>) =
     Inr (st1, out1) \<and>
     trigger_op_handler sample_env 1 (sample_add\<lparr>tor_primitive_type := BY_TIME,
       tor_primitive := ser_by_time sample_codec (''f'', 5), tor_operation_type := DELETE_TRIGGER\<rparr>) st1 =
     Inr (st2, [answer2, (trigger_update_address ''10.0.0.2'', W_UpdateCoord msg2)]) \<and>
     handle_update node_env 3 msg2 node' = Inl IterInvalid"
proof -
  let ?st = "(init_coord 0)\<lparr>bucket_app_map := [(''B'', ''A'')], node_status_map := [(''10.0.0.2'', no_NodeStatus)]\<rparr>"
  let ?req = "sample_add\<lparr>tor_primitive_type := BY_TIME, tor_primitive := ser_by_time sample_codec (''f'', 5)\<rparr>"
  obtain t where "gen_trigger_pointer (ce_codec sample_env) 0 (tor_primitive_type ?req)
      (tor_trigger_name ?req) (tor_primitive ?req) = Some t"
    by (cases "par_by_time (ce_codec sample_env) (ser_by_time sample_codec (''f'', 5))") (simp add: sample_add_def)
  note made = this
  have none: "um_get [] ''B'' (sd_bucket_triggers_map idle_node) = []" by code_simp
  have "tor_operation_type ?req = ADD_TRIGGER" "um_has (tor_bucket_name ?req) (bucket_app_map ?st)"
      "tor_primitive_type ?req = BY_TIME"
    by (simp_all add: sample_add_def)
  from timed_delete_crashes_nodes [OF this(1,2) made this(3), of 1 node_env 2 3]
  obtain st1 st2 answer1 answer2 msg1 msg2 where
      1: "trigger_op_handler sample_env 0 ?req ?st = Inr (st1, answer1 #
        map (\<lambda>(ip, status). (trigger_update_address ip, W_UpdateCoord msg1)) (node_status_map ?st))"
    and 2: "trigger_op_handler sample_env 1 (?req\<lparr>tor_operation_type := DELETE_TRIGGER\<rparr>) st1 = Inr (st2, answer2 #
        map (\<lambda>(ip, status). (trigger_update_address ip, W_UpdateCoord msg2)) (node_status_map ?st))"
    and 3: "\<forall>node. (\<forall>p\<in>set (um_get [] (tor_bucket_name ?req) (sd_bucket_triggers_map node)).
        \<exists>t. deref p node = Inr t \<and> get_trigger_name t \<noteq> tor_trigger_name ?req) \<longrightarrow>
      (\<exists>node'. handle_update node_env 2 msg1 node = Inr node' \<and>
        handle_update node_env 3 msg2 node' = Inl IterInvalid)"
    by (elim exE conjE) (rule that)
  have "um_get [] (tor_bucket_name ?req) (sd_bucket_triggers_map idle_node) = []" using none by (simp add: sample_add_def)
  with 3 [THEN spec, of idle_node] obtain node' where "handle_update node_env 3 msg2 node' = Inl IterInvalid" by auto
  with 1 2 show ?thesis by auto
qed

end
