(* ===== verification/Chain_App.thy ===== *)
theory Chain_App
  imports Chain_Payload System_Properties
begin

text \<open>
  The sample application \<^verbatim>\<open>src/benchmarks/00\<close>: \<open>exp00_front\<close> starts a chain of calls of \<open>exp00_back\<close>, each of which hands
  the payload to the next with a counter that is one smaller. A function is a program over the operations of the library;
  what it prints is left out, the clock is the argument \<open>start_time\<close>.
\<close>

subsection \<open>The functions\<close>

text \<open>A function reads an argument up to the first zero byte, and \<open>get_payload\<close> writes to it.\<close>

definition read_arg :: "data_ptr list \<Rightarrow> nat \<Rightarrow> (string \<Rightarrow> prog) \<Rightarrow> prog" where
  "read_arg arg_values i f =
     (case if i < length arg_values then arg_values ! i else NoData of
        HeapData d \<Rightarrow> f (takeWhile (\<lambda>c. c \<noteq> CHR 0x00) d)
      | ptr \<Rightarrow> ArgSize (int i) (\<lambda>n. ReadMem ptr (unat n) (\<lambda>d. f (takeWhile (\<lambda>c. c \<noteq> CHR 0x00) d))))"

definition write_arg :: "data_ptr list \<Rightarrow> nat \<Rightarrow> string \<Rightarrow> prog \<Rightarrow> prog" where
  "write_arg arg_values i v f = WriteMem (arg_values ! i) v f"

text \<open>The last steps of both functions: create the object, fill it, write the payload and send it.\<close>

definition send_payload :: "int \<Rightarrow> int \<Rightarrow> int \<Rightarrow> int \<Rightarrow> prog" where
  "send_payload total_chain_len cur_chain_len payload_size send_time =
     CreateTarget ''exp00_back'' True (word_of_int payload_size) (\<lambda>obj.
       SetValue obj (fill payload_size)
      (SetValue obj (set_payload total_chain_len cur_chain_len payload_size send_time)
      (SendObject obj False (Return 0))))"

text \<open>Undefined behaviour of a function (a signed overflow, an overrun of a buffer) ends the executor.\<close>

definition crash :: prog where
  "crash = ReadMem NoData 1 (\<lambda>_. Return 0)"

definition exp00_front :: "int \<Rightarrow> data_ptr list \<Rightarrow> prog" where
  "exp00_front start_time arg_values =
     (if length arg_values \<noteq> 2 then Return (- 1)
      else read_arg arg_values 0 (\<lambda>a. read_arg arg_values 1 (\<lambda>b.
        case parse_payload_size b of
          Inl _ \<Rightarrow> crash
        | Inr given \<Rightarrow>
            let payload_size = (if given > 64 then given else 64)
            in case stoi a of
                 Inl _ \<Rightarrow> Return (- 1)
               | Inr chain_length \<Rightarrow>
                   if given = - 1 then Return (- 1)
                   else send_payload chain_length chain_length payload_size start_time)))"

definition exp00_back :: "data_ptr list \<Rightarrow> prog" where
  "exp00_back arg_values =
     read_arg arg_values 0 (\<lambda>serialized.
       case get_payload serialized of
         Inl _ \<Rightarrow> crash
       | Inr (parsed, left) \<Rightarrow> write_arg arg_values 0 left
           (case parsed of
              None \<Rightarrow> Return (- 1)
            | Some (total_chain_len, cur_chain_len, payload_size, send_time) \<Rightarrow>
                if cur_chain_len = 1 then Return 0
                else if cur_chain_len > 1
                then send_payload total_chain_len (cur_chain_len - 1) payload_size send_time
                else Return (- 1)))"

text \<open>What the executors of the application can load.\<close>

definition exp00_functions :: "int \<Rightarrow> exec_env" where
  "exp00_functions start_time =
     \<lparr>ee_functions = (\<lambda>name. if name = ''exp00_front'' then Some (exp00_front start_time)
                             else if name = ''exp00_back'' then Some exp00_back else None)\<rparr>"

subsection \<open>The clients\<close>

definition exp00_register :: "CoordResponse \<Rightarrow> PheromoneClient \<Rightarrow> sends \<times> PheromoneClient" where
  "exp00_register reply c =
     register_app ''exp00'' [''exp00_front'', ''exp00_back'']
       [([''exp00_front''], [''exp00_back''], DIRECT), ([''exp00_back''], [''exp00_back''], DIRECT)] reply c"

text \<open>\<open>None\<close>: the number of arguments is wrong.\<close>

definition exp00_invoke :: "string list \<Rightarrow> CoordResponse \<Rightarrow> PheromoneClient \<Rightarrow> (sends \<times> PheromoneClient) option" where
  "exp00_invoke argv reply c =
     (case argv of [chain_length, payload] \<Rightarrow> Some (call_app ''exp00'' ''exp00_front'' [chain_length, payload] reply c) | _ \<Rightarrow> None)"

subsection \<open>What the functions send\<close>

text \<open>The data of an object, without the zero byte at its end.\<close>

definition chain_data :: "int \<Rightarrow> int \<Rightarrow> int \<Rightarrow> int \<Rightarrow> bytes" where
  "chain_data a b n t =
     set_payload a b n t @ replicate (nat n - 1 - length (set_payload a b n t)) (CHR 0xff)"

lemma chain_data_plain: "plain (chain_data a b n t)" "chain_data a b n t \<noteq> []"
  by (auto simp: chain_data_def plain_def set_payload_def int_to_string_no int_to_string_hd)

lemma chain_data_read:
  assumes "in_int a" "in_int b" "in_long n" "in_long t"
  obtains left where "get_payload (chain_data a b n t) = Inr (Some (a, b, n, t), left)" "length left \<le> length (chain_data a b n t)"
proof
  let ?f = "replicate (nat n - 1 - length (set_payload a b n t)) (CHR 0xff)"
  show "get_payload (chain_data a b n t) = Inr (Some (a, b, n, t), read_payload a b n t ?f)"
    unfolding chain_data_def by (rule get_set_payload) (use assms in auto)
  show "length (read_payload a b n t ?f) \<le> length (chain_data a b n t)"
    by (simp add: read_payload_def chain_data_def set_payload_def)
qed

lemma filled_segment:
  assumes "in_int a" "in_int b" "64 \<le> n" "in_long t"
  shows "set_payload a b n t @ drop (length (set_payload a b n t)) (fill n) = chain_data a b n t @ [CHR 0x00]"
    "length (chain_data a b n t) = nat n - 1"
  using payload_fits [OF assms] by (simp_all add: fill_def chain_data_def)

text \<open>The object message that \<open>send_payload\<close> puts into the channel.\<close>

definition chain_object :: "string \<Rightarrow> string \<Rightarrow> int \<Rightarrow> EpheObject" where
  "chain_object f s n =
     \<lparr>eo_obj_name = get_local_object_name ''b_exp00_back'' (''k_'' @ f) s, eo_size = word_of_int n,
      eo_target_func = ''exp00_back'', eo_mapped = True\<rparr>"

definition chain_message :: "UserLibrary \<Rightarrow> int \<Rightarrow> int \<Rightarrow> int \<Rightarrow> int \<Rightarrow> bytes" where
  "chain_message lib a b n t =
     object_message (snd (lib_request_id lib)) (fst (lib_request_id lib)) False
       (chain_object (ul_function lib) (ul_session_id lib) n) (chain_data a b n t @ [CHR 0x00])"

lemma run_send_payload:
  assumes "in_int a" "in_int b" "64 \<le> n" "n \<le> 1024" "in_long t" "ex_chan st = []"
  shows "\<exists>st'. run_prog (send_payload a b n t) st = Inr (Some 0, st') \<and>
    ex_sent st' = ex_sent st @ [chain_message (ex_lib st) a b n t] \<and> ex_lib st' = snd (lib_request_id (ex_lib st)) \<and>
    ex_inbox st' = ex_inbox st \<and> ex_chan st' = [] \<and> ex_thread_id st' = ex_thread_id st \<and>
    ex_report_start st' = ex_report_start st"
proof -
  let ?lib = "ex_lib st"
  let ?obj = "chain_object (ul_function ?lib) (ul_session_id ?lib) n"
  let ?p = "length (ex_objects st)" and ?nm = "eo_obj_name ?obj"
  define seg where "seg = take (nat n) (um_get [] ?nm (ex_shm st) @ replicate (nat n) (CHR 0x00))"
  define st1 where "st1 = st\<lparr>ex_shm := um_put ?nm seg (ex_shm st), ex_objects := ex_objects st @ [?obj]\<rparr>"
  have w: "unat (word_of_int n :: 64 word) = nat n" using assms(3,4) by (simp add: unat_eq_nat_uint uint_word_of_int)
  have nm: "?nm \<noteq> []" by (simp add: chain_object_def get_local_object_name_def)
  have l: "length seg = nat n" by (simp add: seg_def)
  have 1: "create_target_object ''exp00_back'' True (word_of_int n) st = (?p, st1)"
    using nm assms(3) by (simp add: create_target_object_def new_EpheObject_def shm_acquire_def w st1_def seg_def
        chain_object_def Let_def)
  define st2 where "st2 = st1\<lparr>ex_shm := um_put ?nm (fill n) (ex_shm st1)\<rparr>"
  have m: "eo_mapped ?obj" "obj_at ?p st1 = Inr ?obj" by (simp_all add: chain_object_def st1_def obj_at_def)
  have lf: "length (fill n) = nat n" "fill n \<noteq> []" using assms(3) by (simp_all add: fill_def)
  have 2: "set_value ?p (fill n) st1 = Inr st2"
    using m lf l by (simp add: set_value_def st2_def st1_def)
  define st3 where "st3 = st2\<lparr>ex_shm := um_put ?nm (chain_data a b n t @ [CHR 0x00]) (ex_shm st2)\<rparr>"
  have "obj_at ?p st2 = Inr ?obj" by (simp add: st2_def st1_def obj_at_def)
  then have 3: "set_value ?p (set_payload a b n t) st2 = Inr st3"
    using m lf payload_fits [OF assms(1,2,3,5)] filled_segment [OF assms(1,2,3,5)]
    by (auto simp: set_value_def st3_def st2_def set_payload_def int_to_string_hd)
  have o: "obj_at ?p st3 = Inr ?obj" by (simp add: st3_def st2_def st1_def obj_at_def)
  have sz: "unat (eo_size ?obj) = nat n" by (simp add: chain_object_def w)
  obtain r lib' where r: "lib_request_id ?lib = (r, lib')" by fastforce
  have "read_mem (get_value ?obj) (nat n) (st3\<lparr>ex_lib := lib'\<rparr>) = Inr (chain_data a b n t @ [CHR 0x00])"
    using m(1) filled_segment(2) [OF assms(1,2,3,5)] assms(3) by (simp add: read_mem_def get_value_def st3_def)
  moreover have "ex_lib st3 = ?lib" "ex_chan st3 = []" "ex_sent st3 = ex_sent st"
    using assms(6) by (simp_all add: st3_def st2_def st1_def)
  ultimately have 4: "send_object ?p False st3 =
      Inr (st3\<lparr>ex_lib := lib', ex_chan := [], ex_sent := ex_sent st @ [chain_message ?lib a b n t]\<rparr>)"
    using o sz r assms(3,4)
    by (simp add: send_object_def msgDataPackingThreshold_def chan_send_def chain_message_def Let_def)
  show ?thesis using 1 2 3 4 r by (simp add: send_payload_def st3_def st2_def st1_def)
qed

lemma read_heap_arg [simp]:
  "i < length args \<Longrightarrow> plain (args ! i) \<Longrightarrow> read_arg (map (\<lambda>a. HeapData (a @ [CHR 0x00])) args) i f = f (args ! i)"
  by (simp add: read_arg_def takeWhile_plain)

lemma run_back:
  assumes "in_int a" "in_int b" "in_long n" "in_long t" "0 < b"
  shows "run_prog (exp00_back [HeapData (chain_data a b n t @ [CHR 0x00])]) st =
    (if b = 1 then Inr (Some 0, st) else run_prog (send_payload a (b - 1) n t) st)"
proof -
  obtain left where g: "get_payload (chain_data a b n t) = Inr (Some (a, b, n, t), left)"
    and l: "length left \<le> length (chain_data a b n t)" by (rule chain_data_read [OF assms(1-4)])
  have "write_mem (HeapData (chain_data a b n t @ [CHR 0x00])) left st = Inr st"
    using l by (simp add: write_mem_def)
  then show ?thesis
    using g assms(5) read_heap_arg [of 0 "[chain_data a b n t]"] chain_data_plain [of a b n t]
    by (simp add: exp00_back_def write_arg_def)
qed

lemma run_front:
  assumes "plain x" "plain y" "stoi x = Inr a" "parse_payload_size y = Inr given" "given \<noteq> - 1"
  shows "exp00_front t (map (\<lambda>a. HeapData (a @ [CHR 0x00])) [x, y]) = send_payload a a (max given 64) t"
  using assms read_heap_arg [of 0 "[x, y]"] read_heap_arg [of 1 "[x, y]"]
  by (simp add: exp00_front_def max_def)

subsection \<open>A round of an executor\<close>

lemma exec_round_call:
  assumes "ex_inbox ex = [Some (call_message 0 persist s f args)]" "ex_report_start ex = now"
    and "plain s" "plain f" "list_all plain args" "last (f # args) \<noteq> []" and "ee_functions env f = Some prog"
    and "run_prog (prog (map (\<lambda>a. HeapData (a @ [CHR 0x00])) args)) (called s f persist args (ex\<lparr>ex_inbox := []\<rparr>)) = Inr (r, ex1)"
    and "ex_report_start ex1 = now"
  shows "exec_round env now now ex = Inr (exec_update_status False (ex1\<lparr>ex_lib := clear_session (ex_lib ex1)\<rparr>))"
proof -
  have k: "byte_at (call_message 0 persist s f args) 0 = Inr 1" by (simp add: call_message_def byte_at_def)
  have c: "exec_call env (call_message 0 persist s f args) (ex\<lparr>ex_inbox := []\<rparr>) =
      Inr (True, exec_update_status False (ex1\<lparr>ex_lib := clear_session (ex_lib ex1)\<rparr>))"
    using exec_call_runs [OF assms(3-7)] assms(8) by simp
  have "exec_timer now now (exec_update_status False (ex1\<lparr>ex_lib := clear_session (ex_lib ex1)\<rparr>)) =
      exec_update_status False (ex1\<lparr>ex_lib := clear_session (ex_lib ex1)\<rparr>)"
    using assms(9) by (simp add: exec_timer_def exec_update_status_def chan_send_retry_def to_ms_def ExecutorTimerThreshold_def)
  then show ?thesis using assms(1) k c by (simp add: exec_round_def chan_recv_def)
qed

text \<open>An executor that is ready for a call, and what it has sent when it has run one.\<close>

definition exec_ready :: "TimePoint \<Rightarrow> exec \<Rightarrow> bool" where
  "exec_ready now ex \<longleftrightarrow> ex_thread_id ex = 0 \<and> ul_chan_id (ex_lib ex) = 1 \<and> ex_chan ex = [] \<and> ex_inbox ex = [] \<and>
     ex_report_start ex = now"

definition chain_reply :: "string \<Rightarrow> string \<Rightarrow> int \<Rightarrow> int \<Rightarrow> int \<Rightarrow> int \<Rightarrow> bytes list \<Rightarrow> bool" where
  "chain_reply s f a b n t out \<longleftrightarrow>
     (\<exists>lib. ul_chan_id lib = 1 \<and> ul_session_id lib = s \<and> ul_function lib = f \<and>
        out = [report 1 True] @ (if b = 0 then [] else [chain_message lib a b n t]) @ [report 1 False])"

lemma lib_request_id_fields [simp]:
  "ul_chan_id (snd (lib_request_id lib)) = ul_chan_id lib" "ul_session_id (snd (lib_request_id lib)) = ul_session_id lib"
  "ul_function (snd (lib_request_id lib)) = ul_function lib"
  by (simp_all add: lib_request_id_def Let_def)

lemma called_ready:
  assumes "exec_ready now ex"
  shows "ex_chan (called s f persist args ex) = []" "ex_inbox (called s f persist args ex) = []"
    "ex_report_start (called s f persist args ex) = now" "ex_thread_id (called s f persist args ex) = 0"
    "ul_chan_id (ex_lib (called s f persist args ex)) = 1"
    "ex_sent (called s f persist args ex) = ex_sent ex @ [report 1 True]"
  using assms by (simp_all add: exec_ready_def called_def called_with_def exec_update_status_def chan_send_retry_def
      report_def Let_def)

lemma exec_done:
  assumes "ex_thread_id ex1 = 0" "ul_chan_id (ex_lib ex1) = 1" "ex_chan ex1 = []" "ex_inbox ex1 = []" "ex_report_start ex1 = now"
  shows "exec_ready now (exec_update_status False (ex1\<lparr>ex_lib := clear_session (ex_lib ex1)\<rparr>))"
    "ex_sent (exec_update_status False (ex1\<lparr>ex_lib := clear_session (ex_lib ex1)\<rparr>)) = ex_sent ex1 @ [report 1 False]"
  using assms by (simp_all add: exec_ready_def exec_update_status_def chan_send_retry_def clear_session_def report_def)

lemma exec_sends_chain:
  assumes "exec_ready now ex" "ex_sent ex = []" "plain s" "plain f" "list_all plain args" "last (f # args) \<noteq> []"
    and "ee_functions env f = Some prog" and "in_int a" "in_int b" "64 \<le> n" "n \<le> 1024" "in_long t" "b \<noteq> 0"
    and "prog (map (\<lambda>a. HeapData (a @ [CHR 0x00])) args) = p" "\<And>st. run_prog p st = run_prog (send_payload a b n t) st"
  shows "\<exists>ex'. exec_round env now now (ex\<lparr>ex_inbox := [Some (call_message 0 persist s f args)]\<rparr>) = Inr ex' \<and>
    exec_ready now ex' \<and> chain_reply s f a b n t (ex_sent ex')"
proof -
  let ?c = "called s f persist args ex"
  note c = called_ready [OF assms(1)]
  have e: "ex\<lparr>ex_inbox := []\<rparr> = ex" using assms(1) by (simp add: exec_ready_def)
  obtain ex1 where ex1: "run_prog (send_payload a b n t) ?c = Inr (Some 0, ex1)"
      "ex_sent ex1 = ex_sent ?c @ [chain_message (ex_lib ?c) a b n t]" "ex_lib ex1 = snd (lib_request_id (ex_lib ?c))"
      "ex_inbox ex1 = ex_inbox ?c" "ex_chan ex1 = []" "ex_thread_id ex1 = ex_thread_id ?c" "ex_report_start ex1 = ex_report_start ?c"
    using run_send_payload [OF assms(8-12) c(1)] by blast
  let ?ex' = "exec_update_status False (ex1\<lparr>ex_lib := clear_session (ex_lib ex1)\<rparr>)"
  have d: "exec_ready now ?ex'" "ex_sent ?ex' = ex_sent ex1 @ [report 1 False]"
    using exec_done [of ex1 now] ex1 c by simp_all
  have "exec_round env now now (ex\<lparr>ex_inbox := [Some (call_message 0 persist s f args)]\<rparr>) = Inr ?ex'"
    by (rule exec_round_call [OF _ _ assms(3-7), where r = "Some 0"])
      (use assms(1) ex1 c in \<open>simp_all add: exec_ready_def assms(14,15) e\<close>)
  moreover have "chain_reply s f a b n t (ex_sent ?ex')"
    unfolding chain_reply_def using d ex1 c assms(2,13) by (intro exI [of _ "ex_lib ?c"]) simp
  ultimately show ?thesis using d(1) by blast
qed

lemma exec_ends_chain:
  assumes "exec_ready now ex" "ex_sent ex = []" "plain s" "plain f" "list_all plain args" "last (f # args) \<noteq> []"
    and "ee_functions env f = Some prog" and "\<And>st. run_prog (prog (map (\<lambda>a. HeapData (a @ [CHR 0x00])) args)) st = Inr (r, st)"
  shows "\<exists>ex'. exec_round env now now (ex\<lparr>ex_inbox := [Some (call_message 0 persist s f args)]\<rparr>) = Inr ex' \<and>
    exec_ready now ex' \<and> chain_reply s f a 0 n t (ex_sent ex')"
proof -
  let ?c = "called s f persist args ex"
  note c = called_ready [OF assms(1)]
  let ?ex' = "exec_update_status False (?c\<lparr>ex_lib := clear_session (ex_lib ?c)\<rparr>)"
  have e: "ex\<lparr>ex_inbox := []\<rparr> = ex" using assms(1) by (simp add: exec_ready_def)
  have d: "exec_ready now ?ex'" "ex_sent ?ex' = ex_sent ?c @ [report 1 False]" using exec_done [of ?c now] c by simp_all
  have "exec_round env now now (ex\<lparr>ex_inbox := [Some (call_message 0 persist s f args)]\<rparr>) = Inr ?ex'"
    by (rule exec_round_call [OF _ _ assms(3-7), where r = r]) (use assms(1) c in \<open>simp_all add: exec_ready_def assms(8) e\<close>)
  moreover have "chain_reply s f a 0 n t (ex_sent ?ex')"
    unfolding chain_reply_def using d c assms(2) by (intro exI [of _ "ex_lib ?c"]) simp
  ultimately show ?thesis using d(1) by blast
qed

lemma exec_back:
  assumes "exec_ready now ex" "ex_sent ex = []" "plain s" "in_int a" "in_int b" "0 < b" "64 \<le> n" "n \<le> 1024" "in_long t"
  shows "\<exists>ex'. exec_round (exp00_functions t0) now now
      (ex\<lparr>ex_inbox := [Some (call_message 0 persist s ''exp00_back'' [chain_data a b n t])]\<rparr>) = Inr ex' \<and>
    exec_ready now ex' \<and> chain_reply s ''exp00_back'' a (b - 1) n t (ex_sent ex')"
proof -
  have n: "in_long n" using assms(7,8) by (simp add: in_long_def)
  note run = run_back [OF assms(4,5) n assms(9,6)]
  have p: "plain ''exp00_back''" "list_all plain [chain_data a b n t]" "last [''exp00_back'', chain_data a b n t] \<noteq> []"
    "ee_functions (exp00_functions t0) ''exp00_back'' = Some exp00_back"
    using chain_data_plain by (simp_all add: plain_def exp00_functions_def)
  show ?thesis
  proof (cases "b = 1")
    case True
    then show ?thesis using exec_ends_chain [OF assms(1-3) p, where r = "Some 0"] run by simp
  next
    case False
    have b: "in_int (b - 1)" "b - 1 \<noteq> 0" using assms(5,6) False by (auto simp: in_int_def)
    show ?thesis by (rule exec_sends_chain [OF assms(1-3) p assms(4) b(1) assms(7-9) b(2) refl]) (use run False in simp)
  qed
qed

lemma exec_front:
  assumes "exec_ready now ex" "ex_sent ex = []" "plain s" "in_int a" "a \<noteq> 0" "given \<le> 1024" "in_long t"
    and "plain x" "plain y" "y \<noteq> []" "stoi x = Inr a" "parse_payload_size y = Inr given" "given \<noteq> - 1"
  shows "\<exists>ex'. exec_round (exp00_functions t) now now
      (ex\<lparr>ex_inbox := [Some (call_message 0 persist s ''exp00_front'' [x, y])]\<rparr>) = Inr ex' \<and>
    exec_ready now ex' \<and> chain_reply s ''exp00_front'' a a (max given 64) t (ex_sent ex')"
proof (rule exec_sends_chain [OF assms(1-3)])
  show "ee_functions (exp00_functions t) ''exp00_front'' = Some (exp00_front t)" by (simp add: exp00_functions_def)
qed (use assms run_front [OF assms(8,9,11-13)] in \<open>simp_all add: plain_def\<close>)

end
