(* ===== verification/Chain_Node.thy ===== *)
theory Chain_Node
  imports Chain_App
begin

text \<open>
  The sample application on a worker node with one executor: the rounds of the scheduler while a chain of calls runs.
  The object of a function arrives while its executor is still busy, so the next call is delayed until the executor
  reports that it is available.
\<close>

subsection \<open>Rounds\<close>

definition message_round :: "TimePoint \<Rightarrow> bytes option \<Rightarrow> polled \<Rightarrow> round_in" where
  "message_round now msg po = \<lparr>ri_message = msg, ri_polled = po, ri_now = now, ri_report_end = now, ri_after = now\<rparr>"

text \<open>The node knows the application: its functions, and that each of them calls \<open>exp00_back\<close> directly.\<close>

definition exp00_known :: "sched \<Rightarrow> bool" where
  "exp00_known st \<longleftrightarrow>
     (\<forall>f\<in>{''exp00_front'', ''exp00_back''}.
        map_of (sd_func_app_map st) f = Some ''exp00'' \<and> um_get [] f (sd_func_trigger_timeout_map st) = [] \<and>
        (\<exists>info. map_of (sd_app_info_map st) ''exp00'' = Some info \<and>
           (\<exists>targets. map_of (ai_direct_deps info) f = Some targets \<and> ''exp00_back'' \<in> set targets)))"

definition idle_client :: "KvsClient \<Rightarrow> bool" where
  "idle_client c \<longleftrightarrow> kc_pending_request_map c = [] \<and> kc_pending_get_response_map c = [] \<and>
     kc_pending_put_response_map c = [] \<and> kc_sent c = []"

text \<open>The only executor has status \<open>x\<close>, the calls \<open>q\<close> are delayed, nothing is expected from elsewhere, and the timer is
  not due.\<close>

definition chain_ready :: "TimePoint \<Rightarrow> 8 word \<Rightarrow> DelayFunctionCall list \<Rightarrow> sched \<Rightarrow> bool" where
  "chain_ready now x q st \<longleftrightarrow>
     sd_executor_status_map st = [(0, x)] \<and> um_get False 0 (sd_executor_chans_map st) \<and> sd_delay_call_queue st = q \<and>
     (\<forall>rs\<in>set (sd_resp_queues st). rs = []) \<and> (\<exists>c cs. sd_kvs_clients st = c # cs \<and> idle_client c) \<and>
     exp00_known st \<and> sd_report_start st = now"

lemma gc_idle: "idle_client c \<Longrightarrow> gc_pending now c = Inr ([], c)"
  by (simp add: idle_client_def gc_pending_def gc_pending_requests_def gc_pending_gets_def gc_pending_puts_def)

lemma kvs_quiet:
  assumes "chain_ready now x q st" "po_kvs_addresses po = None" "po_kvs_response po = None"
  shows "get_kvs_responses env now 0 po st = Inr ([], st)"
proof -
  obtain c cs where c: "sd_kvs_clients st = c # cs" "idle_client c" using assms(1) by (auto simp: chain_ready_def)
  then have "c\<lparr>kc_sent := []\<rparr> = c" "kc_sent c = []" by (simp_all add: idle_client_def)
  then show ?thesis using c gc_idle [OF c(2)] assms(2,3) by (simp add: get_kvs_responses_def with_kvs_def receive_async_def)
qed

lemma resp_queues_quiet:
  assumes "chain_ready now x q st"
  shows "concat (sd_resp_queues st) = []" "st\<lparr>sd_resp_queues := map (\<lambda>_. []) (sd_resp_queues st)\<rparr> = st"
proof -
  have r: "\<forall>rs\<in>set (sd_resp_queues st). rs = []" using assms by (simp add: chain_ready_def)
  then show "concat (sd_resp_queues st) = []" by simp
  have "map (\<lambda>_. []) (sd_resp_queues st) = sd_resp_queues st" using r by (intro map_idI) auto
  then show "st\<lparr>sd_resp_queues := map (\<lambda>_. []) (sd_resp_queues st)\<rparr> = st" by simp
qed

lemma try_recv_quiet:
  assumes "chain_ready now x q st"
  shows "try_recv_msg env now nothing_polled st = Inr ([], st)"
  using kvs_quiet [OF assms, of nothing_polled env] resp_queues_quiet [OF assms]
  by (simp add: try_recv_msg_def optional_def recv_call_def recv_data_def nothing_polled_def)

subsection \<open>Scheduling on the executor\<close>

definition delayed :: "TimePoint \<Rightarrow> string \<Rightarrow> string \<Rightarrow> string list \<Rightarrow> DelayFunctionCall" where
  "delayed now s f args =
     \<lparr>dc_session_id = s, dc_app_name = ''exp00'', dc_func_name = f, dc_func_args = args, dc_arg_flag = 0, dc_trigger_time = now\<rparr>"

lemma schedule_busy:
  assumes "chain_ready now 3 q st" "0 < se_sched_delay_time env"
  shows "\<exists>st'. schedule_func_call env now s ''exp00'' f args 0 st = Inr st' \<and>
    chain_ready now 3 (q @ [delayed now s f args]) st' \<and> exec_sent st' = exec_sent st"
  using assms
  by (simp add: chain_ready_def schedule_func_call_def no_local_executor_def delayed_def exp00_known_def exec_sent_def)

lemma rand_one: "\<exists>seed. sd_rand_mod env 1 st = Inr (0, st\<lparr>sd_ram_seed := seed\<rparr>)"
  by (cases "se_rand_r env (sd_ram_seed st)") (auto simp: sd_rand_mod_def)

lemma schedule_available:
  assumes "chain_ready now x q st" "x = 0 \<or> x = 1" "se_shared_executor env" "f \<in> {''exp00_front'', ''exp00_back''}"
  shows "\<exists>st' persist. schedule_func_call env now s app f args 0 st = Inr st' \<and>
    chain_ready now 2 q st' \<and> exec_sent st' = exec_sent st @ [(0, call_message 0 persist s f args)]"
proof -
  have started: "\<exists>st' persist. start_call now 0 s f args 0 st0 = Inr st' \<and>
      chain_ready now 2 q st' \<and> exec_sent st' = exec_sent st @ [(0, call_message 0 persist s f args)]"
    if "chain_ready now x q st0" "exec_sent st0 = exec_sent st" for st0
  proof -
    let ?st1 = "send_to_executer 0 (call_message 0 (session_client_addr s st0 = []) s f args) (touch_session s st0)"
    let ?st2 = "?st1\<lparr>sd_executor_status_map := um_put 0 2 (sd_executor_status_map ?st1)\<rparr>"
    have 1: "um_get [] f (sd_func_trigger_timeout_map ?st2) = []"
      using that(1) assms(4) by (auto simp: chain_ready_def exp00_known_def send_to_executer_def touch_session_def emit_def Let_def)
    have 2: "chain_ready now 2 q (?st2\<lparr>sd_func_trigger_timeout_map := um_touch [] f (sd_func_trigger_timeout_map ?st2)\<rparr>)"
      using that(1) assms(4)
      by (auto simp: chain_ready_def exp00_known_def send_to_executer_def touch_session_def emit_def Let_def)
    have "exec_sent ?st2 = exec_sent st @ [(0, call_message 0 (session_client_addr s st0 = []) s f args)]"
      using that by (simp add: chain_ready_def exec_sent_def send_to_executer_def touch_session_def emit_def Let_def)
    then show ?thesis using 1 2 by (auto simp: start_call_def note_rerun_def exec_sent_def Let_def)
  qed
  let ?st0 = "if 1 \<in> snd ` set (sd_executor_status_map st)
    then st\<lparr>sd_function_executor_map := um_touch [] f (sd_function_executor_map st)\<rparr> else st"
  obtain seed where r: "sd_rand_mod env 1 ?st0 = Inr (0, ?st0\<lparr>sd_ram_seed := seed\<rparr>)" using rand_one by blast
  have 0: "chain_ready now x q (?st0\<lparr>sd_ram_seed := seed\<rparr>)" "exec_sent (?st0\<lparr>sd_ram_seed := seed\<rparr>) = exec_sent st"
    using assms(1) by (simp_all add: chain_ready_def exp00_known_def exec_sent_def)
  show ?thesis
  proof (cases "x = 1 \<and> 0 \<in> set (um_get [] f (sd_function_executor_map st))")
    case True
    then have "find_executors (se_shared_executor env) (um_get [] f (sd_function_executor_map st)) (sd_executor_status_map st) = ([0], [])"
      using assms(1) by (simp add: chain_ready_def)
    then show ?thesis using started [OF 0] r by (simp add: schedule_func_call_def Let_def)
  next
    case False
    then have f: "find_executors (se_shared_executor env) (um_get [] f (sd_function_executor_map st)) (sd_executor_status_map st) = ([], [0])"
      using assms(1-3) by (auto simp: chain_ready_def)
    let ?st1 = "?st0\<lparr>sd_ram_seed := seed, sd_function_executor_map := um_alter [] (us_insert 0) f (sd_function_executor_map (?st0\<lparr>sd_ram_seed := seed\<rparr>))\<rparr>"
    have "chain_ready now x q ?st1" "exec_sent ?st1 = exec_sent st"
      using 0 by (simp_all add: chain_ready_def exp00_known_def exec_sent_def)
    then show ?thesis using started [of ?st1] f r by (simp add: schedule_func_call_def Let_def)
  qed
qed

subsection \<open>The end of a round\<close>

lemma timer_quiet: "sd_report_start st = now \<Longrightarrow> timer env now now st = Inr st"
  by (simp add: timer_def to_ms_def schedTimerThreshold_def)

lemma delay_none: "chain_ready now x [] st \<Longrightarrow> delay_forwarding env now st = Inr st"
  by (simp add: chain_ready_def delay_forwarding_def)

lemma delay_keeps:
  assumes "chain_ready now 3 [delayed now s f args] st"
  shows "delay_forwarding env now st = Inr st"
  using assms by (simp add: chain_ready_def delay_forwarding_def get_avail_executor_num_def delayed_def to_us_def)

lemma delay_runs:
  assumes "chain_ready now 1 [delayed now s f args] st" "se_shared_executor env" "f \<in> {''exp00_front'', ''exp00_back''}"
  shows "\<exists>st' persist. delay_forwarding env now st = Inr st' \<and>
    chain_ready now 2 [] st' \<and> exec_sent st' = exec_sent st @ [(0, call_message 0 persist s f args)]"
proof -
  obtain st' persist where st': "schedule_func_call env now s ''exp00'' f args 0 st = Inr st'"
      "chain_ready now 2 [delayed now s f args] st'" "exec_sent st' = exec_sent st @ [(0, call_message 0 persist s f args)]"
    using schedule_available [OF assms(1) _ assms(2,3)] by blast
  have q: "sd_delay_call_queue st = [delayed now s f args]" "get_avail_executor_num st = 1"
    using assms(1) by (simp_all add: chain_ready_def get_avail_executor_num_def)
  have "delay_forwarding env now st = Inr (st'\<lparr>sd_delay_call_queue := []\<rparr>)"
    using st' q by (simp add: delay_forwarding_def delayed_def chain_ready_def)
  moreover have "chain_ready now 2 [] (st'\<lparr>sd_delay_call_queue := []\<rparr>)"
    using st'(2) by (simp add: chain_ready_def exp00_known_def)
  ultimately show ?thesis using st'(3) by (auto simp: exec_sent_def)
qed

subsection \<open>The messages of the executor\<close>

lemma quiet_round:
  assumes "handle_executor_msg env now m st = Inr st1" "chain_ready now x q st1" "delay_forwarding env now st1 = Inr st2"
    "sd_report_start st2 = now"
  shows "sched_round env (message_round now (Some m) nothing_polled) st = Inr st2"
  using assms try_recv_quiet [OF assms(2)] timer_quiet [OF assms(4)]
  by (simp add: sched_round_def message_round_def optional_def)

lemma handle_report:
  "handle_executor_msg env now (report 1 busy) st = Inr (if busy then executor_busy 0 st else executor_available 0 st)"
  by (simp add: handle_executor_msg_def report_def byte_at_def)

lemma round_busy:
  assumes "chain_ready now x [] st"
  shows "\<exists>st'. sched_round env (message_round now (Some (report 1 True)) nothing_polled) st = Inr st' \<and>
    chain_ready now 3 [] st' \<and> exec_sent st' = exec_sent st"
proof -
  have c: "chain_ready now 3 [] (executor_busy 0 st)"
    using assms by (simp add: chain_ready_def executor_busy_def exp00_known_def)
  have "sched_round env (message_round now (Some (report 1 True)) nothing_polled) st = Inr (executor_busy 0 st)"
    by (rule quiet_round [OF _ c delay_none [OF c]]) (use c in \<open>simp_all add: handle_report chain_ready_def\<close>)
  then show ?thesis using c by (simp add: executor_busy_def exec_sent_def)
qed

lemma exec_sent_available [simp]: "exec_sent (executor_available e st) = exec_sent st"
  by (simp add: executor_available_def exec_sent_def Let_def)

lemma available_ready:
  "chain_ready now x q st \<Longrightarrow> chain_ready now (if x = 0 \<or> x = 2 then 0 else 1) q (executor_available 0 st)"
  by (simp add: chain_ready_def executor_available_def exp00_known_def)

lemma round_available:
  assumes "chain_ready now x [] st"
  shows "\<exists>st'. sched_round env (message_round now (Some (report 1 False)) nothing_polled) st = Inr st' \<and>
    chain_ready now (if x = 0 \<or> x = 2 then 0 else 1) [] st' \<and> exec_sent st' = exec_sent st"
proof -
  note c = available_ready [OF assms]
  have "sched_round env (message_round now (Some (report 1 False)) nothing_polled) st = Inr (executor_available 0 st)"
    by (rule quiet_round [OF _ c delay_none [OF c]]) (use c in \<open>simp_all add: handle_report chain_ready_def\<close>)
  then show ?thesis using c by simp
qed

lemma round_available_next:
  assumes "chain_ready now 3 [delayed now s ''exp00_back'' args] st" "se_shared_executor env"
  shows "\<exists>st' persist. sched_round env (message_round now (Some (report 1 False)) nothing_polled) st = Inr st' \<and>
    chain_ready now 2 [] st' \<and> exec_sent st' = exec_sent st @ [(0, call_message 0 persist s ''exp00_back'' args)]"
proof -
  have c: "chain_ready now 1 [delayed now s ''exp00_back'' args] (executor_available 0 st)"
    using available_ready [OF assms(1)] by simp
  obtain st' persist where st': "delay_forwarding env now (executor_available 0 st) = Inr st'" "chain_ready now 2 [] st'"
      "exec_sent st' = exec_sent (executor_available 0 st) @ [(0, call_message 0 persist s ''exp00_back'' args)]"
    using delay_runs [OF c assms(2)] by blast
  have "sched_round env (message_round now (Some (report 1 False)) nothing_polled) st = Inr st'"
    by (rule quiet_round [OF _ c st'(1)]) (use st'(2) in \<open>simp_all add: handle_report chain_ready_def\<close>)
  then show ?thesis using st'(2,3) by auto
qed

lemma handle_chain_object:
  assumes "chain_ready now 3 [] st" "0 < se_sched_delay_time env" "f \<in> {''exp00_front'', ''exp00_back''}"
    and "oi_session_id info = s" "oi_src_function info = f" "oi_tgt_function info = ''exp00_back''" "oi_data info = d"
  shows "\<exists>st'. send_ephemeral env now 1 info st = Inr st' \<and>
    chain_ready now 3 [delayed now s ''exp00_back'' [d]] st' \<and> exec_sent st' = exec_sent st"
proof -
  let ?st1 = "st\<lparr>sd_key_val_map := um_put (obj_name info) (oi_data info) (sd_key_val_map st),
    sd_key_len_map := um_put (obj_name info) (of_nat (length (oi_data info))) (sd_key_len_map st)\<rparr>"
  obtain ai targets where a: "map_of (sd_func_app_map st) f = Some ''exp00''" "map_of (sd_app_info_map st) ''exp00'' = Some ai"
      "map_of (ai_direct_deps ai) f = Some targets" "''exp00_back'' \<in> set targets"
    using assms(1,3) by (auto simp: chain_ready_def exp00_known_def)
  have "send_ephemeral env now 1 info st = schedule_func_call env now s ''exp00'' ''exp00_back'' [d] 0 ?st1"
    using a assms(4-7)
    by (simp add: send_ephemeral_def record_object_def direct_args_def direct_invocation_def Let_def)
  moreover have "chain_ready now 3 [] ?st1" using assms(1) by (simp add: chain_ready_def exp00_known_def)
  ultimately show ?thesis using schedule_busy [of now "[]" ?st1 env s "''exp00_back''" "[d]"] assms(2) by (simp add: exec_sent_def)
qed

lemma round_object:
  assumes "chain_ready now 3 [] st" "0 < se_sched_delay_time env" "f \<in> {''exp00_front'', ''exp00_back''}" "plain s"
    and "ul_session_id lib = s" "ul_function lib = f" "64 \<le> n" "n \<le> 1024"
  shows "\<exists>st'. sched_round env (message_round now (Some (chain_message lib a b n t)) nothing_polled) st = Inr st' \<and>
    chain_ready now 3 [delayed now s ''exp00_back'' [chain_data a b n t]] st' \<and> exec_sent st' = exec_sent st"
proof -
  let ?obj = "chain_object f s n" and ?lib = "snd (lib_request_id lib)" and ?k = "get_key_session_name (''k_'' @ f) s"
  let ?info = "sent_info ?lib ?obj ''b_exp00_back'' ?k (chain_data a b n t)"
  have name: "eo_obj_name ?obj = ''b_exp00_back'' @ ''|'' @ ?k"
    by (simp add: chain_object_def get_local_object_name_def kDelimiter_def)
  have "plain f" "plain ?k" using assms(3,4) by (auto simp: plain_def get_key_session_name_def)
  then have pl: "list_all plain [ul_session_id ?lib, ul_function ?lib, eo_target_func ?obj, ''b_exp00_back'', ?k, chain_data a b n t]"
    using assms(4-6) chain_data_plain by (simp add: chain_object_def plain_def)
  have "unat (word_of_int n :: 64 word) = nat n" using assms(7,8) by (simp add: unat_eq_nat_uint uint_word_of_int)
  then have pk: "packing_of ?obj = 1" using assms(8) by (simp add: packing_of_def chain_object_def msgDataPackingThreshold_def)
  have h: "handle_executor_msg env now (chain_message lib a b n t) st = send_ephemeral env now 1 ?info st"
    unfolding chain_message_def assms(5,6)
    using object_handled [OF name pl chain_data_plain(2), of "[CHR 0x00]"] pk by (simp add: take_object_def)
  obtain st' where st': "send_ephemeral env now 1 ?info st = Inr st'"
      "chain_ready now 3 [delayed now s ''exp00_back'' [chain_data a b n t]] st'" "exec_sent st' = exec_sent st"
    using handle_chain_object [OF assms(1-3), of ?info s] assms(5,6) by (auto simp: sent_info_def chain_object_def)
  have "sched_round env (message_round now (Some (chain_message lib a b n t)) nothing_polled) st = Inr st'"
    by (rule quiet_round [OF _ st'(2) delay_keeps [OF st'(2)]]) (use h st' in \<open>simp_all add: chain_ready_def\<close>)
  then show ?thesis using st' by blast
qed

end
