(* ===== verification/Chain_Properties.thy ===== *)
theory Chain_Properties
  imports Chain_Node
begin

text \<open>
  The sample application \<^verbatim>\<open>src/benchmarks/00\<close> from end to end: a client registers it and calls it, the coordinator passes both
  on to a worker node, and there the chain of calls runs to its end.
\<close>

subsection \<open>Scheduler and executor take turns\<close>

text \<open>What an executor is asked to do: session, function and arguments of the messages.\<close>

definition calls_of :: "bytes list \<Rightarrow> (string \<times> string \<times> string list) list" where
  "calls_of msgs = concat (map (\<lambda>m. case parse_call m of Inl _ \<Rightarrow> [] | Inr (flag, persist, call) \<Rightarrow> [call]) msgs)"

text \<open>The executor gets what the scheduler has sent it and does a round; then the scheduler does a round for every message
  that the executor has sent. The first component collects the calls.\<close>

definition node_cycle ::
    "sched_env \<Rightarrow> exec_env \<Rightarrow> TimePoint \<Rightarrow> (string \<times> string \<times> string list) list \<times> sched \<times> exec
       \<Rightarrow> ((string \<times> string \<times> string list) list \<times> sched \<times> exec) res" where
  "node_cycle env eenv now = (\<lambda>(calls, st, ex).
     let msgs = map snd (exec_sent st)
     in rbind (exec_round eenv now now (ex\<lparr>ex_inbox := ex_inbox ex @ map Some msgs, ex_sent := []\<rparr>)) (\<lambda>ex'.
        rbind (rfold (\<lambda>st m. sched_round env (message_round now (Some m) nothing_polled) st) (st\<lparr>sd_sent := []\<rparr>) (ex_sent ex')) (\<lambda>st'.
        Inr (calls @ calls_of msgs, st', ex'))))"

primrec node_cycles ::
    "sched_env \<Rightarrow> exec_env \<Rightarrow> TimePoint \<Rightarrow> nat \<Rightarrow> (string \<times> string \<times> string list) list \<times> sched \<times> exec
       \<Rightarrow> ((string \<times> string \<times> string list) list \<times> sched \<times> exec) res" where
  "node_cycles env eenv now 0 w = Inr w"
| "node_cycles env eenv now (Suc k) w = rbind (node_cycle env eenv now w) (node_cycles env eenv now k)"

lemma reply_rounds:
  assumes "chain_reply s f a b n t out" "chain_ready now x [] st" "f \<in> {''exp00_front'', ''exp00_back''}" "plain s"
    and "64 \<le> n" "n \<le> 1024" "0 < se_sched_delay_time env" "se_shared_executor env"
  shows "\<exists>st'. rfold (\<lambda>st m. sched_round env (message_round now (Some m) nothing_polled) st) st out = Inr st' \<and>
    (if b = 0 then chain_ready now 1 [] st' \<and> exec_sent st' = exec_sent st
     else chain_ready now 2 [] st' \<and>
       (\<exists>persist. exec_sent st' = exec_sent st @ [(0, call_message 0 persist s ''exp00_back'' [chain_data a b n t])]))"
proof -
  obtain lib where lib: "ul_session_id lib = s" "ul_function lib = f"
      "out = [report 1 True] @ (if b = 0 then [] else [chain_message lib a b n t]) @ [report 1 False]"
    using assms(1) by (auto simp: chain_reply_def)
  obtain st1 where st1: "sched_round env (message_round now (Some (report 1 True)) nothing_polled) st = Inr st1"
      "chain_ready now 3 [] st1" "exec_sent st1 = exec_sent st" using round_busy [OF assms(2)] by blast
  show ?thesis
  proof (cases "b = 0")
    case True
    obtain st2 where "sched_round env (message_round now (Some (report 1 False)) nothing_polled) st1 = Inr st2"
      "chain_ready now 1 [] st2" "exec_sent st2 = exec_sent st1" using round_available [OF st1(2), of env] by auto
    then show ?thesis using True st1 lib(3) by auto
  next
    case False
    obtain st2 where st2: "sched_round env (message_round now (Some (chain_message lib a b n t)) nothing_polled) st1 = Inr st2"
      "chain_ready now 3 [delayed now s ''exp00_back'' [chain_data a b n t]] st2" "exec_sent st2 = exec_sent st1"
      using round_object [OF st1(2) assms(7,3,4) lib(1,2) assms(5,6)] by blast
    obtain st3 persist where "sched_round env (message_round now (Some (report 1 False)) nothing_polled) st2 = Inr st3"
      "chain_ready now 2 [] st3" "exec_sent st3 = exec_sent st2 @ [(0, call_message 0 persist s ''exp00_back'' [chain_data a b n t])]"
      using round_available_next [OF st2(2) assms(8)] by blast
    then show ?thesis using False st1 st2 lib(3) by auto
  qed
qed

text \<open>One call, with what the executor answers.\<close>

lemma cycle_call:
  assumes "exec_sent st = [(0, call_message 0 persist s f args)]" "chain_ready now x [] st" "f \<in> {''exp00_front'', ''exp00_back''}"
    and "plain s" "list_all plain args" "last (f # args) \<noteq> []" "64 \<le> n" "n \<le> 1024" "0 < se_sched_delay_time env" "se_shared_executor env"
    and "exec_ready now ex" "\<exists>ex'. exec_round eenv now now ((ex\<lparr>ex_sent := []\<rparr>)\<lparr>ex_inbox := [Some (call_message 0 persist s f args)]\<rparr>) = Inr ex' \<and>
      exec_ready now ex' \<and> chain_reply s f a b n t (ex_sent ex')"
  shows "\<exists>st' ex'. node_cycle env eenv now (calls, st, ex) = Inr (calls @ [(s, f, args)], st', ex') \<and> exec_ready now ex' \<and>
    (if b = 0 then chain_ready now 1 [] st' \<and> exec_sent st' = []
     else chain_ready now 2 [] st' \<and> (\<exists>persist. exec_sent st' = [(0, call_message 0 persist s ''exp00_back'' [chain_data a b n t])]))"
proof -
  have st: "chain_ready now x [] (st\<lparr>sd_sent := []\<rparr>)" "exec_sent (st\<lparr>sd_sent := []\<rparr>) = []"
    using assms(2) by (simp_all add: chain_ready_def exp00_known_def exec_sent_def)
  obtain ex' where ex': "exec_round eenv now now ((ex\<lparr>ex_sent := []\<rparr>)\<lparr>ex_inbox := [Some (call_message 0 persist s f args)]\<rparr>) = Inr ex'"
      "exec_ready now ex'" "chain_reply s f a b n t (ex_sent ex')" using assms(12) by blast
  obtain st' where st': "rfold (\<lambda>st m. sched_round env (message_round now (Some m) nothing_polled) st) (st\<lparr>sd_sent := []\<rparr>) (ex_sent ex') = Inr st'"
      "if b = 0 then chain_ready now 1 [] st' \<and> exec_sent st' = []
       else chain_ready now 2 [] st' \<and> (\<exists>persist. exec_sent st' = [(0, call_message 0 persist s ''exp00_back'' [chain_data a b n t])])"
    using reply_rounds [OF ex'(3) st(1) assms(3,4,7-10)] unfolding st(2) append_Nil by blast
  have i: "ex\<lparr>ex_inbox := ex_inbox ex @ map Some (map snd (exec_sent st)), ex_sent := []\<rparr> =
      (ex\<lparr>ex_sent := []\<rparr>)\<lparr>ex_inbox := [Some (call_message 0 persist s f args)]\<rparr>"
    using assms(1,11) by (simp add: exec_ready_def)
  have "plain f" using assms(3) by (auto simp: plain_def)
  then have "calls_of (map snd (exec_sent st)) = [(s, f, args)]"
    using assms(1) parse_call_message [OF assms(4) _ assms(5,6)] by (simp add: calls_of_def)
  then have "node_cycle env eenv now (calls, st, ex) = Inr (calls @ [(s, f, args)], st', ex')"
    using ex'(1) st'(1) i by (simp add: node_cycle_def Let_def)
  then show ?thesis using ex'(2) st'(2) by blast
qed

lemma chain_runs:
  assumes "exec_sent st = [(0, call_message 0 persist s ''exp00_back'' [chain_data a (int b) n t])]" "chain_ready now 2 [] st"
    and "exec_ready now ex" "plain s" "in_int a" "in_int (int b)" "0 < b" "64 \<le> n" "n \<le> 1024" "in_long t"
    and "0 < se_sched_delay_time env" "se_shared_executor env"
  shows "\<exists>st' ex'. node_cycles env (exp00_functions t0) now b (calls, st, ex) =
      Inr (calls @ map (\<lambda>i. (s, ''exp00_back'', [chain_data a (int i) n t])) (rev [1..<Suc b]), st', ex') \<and>
    exec_ready now ex' \<and> chain_ready now 1 [] st' \<and> exec_sent st' = []"
  using assms(1-3,6,7)
proof (induction b arbitrary: calls st ex persist)
  case (Suc b)
  let ?c = "(s, ''exp00_back'', [chain_data a (int (Suc b)) n t])"
  have e: "exec_ready now (ex\<lparr>ex_sent := []\<rparr>)" "ex_sent (ex\<lparr>ex_sent := []\<rparr>) = []" using Suc.prems(3) by (simp_all add: exec_ready_def)
  have f: "''exp00_back'' \<in> {''exp00_front'', ''exp00_back''}" by simp
  have d: "list_all plain [chain_data a (int (Suc b)) n t]" "last (''exp00_back'' # [chain_data a (int (Suc b)) n t]) \<noteq> []"
    using chain_data_plain by simp_all
  have answer: "\<exists>ex'. exec_round (exp00_functions t0) now now ((ex\<lparr>ex_sent := []\<rparr>)\<lparr>ex_inbox :=
        [Some (call_message 0 persist s ''exp00_back'' [chain_data a (int (Suc b)) n t])]\<rparr>) = Inr ex' \<and>
      exec_ready now ex' \<and> chain_reply s ''exp00_back'' a (int b) n t (ex_sent ex')"
    using exec_back [OF e assms(4,5) Suc.prems(4) _ assms(8-10)] by simp
  obtain st' ex' where 1: "node_cycle env (exp00_functions t0) now (calls, st, ex) = Inr (calls @ [?c], st', ex')" "exec_ready now ex'"
    and 2: "if int b = 0 then chain_ready now 1 [] st' \<and> exec_sent st' = []
       else chain_ready now 2 [] st' \<and> (\<exists>persist. exec_sent st' = [(0, call_message 0 persist s ''exp00_back'' [chain_data a (int b) n t])])"
    using cycle_call [OF Suc.prems(1,2) f assms(4) d assms(8,9,11,12) Suc.prems(3) answer, of calls] by blast
  show ?case
  proof (cases "b = 0")
    case True
    then show ?thesis using 1 2 by simp
  next
    case False
    then obtain p where p: "exec_sent st' = [(0, call_message 0 p s ''exp00_back'' [chain_data a (int b) n t])]" "chain_ready now 2 [] st'"
      using 2 by auto
    have "in_int (int b)" using Suc.prems(4) by (simp add: in_int_def)
    from Suc.IH [OF p 1(2) this, of "calls @ [?c]"] False show ?thesis using 1(1) by auto
  qed
qed simp

subsection \<open>Registration\<close>

definition exp00_update :: "Address \<Rightarrow> 32 word \<Rightarrow> UpdateCoordMsg" where
  "exp00_update ip tid = no_UpdateCoordMsg
     \<lparr>ucm_ip := ip, ucm_thread_id := tid, ucm_app_name := ''exp00'', ucm_msg_type := 0,
      ucm_functions := [''exp00_front'', ''exp00_back''],
      ucm_dependencies :=
        [\<lparr>dd_type = DIRECT, dd_src_functions = [''exp00_front''], dd_tgt_functions = [''exp00_back''], dd_description = []\<rparr>,
         \<lparr>dd_type = DIRECT, dd_src_functions = [''exp00_back''], dd_tgt_functions = [''exp00_back''], dd_description = []\<rparr>]\<rparr>"

lemma registration_broadcast:
  assumes "(ra, W_AppRegistration reg) \<in> set (fst (exp00_register reply c))"
    and "app_register_handler cenv now reg cst = Inr (cst1, updates)" "(na, W_UpdateCoord upd) \<in> set updates"
  shows "upd = exp00_update (ce_private_ip cenv) (ce_thread_id cenv)"
proof -
  have "reg = \<lparr>ar_app_name = ''exp00'', ar_functions = [''exp00_front'', ''exp00_back''],
      ar_dependencies = ucm_dependencies (exp00_update [] 0)\<rparr>"
    using assms(1) by (auto simp: exp00_register_def register_app_def get_coord_def exp00_update_def Let_def split: option.splits prod.splits)
  then show ?thesis
    using assms(2,3) by (auto simp: app_register_handler_def register_dependency_def exp00_update_def broadcast_def
        no_UpdateCoordMsg_def Let_def)
qed

lemma init_one_executor:
  assumes "init_sched cf now seed = Inr st" "cf_executor_num cf = 1"
  shows "sd_executor_status_map st = [(0, 2)]" "sd_executor_chans_map st = [(0, True)]" "sd_delay_call_queue st = []"
    "\<forall>rs\<in>set (sd_resp_queues st). rs = []" "\<exists>c cs. sd_kvs_clients st = c # cs \<and> idle_client c" "sd_report_start st = now"
    "sd_func_trigger_timeout_map st = []" "sd_app_info_map st = []" "sd_func_app_map st = []" "exec_sent st = []"
  using assms by (auto simp: init_sched_def init_executors_def new_KvsClient_def idle_client_def exec_sent_def Let_def)

lemma registered_ready:
  assumes "init_sched cf now seed = Inr st" "cf_executor_num cf = 1"
  shows "\<exists>st'. handle_update env now (exp00_update ip tid) st = Inr st' \<and> chain_ready now 2 [] st' \<and> exec_sent st' = []"
proof -
  note i = init_one_executor [OF assms]
  show ?thesis
    using i(1-6) i(10)
    by (simp add: handle_update_def exp00_update_def no_UpdateCoordMsg_def add_function_def add_dependency_def alter_app_def
        chain_ready_def exp00_known_def exec_sent_def i(7-9) no_AppInfo_def um_get_def um_alter_def us_insert_def Let_def)
qed

lemma recv_update:
  "try_recv_msg env now (nothing_polled\<lparr>po_update := Some u\<rparr>) st =
     rbind (handle_update env now u st) (try_recv_msg env now nothing_polled)"
  by (simp add: try_recv_msg_def optional_def nothing_polled_def get_kvs_responses_def rbind_def split: sum.splits)

lemma round_update:
  assumes "init_sched cf now seed = Inr st" "cf_executor_num cf = 1"
  shows "\<exists>st'. sched_round env (message_round now None (nothing_polled\<lparr>po_update := Some (exp00_update ip tid)\<rparr>)) st = Inr st' \<and>
    chain_ready now 2 [] st' \<and> exec_sent st' = []"
proof -
  obtain st' where st': "handle_update env now (exp00_update ip tid) st = Inr st'" "chain_ready now 2 [] st'" "exec_sent st' = []"
    using registered_ready [OF assms] by blast
  then have "sd_report_start st' = now" by (simp add: chain_ready_def)
  then show ?thesis
    using st' try_recv_quiet [OF st'(2)] delay_none [OF st'(2)] timer_quiet [of st' now]
    by (simp add: sched_round_def message_round_def recv_update optional_def)
qed

subsection \<open>The first call\<close>

definition exp00_call :: "string \<Rightarrow> string \<Rightarrow> string \<Rightarrow> FunctionCall" where
  "exp00_call x y s = no_FunctionCall
     \<lparr>fc_app_name := ''exp00'', fc_session_id := s,
      fc_requests := [\<lparr>fr_name = ''exp00_front'',
        fr_arguments = map (\<lambda>a. no_Argument\<lparr>arg_body := a, arg_arg_flag := 0\<rparr>) [x, y]\<rparr>]\<rparr>"

lemma generated_session_plain: "plain (fst (gen_random rand_r seed k))"
  using set_gen_random [of rand_r seed k] by (auto simp: plain_def alpha_num_def)

lemma sent_calls: "send_calls env scheduled st = Inr (st', out) \<Longrightarrow> (a, W_FunctionCall fc) \<in> set out \<Longrightarrow> fc \<in> snd ` set scheduled"
  by (induction env scheduled st arbitrary: st' out rule: send_calls.induct) (auto simp: rbind_eq_Inr, blast)

lemma call_passed_on:
  assumes "exp00_invoke [x, y] reply c = Some (sent, c')" "(ca, W_FunctionCall msg) \<in> set sent"
    and "func_call_handler cenv msg cst = Some (Inr (cst1, out))" "(fa, W_FunctionCall fc) \<in> set out"
  shows "\<exists>s. plain s \<and> fc = exp00_call x y s"
proof -
  have m: "msg = exp00_call x y []"
    using assms(1,2) by (auto simp: exp00_invoke_def call_app_def get_coord_def exp00_call_def no_FunctionCall_def Let_def
        split: option.splits prod.splits)
  let ?s = "fst (gen_random (ce_rand_r cenv) (co_seed cst) 16)"
  obtain st1 where w: "with_session cenv msg cst = (exp00_call x y ?s, st1)"
    unfolding m by (cases "gen_random (ce_rand_r cenv) (co_seed cst) 16") (simp add: with_session_def exp00_call_def no_FunctionCall_def)
  obtain scheduled st2 where s: "schedule_single cenv (exp00_call x y ?s) st1 = Inr (scheduled, st2)"
      "answer_call cenv (exp00_call x y ?s) scheduled st2 = Inr (cst1, out)"
    using assms(3) w by (auto simp: func_call_handler_def schedule_call_def exp00_call_def rbind_eq_Inr)
  have "snd ` set scheduled \<subseteq> {exp00_call x y ?s}"
    using s(1) by (auto simp: schedule_single_def rbind_eq_Inr Let_def split: prod.splits if_splits)
  moreover have "fc \<in> snd ` set scheduled"
    using s(2) assms(4) by (auto simp: answer_call_def split: if_splits dest: sent_calls)
  ultimately have "fc = exp00_call x y ?s" by blast
  then show ?thesis using generated_session_plain by blast
qed

lemma recv_exp00_call:
  assumes "chain_ready now x q st"
  shows "\<exists>m. try_recv_msg env now (nothing_polled\<lparr>po_call := Some (exp00_call a b s)\<rparr>) st = Inr ([m], st) \<and>
    rv_msg_type m = Call \<and> rv_session_id m = s \<and> rv_app_name m = ''exp00'' \<and> rv_func_name m = [''exp00_front''] \<and>
    rv_func_args m = [[a, b]] \<and> rv_is_func_arg_keys m = [0]"
proof -
  obtain m where m: "handle_function_call (exp00_call a b s) st = (m, st)" "rv_msg_type m = Call" "rv_session_id m = s"
    "rv_app_name m = ''exp00''" "rv_func_name m = [''exp00_front'']" "rv_func_args m = [[a, b]]" "rv_is_func_arg_keys m = [0]"
    by (simp add: handle_function_call_def exp00_call_def no_FunctionCall_def no_Argument_def call_argument_def no_RecvMsg_def Let_def)
  moreover have "try_recv_msg env now (nothing_polled\<lparr>po_call := Some (exp00_call a b s)\<rparr>) st = Inr ([m], st)"
    using m(1) kvs_quiet [OF assms, of "nothing_polled\<lparr>po_call := Some (exp00_call a b s)\<rparr>" env] resp_queues_quiet [OF assms]
    by (simp add: try_recv_msg_def optional_def recv_call_def recv_data_def nothing_polled_def)
  ultimately show ?thesis by blast
qed

lemma round_call:
  assumes "chain_ready now 0 [] st" "exec_sent st = []" "se_shared_executor env"
  shows "\<exists>st' persist. sched_round env (message_round now None (nothing_polled\<lparr>po_call := Some (exp00_call a b s)\<rparr>)) st = Inr st' \<and>
    chain_ready now 2 [] st' \<and> exec_sent st' = [(0, call_message 0 persist s ''exp00_front'' [a, b])]"
proof -
  obtain m where m: "try_recv_msg env now (nothing_polled\<lparr>po_call := Some (exp00_call a b s)\<rparr>) st = Inr ([m], st)"
    "rv_msg_type m = Call" "rv_session_id m = s" "rv_app_name m = ''exp00''" "rv_func_name m = [''exp00_front'']"
    "rv_func_args m = [[a, b]]" "rv_is_func_arg_keys m = [0]" using recv_exp00_call [OF assms(1)] by blast
  let ?st1 = "st\<lparr>sd_session_client_addr_map := um_put s (rv_resp_address m) (sd_session_client_addr_map st)\<rparr>"
  have c: "chain_ready now 0 [] ?st1" "exec_sent ?st1 = []"
    using assms(1,2) by (simp_all add: chain_ready_def exp00_known_def exec_sent_def)
  obtain st2 persist where st2: "schedule_func_call env now s ''exp00'' ''exp00_front'' [a, b] 0 ?st1 = Inr st2"
      "chain_ready now 2 [] st2" "exec_sent st2 = [(0, call_message 0 persist s ''exp00_front'' [a, b])]"
    using schedule_available [OF c(1) _ assms(3), of "''exp00_front''" s "''exp00''" "[a, b]"] c(2) by auto
  let ?st3 = "st2\<lparr>sd_call_id := sd_call_id st2 + 1\<rparr>"
  have c3: "chain_ready now 2 [] ?st3" "exec_sent ?st3 = exec_sent st2"
    using st2(2) by (simp_all add: chain_ready_def exp00_known_def exec_sent_def)
  have "handle_recv_msg env now st m = Inr ?st3"
    using m(2-7) st2(1) by (simp add: handle_recv_msg_def handle_call_def call_one_def)
  then have "sched_round env (message_round now None (nothing_polled\<lparr>po_call := Some (exp00_call a b s)\<rparr>)) st = Inr ?st3"
    using m(1) delay_none [OF c3(1)] timer_quiet [of ?st3 now] c3(1)
    by (simp add: sched_round_def message_round_def optional_def chain_ready_def)
  then show ?thesis using c3 st2(3) by auto
qed

subsection \<open>From end to end\<close>

lemma cycle_front:
  assumes "exec_sent st = [(0, call_message 0 persist s ''exp00_front'' [x, y])]" "chain_ready now 2 [] st" "exec_ready now ex"
    and "plain s" "plain x" "plain y" "stoi x = Inr a" "0 < a" "parse_payload_size y = Inr given" "given \<noteq> - 1" "given \<le> 1024"
    and "in_long t" "0 < se_sched_delay_time env" "se_shared_executor env"
  shows "\<exists>st' ex' persist. node_cycle env (exp00_functions t) now (calls, st, ex) = Inr (calls @ [(s, ''exp00_front'', [x, y])], st', ex') \<and>
    exec_ready now ex' \<and> chain_ready now 2 [] st' \<and>
    exec_sent st' = [(0, call_message 0 persist s ''exp00_back'' [chain_data a a (max given 64) t])]"
proof -
  let ?n = "max given 64"
  have a: "in_int a" using assms(7) by (auto simp: stoi_def in_int_def Let_def split: if_splits)
  have y: "y \<noteq> []" using assms(9,10) by (auto simp: parse_payload_size_def)
  have e: "exec_ready now (ex\<lparr>ex_sent := []\<rparr>)" "ex_sent (ex\<lparr>ex_sent := []\<rparr>) = []" using assms(3) by (simp_all add: exec_ready_def)
  have f: "''exp00_front'' \<in> {''exp00_front'', ''exp00_back''}" by simp
  have d: "list_all plain [x, y]" "last (''exp00_front'' # [x, y]) \<noteq> []" "64 \<le> ?n" "?n \<le> 1024"
    using assms(5,6,11) y by simp_all
  have "a \<noteq> 0" using assms(8) by simp
  from cycle_call [OF assms(1,2) f assms(4) d assms(13,14,3)
      exec_front [OF e assms(4) a this assms(11,12,5,6) y assms(7,9,10)], of calls] this
  show ?thesis by auto
qed

text \<open>C4. The sample application works from end to end. A client registers it and calls its first function with a chain
  length \<open>N\<close> and a payload size; a coordinator handles both messages and sends an update and a call to a worker node with
  one executor. After the update, the first report of the executor and the call, scheduler and executor take turns
  \<open>N + 1\<close> times, and then the executor has been asked to run \<open>exp00_front\<close> once and \<open>exp00_back\<close> exactly \<open>N\<close> times, with
  the counter of the payload going down from \<open>N\<close> to 1; nothing is left to do and the executor is available.\<close>

theorem chain_runs_to_its_end:
  assumes "(ra, W_AppRegistration reg) \<in> set (fst (exp00_register reply c))"
    and "app_register_handler cenv now reg cst = Inr (cst1, updates)" "(na, W_UpdateCoord upd) \<in> set updates"
    and "exp00_invoke [x, y] reply' c1 = Some (sent, c2)" "(ca, W_FunctionCall msg) \<in> set sent"
    and "func_call_handler cenv' msg cst2 = Some (Inr (cst3, out))" "(fa, W_FunctionCall fc) \<in> set out"
    and "init_sched cf now seed = Inr st0" "cf_executor_num cf = 1" "0 < se_sched_delay_time env" "se_shared_executor env"
    and "plain x" "plain y" "stoi x = Inr (int N)" "0 < N" "parse_payload_size y = Inr given" "given \<noteq> - 1" "given \<le> 1024"
    and "in_long t"
  shows "\<exists>s st1 st2 ex. rfold (\<lambda>st ri. sched_round env ri st) st0
      [message_round now None (nothing_polled\<lparr>po_update := Some upd\<rparr>), message_round now (Some (report 1 False)) nothing_polled,
       message_round now None (nothing_polled\<lparr>po_call := Some fc\<rparr>)] = Inr st1 \<and>
    node_cycles env (exp00_functions t) now (Suc N) ([], st1, init_exec ip 0 now) =
      Inr ((s, ''exp00_front'', [x, y]) #
             map (\<lambda>i. (s, ''exp00_back'', [chain_data (int N) (int i) (max given 64) t])) (rev [1..<Suc N]), st2, ex) \<and>
    exec_sent st2 = [] \<and> sd_delay_call_queue st2 = [] \<and> sd_executor_status_map st2 = [(0, 1)] \<and> ex_inbox ex = []"
proof -
  have upd: "upd = exp00_update (ce_private_ip cenv) (ce_thread_id cenv)" by (rule registration_broadcast [OF assms(1-3)])
  obtain s where s: "plain s" "fc = exp00_call x y s" using call_passed_on [OF assms(4-7)] by blast
  obtain sta where a: "sched_round env (message_round now None (nothing_polled\<lparr>po_update := Some upd\<rparr>)) st0 = Inr sta"
      "chain_ready now 2 [] sta" "exec_sent sta = []" using round_update [OF assms(8,9)] upd by blast
  obtain stb where b: "sched_round env (message_round now (Some (report 1 False)) nothing_polled) sta = Inr stb"
      "chain_ready now 0 [] stb" "exec_sent stb = []" using round_available [OF a(2), of env] a(3) by auto
  obtain st1 p where st1: "sched_round env (message_round now None (nothing_polled\<lparr>po_call := Some fc\<rparr>)) stb = Inr st1"
      "chain_ready now 2 [] st1" "exec_sent st1 = [(0, call_message 0 p s ''exp00_front'' [x, y])]"
    using round_call [OF b(2,3) assms(11)] s(2) by blast
  have e: "exec_ready now (init_exec ip 0 now)" by (simp add: exec_ready_def init_exec_def new_UserLibrary_def)
  have N: "0 < int N" "in_int (int N)"
    using assms(14,15) by (auto simp: stoi_def in_int_def Let_def split: if_splits)
  obtain stc exc q where c: "node_cycle env (exp00_functions t) now ([], st1, init_exec ip 0 now) =
        Inr ([(s, ''exp00_front'', [x, y])], stc, exc)" "exec_ready now exc" "chain_ready now 2 [] stc"
      "exec_sent stc = [(0, call_message 0 q s ''exp00_back'' [chain_data (int N) (int N) (max given 64) t])]"
    using cycle_front [OF st1(3,2) e s(1) assms(12-14) N(1) assms(16-19,10,11), of "[]"] by auto
  have n: "64 \<le> max given 64" "max given 64 \<le> 1024" using assms(18) by simp_all
  obtain st2 ex where "node_cycles env (exp00_functions t) now N ([(s, ''exp00_front'', [x, y])], stc, exc) =
      Inr ([(s, ''exp00_front'', [x, y])] @
        map (\<lambda>i. (s, ''exp00_back'', [chain_data (int N) (int i) (max given 64) t])) (rev [1..<Suc N]), st2, ex)"
      "exec_ready now ex" "chain_ready now 1 [] st2" "exec_sent st2 = []"
    using chain_runs [OF c(4,3,2) s(1) N(2,2) assms(15) n assms(19,10,11), of t] by blast
  then show ?thesis
    using a(1) b(1) st1(1) c(1) by (intro exI [of _ s] exI [of _ st1] exI [of _ st2] exI [of _ ex]) (simp add: chain_ready_def exec_ready_def)
qed

definition chain_env :: sched_env where
  "chain_env = node_env\<lparr>se_sched_delay_time := 5, se_shared_executor := True\<rparr>"

definition chain_conf :: sched_conf where
  "chain_conf = \<lparr>cf_coord_thread_count = 1, cf_io_thread_count = 1, cf_ip = ''10.0.0.2'', cf_executor_num = 1,
     cf_coord_ips = [''10.0.0.1''], cf_kvs_routing_ips = []\<rparr>"

definition chain_coord :: coord where
  "chain_coord = (init_coord 0)\<lparr>node_status_map := [(''10.0.0.2'', \<lparr>ns_tp = 0, ns_avail_executors = 1, ns_functions = []\<rparr>)]\<rparr>"

definition coord_reply :: CoordResponse where
  "coord_reply = \<lparr>cr_coord_ip = ''10.0.0.1'', cr_thread_id = 0, cr_request_id = []\<rparr>"

lemma some_registration:
  "\<exists>ra reg cst1 updates na upd. (ra, W_AppRegistration reg) \<in> set (fst (exp00_register coord_reply (new_PheromoneClient ''10.0.0.9'' 0))) \<and>
     app_register_handler sample_env 0 reg chain_coord = Inr (cst1, updates) \<and> (na, W_UpdateCoord upd) \<in> set updates"
  by (auto simp: exp00_register_def register_app_def get_coord_def new_PheromoneClient_def app_register_handler_def
      register_dependency_def broadcast_def chain_coord_def Let_def intro!: exI)

lemma some_call:
  "\<exists>sent c2 ca msg cst3 out fa fc. exp00_invoke [''2'', ''100B''] coord_reply (new_PheromoneClient ''10.0.0.9'' 0) = Some (sent, c2) \<and>
     (ca, W_FunctionCall msg) \<in> set sent \<and> func_call_handler sample_env msg chain_coord = Some (Inr (cst3, out)) \<and>
     (fa, W_FunctionCall fc) \<in> set out"
  by (auto simp: exp00_invoke_def call_app_def get_coord_def new_PheromoneClient_def func_call_handler_def with_session_def
      schedule_call_def schedule_single_def max_node_def answer_call_def rand_mod_def sample_env_def no_FunctionCall_def
      chain_coord_def Let_def split: prod.splits intro!: exI)

theorem chain_runs_to_its_end_witness:
  "\<exists>s st1 st2 ex. node_cycles chain_env (exp00_functions 0) 0 3 ([], st1, init_exec ''10.0.0.2'' 0 0) =
     Inr ([(s, ''exp00_front'', [''2'', ''100B'']), (s, ''exp00_back'', [chain_data 2 2 100 0]),
           (s, ''exp00_back'', [chain_data 2 1 100 0])], st2, ex)"
proof -
  obtain ra reg cst1 updates na upd
    where 1: "(ra, W_AppRegistration reg) \<in> set (fst (exp00_register coord_reply (new_PheromoneClient ''10.0.0.9'' 0)))"
      "app_register_handler sample_env 0 reg chain_coord = Inr (cst1, updates)" "(na, W_UpdateCoord upd) \<in> set updates"
    using some_registration by blast
  obtain sent c2 ca msg cst3 out fa fc
    where 2: "exp00_invoke [''2'', ''100B''] coord_reply (new_PheromoneClient ''10.0.0.9'' 0) = Some (sent, c2)"
      "(ca, W_FunctionCall msg) \<in> set sent" "func_call_handler sample_env msg chain_coord = Some (Inr (cst3, out))"
      "(fa, W_FunctionCall fc) \<in> set out"
    using some_call by blast
  obtain st0 where 3: "init_sched chain_conf 0 7 = Inr st0" by (simp add: init_sched_def init_executors_def chain_conf_def)
  have 4: "cf_executor_num chain_conf = 1" "0 < se_sched_delay_time chain_env" "se_shared_executor chain_env"
    by (simp_all add: chain_conf_def chain_env_def node_env_def)
  have 5: "plain ''2''" "plain ''100B''" by (simp_all add: plain_def)
  have 6: "stoi ''2'' = Inr (int 2)" "parse_payload_size ''100B'' = Inr 100" by code_simp+
  have 7: "0 < (2 :: nat)" "(100 :: int) \<noteq> - 1" "(100 :: int) \<le> 1024" "in_long 0" by (simp_all add: in_long_def)
  have 8: "rev [1..<Suc 2] = [2, 1 :: nat]" by (simp add: upt_rec)
  show ?thesis
    using chain_runs_to_its_end [OF 1 2 3 4 5 6(1) 7(1) 6(2) 7(2-4), of "''10.0.0.2''"] unfolding 8 by (auto simp: numeral_3_eq_3)
qed

end
