(* ===== verification/Trigger_Properties.thy ===== *)
theory Trigger_Properties
  imports Trigger_Specs Sample_Codec
begin

text \<open>
  The properties of the trigger classes of \<open>common/include/trigger.hpp\<close>. A trigger as the handlers
  use it is a sequence of method calls; \<open>call_trigger\<close> is one of them.
\<close>

datatype TriggerCall =
    Arrive TimePoint BucketKey
  | Clear Session
  | Notify string Session "string list" int
  | SetRerun "RerunMetadata list"

fun call_trigger :: "TriggerPtr \<Rightarrow> TriggerCall \<Rightarrow> cpp_error + (TriggerPtr \<times> TriggerAction list)" where
  "call_trigger t (Arrive now bk) = Inr (prod.swap (action_for_new_object now bk t))"
| "call_trigger t (Clear s) = Inr (clear s t, [])"
| "call_trigger t (Notify fn sid args flag) = Inr (notify_source_func fn sid args flag t, [])"
| "call_trigger t (SetRerun metas) = Inr (set_rerun_metadata metas t, [])"

lemma call_trigger_keeps:
  assumes "trigger_wf t" and "call_trigger t e = Inr (t', out)"
  shows "trigger_wf t' \<and> trigger_base t' = trigger_base t \<and> fresh now t' = fresh now t"
proof (cases e)
  case (Arrive n bk)
  then have "t' = snd (action_for_new_object n bk t)" using assms(2) by (auto simp: prod.swap_def)
  then show ?thesis
    using action_for_new_object_wf [OF assms(1)] arrival.meth_base arrival.meth_fresh by simp
qed (use assms clear_wf notify_source_func_wf set_rerun_metadata_wf clearing.meth_base
      clearing.meth_fresh notifying.meth_base notifying.meth_fresh rerun_config.meth_base
      rerun_config.meth_fresh in auto)

interpretation calls: step_system call_trigger
  "\<lambda>t'. trigger_wf t' \<and> trigger_base t' = trigger_base t \<and> fresh now t' = fresh now t" for t now
proof
  fix s e s' out
  assume "trigger_wf s \<and> trigger_base s = trigger_base t \<and> fresh now s = fresh now t"
    and "call_trigger s e = Inr (s', out)"
  then show "trigger_wf s' \<and> trigger_base s' = trigger_base t \<and> fresh now s' = fresh now t"
    using call_trigger_keeps [of s e s' out now] by simp
qed

subsection \<open>Properties\<close>

text \<open>C12. A set trigger never loses or duplicates a set: as long as no key of the set arrives twice in
  a session, the arrivals of any mix of sessions make the trigger fire for a session exactly once when
  all of its keys arrived, with exactly the keys of the set in that session, and never before.\<close>

theorem by_set_fires_once_per_session:
  assumes "trigger_wf (BySet t)" and "bs_key_set t \<noteq> []" and "bs_session_prepared_keys_map t = []"
    and "distinct (keys_of s (set (bs_key_set t)) os)"
  shows "actions_of s (fst (run_trigger by_set_action t os)) =
    (if set (keys_of s (set (bs_key_set t)) os) = set (bs_key_set t)
     then [\<lparr>ta_function = target_function t, ta_session_keys = map (\<lambda>key. (s, key)) (bs_key_set t)\<rparr>]
     else [])"
proof -
  have "prepared_keys t s = {}" using assms(3) by (simp add: prepared_keys_def)
  then show ?thesis using by_set_run_session [of t s os] assms by (simp add: psubset_eq)
qed

theorem by_set_fires_once_per_session_witness:
  "let t = new_BySetTrigger ''f'' ''t'' [''a'', ''b''];
       arrivals = [\<lparr>bk_bucket = ''B'', bk_key = ''a'', bk_session = ''s''\<rparr>,
                   \<lparr>bk_bucket = ''B'', bk_key = ''a'', bk_session = ''r''\<rparr>,
                   \<lparr>bk_bucket = ''B'', bk_key = ''b'', bk_session = ''s''\<rparr>]
   in actions_of ''s'' (fst (run_trigger by_set_action t arrivals)) =
        [\<lparr>ta_function = ''f'', ta_session_keys = [(''s'', ''a''), (''s'', ''b'')]\<rparr>]"
  using by_set_fires_once_per_session [of "new_BySetTrigger ''f'' ''t'' [''a'', ''b'']" "''s''"
      "[\<lparr>bk_bucket = ''B'', bk_key = ''a'', bk_session = ''s''\<rparr>,
        \<lparr>bk_bucket = ''B'', bk_key = ''a'', bk_session = ''r''\<rparr>,
        \<lparr>bk_bucket = ''B'', bk_key = ''b'', bk_session = ''s''\<rparr>]"]
  by (simp add: new_defs keys_of_def insert_commute)

text \<open>C33. Every arrival of a set trigger refines the abstract step on a set of prepared keys per
  session: the key joins its session's set, and when the set is complete the action for the whole key
  set is emitted and the session starts again from the empty set.\<close>

theorem by_set_refines_spec:
  assumes "trigger_wf (BySet t)"
  shows "(fst (by_set_action bk t) \<noteq> [], prepared_keys (snd (by_set_action bk t))) =
      spec_by_set (set (bs_key_set t)) (session_key bk) (prepared_keys t) \<and>
    trigger_wf (BySet (snd (by_set_action bk t)))"
  using by_set_refines [OF assms, of bk] by_set_wf [OF assms, of bk]
  by (simp add: prod_eq_iff)

theorem by_set_refines_spec_witness:
  "let t = new_BySetTrigger ''f'' ''t'' [''a''];
       bk = \<lparr>bk_bucket = ''B'', bk_key = ''a'', bk_session = ''s''\<rparr>
   in (fst (by_set_action bk t) \<noteq> [], prepared_keys (snd (by_set_action bk t))) =
        spec_by_set {''a''} (''s'', ''a'') (\<lambda>_. {}) \<and> fst (by_set_action bk t) \<noteq> []"
proof -
  have "prepared_keys (new_BySetTrigger ''f'' ''t'' [''a'']) = (\<lambda>_. {})"
    by (simp add: prepared_keys_def new_defs fun_eq_iff)
  moreover have "fst (spec_by_set {''a''} (''s'', ''a'') (\<lambda>_. {}))"
    by (simp add: spec_by_set_def)
  ultimately show ?thesis
    using by_set_refines_spec [of "new_BySetTrigger ''f'' ''t'' [''a'']"
        "\<lparr>bk_bucket = ''B'', bk_key = ''a'', bk_session = ''s''\<rparr>"]
    by (simp add: new_defs session_key_def prod_eq_iff)
qed

text \<open>C36. A batch trigger loses, duplicates and reorders nothing: over any sequence of arrivals the
  objects of its actions followed by its buffer are the arrivals in order, and every action has
  exactly \<open>count\<close> objects.\<close>

theorem batch_conserves:
  assumes "trigger_wf (ByBatchSize t)" and "0 < bb_count t"
  shows "carried (fst (run_trigger by_batch_size_action t os)) @
           bb_buffer (snd (run_trigger by_batch_size_action t os)) = bb_buffer t @ map session_key os \<and>
         list_all (\<lambda>a. int (length (ta_session_keys a)) = bb_count t)
           (fst (run_trigger by_batch_size_action t os))"
  using batch.run_conserves batch_run_sizes [OF assms] by (simp add: list_all_iff)

theorem batch_conserves_witness:
  "carried (fst (run_trigger by_batch_size_action (new_ByBatchSizeTrigger ''f'' ''t'' 2)
     [\<lparr>bk_bucket = ''B'', bk_key = ''a'', bk_session = ''s''\<rparr>])) @
   bb_buffer (snd (run_trigger by_batch_size_action (new_ByBatchSizeTrigger ''f'' ''t'' 2)
     [\<lparr>bk_bucket = ''B'', bk_key = ''a'', bk_session = ''s''\<rparr>])) = [(''s'', ''a'')]"
  using batch_conserves [of "new_ByBatchSizeTrigger ''f'' ''t'' 2"
      "[\<lparr>bk_bucket = ''B'', bk_key = ''a'', bk_session = ''s''\<rparr>]"]
  by (simp add: new_defs session_key_def)

text \<open>A redundant trigger with \<open>0 < k < n\<close> takes the first \<open>k\<close> of every \<open>n\<close> arrivals: over any
  number of rounds it emits one action per round, with the first \<open>k\<close> objects of the round in order,
  and is back in its initial state after the last one.\<close>

theorem redundant_first_k_of_n:
  assumes "0 < unat k" and "k < n" and "list_all (\<lambda>r. length r = unat n) rounds"
  shows "run_trigger redundant_action (new_RedundantTrigger fn tn k n) (concat rounds) =
    (map (\<lambda>r. \<lparr>ta_function = fn, ta_session_keys = map session_key (take (unat k) r)\<rparr>) rounds,
     new_RedundantTrigger fn tn k n)"
proof (rule run_trigger_rounds)
  fix r assume "r \<in> set rounds"
  then show "run_trigger redundant_action (new_RedundantTrigger fn tn k n) r =
      ([\<lparr>ta_function = fn, ta_session_keys = map session_key (take (unat k) r)\<rparr>],
       new_RedundantTrigger fn tn k n)"
    using redundant_round [of "new_RedundantTrigger fn tn k n" r] assms
    by (simp add: new_defs redundant_fire_def list_all_iff)
qed

theorem redundant_first_k_of_n_witness:
  "run_trigger redundant_action (new_RedundantTrigger ''f'' ''t'' 1 2)
     [\<lparr>bk_bucket = ''B'', bk_key = ''a'', bk_session = ''s''\<rparr>,
      \<lparr>bk_bucket = ''B'', bk_key = ''b'', bk_session = ''s''\<rparr>] =
   ([\<lparr>ta_function = ''f'', ta_session_keys = [(''s'', ''a'')]\<rparr>], new_RedundantTrigger ''f'' ''t'' 1 2)"
  using redundant_first_k_of_n [of 1 2 "[[\<lparr>bk_bucket = ''B'', bk_key = ''a'', bk_session = ''s''\<rparr>,
      \<lparr>bk_bucket = ''B'', bk_key = ''b'', bk_session = ''s''\<rparr>]]" "''f''" "''t''"]
  by (simp add: session_key_def)

text \<open>With \<open>k = n\<close> the counter is not reset when the redundant trigger fires: the object after
  the \<open>n\<close> that fired is dropped, and only then the next round starts.\<close>

theorem redundant_all_of_n_drops:
  assumes "0 < unat n" and "unat n < 2 ^ 32 - 1" and "length xs = unat n"
  shows "run_trigger redundant_action (new_RedundantTrigger fn tn n n) (xs @ [x]) =
    ([\<lparr>ta_function = fn, ta_session_keys = map session_key xs\<rparr>], new_RedundantTrigger fn tn n n)"
  using redundant_full_round [of "new_RedundantTrigger fn tn n n" xs x] assms
  by (simp add: new_defs redundant_fire_def)

theorem redundant_all_of_n_drops_witness:
  "run_trigger redundant_action (new_RedundantTrigger ''f'' ''t'' 1 1)
     [\<lparr>bk_bucket = ''B'', bk_key = ''a'', bk_session = ''s''\<rparr>,
      \<lparr>bk_bucket = ''B'', bk_key = ''b'', bk_session = ''s''\<rparr>] =
   ([\<lparr>ta_function = ''f'', ta_session_keys = [(''s'', ''a'')]\<rparr>], new_RedundantTrigger ''f'' ''t'' 1 1)"
  using redundant_all_of_n_drops [of 1 "[\<lparr>bk_bucket = ''B'', bk_key = ''a'', bk_session = ''s''\<rparr>]"
      "''f''" "''t''" "\<lparr>bk_bucket = ''B'', bk_key = ''b'', bk_session = ''s''\<rparr>"]
  by (simp add: session_key_def)

text \<open>When the last key of the control group arrives, a dynamic-group trigger emits one action per
  data group, each with keys of that group only; together the actions carry every pending data key
  exactly once, in the session of the control key, and the trigger starts again empty.\<close>

theorem dynamic_group_partitions:
  assumes wf: "trigger_wf (DynamicGroup t)" and "group_of (bk_key bk) = control_group_prefix"
    and "bk_key bk \<in> set (dg_control_group t)"
    and "insert (bk_key bk) (set (dg_cur_control_keys t)) = set (dg_control_group t)"
  shows "carried (fst (dynamic_group_action bk t)) = map (Pair (bk_session bk)) (pending_keys t) \<and>
    distinct (carried (fst (dynamic_group_action bk t))) \<and>
    map (\<lambda>a. group_of ` snd ` set (ta_session_keys a)) (fst (dynamic_group_action bk t)) =
      map (\<lambda>(g, _). {g}) (dg_data_group_keys_map t) \<and>
    pending_keys (snd (dynamic_group_action bk t)) = [] \<and>
    dg_cur_control_keys (snd (dynamic_group_action bk t)) = []"
proof -
  note fires = dynamic_group_fires [OF assms]
  have group: "group_of ` snd ` set (map (Pair (bk_session bk)) ks) = {g}"
    if "(g, ks) \<in> set (dg_data_group_keys_map t)" for g ks
    using dg_group_mem [OF wf that] dg_group_nonempty [OF wf that] by (cases ks) (auto simp: image_image)
  have "map (\<lambda>a. group_of ` snd ` set (ta_session_keys a)) (fst (dynamic_group_action bk t)) =
      map (\<lambda>(g, _). {g}) (dg_data_group_keys_map t)"
    unfolding fires map_map
  proof (intro map_cong refl, clarify)
    fix g ks assume "(g, ks) \<in> set (dg_data_group_keys_map t)"
    from group [OF this] show "((\<lambda>a. group_of ` snd ` set (ta_session_keys a)) \<circ>
        (\<lambda>(g, keys). \<lparr>ta_function = target_function t,
           ta_session_keys = map (Pair (bk_session bk)) keys\<rparr>)) (g, ks) = {g}"
      by simp
  qed
  moreover have "carried (fst (dynamic_group_action bk t)) = map (Pair (bk_session bk)) (pending_keys t)"
    by (simp add: fires carried_map_pairs pending_keys_def)
  ultimately show ?thesis
    using distinct_pending_keys [OF wf] fires(2,3) by (simp add: distinct_map inj_on_def)
qed

theorem dynamic_group_partitions_witness:
  "let t = (new_DynamicGroupTrigger ''f'' ''t'' [''ctrl:0''])\<lparr>dg_data_group_keys_map :=
             [(''g'', [''g:1'', ''g:2'']), (''h'', [''h:1''])]\<rparr>;
       bk = \<lparr>bk_bucket = ''B'', bk_key = ''ctrl:0'', bk_session = ''s''\<rparr>
   in carried (fst (dynamic_group_action bk t)) = [(''s'', ''g:1''), (''s'', ''g:2''), (''s'', ''h:1'')]"
  using dynamic_group_partitions [of "(new_DynamicGroupTrigger ''f'' ''t'' [''ctrl:0''])\<lparr>dg_data_group_keys_map :=
             [(''g'', [''g:1'', ''g:2'']), (''h'', [''h:1''])]\<rparr>"
      "\<lparr>bk_bucket = ''B'', bk_key = ''ctrl:0'', bk_session = ''s''\<rparr>"]
  by (simp add: new_defs group_of_def group_delimiter_def control_group_prefix_def pending_keys_def)

text \<open>A time-window trigger loses, duplicates and reorders nothing, whatever the clock reads at
  the arrivals: the objects of its actions followed by its buffer are the arrivals in order.\<close>

theorem timed_conserves:
  "carried (fst (run_trigger (\<lambda>(now, bk). by_time_action now bk) t os)) @
     bt_buffer (snd (run_trigger (\<lambda>(now, bk). by_time_action now bk) t os)) =
   bt_buffer t @ map (\<lambda>(now, bk). session_key bk) os"
  by (rule timed.run_conserves)

text \<open>C35. A trigger built from a message stays well formed under any sequence of calls of its methods,
  and keeps its type, name, option, target function and configuration.\<close>

theorem trigger_calls_keep:
  assumes "gen_trigger_pointer c start ty tn ser = Some t"
    and "run_events call_trigger t calls = Inr (t', acts)"
  shows "trigger_wf t' \<and> get_type t' = ty \<and> get_trigger_name t' = tn \<and>
    get_trigger_option t' = get_trigger_option t \<and> get_target_function t' = get_target_function t \<and>
    fresh now t' = fresh now t"
proof -
  have "trigger_wf t' \<and> trigger_base t' = trigger_base t \<and> fresh now t' = fresh now t"
    by (rule calls.run_inv [OF _ assms(2)]) (use gen_trigger_pointer_wf [OF assms(1)] in simp)
  then show ?thesis
    using gen_trigger_pointer_type [OF assms(1)] by (simp add: getter_defs)
qed

theorem trigger_calls_keep_witness:
  "\<exists>t t' acts. gen_trigger_pointer sample_codec 0 IMMEDIATE ''t'' (put_str ''f'') = Some t \<and>
     run_events call_trigger t [Clear ''s'', Arrive 5 \<lparr>bk_bucket = ''B'', bk_key = ''a'', bk_session = ''s''\<rparr>]
       = Inr (t', acts) \<and>
     trigger_wf t' \<and> get_type t' = IMMEDIATE"
proof -
  obtain t where t: "gen_trigger_pointer sample_codec 0 IMMEDIATE ''t'' (put_str ''f'') = Some t" by simp
  obtain t' acts where run: "run_events call_trigger t
      [Clear ''s'', Arrive 5 \<lparr>bk_bucket = ''B'', bk_key = ''a'', bk_session = ''s''\<rparr>] = Inr (t', acts)"
    by (auto simp: split_beta)
  show ?thesis
    using trigger_calls_keep [OF t run] t run by blast
qed

text \<open>C34. A scheduler rebuilds from the dump of a coordinator's trigger, under any faithful codec, the
  same trigger with an empty run-time state.\<close>

theorem dump_then_gen:
  assumes "codec_ok c" and "trigger_wf t"
  shows "gen_trigger_pointer c now (get_type t) (get_trigger_name t) (dump_pritimive c t) = Some (fresh now t)"
  by (rule gen_dump [OF assms])

theorem dump_then_gen_witness:
  "gen_trigger_pointer sample_codec 7 BY_BATCH_SIZE ''t''
     (dump_pritimive sample_codec (ByBatchSize (new_ByBatchSizeTrigger ''f'' ''t'' 3))) =
   Some (ByBatchSize (new_ByBatchSizeTrigger ''f'' ''t'' 3))"
  using dump_then_gen [OF sample_codec_ok, of "ByBatchSize (new_ByBatchSizeTrigger ''f'' ''t'' 3)" 7]
  by (simp add: new_defs getter_defs Trigger.defs del: gen_trigger_pointer.simps dump_pritimive.simps)

text \<open>For immediate, by-name and batch triggers a source function is re-executed exactly while
  its session waits: after it was notified the trigger asks for it, with its arguments, and after an
  object of the session arrived it asks for nothing.\<close>

theorem rerun_until_object:
  assumes "trigger_wf t" and "get_type t \<in> {IMMEDIATE, BY_NAME, BY_BATCH_SIZE}"
  shows "action_for_rerun (bk_session bk) (notify_source_func fn (bk_session bk) args flag t) =
      [mk_metadata fn args flag] \<and>
    action_for_rerun (bk_session bk)
      (snd (action_for_new_object now bk (notify_source_func fn (bk_session bk) args flag t))) = []"
proof -
  let ?t = "notify_source_func fn (bk_session bk) args flag t"
  have "get_type ?t \<in> {IMMEDIATE, BY_NAME, BY_BATCH_SIZE}" "trigger_wf ?t"
    using assms notify_source_func_wf by (auto simp: notifying.meth_getters)
  then show ?thesis
    using rerun_after_notify [OF assms(2,1)] no_rerun_after_arrival by blast
qed

theorem rerun_until_object_witness:
  "action_for_rerun ''s'' (snd (action_for_new_object 0 \<lparr>bk_bucket = ''B'', bk_key = ''a'', bk_session = ''s''\<rparr>
     (notify_source_func ''g'' ''s'' [''x''] 0 (Immediate (new_ImmediateTrigger ''f'' ''t''))))) = []"
  using rerun_until_object [of "Immediate (new_ImmediateTrigger ''f'' ''t'')"
      "\<lparr>bk_bucket = ''B'', bk_key = ''a'', bk_session = ''s''\<rparr>" "''g''" "[''x'']" 0 0]
  by (simp add: new_defs getter_defs Trigger.defs)

text \<open>\<open>BySetTrigger::clear\<close> leaves the re-execution state of the session: it erases the entry
  under the session, but the entries are stored under the key followed by the session, so the trigger
  still asks to re-execute the source functions of a cleared session.\<close>

theorem by_set_clear_keeps_sources:
  assumes "[] \<notin> set (bs_key_set t)"
  shows "action_for_rerun sid (clear sid (BySet t)) = action_for_rerun sid (BySet t)"
  by (rule by_set_clear_keeps_rerun [OF assms])

theorem by_set_clear_keeps_sources_witness:
  "let t = BySet ((new_BySetTrigger ''f'' ''t'' [''a''])\<lparr>bs_func_key_map := [(''g'', ''a'')]\<rparr>)
   in action_for_rerun ''s'' (clear ''s'' (notify_source_func ''g'' ''s'' [] 0 t)) = [mk_metadata ''g'' [] 0]"
  using by_set_clear_keeps_sources [of "(new_BySetTrigger ''f'' ''t'' [''a''])\<lparr>bs_func_key_map := [(''g'', ''a'')],
      bs_session_status_cache := [(''as'', mk_metadata ''g'' [] 0)]\<rparr>" "''s''"]
  by (simp add: new_defs cached_def um_touch_def)

end
