(* ===== verification/Lattice_Properties.thy ===== *)
theory Lattice_Properties
  imports Sample_Codec
begin

text \<open>The properties of the lattices of \<open>common/include/lattices\<close> and of their serialisation.\<close>

text \<open>C37. Replicas of a dependency map (keys to vector clocks) that start alike and merge the same
  updates, in any order and any number of times each, hold equal maps of equal clocks.\<close>

theorem dependencies_converge:
  assumes "um_wf a" and "list_all (\<lambda>(k, vc). um_wf vc) a"
    and "list_all (\<lambda>m. um_wf m \<and> list_all (\<lambda>(k, vc). um_wf vc) m) xs" and "set xs = set ys"
  shows "umap_eq vc_eq (fold (\<lambda>m acc. map_do_merge vc_merge acc m) xs a)
    (fold (\<lambda>m acc. map_do_merge vc_merge acc m) ys a)"
  by (rule deps.maps.fold_merge_set) (use assms in \<open>auto simp: map_ok_def list_all_iff\<close>)

theorem dependencies_converge_witness:
  "umap_eq vc_eq
     (fold (\<lambda>m acc. map_do_merge vc_merge acc m) [[(''x'', [(''a'', 2)])], [(''x'', [(''a'', 1), (''b'', 3)])]] [])
     (fold (\<lambda>m acc. map_do_merge vc_merge acc m) [[(''x'', [(''a'', 1), (''b'', 3)])], [(''x'', [(''a'', 2)])]] [])"
  by (rule dependencies_converge) (simp_all add: insert_commute)

text \<open>Last-writer-wins replicas converge when a timestamp identifies its write: merging the same
  writes in any order and any number of times each gives the same value.\<close>

theorem lww_converge:
  assumes "tv_value a = f (tv_timestamp a)" and "list_all (\<lambda>p. tv_value p = f (tv_timestamp p)) xs"
    and "set xs = set ys"
  shows "fold (\<lambda>p acc. lww_do_merge acc p) xs a = fold (\<lambda>p acc. lww_do_merge acc p) ys a"
  by (rule lww.fold_merge_set [of _ f]) (use assms in \<open>auto simp: list_all_iff\<close>)

theorem lww_converge_witness:
  "let p = \<lparr>tv_timestamp = 1, tv_value = ''x''\<rparr>; q = \<lparr>tv_timestamp = 2, tv_value = ''y''\<rparr>;
       a = \<lparr>tv_timestamp = 0, tv_value = []\<rparr>
   in fold (\<lambda>p acc. lww_do_merge acc p) [p, q] a = fold (\<lambda>p acc. lww_do_merge acc p) [q, p, q] a"
  unfolding Let_def
  by (rule lww_converge [of _ "\<lambda>n. if n = 1 then ''x'' else if n = 2 then ''y'' else []"])
    (simp_all add: insert_commute)

text \<open>Merging causal values keeps the causally latest: the values of the dominating clock, or of
  both when the clocks are concurrent. The merged clock is the join of the two.\<close>

theorem single_causal_merge_causal:
  assumes "um_wf (vv_vector_clock x)" and "um_wf (vv_vector_clock y)"
  shows "vv_vector_clock (single_causal_do_merge x y) = vc_merge (vv_vector_clock x) (vv_vector_clock y) \<and>
    vc_le (vv_vector_clock x) (vv_vector_clock (single_causal_do_merge x y)) \<and>
    vc_le (vv_vector_clock y) (vv_vector_clock (single_causal_do_merge x y)) \<and>
    vv_value (single_causal_do_merge x y) =
      (if vc_le (vv_vector_clock x) (vv_vector_clock y) then vv_value y
       else if vc_le (vv_vector_clock y) (vv_vector_clock x) then vv_value x
       else set_do_merge (vv_value x) (vv_value y))"
proof -
  have "vv_vector_clock (single_causal_do_merge x y) = vc_merge (vv_vector_clock x) (vv_vector_clock y)"
    by (simp add: single_causal_do_merge_def Let_def)
  then show ?thesis
    using single_causal_merge [OF assms] vc_le_merge [OF assms] by simp
qed

theorem single_causal_merge_causal_witness:
  "vv_value (single_causal_do_merge
      \<lparr>vv_vector_clock = [(''a'', 1)], vv_value = [''u'']\<rparr> \<lparr>vv_vector_clock = [(''a'', 2)], vv_value = [''v'']\<rparr>)
    = [''v'']"
proof -
  have "vc_le [(''a'', 1)] [(''a'', 2)]" by (simp add: vc_le_def)
  then show ?thesis
    using single_causal_merge_causal [of "\<lparr>vv_vector_clock = [(''a'', 1)], vv_value = [''u'']\<rparr>"
        "\<lparr>vv_vector_clock = [(''a'', 2)], vv_value = [''v'']\<rparr>"]
    by simp
qed

text \<open>A causal value survives serialisation: parsing what was serialised and converting it back
  gives an equal vector clock and the same values, in whatever order the message yields the clock.\<close>

theorem single_causal_serialization:
  assumes "lattice_codec_ok c" and "um_wf (vv_vector_clock l)" and "distinct (vv_value l)"
  shows "vc_eq (vv_vector_clock (to_vector_clock_value_pair (deserialize_causal c (serialize_single_causal c l))))
      (vv_vector_clock l) \<and>
    vv_value (to_vector_clock_value_pair (deserialize_causal c (serialize_single_causal c l))) = vv_value l"
  by (rule single_causal_round [OF assms])

theorem single_causal_serialization_witness:
  "vv_value (to_vector_clock_value_pair (deserialize_causal sample_lattice_codec
     (serialize_single_causal sample_lattice_codec
        \<lparr>vv_vector_clock = [(''a'', 1), (''b'', 2)], vv_value = [''u'', ''v'']\<rparr>))) = [''u'', ''v'']"
  using single_causal_serialization [OF sample_lattice_codec_ok,
      of "\<lparr>vv_vector_clock = [(''a'', 1), (''b'', 2)], vv_value = [''u'', ''v'']\<rparr>"]
  by simp

end
