(* ===== verification/Common_Properties.thy ===== *)
theory Common_Properties
  imports Threads
begin

text \<open>The properties of the helpers of \<^verbatim>\<open>common.hpp\<close> and of the socket addresses.\<close>

text \<open>An object that the platform names can be told apart again: for a bucket name without the
  delimiter, a non-empty key and a session that \<open>gen_random\<close> drew, parsing the name of the object in
  shared memory gives back the bucket, the key and the session.\<close>

theorem generated_names_parse_back:
  assumes "kDelimiterChar \<notin> set b" and "k \<noteq> []"
  shows "get_bucket_key_from_string (get_local_object_name b k (fst (gen_random rand_r seed 16))) =
    BucketKey_of b k (fst (gen_random rand_r seed 16))"
  using shm_name.decode_encode [of "BucketKey_of b k (fst (gen_random rand_r seed 16))"] assms
  by (simp add: name_ok_def BucketKey_of_def shm_key_name_def)

theorem generated_names_parse_back_witness:
  "get_bucket_key_from_string (get_local_object_name ''B'' ''a|b'' (fst (gen_random (\<lambda>s. (3, s)) 0 16))) =
     BucketKey_of ''B'' ''a|b'' (fst (gen_random (\<lambda>s. (3, s)) 0 16))"
  using generated_names_parse_back [of "''B''" "''a|b''"] by (simp add: kDelimiterChar_def)

text \<open>The string of a key and a session determines them only for sessions of 16 characters: the
  constructor that splits it gives back the two parts exactly when the session has 16 characters and
  the key is not empty, or both are empty.\<close>

theorem session_key_split:
  "BucketKey_of_session_key b (k @ s) = BucketKey_of b k s \<longleftrightarrow>
     k \<noteq> [] \<and> length s = 16 \<or> k = [] \<and> s = []"
  by (rule session_key_lossless_iff)

text \<open>For a thread number below \<open>10 ^ 9\<close> the timestamp is computed (the loop for the power of ten
  ends), and it is the time followed by the digits of the number.\<close>

theorem timestamp_is_computed:
  assumes "unat i < 10 ^ 9"
  shows "\<exists>m\<ge>1. m \<le> 9 \<and> generate_timestamp time i = Some (time * 10 ^ m + ucast i) \<and> unat i < 10 ^ m"
proof -
  obtain m where m: "1 \<le> m" "m \<le> 9" "timestamp_pow i (10 ^ 1) = Some (10 ^ m)" "unat i < 10 ^ m"
    using timestamp_pow_ends [OF assms, of 1] by auto
  have "(ucast (10 ^ m :: 32 word) :: 64 word) = of_nat (unat (10 ^ m :: 32 word))"
    by simp
  also have "\<dots> = 10 ^ m" using m(2) by (simp add: unat_10_pow)
  finally show ?thesis using m by (intro exI [of _ m]) (simp add: generate_timestamp_def)
qed

theorem timestamp_is_computed_witness:
  "\<exists>m\<ge>1. m \<le> 9 \<and> generate_timestamp 5 7 = Some (5 * 10 ^ m + 7)"
  using timestamp_is_computed [of 7 5] by auto

text \<open>The sockets of up to 20 coordinator threads on one machine never collide.\<close>

theorem coordinator_sockets_distinct:
  assumes "distinct ts" and "list_all (\<lambda>t. unat t < 20) ts"
  shows "distinct (concat (map (coord_bind_addresses ip) ts))"
  using assms
proof (induction ts)
  case (Cons t ts)
  have t: "unat t < 20" using Cons.prems by simp
  have d: "distinct (coord_bind_addresses ip t)"
    by (simp add: coord_bind_addresses_ports [OF t] coord_ports_def)
  have "a \<notin> set (coord_bind_addresses ip s)" if s_in: "s \<in> set ts" and a_t: "a \<in> set (coord_bind_addresses ip t)" for s a
  proof
    assume a: "a \<in> set (coord_bind_addresses ip s)"
    have s: "unat s < 20" using Cons.prems s_in by (auto simp: list_all_iff)
    obtain p q where "p \<in> set coord_ports" "q \<in> set coord_ports" "unat s + p = unat t + q"
      using a a_t by (auto simp: coord_bind_addresses_ports [OF t] coord_bind_addresses_ports [OF s])
    then have "unat s = unat t" using coord_ports_gap s t by blast
    then have "s = t" by (simp add: word_unat_eq_iff)
    then show False using Cons.prems s_in by simp
  qed
  then show ?case using d Cons by auto
qed simp

theorem coordinator_sockets_distinct_witness:
  "distinct (concat (map (coord_bind_addresses ''10.0.0.1'') [0, 1, 19]))"
  by (rule coordinator_sockets_distinct) simp_all

text \<open>With a thread number 20 two sockets have the same port.\<close>

lemma coordinator_sockets_clash:
  "func_create_bind_address (mk_thread ip 20) = app_regist_bind_address (mk_thread ip 0)"
  by (simp add: address_defs port_addr_def port_defs mk_thread_def)

text \<open>The node that the coordinator reads off a data address is the node of the scheduler that
  reported it: for an ip without a colon, cutting the address of its data server gives the ip.\<close>

theorem data_address_names_node:
  assumes "plain_ip ip"
  shows "ip_of_address (data_access_server_connect_address (mk_thread ip tid)) = Inr ip"
  using ip_of_port_addr [OF assms] by (simp add: data_access_server_connect_address_def mk_thread_def)

theorem data_address_names_node_witness:
  "ip_of_address (data_access_server_connect_address (mk_thread ''10.0.0.2'' 3)) = Inr ''10.0.0.2''"
  by (rule data_address_names_node) (simp add: plain_ip_def)

end
