(* ===== verification/Safe_Ptr.thy ===== *)
theory Safe_Ptr
  imports Prelude
begin

text \<open>
  The pointers of \<^verbatim>\<open>src/common/include/safe_ptr.hpp\<close>, through which the threads of a worker node share objects. Every
  use \<open>p->method()\<close> creates a proxy that holds the mutex of the object until the end of the expression.

  A thread is a program (\<open>thread_prog\<close>) of accesses to the shared object and of actions of its own (\<open>Say\<close>); it may run
  forever, so programs are codata. In \<open>Do k f c\<close> the expression has \<open>k\<close> more proxies besides the first, \<open>f\<close> is what the
  expression does with the object, and \<open>c\<close> is the rest of the thread. The type of the mutex is a parameter, as it is a
  parameter of the class. Steps of different threads are interleaved; an access reads and writes the object in two steps,
  so nothing but the mutex makes it atomic.
\<close>

codatatype ('a, 'r, 'e) thread_prog =
    Stop
  | Say 'e "('a, 'r, 'e) thread_prog"
  | Do nat "'a \<Rightarrow> 'r \<times> 'a" "'r \<Rightarrow> ('a, 'r, 'e) thread_prog"

text \<open>Where a thread is in its expression: proxies created so far, the object as read, proxies still to destroy.\<close>

datatype 'a phase = Locking nat | Loaded 'a nat | Unlocking nat

record ('a, 'm, 'r, 'e) safe_ptr =
  sp_ptr :: 'a
  sp_mtx :: 'm
  sp_phase :: "nat \<Rightarrow> 'a phase"
  sp_prog :: "nat \<Rightarrow> ('a, 'r, 'e) thread_prog"
  sp_said :: "(nat \<times> 'e) list"

definition new_safe_ptr :: "'m \<Rightarrow> 'a \<Rightarrow> (nat \<Rightarrow> ('a, 'r, 'e) thread_prog) \<Rightarrow> ('a, 'm, 'r, 'e) safe_ptr" where
  "new_safe_ptr m0 obj progs =
     \<lparr>sp_ptr = obj, sp_mtx = m0, sp_phase = (\<lambda>_. Locking 0), sp_prog = progs, sp_said = []\<rparr>"

inductive auto_lock ::
    "(nat \<Rightarrow> 'm \<Rightarrow> 'm option) \<Rightarrow> (nat \<Rightarrow> 'm \<Rightarrow> 'm) \<Rightarrow> ('a, 'm, 'r, 'e) safe_ptr \<Rightarrow> ('a, 'm, 'r, 'e) safe_ptr \<Rightarrow> bool"
  for lock :: "nat \<Rightarrow> 'm \<Rightarrow> 'm option" and unlock :: "nat \<Rightarrow> 'm \<Rightarrow> 'm" where
  al_say: "sp_phase s t = Locking 0 \<Longrightarrow> sp_prog s t = Say e p \<Longrightarrow>
    auto_lock lock unlock s (s\<lparr>sp_prog := (sp_prog s)(t := p), sp_said := sp_said s @ [(t, e)]\<rparr>)"
| al_lock: "sp_phase s t = Locking n \<Longrightarrow> sp_prog s t = Do k f c \<Longrightarrow> n \<le> k \<Longrightarrow> lock t (sp_mtx s) = Some m \<Longrightarrow>
    auto_lock lock unlock s (s\<lparr>sp_mtx := m, sp_phase := (sp_phase s)(t := Locking (Suc n))\<rparr>)"
| al_read: "sp_phase s t = Locking (Suc k) \<Longrightarrow> sp_prog s t = Do k f c \<Longrightarrow>
    auto_lock lock unlock s (s\<lparr>sp_phase := (sp_phase s)(t := Loaded (sp_ptr s) (Suc k))\<rparr>)"
| al_write: "sp_phase s t = Loaded v n \<Longrightarrow> sp_prog s t = Do k f c \<Longrightarrow> f v = (r, v') \<Longrightarrow>
    auto_lock lock unlock s
      (s\<lparr>sp_ptr := v', sp_phase := (sp_phase s)(t := Unlocking n), sp_prog := (sp_prog s)(t := c r)\<rparr>)"
| al_unlock: "sp_phase s t = Unlocking (Suc n) \<Longrightarrow>
    auto_lock lock unlock s (s\<lparr>sp_mtx := unlock t (sp_mtx s),
      sp_phase := (sp_phase s)(t := if n = 0 then Locking 0 else Unlocking n)\<rparr>)"

text \<open>The contract: the same threads, with every access in one step and no mutex.\<close>

type_synonym ('a, 'r, 'e) atomic_state = "'a \<times> (nat \<Rightarrow> ('a, 'r, 'e) thread_prog) \<times> (nat \<times> 'e) list"

inductive atomic_step :: "('a, 'r, 'e) atomic_state \<Rightarrow> ('a, 'r, 'e) atomic_state \<Rightarrow> bool" where
  at_say: "ps t = Say e p \<Longrightarrow> atomic_step (obj, ps, es) (obj, ps(t := p), es @ [(t, e)])"
| at_do: "ps t = Do k f c \<Longrightarrow> f obj = (r, obj') \<Longrightarrow> atomic_step (obj, ps, es) (obj', ps(t := c r), es)"

definition sp_abs :: "('a, 'm, 'r, 'e) safe_ptr \<Rightarrow> ('a, 'r, 'e) atomic_state" where
  "sp_abs s = (sp_ptr s, sp_prog s, sp_said s)"

subsection \<open>Recursive mutexes\<close>

text \<open>What the class needs of its mutex: how often a thread holds it, and that only one thread does.\<close>

locale recursive_lock =
  fixes lock :: "nat \<Rightarrow> 'm \<Rightarrow> 'm option" and unlock :: "nat \<Rightarrow> 'm \<Rightarrow> 'm" and held :: "nat \<Rightarrow> 'm \<Rightarrow> nat" and m0 :: 'm
  assumes held_m0: "held t m0 = 0"
    and lock_Some: "lock t m = Some m' \<Longrightarrow> held u m' = (if u = t then Suc (held t m) else held u m)"
    and lock_None: "lock t m = None \<Longrightarrow> \<exists>u. u \<noteq> t \<and> 0 < held u m"
    and unlock_held: "0 < held t m \<Longrightarrow> held u (unlock t m) = (if u = t then held t m - 1 else held u m)"
    and held_once: "0 < held t m \<Longrightarrow> 0 < held u m \<Longrightarrow> t = u"

text \<open>\<open>std::recursive_mutex\<close>: the owner and how often it has locked.\<close>

type_synonym recursive_mutex = "(nat \<times> nat) option"

fun rm_lock :: "nat \<Rightarrow> recursive_mutex \<Rightarrow> recursive_mutex option" where
  "rm_lock t None = Some (Some (t, 0))"
| "rm_lock t (Some (u, n)) = (if u = t then Some (Some (t, Suc n)) else None)"

fun rm_unlock :: "nat \<Rightarrow> recursive_mutex \<Rightarrow> recursive_mutex" where
  "rm_unlock t (Some (u, Suc n)) = (if u = t then Some (u, n) else Some (u, Suc n))"
| "rm_unlock t (Some (u, 0)) = (if u = t then None else Some (u, 0))"
| "rm_unlock t None = None"

fun rm_held :: "nat \<Rightarrow> recursive_mutex \<Rightarrow> nat" where
  "rm_held t None = 0"
| "rm_held t (Some (u, n)) = (if u = t then Suc n else 0)"

interpretation rm: recursive_lock rm_lock rm_unlock rm_held None
proof
  fix t u :: nat and m m'
  show "rm_held t None = 0" by simp
  show "rm_lock t m = Some m' \<Longrightarrow> rm_held u m' = (if u = t then Suc (rm_held t m) else rm_held u m)"
    by (cases "(t, m)" rule: rm_lock.cases) (auto split: if_splits)
  show "rm_lock t m = None \<Longrightarrow> \<exists>u. u \<noteq> t \<and> 0 < rm_held u m"
    by (cases "(t, m)" rule: rm_lock.cases) (auto split: if_splits)
  show "0 < rm_held t m \<Longrightarrow> rm_held u (rm_unlock t m) = (if u = t then rm_held t m - 1 else rm_held u m)"
    by (cases "(t, m)" rule: rm_unlock.cases) (auto split: if_splits)
  show "0 < rm_held t m \<Longrightarrow> 0 < rm_held u m \<Longrightarrow> t = u"
    by (cases m) (auto split: if_splits)
qed

subsection \<open>Accesses are atomic\<close>

fun phase_held :: "'a phase \<Rightarrow> nat" where
  "phase_held (Locking n) = n"
| "phase_held (Loaded v n) = n"
| "phase_held (Unlocking n) = n"

text \<open>A thread is somewhere in an expression only when its program is at an expression.\<close>

fun phase_ok :: "'a \<Rightarrow> 'a phase \<Rightarrow> ('a, 'r, 'e) thread_prog \<Rightarrow> bool" where
  "phase_ok obj (Locking n) p \<longleftrightarrow> n = 0 \<or> (\<exists>k f c. p = Do k f c \<and> n \<le> Suc k)"
| "phase_ok obj (Loaded v n) p \<longleftrightarrow> v = obj \<and> 0 < n \<and> (\<exists>k f c. p = Do k f c \<and> n = Suc k)"
| "phase_ok obj (Unlocking n) p \<longleftrightarrow> 0 < n"

context recursive_lock
begin

definition sp_inv :: "('a, 'm, 'r, 'e) safe_ptr \<Rightarrow> bool" where
  "sp_inv s \<longleftrightarrow> (\<forall>t. held t (sp_mtx s) = phase_held (sp_phase s t) \<and> phase_ok (sp_ptr s) (sp_phase s t) (sp_prog s t))"

lemma sp_inv_new: "sp_inv (new_safe_ptr m0 obj progs)"
  by (simp add: sp_inv_def new_safe_ptr_def held_m0)

lemma sp_invD:
  assumes "sp_inv s"
  shows "held t (sp_mtx s) = phase_held (sp_phase s t)" "phase_ok (sp_ptr s) (sp_phase s t) (sp_prog s t)"
  using assms by (simp_all add: sp_inv_def)

text \<open>Another thread has not read the object when this one writes it.\<close>

lemma phase_ok_other:
  assumes "sp_inv s" "0 < phase_held (sp_phase s t)" "u \<noteq> t"
  shows "phase_ok obj (sp_phase s u) (sp_prog s u)"
proof -
  have "phase_held (sp_phase s u) = 0"
    using held_once [of u "sp_mtx s" t] assms sp_invD [OF assms(1)] by fastforce
  then show ?thesis using sp_invD(2) [OF assms(1), of u] by (cases "sp_phase s u") auto
qed

lemma auto_lock_inv: "auto_lock lock unlock s s' \<Longrightarrow> sp_inv s \<Longrightarrow> sp_inv s'"
proof (induction rule: auto_lock.induct)
  case (al_lock s t n k f c m)
  then show ?case using lock_Some [OF al_lock(4)] by (auto simp: sp_inv_def)
next
  case (al_read s t k f c)
  then show ?case by (auto simp: sp_inv_def)
next
  case (al_write s t v n k f c r v')
  have h: "0 < phase_held (sp_phase s t)" using sp_invD(2) [OF al_write(4), of t] al_write(1) by simp
  show ?case
    using al_write h phase_ok_other [OF al_write(4) h]
    by (auto simp: sp_inv_def)
next
  case (al_unlock s t n)
  then have "0 < held t (sp_mtx s)" by (simp add: sp_invD(1) [OF al_unlock(2)])
  from unlock_held [OF this] show ?case using al_unlock by (auto simp: sp_inv_def)
qed (auto simp: sp_inv_def)

lemma auto_lock_refines:
  "auto_lock lock unlock s s' \<Longrightarrow> sp_inv s \<Longrightarrow> sp_abs s' = sp_abs s \<or> atomic_step (sp_abs s) (sp_abs s')"
proof (induction rule: auto_lock.induct)
  case (al_say s t e p)
  then show ?case by (simp add: sp_abs_def at_say)
next
  case (al_write s t v n k f c r v')
  then have "v = sp_ptr s" using sp_invD(2) [OF al_write(4), of t] by simp
  with al_write show ?case by (simp add: sp_abs_def at_do)
qed (simp_all add: sp_abs_def)

lemma auto_lock_run:
  assumes "(auto_lock lock unlock)\<^sup>*\<^sup>* s s'" "sp_inv s"
  shows "sp_inv s' \<and> atomic_step\<^sup>*\<^sup>* (sp_abs s) (sp_abs s')"
  using assms
proof (induction rule: rtranclp_induct)
  case (step s' s'')
  then show ?case using auto_lock_inv [of s' s''] auto_lock_refines [of s' s''] by (auto intro: rtranclp.rtrancl_into_rtrancl)
qed simp

text \<open>Conversely every atomic run is the run of threads that take turns.\<close>

lemma lock_proxies:
  assumes "sp_inv s" "\<And>u. sp_phase s u = Locking 0" "sp_prog s t = Do k f c" "n \<le> Suc k"
  shows "\<exists>m. (auto_lock lock unlock)\<^sup>*\<^sup>* s (s\<lparr>sp_mtx := m, sp_phase := (sp_phase s)(t := Locking n)\<rparr>)"
  using assms(4)
proof (induction n)
  case 0
  have "s\<lparr>sp_mtx := sp_mtx s, sp_phase := (sp_phase s)(t := Locking 0)\<rparr> = s" using assms(2) by (simp add: fun_upd_idem)
  then show ?case by (metis rtranclp.rtrancl_refl)
next
  case (Suc n)
  obtain m where run: "(auto_lock lock unlock)\<^sup>*\<^sup>* s (s\<lparr>sp_mtx := m, sp_phase := (sp_phase s)(t := Locking n)\<rparr>)" (is "_\<^sup>*\<^sup>* _ ?s")
    using Suc.IH Suc_leD [OF Suc.prems] by blast
  then have "sp_inv ?s" using auto_lock_run assms(1) by blast
  then have "held u m = 0" if "u \<noteq> t" for u using sp_invD(1) [of ?s u] assms(2) that by simp
  then obtain m' where "lock t m = Some m'" using lock_None [of t m] by (cases "lock t m") auto
  then have "auto_lock lock unlock ?s (?s\<lparr>sp_mtx := m', sp_phase := (sp_phase ?s)(t := Locking (Suc n))\<rparr>)"
    by (intro al_lock [where k = k and f = f and c = c]) (use assms(3) Suc in simp_all)
  then have "auto_lock lock unlock ?s (s\<lparr>sp_mtx := m', sp_phase := (sp_phase s)(t := Locking (Suc n))\<rparr>)" by simp
  from rtranclp.rtrancl_into_rtrancl [OF run this] show ?case by blast
qed

lemma unlock_proxies:
  assumes "sp_phase s t = Unlocking (Suc n)"
  shows "\<exists>m. (auto_lock lock unlock)\<^sup>*\<^sup>* s (s\<lparr>sp_mtx := m, sp_phase := (sp_phase s)(t := Locking 0)\<rparr>)"
  using assms
proof (induction n arbitrary: s)
  case 0
  have "auto_lock lock unlock s (s\<lparr>sp_mtx := unlock t (sp_mtx s), sp_phase := (sp_phase s)(t := Locking 0)\<rparr>)"
    using al_unlock [OF 0] by simp
  then show ?case by blast
next
  case (Suc n)
  let ?s = "s\<lparr>sp_mtx := unlock t (sp_mtx s), sp_phase := (sp_phase s)(t := Unlocking (Suc n))\<rparr>"
  have "auto_lock lock unlock s ?s" using al_unlock [OF Suc(2)] by simp
  moreover have "sp_phase ?s t = Unlocking (Suc n)" by simp
  from Suc(1) [OF this] obtain m where
    "(auto_lock lock unlock)\<^sup>*\<^sup>* ?s (?s\<lparr>sp_mtx := m, sp_phase := (sp_phase ?s)(t := Locking 0)\<rparr>)" ..
  moreover have "?s\<lparr>sp_mtx := m, sp_phase := (sp_phase ?s)(t := Locking 0)\<rparr> =
      s\<lparr>sp_mtx := m, sp_phase := (sp_phase s)(t := Locking 0)\<rparr>" by simp
  ultimately show ?case by (metis converse_rtranclp_into_rtranclp)
qed

lemma access_realised:
  assumes "sp_inv s" "\<And>u. sp_phase s u = Locking 0" "sp_prog s t = Do k f c" "f (sp_ptr s) = (r, v)"
  shows "\<exists>m. (auto_lock lock unlock)\<^sup>*\<^sup>* s (s\<lparr>sp_mtx := m, sp_ptr := v, sp_prog := (sp_prog s)(t := c r)\<rparr>)"
proof -
  obtain m where 1: "(auto_lock lock unlock)\<^sup>*\<^sup>* s (s\<lparr>sp_mtx := m, sp_phase := (sp_phase s)(t := Locking (Suc k))\<rparr>)" (is "_\<^sup>*\<^sup>* _ ?s1")
    using lock_proxies [OF assms(1-3)] by blast
  let ?s2 = "?s1\<lparr>sp_phase := (sp_phase ?s1)(t := Loaded (sp_ptr ?s1) (Suc k))\<rparr>"
  have 2: "auto_lock lock unlock ?s1 ?s2" by (rule al_read) (use assms(3) in simp_all)
  let ?s3 = "?s2\<lparr>sp_ptr := v, sp_phase := (sp_phase ?s2)(t := Unlocking (Suc k)), sp_prog := (sp_prog ?s2)(t := c r)\<rparr>"
  have 3: "auto_lock lock unlock ?s2 ?s3" 
    by (rule al_write [where v = "sp_ptr s" and k = k and f = f]) (use assms(3,4) in simp_all)
  obtain m' where 4: "(auto_lock lock unlock)\<^sup>*\<^sup>* ?s3 (?s3\<lparr>sp_mtx := m', sp_phase := (sp_phase ?s3)(t := Locking 0)\<rparr>)" (is "_\<^sup>*\<^sup>* _ ?s4")
    using unlock_proxies [of ?s3 t k] by fastforce
  have "(sp_phase s)(t := Locking 0) = sp_phase s" using assms(2) by (simp add: fun_upd_idem)
  then have "?s4 = s\<lparr>sp_mtx := m', sp_ptr := v, sp_prog := (sp_prog s)(t := c r)\<rparr>" by simp
  moreover have "(auto_lock lock unlock)\<^sup>*\<^sup>* s ?s4"
    by (rule rtranclp_trans [OF 1 converse_rtranclp_into_rtranclp [OF 2 converse_rtranclp_into_rtranclp [OF 3 4]]])
  ultimately show ?thesis by metis
qed

lemma atomic_realised:
  assumes "atomic_step\<^sup>*\<^sup>* (sp_abs s) a" "sp_inv s" "\<And>u. sp_phase s u = Locking 0"
  shows "\<exists>s'. (auto_lock lock unlock)\<^sup>*\<^sup>* s s' \<and> sp_abs s' = a \<and> (\<forall>u. sp_phase s' u = Locking 0)"
  using assms(1)
proof (induction rule: rtranclp_induct)
  case (step a b)
  then obtain s' where s': "(auto_lock lock unlock)\<^sup>*\<^sup>* s s'" "sp_abs s' = a" "\<And>u. sp_phase s' u = Locking 0" by auto
  have inv: "sp_inv s'" using auto_lock_run [OF s'(1) assms(2)] by simp
  from step(2) show ?case
  proof (cases rule: atomic_step.cases)
    case (at_say ps t e p obj es)
    let ?s = "s'\<lparr>sp_prog := (sp_prog s')(t := p), sp_said := sp_said s' @ [(t, e)]\<rparr>"
    have "auto_lock lock unlock s' ?s" by (rule al_say) (use at_say s' in \<open>auto simp: sp_abs_def\<close>)
    then have "(auto_lock lock unlock)\<^sup>*\<^sup>* s ?s" using s'(1) by (rule rtranclp.rtrancl_into_rtrancl [rotated])
    then show ?thesis using at_say s' by (intro exI [of _ ?s]) (auto simp: sp_abs_def)
  next
    case (at_do ps t k f c obj r obj' es)
    have "sp_prog s' t = Do k f c" "f (sp_ptr s') = (r, obj')" using at_do s'(2) by (auto simp: sp_abs_def)
    from access_realised [OF inv s'(3) this] obtain m where
      "(auto_lock lock unlock)\<^sup>*\<^sup>* s' (s'\<lparr>sp_mtx := m, sp_ptr := obj', sp_prog := (sp_prog s')(t := c r)\<rparr>)" (is "_\<^sup>*\<^sup>* _ ?s") ..
    then have "(auto_lock lock unlock)\<^sup>*\<^sup>* s ?s" by (rule rtranclp_trans [OF s'(1)])
    then show ?thesis using at_do s' by (intro exI [of _ ?s]) (auto simp: sp_abs_def)
  qed
qed (use assms in blast)

lemma safe_ptr_runs:
  "(\<exists>s. (auto_lock lock unlock)\<^sup>*\<^sup>* (new_safe_ptr m0 obj ps) s \<and> sp_abs s = a) \<longleftrightarrow> atomic_step\<^sup>*\<^sup>* (obj, ps, []) a"
  using auto_lock_run [OF _ sp_inv_new, of obj ps] atomic_realised [OF _ sp_inv_new, of obj ps a]
  by (auto simp: sp_abs_def new_safe_ptr_def)

text \<open>No deadlock: a thread that has something left to do is not blocked, or the one that holds the mutex is not.\<close>

lemma not_blocked:
  assumes "sp_inv s" "sp_prog s t \<noteq> Stop \<or> sp_phase s t \<noteq> Locking 0" "\<And>u. u \<noteq> t \<Longrightarrow> held u (sp_mtx s) = 0"
  shows "\<exists>s'. auto_lock lock unlock s s'"
proof (cases "sp_phase s t")
  case (Locking n)
  note ph = Locking
  show ?thesis
  proof (cases "sp_prog s t")
    case Stop
    then show ?thesis using assms(2) sp_invD(2) [OF assms(1), of t] Locking by auto
  next
    case (Say e p)
    then have "n = 0" using sp_invD(2) [OF assms(1), of t] Locking by auto
    then show ?thesis using al_say [of s t e p] ph Say by blast
  next
    case (Do k f c)
    show ?thesis
    proof (cases "n \<le> k")
      case True
      obtain m where "lock t (sp_mtx s) = Some m" using lock_None [of t "sp_mtx s"] assms(3) by (cases "lock t (sp_mtx s)") auto
      then show ?thesis using al_lock [OF ph Do True] by blast
    next
      case False
      then have "n = Suc k" using sp_invD(2) [OF assms(1), of t] ph Do by auto
      then show ?thesis using al_read [of s t k f c] ph Do by blast
    qed
  qed
next
  case (Loaded v n)
  then obtain k f c where "sp_prog s t = Do k f c" using sp_invD(2) [OF assms(1), of t] by auto
  then show ?thesis using al_write [OF Loaded] by (metis surj_pair)
next
  case (Unlocking n)
  then obtain n' where "n = Suc n'" using sp_invD(2) [OF assms(1), of t] by (cases n) auto
  then show ?thesis using al_unlock [of s t n'] Unlocking by blast
qed

lemma no_deadlock:
  assumes "(auto_lock lock unlock)\<^sup>*\<^sup>* (new_safe_ptr m0 obj ps) s" "sp_prog s t \<noteq> Stop"
  shows "\<exists>s'. auto_lock lock unlock s s'"
proof -
  have inv: "sp_inv s" using auto_lock_run [OF assms(1) sp_inv_new] by simp
  show ?thesis
  proof (cases "\<exists>u. u \<noteq> t \<and> 0 < held u (sp_mtx s)")
    case True
    then obtain u where u: "0 < held u (sp_mtx s)" by blast
    have "held v (sp_mtx s) = 0" if "v \<noteq> u" for v using held_once [OF u, of v] that by (cases "held v (sp_mtx s)") auto
    moreover have "sp_phase s u \<noteq> Locking 0" using u sp_invD(1) [OF inv, of u] by auto
    ultimately show ?thesis using not_blocked [OF inv, of u] by blast
  next
    case False
    then show ?thesis using not_blocked [OF inv, of t] assms(2) by auto
  qed
qed

end

end
