(* ===== verification/Thread_Queues.thy ===== *)
theory Thread_Queues
  imports Safe_Ptr Comm_Receive
begin

text \<open>
  What the threads of a worker node do with the objects they share (\<^verbatim>\<open>src/src/scheduler/comm_helper.hpp\<close>): the queues of
  messages to and from the input-output threads and the cache of data addresses. The loops are programs of \<open>thread_prog\<close>,
  one access per use of the pointer, so that another thread may come between any two uses.
\<close>

subsection \<open>Queues\<close>

text \<open>The methods of \<open>std::queue\<close>; \<open>front\<close> and \<open>pop\<close> of an empty queue are undefined.\<close>

datatype 'm queue_result = IsEmpty bool | Front 'm | Popped | Pushed | Undefined

definition q_empty :: "'m list \<Rightarrow> 'm queue_result \<times> 'm list" where
  "q_empty q = (IsEmpty (q = []), q)"

definition q_front :: "'m list \<Rightarrow> 'm queue_result \<times> 'm list" where
  "q_front q = (case q of [] \<Rightarrow> (Undefined, []) | m # _ \<Rightarrow> (Front m, q))"

definition q_pop :: "'m list \<Rightarrow> 'm queue_result \<times> 'm list" where
  "q_pop q = (case q of [] \<Rightarrow> (Undefined, []) | _ # ms \<Rightarrow> (Popped, ms))"

definition q_push :: "'m \<Rightarrow> 'm list \<Rightarrow> 'm queue_result \<times> 'm list" where
  "q_push m q = (Pushed, q @ [m])"

text \<open>The loop that empties a queue, over and over again, with the number of messages of the present round. An
  input-output thread stops a round after \<^const>\<open>msg_process_batch\<close> messages, the main thread has no limit. A message
  is handled (\<open>Say\<close>) between \<open>front\<close> and \<open>pop\<close>.\<close>

datatype 'm drain_pc =
    is_TestEmpty: TestEmpty (round_count: nat)
  | is_TakeFront: TakeFront (round_count: nat)
  | is_Handle: Handle (taken: 'm) (round_count: nat)
  | is_DropFront: DropFront (round_count: nat)
  | is_Crashed: Crashed

definition after_test :: "nat option \<Rightarrow> nat \<Rightarrow> 'm queue_result \<Rightarrow> 'm drain_pc" where
  "after_test limit n r =
     (if r = IsEmpty False \<and> (case limit of None \<Rightarrow> True | Some b \<Rightarrow> n < b) then TakeFront n else TestEmpty 0)"

definition after_front :: "nat \<Rightarrow> 'm queue_result \<Rightarrow> 'm drain_pc" where
  "after_front n r = (case r of Front m \<Rightarrow> Handle m n | _ \<Rightarrow> Crashed)"

definition after_pop :: "nat \<Rightarrow> 'm queue_result \<Rightarrow> 'm drain_pc" where
  "after_pop n r = (if r = Popped then TestEmpty (n + 1) else Crashed)"

primcorec drain :: "nat option \<Rightarrow> 'm drain_pc \<Rightarrow> ('m list, 'm queue_result, 'm) thread_prog" where
  "drain limit pc =
     (case pc of
        TestEmpty n \<Rightarrow> Do 0 q_empty (\<lambda>r. drain limit (after_test limit n r))
      | TakeFront n \<Rightarrow> Do 0 q_front (\<lambda>r. drain limit (after_front n r))
      | Handle m n \<Rightarrow> Say m (drain limit (DropFront n))
      | DropFront n \<Rightarrow> Do 0 q_pop (\<lambda>r. drain limit (after_pop n r))
      | Crashed \<Rightarrow> Stop)"

primrec push_all :: "'m list \<Rightarrow> ('m list, 'm queue_result, 'm) thread_prog" where
  "push_all [] = Stop"
| "push_all (m # ms) = Do 0 (q_push m) (\<lambda>_. push_all ms)"

text \<open>Thread 0 pushes, thread 1 empties the queue.\<close>

definition queue_threads :: "nat option \<Rightarrow> 'm list \<Rightarrow> nat \<Rightarrow> ('m list, 'm queue_result, 'm) thread_prog" where
  "queue_threads limit ms t = (if t = 0 then push_all ms else if t = 1 then drain limit (TestEmpty 0) else Stop)"

subsection \<open>The cache of addresses\<close>

datatype cache_result = Found | Missing | Address_of string | Emplaced | Cleared | Throws

text \<open>An answer of \<open>get_key_address\<close>, or the exception of \<open>at\<close>.\<close>

datatype cache_event = Answer string string | Threw string

definition c_find :: "string \<Rightarrow> (string, string) umap \<Rightarrow> cache_result \<times> (string, string) umap" where
  "c_find key c = (if um_has key c then Found else Missing, c)"

definition c_at :: "string \<Rightarrow> (string, string) umap \<Rightarrow> cache_result \<times> (string, string) umap" where
  "c_at key c = (case map_of c key of None \<Rightarrow> Throws | Some a \<Rightarrow> Address_of a, c)"

definition c_emplace :: "string \<Rightarrow> string \<Rightarrow> (string, string) umap \<Rightarrow> cache_result \<times> (string, string) umap" where
  "c_emplace key addr c = (Emplaced, emplace key addr c)"

definition c_clear :: "(string, string) umap \<Rightarrow> cache_result \<times> (string, string) umap" where
  "c_clear c = (Cleared, [])"

text \<open>What a thread does with the cache: \<open>get_key_address\<close>, the \<open>emplace\<close> of \<open>handle_function_call\<close>, and
  \<open>clear_cache\<close>, a public method that the program itself never calls.\<close>

datatype cache_op = Lookup string | Remember string string | Clear

definition lookup_at ::
    "string \<Rightarrow> ((string, string) umap, cache_result, cache_event) thread_prog
       \<Rightarrow> ((string, string) umap, cache_result, cache_event) thread_prog" where
  "lookup_at key p = Do 0 (c_at key) (\<lambda>r. case r of Address_of a \<Rightarrow> Say (Answer key a) p | _ \<Rightarrow> Say (Threw key) Stop)"

text \<open>\<open>find(key) == end()\<close> uses the pointer twice in one expression.\<close>

fun cache_prog :: "cache_op list \<Rightarrow> ((string, string) umap, cache_result, cache_event) thread_prog" where
  "cache_prog [] = Stop"
| "cache_prog (Lookup key # ops) =
     Do 1 (c_find key) (\<lambda>r. if r = Missing then Say (Answer key []) (cache_prog ops) else lookup_at key (cache_prog ops))"
| "cache_prog (Remember key addr # ops) = Do 0 (c_emplace key addr) (\<lambda>_. cache_prog ops)"
| "cache_prog (Clear # ops) = Do 0 c_clear (\<lambda>_. cache_prog ops)"

subsection \<open>Invariants\<close>

lemma drain_simps [simp]:
  "drain limit (TestEmpty n) = Do 0 q_empty (\<lambda>r. drain limit (after_test limit n r))"
  "drain limit (TakeFront n) = Do 0 q_front (\<lambda>r. drain limit (after_front n r))"
  "drain limit (Handle m n) = Say m (drain limit (DropFront n))"
  "drain limit (DropFront n) = Do 0 q_pop (\<lambda>r. drain limit (after_pop n r))"
  "drain limit Crashed = Stop"
  by (simp_all add: drain.code)

text \<open>What the place in the loop says of the queue, and the messages that are not handled yet.\<close>

fun drain_ok :: "nat option \<Rightarrow> 'm drain_pc \<Rightarrow> 'm list \<Rightarrow> bool" where
  "drain_ok limit (TestEmpty n) q \<longleftrightarrow> (\<forall>b. limit = Some b \<longrightarrow> n \<le> b)"
| "drain_ok limit (TakeFront n) q \<longleftrightarrow> q \<noteq> [] \<and> (\<forall>b. limit = Some b \<longrightarrow> n < b)"
| "drain_ok limit (Handle m n) q \<longleftrightarrow> q \<noteq> [] \<and> hd q = m \<and> (\<forall>b. limit = Some b \<longrightarrow> n < b)"
| "drain_ok limit (DropFront n) q \<longleftrightarrow> q \<noteq> [] \<and> (\<forall>b. limit = Some b \<longrightarrow> n < b)"
| "drain_ok limit Crashed q \<longleftrightarrow> False"

definition queue_waiting :: "'m drain_pc \<Rightarrow> 'm list \<Rightarrow> 'm list" where
  "queue_waiting pc q = (case pc of DropFront n \<Rightarrow> tl q | _ \<Rightarrow> q)"

definition queue_inv :: "nat option \<Rightarrow> 'm list \<Rightarrow> ('m list, 'm queue_result, 'm) atomic_state \<Rightarrow> bool" where
  "queue_inv limit ms = (\<lambda>(q, ps, es). \<exists>rest pc. ps 0 = push_all rest \<and> ps 1 = drain limit pc \<and> (\<forall>t. 1 < t \<longrightarrow> ps t = Stop) \<and>
     drain_ok limit pc q \<and> ms = map snd es @ queue_waiting pc q @ rest)"

lemma push_all_Do: "push_all rest = Do k f c \<Longrightarrow> \<exists>m ms. rest = m # ms \<and> f = q_push m \<and> c = (\<lambda>_. push_all ms)"
  by (cases rest) auto

lemma drain_ok_push: "drain_ok limit pc q \<Longrightarrow> drain_ok limit pc (q @ [m]) \<and> queue_waiting pc (q @ [m]) = queue_waiting pc q @ [m]"
  by (cases pc) (auto simp: queue_waiting_def)

lemma queue_step_push:
  assumes "queue_inv limit ms (q, ps, es)" "ps 0 = Do k f c" "f q = (r, q')"
  shows "queue_inv limit ms (q', ps(0 := c r), es)"
proof -
  obtain rest pc where i: "ps 0 = push_all rest" "ps 1 = drain limit pc" "\<forall>t. 1 < t \<longrightarrow> ps t = Stop" "drain_ok limit pc q"
    "ms = map snd es @ queue_waiting pc q @ rest"
    using assms(1) by (auto simp: queue_inv_def)
  obtain m rest' where r: "rest = m # rest'" "f = q_push m" "c = (\<lambda>_. push_all rest')" using i(1) assms(2) push_all_Do by metis
  then have "q' = q @ [m]" using assms(3) by (simp add: q_push_def)
  then show ?thesis using i r drain_ok_push [OF i(4), of m] unfolding queue_inv_def by fastforce
qed

lemma drain_Do:
  assumes "drain limit pc = Do k f c"
  obtains n where "pc = TestEmpty n" "f = q_empty" "c = (\<lambda>r. drain limit (after_test limit n r))"
  | n where "pc = TakeFront n" "f = q_front" "c = (\<lambda>r. drain limit (after_front n r))"
  | n where "pc = DropFront n" "f = q_pop" "c = (\<lambda>r. drain limit (after_pop n r))"
  using assms by (cases pc) auto

lemma drain_step_Do:
  assumes "drain limit pc = Do k f c" "drain_ok limit pc q" "f q = (r, q')"
  shows "\<exists>pc'. c r = drain limit pc' \<and> drain_ok limit pc' q' \<and> queue_waiting pc' q' = queue_waiting pc q"
  using assms(1)
proof (cases rule: drain_Do)
  case (1 n)
  have "drain_ok limit (after_test limit n r) q' \<and> queue_waiting (after_test limit n r) q' = queue_waiting pc q"
    using 1 assms(2,3) by (auto simp: q_empty_def after_test_def queue_waiting_def split: option.splits)
  then show ?thesis using 1(3) by blast
next
  case (2 n)
  have "drain_ok limit (after_front n r) q' \<and> queue_waiting (after_front n r) q' = queue_waiting pc q"
    using 2 assms(2,3) by (auto simp: q_front_def after_front_def queue_waiting_def split: list.splits)
  then show ?thesis using 2(3) by blast
next
  case (3 n)
  have "drain_ok limit (after_pop n r) q' \<and> queue_waiting (after_pop n r) q' = queue_waiting pc q"
    using 3 assms(2,3) by (auto simp: q_pop_def after_pop_def queue_waiting_def split: list.splits)
  then show ?thesis using 3(3) by blast
qed

lemma drain_step_Say:
  assumes "drain limit pc = Say m p" "drain_ok limit pc q"
  shows "\<exists>pc'. p = drain limit pc' \<and> drain_ok limit pc' q \<and> queue_waiting pc q = m # queue_waiting pc' q"
  using assms by (cases pc) (auto simp: queue_waiting_def intro!: exI [of _ "DropFront (round_count pc)"])

lemma queue_inv_step: "atomic_step a b \<Longrightarrow> queue_inv limit ms a \<Longrightarrow> queue_inv limit ms b"
proof (induction rule: atomic_step.induct)
  case (at_say ps t m p q es)
  obtain rest pc where i: "ps 0 = push_all rest" "ps 1 = drain limit pc" "\<forall>t. 1 < t \<longrightarrow> ps t = Stop" "drain_ok limit pc q"
    "ms = map snd es @ queue_waiting pc q @ rest"
    using at_say(2) by (auto simp: queue_inv_def)
  have "ps 0 \<noteq> Say m p" unfolding i(1) by (cases rest) auto
  with i(3) at_say(1) have "t = 1" by (cases "t = 0 \<or> 1 < t") auto
  moreover obtain pc' where "p = drain limit pc'" "drain_ok limit pc' q" "queue_waiting pc q = m # queue_waiting pc' q"
    using drain_step_Say [of limit pc m p q] i at_say(1) \<open>t = 1\<close> by auto
  ultimately show ?case using i unfolding queue_inv_def by fastforce
next
  case (at_do ps t k f c q r q' es)
  obtain rest pc where i: "ps 0 = push_all rest" "ps 1 = drain limit pc" "\<forall>t. 1 < t \<longrightarrow> ps t = Stop" "drain_ok limit pc q"
    "ms = map snd es @ queue_waiting pc q @ rest"
    using at_do(3) by (auto simp: queue_inv_def)
  consider "t = 0" | "t = 1" | "1 < t" by linarith
  then show ?case
  proof cases
    case 1
    then show ?thesis using queue_step_push [OF at_do(3)] at_do(1,2) by simp
  next
    case 2
    then obtain pc' where "c r = drain limit pc'" "drain_ok limit pc' q'" "queue_waiting pc' q' = queue_waiting pc q"
      using drain_step_Do [of limit pc k f c q r q'] i at_do(1,2) by auto
    then show ?thesis using i 2 unfolding queue_inv_def by fastforce
  next
    case 3
    then show ?thesis using i(3) at_do(1) by auto
  qed
qed

lemma queue_inv_init: "queue_inv limit ms ([], queue_threads limit ms, [])"
  unfolding queue_inv_def
  by (auto simp: queue_threads_def queue_waiting_def simp del: drain_simps intro!: exI [of _ ms] exI [of _ "TestEmpty 0"])

lemma queue_inv_run: "atomic_step\<^sup>*\<^sup>* a b \<Longrightarrow> queue_inv limit ms a \<Longrightarrow> queue_inv limit ms b"
  by (induction rule: rtranclp_induct) (auto intro: queue_inv_step)

text \<open>The places of a thread that uses the cache. \<open>K\<close> are the addresses that some thread remembers, \<open>cl\<close> says whether
  some thread clears the cache.\<close>

definition allowed :: "bool \<Rightarrow> (string \<times> string) set \<Rightarrow> cache_op list \<Rightarrow> bool" where
  "allowed cl K ops \<longleftrightarrow> (\<forall>key a. Remember key a \<in> set ops \<longrightarrow> (key, a) \<in> K) \<and> (Clear \<in> set ops \<longrightarrow> cl)"

definition answers :: "bool \<Rightarrow> (string \<times> string) set \<Rightarrow> (string, string) umap \<Rightarrow> cache_event \<Rightarrow> bool" where
  "answers cl K c e =
     (case e of Answer key a \<Rightarrow> a = [] \<or> (key, a) \<in> K \<and> (cl \<or> map_of c key = Some a) | Threw key \<Rightarrow> cl)"

inductive cache_point ::
    "bool \<Rightarrow> (string \<times> string) set \<Rightarrow> (string, string) umap \<Rightarrow>
       ((string, string) umap, cache_result, cache_event) thread_prog \<Rightarrow> bool"
  for cl K c where
  cp_next: "allowed cl K ops \<Longrightarrow> cache_point cl K c (cache_prog ops)"
| cp_at: "um_has key c \<or> cl \<Longrightarrow> allowed cl K ops \<Longrightarrow> cache_point cl K c (lookup_at key (cache_prog ops))"
| cp_answer: "answers cl K c (Answer key a) \<Longrightarrow> allowed cl K ops \<Longrightarrow> cache_point cl K c (Say (Answer key a) (cache_prog ops))"
| cp_threw: "cl \<Longrightarrow> cache_point cl K c (Say (Threw key) Stop)"

definition cache_inv ::
    "bool \<Rightarrow> (string \<times> string) set \<Rightarrow> ((string, string) umap, cache_result, cache_event) atomic_state \<Rightarrow> bool" where
  "cache_inv cl K = (\<lambda>(c, ps, es). set c \<subseteq> K \<and> (\<forall>t. cache_point cl K c (ps t)) \<and> (\<forall>(t, e)\<in>set es. answers cl K c e))"

text \<open>The cache loses an address only if it is cleared.\<close>

definition cache_grows :: "bool \<Rightarrow> (string, string) umap \<Rightarrow> (string, string) umap \<Rightarrow> bool" where
  "cache_grows cl c c' \<longleftrightarrow> cl \<or> (\<forall>key a. map_of c key = Some a \<longrightarrow> map_of c' key = Some a)"

lemma map_of_emplace: "map_of c key = Some a \<Longrightarrow> map_of (emplace k v c) key = Some a"
  by (auto simp: emplace_def)

lemma set_emplace: "set (emplace k v c) \<subseteq> insert (k, v) (set c)"
proof -
  have "set (um_put k v c) \<subseteq> insert (k, v) (set c)" by (induction c) auto
  then show ?thesis by (auto simp: emplace_def)
qed

lemma answers_grows: "cache_grows cl c c' \<Longrightarrow> answers cl K c e \<Longrightarrow> answers cl K c' e"
  by (auto simp: cache_grows_def answers_def split: cache_event.splits)

lemma cache_point_grows:
  assumes "cache_point cl K c p" "cache_grows cl c c'"
  shows "cache_point cl K c' p"
  using assms(1)
proof (cases rule: cache_point.cases)
  case (cp_at key ops)
  then have "um_has key c' \<or> cl" using assms(2) by (auto simp: cache_grows_def split: option.splits)
  then show ?thesis using cp_at by (auto intro: cache_point.cp_at)
qed (auto intro: cache_point.intros answers_grows [OF assms(2)])

lemma cache_point_Say:
  assumes "cache_point cl K c (Say e p)"
  shows "answers cl K c e \<and> cache_point cl K c p"
  using assms
proof (cases rule: cache_point.cases)
  case (cp_next ops)
  then show ?thesis by (cases ops rule: cache_prog.cases) auto
next
  case (cp_threw key)
  have "cache_point cl K c (cache_prog [])" by (rule cache_point.cp_next) (simp add: allowed_def)
  then show ?thesis using cp_threw by (simp add: answers_def)
qed (auto simp: lookup_at_def intro: cache_point.cp_next)

lemma cache_point_op:
  assumes "cache_prog ops = Do k f p" "allowed cl K ops" "set c \<subseteq> K" "f c = (r, c')"
  shows "cache_point cl K c' (p r) \<and> set c' \<subseteq> K \<and> cache_grows cl c c'"
proof (cases ops rule: cache_prog.cases)
  case (2 key ops')
  then show ?thesis using assms
    by (auto simp: c_find_def cache_grows_def allowed_def answers_def intro!: cache_point.intros split: if_splits)
next
  case (3 key addr ops')
  then have p: "p = (\<lambda>_. cache_prog ops')" "c' = emplace key addr c" "(key, addr) \<in> K" "allowed cl K ops'"
    using assms by (auto simp: c_emplace_def allowed_def)
  then show ?thesis
    using set_emplace [of key addr c] assms(3) map_of_emplace
    by (auto simp: cache_grows_def intro!: cache_point.cp_next)
next
  case (4 ops')
  then show ?thesis using assms by (auto simp: c_clear_def cache_grows_def allowed_def intro!: cache_point.intros)
qed (use assms in simp)

lemma cache_point_Do:
  assumes "cache_point cl K c (Do k f p)" "set c \<subseteq> K" "f c = (r, c')"
  shows "cache_point cl K c' (p r) \<and> set c' \<subseteq> K \<and> cache_grows cl c c'"
  using assms(1)
proof (cases rule: cache_point.cases)
  case (cp_next ops)
  then show ?thesis using cache_point_op [of ops k f p] assms(2,3) by simp
next
  case (cp_at key ops)
  have "c' = c" using cp_at assms(3) by (auto simp: lookup_at_def c_at_def)
  moreover have "cache_point cl K c (p r)"
    using cp_at assms(3) subsetD [OF assms(2) map_of_SomeD [of c key]]
    by (auto simp: lookup_at_def c_at_def answers_def intro!: cache_point.intros split: option.splits)
  ultimately show ?thesis using assms(2) by (simp add: cache_grows_def)
qed

lemma cache_inv_step: "atomic_step a b \<Longrightarrow> cache_inv cl K a \<Longrightarrow> cache_inv cl K b"
proof (induction rule: atomic_step.induct)
  case (at_say ps t e p c es)
  then have "cache_point cl K c (Say e p)" by (auto simp: cache_inv_def dest!: spec [of _ t])
  from cache_point_Say [OF this] show ?case using at_say by (auto simp: cache_inv_def)
next
  case (at_do ps t k f p c r c' es)
  then have "cache_point cl K c (Do k f p)" "set c \<subseteq> K" by (auto simp: cache_inv_def dest!: spec [of _ t])
  note st = cache_point_Do [OF this at_do(2)]
  have "cache_point cl K c' (ps u)" for u
    by (rule cache_point_grows [of cl K c]) (use st at_do(3) in \<open>auto simp: cache_inv_def\<close>)
  moreover have "answers cl K c' e" if "answers cl K c e" for e using st that answers_grows by blast
  ultimately show ?case using st at_do(3) unfolding cache_inv_def by fastforce
qed

lemma cache_inv_run: "atomic_step\<^sup>*\<^sup>* a b \<Longrightarrow> cache_inv cl K a \<Longrightarrow> cache_inv cl K b"
  by (induction rule: rtranclp_induct) (auto intro: cache_inv_step)

subsection \<open>Properties\<close>

text \<open>C26. The accesses through a safe pointer are atomic: whatever the threads do and however their steps are
  interleaved, the values of the object, the remaining programs and the actions that the threads with their locks can
  reach are exactly those of the same threads when every access is a single step.\<close>

theorem safe_ptr_is_atomic:
  "(\<exists>s. (auto_lock rm_lock rm_unlock)\<^sup>*\<^sup>* (new_safe_ptr None obj ps) s \<and> sp_abs s = a) \<longleftrightarrow> atomic_step\<^sup>*\<^sup>* (obj, ps, []) a"
  by (rule rm.safe_ptr_runs)

text \<open>Threads that share an object through a safe pointer do not deadlock, also when an expression uses the pointer
  several times: as long as some thread has something to do, some thread can go on.\<close>

theorem safe_ptr_no_deadlock:
  assumes "(auto_lock rm_lock rm_unlock)\<^sup>*\<^sup>* (new_safe_ptr None obj ps) s" "sp_prog s t \<noteq> Stop"
  shows "\<exists>s'. auto_lock rm_lock rm_unlock s s'"
  using assms by (rule rm.no_deadlock)

theorem safe_ptr_no_deadlock_witness:
  "\<exists>s'. auto_lock rm_lock rm_unlock (new_safe_ptr None [] (\<lambda>t. cache_prog [Lookup ''k''])) s'"
  using safe_ptr_no_deadlock [OF rtranclp.rtrancl_refl, of "[]" "\<lambda>t. cache_prog [Lookup ''k'']" 0]
  by (simp add: new_safe_ptr_def)

text \<open>C27. A message that is pushed to the queue of a thread is handled once and in order: what has been handled, what is
  still in the queue and what is still to be pushed together are the messages, under every interleaving of the two
  threads. The loop never looks at the front of an empty queue, and with a limit of messages per round it stays within
  it.\<close>

theorem thread_queue_fifo:
  assumes "(auto_lock rm_lock rm_unlock)\<^sup>*\<^sup>* (new_safe_ptr None [] (queue_threads limit ms)) s"
  shows "\<exists>rest pc. sp_prog s 0 = push_all rest \<and> sp_prog s 1 = drain limit pc \<and> drain_ok limit pc (sp_ptr s) \<and>
    ms = map snd (sp_said s) @ queue_waiting pc (sp_ptr s) @ rest"
proof -
  have "atomic_step\<^sup>*\<^sup>* ([], queue_threads limit ms, []) (sp_abs s)"
    using assms rm.safe_ptr_runs [of "[]" "queue_threads limit ms" "sp_abs s"] by blast
  from queue_inv_run [OF this queue_inv_init] show ?thesis by (auto simp: queue_inv_def sp_abs_def)
qed

lemma queue_run:
  "atomic_step\<^sup>*\<^sup>* ([], queue_threads limit [m], []) ([m], (queue_threads limit [m])(0 := Stop), [])"
proof -
  have "atomic_step ([], queue_threads limit [m], []) ([m], (queue_threads limit [m])(0 := Stop), [])"
    using at_do [of "queue_threads limit [m]" 0 0 "q_push m" "\<lambda>_. Stop" "[]" Pushed "[m]" "[]"]
    by (simp add: queue_threads_def q_push_def)
  then show ?thesis by blast
qed

theorem thread_queue_fifo_witness:
  "\<exists>s. (auto_lock rm_lock rm_unlock)\<^sup>*\<^sup>* (new_safe_ptr None [] (queue_threads (Some msg_process_batch) [''x''])) s \<and>
     (\<exists>rest pc. [''x''] = map snd (sp_said s) @ queue_waiting pc [''x''] @ rest)"
proof -
  obtain s where s: "(auto_lock rm_lock rm_unlock)\<^sup>*\<^sup>* (new_safe_ptr None [] (queue_threads (Some msg_process_batch) [''x''])) s"
    and "sp_abs s = ([''x''], (queue_threads (Some msg_process_batch) [''x''])(0 := Stop), [])"
    using queue_run [of "Some msg_process_batch" "''x''"]
      rm.safe_ptr_runs [of "[]" "queue_threads (Some msg_process_batch) [''x'']"] by blast
  then have "sp_ptr s = [''x'']" by (simp add: sp_abs_def)
  with thread_queue_fifo [OF s] s show ?thesis by auto
qed

text \<open>C28. The cache of data addresses can be used by all threads at once, although a lookup accesses it twice. Under every
  interleaving a lookup of a key answers nothing or an address that some thread has remembered for the key, and its
  second access throws only if some thread clears the cache. As long as no thread does, every address that was answered
  is the one that the cache still has, so two lookups of a key do not contradict each other.\<close>

theorem key_lookup_safe:
  assumes "(auto_lock rm_lock rm_unlock)\<^sup>*\<^sup>* (new_safe_ptr None [] (\<lambda>t. cache_prog (ops t))) s" "(t, e) \<in> set (sp_said s)"
  shows "case e of
      Answer key a \<Rightarrow> a = [] \<or> (\<exists>u. Remember key a \<in> set (ops u)) \<and>
        ((\<exists>u. Clear \<in> set (ops u)) \<or> map_of (sp_ptr s) key = Some a)
    | Threw key \<Rightarrow> (\<exists>u. Clear \<in> set (ops u))"
proof -
  let ?cl = "\<exists>u. Clear \<in> set (ops u)" and ?K = "{(key, a). \<exists>u. Remember key a \<in> set (ops u)}"
  have "atomic_step\<^sup>*\<^sup>* ([], \<lambda>t. cache_prog (ops t), []) (sp_abs s)"
    using assms(1) rm.safe_ptr_runs [of "[]" "\<lambda>t. cache_prog (ops t)" "sp_abs s"] by blast
  moreover have "allowed ?cl ?K (ops t)" for t by (auto simp: allowed_def)
  then have "cache_inv ?cl ?K ([], \<lambda>t. cache_prog (ops t), [])" by (simp add: cache_inv_def cp_next)
  ultimately have "cache_inv ?cl ?K (sp_abs s)" by (rule cache_inv_run)
  then have "answers ?cl ?K (sp_ptr s) e" using assms(2) by (auto simp: cache_inv_def sp_abs_def)
  then show ?thesis by (simp add: answers_def split: cache_event.splits)
qed

text \<open>One thread remembers the address of a key and looks it up.\<close>

definition one_lookup :: "nat \<Rightarrow> cache_op list" where
  "one_lookup t = (if t = 0 then [Remember ''k'' ''a'', Lookup ''k''] else [])"

lemma lookup_run:
  "\<exists>ps. atomic_step\<^sup>*\<^sup>* ([], \<lambda>t. cache_prog (one_lookup t), []) ([(''k'', ''a'')], ps, [(0, Answer ''k'' ''a'')])"
proof -
  let ?ps = "\<lambda>t. cache_prog (one_lookup t)" and ?c = "[(''k'', ''a'')]" and ?p = "Say (Answer ''k'' ''a'') Stop"
  have 1: "atomic_step ([], ?ps, []) (?c, ?ps(0 := cache_prog [Lookup ''k'']), [])"
    using at_do [of ?ps 0 0 "c_emplace ''k'' ''a''" _ "[]" Emplaced ?c "[]"]
    by (simp add: one_lookup_def c_emplace_def emplace_def)
  have 2: "atomic_step (?c, ?ps(0 := cache_prog [Lookup ''k'']), []) (?c, ?ps(0 := lookup_at ''k'' Stop), [])"
    using at_do [of "?ps(0 := cache_prog [Lookup ''k''])" 0 1 "c_find ''k''" _ ?c Found ?c "[]"] by (simp add: c_find_def)
  have 3: "atomic_step (?c, ?ps(0 := lookup_at ''k'' Stop), []) (?c, ?ps(0 := ?p), [])"
    using at_do [of "?ps(0 := lookup_at ''k'' Stop)" 0 0 "c_at ''k''" _ ?c "Address_of ''a''" ?c "[]"]
    by (simp add: lookup_at_def c_at_def)
  have 4: "atomic_step (?c, ?ps(0 := ?p), []) (?c, ?ps(0 := Stop), [(0, Answer ''k'' ''a'')])"
    using at_say [of "?ps(0 := ?p)" 0 "Answer ''k'' ''a''" Stop ?c "[]"] by simp
  show ?thesis using 1 2 3 4 by (meson r_into_rtranclp rtranclp.rtrancl_into_rtrancl)
qed

theorem key_lookup_safe_witness:
  "\<exists>s. (auto_lock rm_lock rm_unlock)\<^sup>*\<^sup>* (new_safe_ptr None [] (\<lambda>t. cache_prog (one_lookup t))) s \<and>
     sp_said s = [(0, Answer ''k'' ''a'')] \<and> map_of (sp_ptr s) ''k'' = Some ''a''"
proof -
  obtain ps s where s: "(auto_lock rm_lock rm_unlock)\<^sup>*\<^sup>* (new_safe_ptr None [] (\<lambda>t. cache_prog (one_lookup t))) s"
    and "sp_abs s = ([(''k'', ''a'')], ps, [(0, Answer ''k'' ''a'')])"
    using lookup_run rm.safe_ptr_runs [of "[]" "\<lambda>t. cache_prog (one_lookup t)"] by metis
  then have "sp_said s = [(0, Answer ''k'' ''a'')]" by (simp add: sp_abs_def)
  moreover have "Clear \<notin> set (one_lookup u)" for u by (simp add: one_lookup_def)
  ultimately show ?thesis using key_lookup_safe [OF s, of 0 "Answer ''k'' ''a''"] s by auto
qed

text \<open>The condition is needed: a clear that comes between the two accesses of a lookup makes the second one throw.\<close>

definition lookup_and_clear :: "nat \<Rightarrow> cache_op list" where
  "lookup_and_clear t = (if t = 0 then [Lookup ''k''] else if t = 1 then [Remember ''k'' ''a'', Clear] else [])"

lemma clear_makes_lookup_throw:
  "\<exists>ps. atomic_step\<^sup>*\<^sup>* ([], \<lambda>t. cache_prog (lookup_and_clear t), []) ([], ps, [(0, Threw ''k'')])"
proof -
  let ?ps = "\<lambda>t. cache_prog (lookup_and_clear t)" and ?c = "[(''k'', ''a'')]"
  define p1 where "p1 = ?ps(1 := cache_prog [Clear])"
  define p2 where "p2 = p1(0 := lookup_at ''k'' Stop)"
  define p3 where "p3 = p2(1 := Stop)"
  define p4 where "p4 = p3(0 := Say (Threw ''k'') Stop)"
  have 1: "atomic_step ([], ?ps, []) (?c, p1, [])"
    using at_do [of ?ps 1 0 "c_emplace ''k'' ''a''" _ "[]" Emplaced ?c "[]"]
    by (simp add: lookup_and_clear_def c_emplace_def emplace_def p1_def)
  have 2: "atomic_step (?c, p1, []) (?c, p2, [])"
    using at_do [of p1 0 1 "c_find ''k''" _ ?c Found ?c "[]"]
    by (simp add: c_find_def lookup_and_clear_def p1_def p2_def)
  have 3: "atomic_step (?c, p2, []) ([], p3, [])"
    using at_do [of p2 1 0 c_clear _ ?c Cleared "[]" "[]"] by (simp add: c_clear_def p1_def p2_def p3_def)
  have 4: "atomic_step ([], p3, []) ([], p4, [])"
    using at_do [of p3 0 0 "c_at ''k''" _ "[]" Throws "[]" "[]"]
    by (simp add: lookup_at_def c_at_def p2_def p3_def p4_def)
  have 5: "atomic_step ([], p4, []) ([], p4(0 := Stop), [(0, Threw ''k'')])"
    using at_say [of p4 0 "Threw ''k''" Stop "[]" "[]"] by (simp add: p4_def)
  show ?thesis using 1 2 3 4 5 by (meson r_into_rtranclp rtranclp.rtrancl_into_rtrancl)
qed

end
