(* ===== verification/Contention_Free.thy ===== *)
theory Contention_Free
  imports Prelude
begin

text \<open>
  The class \<open>contention_free_shared_mutex\<close> of \<^verbatim>\<open>src/common/include/safe_ptr.hpp\<close>: a mutex that several threads may hold
  shared or one thread may hold exclusively. Every thread that reads has a slot of its own; a thread that wants to
  write announces this in \<open>want_x_lock\<close> and waits until every slot is free; a thread for which there is no slot
  takes the place of a writer.

  A thread executes one atomic operation per step, from the place \<open>cf_pc\<close>; a step in which it spins leaves the state as
  it is. \<open>cf_shared\<close>, \<open>cf_fallback\<close> and \<open>cf_excl\<close> count the locks that the thread has been given and has not returned:
  shared ones through its slot, shared ones in the place of a writer, exclusive ones. The slots are 0 while unregistered,
  1 while registered and free, and one more for every lock. \<open>N\<close> is the template parameter \<open>contention_free_count\<close>.
  The atomic variables are taken as sequentially consistent; the table of the slots of a thread is local to it, so an
  update of the table belongs to the step on the slot that precedes it.
\<close>

datatype cf_pc =
    Idle
  | S_Reg nat | S_Cas nat | S_Load | S_Again int | S_Store int | S_Check int | S_Back int | S_Wait int
  | S_Fallback | S_CasX | S_Own | S_Inc
  | U_Load | U_Store int
  | X_Assert | X_Owner | X_Cas | X_Own | X_Scan nat | X_Inc
  | Z_Owner | Z_Want
  | Aborted

record contfree_mutex =
  cf_want_x_lock :: bool
  cf_slots :: "nat \<Rightarrow> int"
  cf_owner :: "nat option"
  cf_recursive_xlock_count :: int
  cf_use_count :: nat
  cf_index :: "nat \<Rightarrow> nat option"
  cf_pc :: "nat \<Rightarrow> cf_pc"
  cf_shared :: "nat \<Rightarrow> nat"
  cf_fallback :: "nat \<Rightarrow> nat"
  cf_excl :: "nat \<Rightarrow> nat"

definition new_contfree :: contfree_mutex where
  "new_contfree = \<lparr>cf_want_x_lock = False, cf_slots = (\<lambda>_. 0), cf_owner = None, cf_recursive_xlock_count = 0,
     cf_use_count = 1, cf_index = (\<lambda>_. None), cf_pc = (\<lambda>_. Idle), cf_shared = (\<lambda>_. 0), cf_fallback = (\<lambda>_. 0),
     cf_excl = (\<lambda>_. 0)\<rparr>"

definition goto :: "nat \<Rightarrow> cf_pc \<Rightarrow> contfree_mutex \<Rightarrow> contfree_mutex" where
  "goto t p s = s\<lparr>cf_pc := (cf_pc s)(t := p)\<rparr>"

text \<open>The slot of a registered thread.\<close>

definition my_slot :: "nat \<Rightarrow> contfree_mutex \<Rightarrow> int" where
  "my_slot t s = (case cf_index s t of None \<Rightarrow> 0 | Some i \<Rightarrow> cf_slots s i)"

definition set_slot :: "nat \<Rightarrow> int \<Rightarrow> contfree_mutex \<Rightarrow> contfree_mutex" where
  "set_slot t v s = (case cf_index s t of None \<Rightarrow> s | Some i \<Rightarrow> s\<lparr>cf_slots := (cf_slots s)(i := v)\<rparr>)"

subsection \<open>Steps of the methods\<close>

text \<open>The loop of \<open>register_thread\<close> over the slots.\<close>

fun register_step :: "nat \<Rightarrow> nat \<Rightarrow> cf_pc \<Rightarrow> contfree_mutex \<Rightarrow> contfree_mutex" where
  "register_step N t (S_Reg i) s =
     (if N \<le> i then goto t S_Fallback s
      else if cf_slots s i = 0 then goto t (S_Cas i) s else goto t (S_Reg (i + 1)) s)"
| "register_step N t (S_Cas i) s =
     (if cf_slots s i = 0
      then goto t S_Load (s\<lparr>cf_slots := (cf_slots s)(i := 1), cf_index := (cf_index s)(t := Some i),
                            cf_use_count := cf_use_count s + 1\<rparr>)
      else goto t (S_Reg (i + 1)) s)"
| "register_step N t _ s = s"

fun lock_shared_step :: "nat \<Rightarrow> cf_pc \<Rightarrow> contfree_mutex \<Rightarrow> contfree_mutex" where
  "lock_shared_step t S_Load s =
     (let d = my_slot t s
      in if d < 1 then goto t Aborted s else if 1 < d then goto t (S_Again d) s else goto t (S_Store d) s)"
| "lock_shared_step t (S_Again d) s =
     goto t Idle ((set_slot t (d + 1) s)\<lparr>cf_shared := (cf_shared s)(t := cf_shared s t + 1)\<rparr>)"
| "lock_shared_step t (S_Store d) s = goto t (S_Check d) (set_slot t (d + 1) s)"
| "lock_shared_step t (S_Check d) s =
     (if cf_want_x_lock s then goto t (S_Back d) s
      else goto t Idle (s\<lparr>cf_shared := (cf_shared s)(t := cf_shared s t + 1)\<rparr>))"
| "lock_shared_step t (S_Back d) s = goto t (S_Wait d) (set_slot t d s)"
| "lock_shared_step t (S_Wait d) s = (if cf_want_x_lock s then s else goto t (S_Store d) s)"
| "lock_shared_step t S_Fallback s = goto t (if cf_owner s = Some t then S_Inc else S_CasX) s"
| "lock_shared_step t S_CasX s = (if cf_want_x_lock s then s else goto t S_Own (s\<lparr>cf_want_x_lock := True\<rparr>))"
| "lock_shared_step t S_Own s = goto t S_Inc (s\<lparr>cf_owner := Some t\<rparr>)"
| "lock_shared_step t S_Inc s =
     goto t Idle (s\<lparr>cf_recursive_xlock_count := cf_recursive_xlock_count s + 1,
                    cf_fallback := (cf_fallback s)(t := cf_fallback s t + 1)\<rparr>)"
| "lock_shared_step t _ s = s"

fun unlock_shared_step :: "nat \<Rightarrow> cf_pc \<Rightarrow> contfree_mutex \<Rightarrow> contfree_mutex" where
  "unlock_shared_step t U_Load s =
     (let d = my_slot t s in if 1 < d then goto t (U_Store d) s else goto t Aborted s)"
| "unlock_shared_step t (U_Store d) s =
     goto t Idle ((set_slot t (d - 1) s)\<lparr>cf_shared := (cf_shared s)(t := cf_shared s t - 1)\<rparr>)"
| "unlock_shared_step t _ s = s"

fun lock_step :: "nat \<Rightarrow> nat \<Rightarrow> cf_pc \<Rightarrow> contfree_mutex \<Rightarrow> contfree_mutex" where
  "lock_step N t X_Assert s =
     (if cf_index s t = None \<or> my_slot t s = 1 then goto t X_Owner s else goto t Aborted s)"
| "lock_step N t X_Owner s = goto t (if cf_owner s = Some t then X_Inc else X_Cas) s"
| "lock_step N t X_Cas s = (if cf_want_x_lock s then s else goto t X_Own (s\<lparr>cf_want_x_lock := True\<rparr>))"
| "lock_step N t X_Own s = goto t (X_Scan 0) (s\<lparr>cf_owner := Some t\<rparr>)"
| "lock_step N t (X_Scan i) s =
     (if N \<le> i then goto t X_Inc s else if 1 < cf_slots s i then s else goto t (X_Scan (i + 1)) s)"
| "lock_step N t X_Inc s =
     goto t Idle (s\<lparr>cf_recursive_xlock_count := cf_recursive_xlock_count s + 1,
                    cf_excl := (cf_excl s)(t := cf_excl s t + 1)\<rparr>)"
| "lock_step N t _ s = s"

text \<open>The two stores at the end of \<open>unlock\<close> and of \<open>unlock_shared\<close> without a slot.\<close>

fun release_step :: "nat \<Rightarrow> cf_pc \<Rightarrow> contfree_mutex \<Rightarrow> contfree_mutex" where
  "release_step t Z_Owner s = goto t Z_Want (s\<lparr>cf_owner := None\<rparr>)"
| "release_step t Z_Want s = goto t Idle (s\<lparr>cf_want_x_lock := False\<rparr>)"
| "release_step t _ s = s"

fun cf_next :: "nat \<Rightarrow> nat \<Rightarrow> cf_pc \<Rightarrow> contfree_mutex \<Rightarrow> contfree_mutex" where
  "cf_next N t (S_Reg i) s = register_step N t (S_Reg i) s"
| "cf_next N t (S_Cas i) s = register_step N t (S_Cas i) s"
| "cf_next N t U_Load s = unlock_shared_step t U_Load s"
| "cf_next N t (U_Store d) s = unlock_shared_step t (U_Store d) s"
| "cf_next N t X_Assert s = lock_step N t X_Assert s"
| "cf_next N t X_Owner s = lock_step N t X_Owner s"
| "cf_next N t X_Cas s = lock_step N t X_Cas s"
| "cf_next N t X_Own s = lock_step N t X_Own s"
| "cf_next N t (X_Scan i) s = lock_step N t (X_Scan i) s"
| "cf_next N t X_Inc s = lock_step N t X_Inc s"
| "cf_next N t Z_Owner s = release_step t Z_Owner s"
| "cf_next N t Z_Want s = release_step t Z_Want s"
| "cf_next N t p s = lock_shared_step t p s"

subsection \<open>Calls\<close>

datatype cf_call = LockShared | UnlockShared | Lock | Unlock | Unregister

fun cf_start :: "nat \<Rightarrow> nat \<Rightarrow> cf_call \<Rightarrow> contfree_mutex \<Rightarrow> contfree_mutex" where
  "cf_start N t LockShared s =
     goto t (if cf_index s t \<noteq> None then S_Load else if cf_use_count s \<le> N then S_Reg 0 else S_Fallback) s"
| "cf_start N t UnlockShared s =
     (if cf_index s t \<noteq> None then goto t U_Load s
      else let c = cf_recursive_xlock_count s - 1
           in goto t (if c = 0 then Z_Owner else Idle)
                (s\<lparr>cf_recursive_xlock_count := c, cf_fallback := (cf_fallback s)(t := cf_fallback s t - 1)\<rparr>))"
| "cf_start N t Lock s = goto t X_Assert s"
| "cf_start N t Unlock s =
     (let c = cf_recursive_xlock_count s - 1
      in if cf_recursive_xlock_count s \<le> 0 then goto t Aborted s
         else goto t (if c = 0 then Z_Owner else Idle)
                (s\<lparr>cf_recursive_xlock_count := c, cf_excl := (cf_excl s)(t := cf_excl s t - 1)\<rparr>))"
| "cf_start N t Unregister s =
     (case cf_index s t of
        None \<Rightarrow> goto t Aborted s
      | Some i \<Rightarrow> if cf_slots s i = 1
                 then s\<lparr>cf_slots := (cf_slots s)(i := 0), cf_index := (cf_index s)(t := None),
                        cf_use_count := cf_use_count s - 1\<rparr>
                 else s)"

text \<open>What the class asks of its users: a thread returns only what it has, does not turn a shared lock into an
  exclusive one, and unregisters only when it is registered.\<close>

fun may_call :: "nat \<Rightarrow> cf_call \<Rightarrow> contfree_mutex \<Rightarrow> bool" where
  "may_call t LockShared s \<longleftrightarrow> True"
| "may_call t UnlockShared s \<longleftrightarrow> 0 < cf_shared s t \<or> 0 < cf_fallback s t"
| "may_call t Lock s \<longleftrightarrow> cf_shared s t = 0 \<and> (cf_fallback s t = 0 \<or> 0 < cf_excl s t)"
| "may_call t Unlock s \<longleftrightarrow> 0 < cf_excl s t"
| "may_call t Unregister s \<longleftrightarrow> cf_index s t \<noteq> None"

inductive cf_step :: "nat \<Rightarrow> contfree_mutex \<Rightarrow> contfree_mutex \<Rightarrow> bool" for N where
  cf_begin: "cf_pc s t = Idle \<Longrightarrow> may_call t call s \<Longrightarrow> cf_step N s (cf_start N t call s)"
| cf_go: "cf_pc s t \<noteq> Idle \<Longrightarrow> cf_step N s (cf_next N t (cf_pc s t) s)"

end
