(* ===== verification/Contfree_Laws.thy ===== *)
theory Contfree_Laws
  imports Contention_Free
begin

text \<open>
  The mutex \<open>contention_free_shared_mutex\<close> keeps its promise: the invariant of its state, that every step of every thread
  keeps it, and what follows for the threads that hold it.
\<close>

subsection \<open>The invariant\<close>

text \<open>A thread is in the place of the writer from the time it has set \<open>want_x_lock\<close> until it clears it.\<close>

fun writing :: "cf_pc \<Rightarrow> bool" where
  "writing S_Own \<longleftrightarrow> True"
| "writing S_Inc \<longleftrightarrow> True"
| "writing X_Own \<longleftrightarrow> True"
| "writing (X_Scan i) \<longleftrightarrow> True"
| "writing X_Inc \<longleftrightarrow> True"
| "writing Z_Owner \<longleftrightarrow> True"
| "writing Z_Want \<longleftrightarrow> True"
| "writing _ \<longleftrightarrow> False"

definition region :: "contfree_mutex \<Rightarrow> nat \<Rightarrow> bool" where
  "region s t \<longleftrightarrow> 0 < cf_excl s t \<or> 0 < cf_fallback s t \<or> writing (cf_pc s t)"

text \<open>What the place of a thread says of its registration \<open>idx\<close>, its slot \<open>v\<close> and its locks.\<close>

fun tentative :: "cf_pc \<Rightarrow> int" where
  "tentative (S_Check d) = 1"
| "tentative (S_Back d) = 1"
| "tentative _ = 0"

fun place_ok :: "cf_pc \<Rightarrow> bool \<Rightarrow> nat \<Rightarrow> nat \<Rightarrow> nat \<Rightarrow> bool" where
  "place_ok Idle reg sh x f \<longleftrightarrow> (0 < f \<longrightarrow> \<not> reg)"
| "place_ok (S_Reg i) reg sh x f \<longleftrightarrow> \<not> reg"
| "place_ok (S_Cas i) reg sh x f \<longleftrightarrow> \<not> reg"
| "place_ok S_Load reg sh x f \<longleftrightarrow> reg"
| "place_ok (S_Again d) reg sh x f \<longleftrightarrow> reg \<and> d = 1 + int sh \<and> 0 < sh"
| "place_ok (S_Store d) reg sh x f \<longleftrightarrow> reg \<and> sh = 0 \<and> d = 1"
| "place_ok (S_Check d) reg sh x f \<longleftrightarrow> reg \<and> sh = 0 \<and> d = 1"
| "place_ok (S_Back d) reg sh x f \<longleftrightarrow> reg \<and> sh = 0 \<and> d = 1"
| "place_ok (S_Wait d) reg sh x f \<longleftrightarrow> reg \<and> sh = 0 \<and> d = 1"
| "place_ok S_Fallback reg sh x f \<longleftrightarrow> \<not> reg"
| "place_ok S_CasX reg sh x f \<longleftrightarrow> \<not> reg \<and> x = 0 \<and> f = 0"
| "place_ok S_Own reg sh x f \<longleftrightarrow> \<not> reg \<and> x = 0 \<and> f = 0"
| "place_ok S_Inc reg sh x f \<longleftrightarrow> \<not> reg"
| "place_ok U_Load reg sh x f \<longleftrightarrow> reg \<and> 0 < sh"
| "place_ok (U_Store d) reg sh x f \<longleftrightarrow> reg \<and> 0 < sh \<and> d = 1 + int sh"
| "place_ok X_Assert reg sh x f \<longleftrightarrow> sh = 0 \<and> (f = 0 \<or> 0 < x) \<and> (0 < f \<longrightarrow> \<not> reg)"
| "place_ok X_Owner reg sh x f \<longleftrightarrow> sh = 0 \<and> (f = 0 \<or> 0 < x) \<and> (0 < f \<longrightarrow> \<not> reg)"
| "place_ok X_Cas reg sh x f \<longleftrightarrow> sh = 0 \<and> x = 0 \<and> f = 0"
| "place_ok X_Own reg sh x f \<longleftrightarrow> sh = 0 \<and> x = 0 \<and> f = 0"
| "place_ok (X_Scan i) reg sh x f \<longleftrightarrow> sh = 0 \<and> x = 0 \<and> f = 0"
| "place_ok X_Inc reg sh x f \<longleftrightarrow> sh = 0 \<and> (0 < f \<longrightarrow> \<not> reg)"
| "place_ok Z_Owner reg sh x f \<longleftrightarrow> x = 0 \<and> f = 0 \<and> sh = 0"
| "place_ok Z_Want reg sh x f \<longleftrightarrow> x = 0 \<and> f = 0 \<and> sh = 0"
| "place_ok Aborted reg sh x f \<longleftrightarrow> False"

text \<open>The slots: every registered thread has one of its own, which counts its locks.\<close>

definition cf_slots_ok :: "nat \<Rightarrow> contfree_mutex \<Rightarrow> bool" where
  "cf_slots_ok N s \<longleftrightarrow>
     (\<forall>t i. cf_index s t = Some i \<longrightarrow>
        i < N \<and> cf_slots s i = 1 + int (cf_shared s t) + tentative (cf_pc s t) \<and> (\<forall>u. cf_index s u = Some i \<longrightarrow> u = t)) \<and>
     (\<forall>i. (\<forall>t. cf_index s t \<noteq> Some i) \<longrightarrow> cf_slots s i = 0) \<and> (\<forall>t i. cf_pc s t = S_Cas i \<longrightarrow> i < N)"

definition places_ok :: "contfree_mutex \<Rightarrow> bool" where
  "places_ok s \<longleftrightarrow> (\<forall>t. place_ok (cf_pc s t) (cf_index s t \<noteq> None) (cf_shared s t) (cf_excl s t) (cf_fallback s t) \<and>
     (0 < cf_shared s t \<longrightarrow> cf_index s t \<noteq> None \<and> cf_excl s t = 0 \<and> cf_fallback s t = 0))"

text \<open>At most one thread is in the place of the writer, \<open>want_x_lock\<close> says whether there is one, \<open>owner_thread_id\<close>
  names it except at the two ends, and the counter counts its locks.\<close>

definition writer_ok :: "contfree_mutex \<Rightarrow> bool" where
  "writer_ok s \<longleftrightarrow>
     (\<forall>t u. region s t \<longrightarrow> region s u \<longrightarrow> t = u) \<and>
     (\<forall>t. region s t \<longrightarrow> cf_want_x_lock s) \<and>
     (\<forall>t. cf_owner s = Some t \<longleftrightarrow> region s t \<and> cf_pc s t \<notin> {S_Own, X_Own, Z_Want}) \<and>
     (\<forall>t. region s t \<longrightarrow> cf_recursive_xlock_count s = int (cf_excl s t) + int (cf_fallback s t)) \<and>
     ((\<forall>t. \<not> region s t) \<longrightarrow> \<not> cf_want_x_lock s \<and> cf_recursive_xlock_count s = 0)"

text \<open>Slots that the writer has passed have no reader.\<close>

definition scan_ok :: "contfree_mutex \<Rightarrow> bool" where
  "scan_ok s \<longleftrightarrow>
     (\<forall>t. (0 < cf_excl s t \<or> cf_pc s t = X_Inc) \<longrightarrow> (\<forall>u. cf_shared s u = 0)) \<and>
     (\<forall>t j. cf_pc s t = X_Scan j \<longrightarrow> (\<forall>u i. cf_index s u = Some i \<longrightarrow> i < j \<longrightarrow> cf_shared s u = 0))"

definition cf_inv :: "nat \<Rightarrow> contfree_mutex \<Rightarrow> bool" where
  "cf_inv N s \<longleftrightarrow> cf_slots_ok N s \<and> places_ok s \<and> writer_ok s \<and> scan_ok s"

lemma cf_inv_new: "cf_inv N new_contfree"
  by (simp add: cf_inv_def cf_slots_ok_def places_ok_def writer_ok_def scan_ok_def region_def new_contfree_def)

lemma places_okD:
  assumes "places_ok s"
  shows "place_ok (cf_pc s t) (cf_index s t \<noteq> None) (cf_shared s t) (cf_excl s t) (cf_fallback s t)"
    "0 < cf_shared s t \<Longrightarrow> cf_index s t \<noteq> None \<and> cf_excl s t = 0 \<and> cf_fallback s t = 0"
  using assms by (auto simp: places_ok_def)

lemma tentative_nonneg: "0 \<le> tentative p"
  by (cases p) simp_all

lemma my_slot_val:
  assumes "cf_slots_ok N s" "cf_index s t \<noteq> None"
  shows "my_slot t s = 1 + int (cf_shared s t) + tentative (cf_pc s t)"
  using assms by (auto simp: cf_slots_ok_def my_slot_def split: option.splits)

lemma owner_region: "writer_ok s \<Longrightarrow> cf_owner s = Some t \<longleftrightarrow> region s t \<and> cf_pc s t \<notin> {S_Own, X_Own, Z_Want}"
  by (simp add: writer_ok_def)

lemma region_want: "writer_ok s \<Longrightarrow> region s t \<Longrightarrow> cf_want_x_lock s"
  unfolding writer_ok_def by blast

lemma region_count:
  "writer_ok s \<Longrightarrow> region s t \<Longrightarrow> cf_recursive_xlock_count s = int (cf_excl s t) + int (cf_fallback s t)"
  unfolding writer_ok_def by blast

lemmas step_defs = goto_def set_slot_def Let_def

text \<open>One step of thread \<open>t\<close>; it changes nothing of another thread.\<close>

definition cf_move :: "nat \<Rightarrow> nat \<Rightarrow> contfree_mutex \<Rightarrow> contfree_mutex \<Rightarrow> bool" where
  "cf_move N t s s' \<longleftrightarrow> cf_pc s t \<noteq> Idle \<and> s' = cf_next N t (cf_pc s t) s \<or>
     (\<exists>call. cf_pc s t = Idle \<and> may_call t call s \<and> s' = cf_start N t call s)"

lemma cf_step_move: "cf_step N s s' \<Longrightarrow> \<exists>t. cf_move N t s s'"
  by (auto simp: cf_move_def elim!: cf_step.cases)

lemma move_cases [consumes 1, case_names Next LockShared UnlockShared Lock Unlock Unregister]:
  assumes "cf_move N t s s'"
    and "cf_pc s t \<noteq> Idle \<Longrightarrow> s' = cf_next N t (cf_pc s t) s \<Longrightarrow> P"
    and "cf_pc s t = Idle \<Longrightarrow> s' = cf_start N t LockShared s \<Longrightarrow> P"
    and "cf_pc s t = Idle \<Longrightarrow> 0 < cf_shared s t \<or> 0 < cf_fallback s t \<Longrightarrow> s' = cf_start N t UnlockShared s \<Longrightarrow> P"
    and "cf_pc s t = Idle \<Longrightarrow> cf_shared s t = 0 \<Longrightarrow> cf_fallback s t = 0 \<or> 0 < cf_excl s t \<Longrightarrow> s' = cf_start N t Lock s \<Longrightarrow> P"
    and "cf_pc s t = Idle \<Longrightarrow> 0 < cf_excl s t \<Longrightarrow> s' = cf_start N t Unlock s \<Longrightarrow> P"
    and "cf_pc s t = Idle \<Longrightarrow> cf_index s t \<noteq> None \<Longrightarrow> s' = cf_start N t Unregister s \<Longrightarrow> P"
  shows P
proof (cases "cf_pc s t = Idle")
  case True
  then obtain call where "may_call t call s" "s' = cf_start N t call s" using assms(1) by (auto simp: cf_move_def)
  then show ?thesis using True assms(3-7) by (cases call) auto
qed (use assms(1,2) in \<open>auto simp: cf_move_def\<close>)

lemma move_others:
  assumes "cf_move N t s s'" "u \<noteq> t"
  shows "cf_pc s' u = cf_pc s u \<and> cf_index s' u = cf_index s u \<and> cf_shared s' u = cf_shared s u \<and>
    cf_excl s' u = cf_excl s u \<and> cf_fallback s' u = cf_fallback s u"
  using assms(1)
proof (cases rule: move_cases)
  case Next
  then show ?thesis using assms(2) by (cases "cf_pc s t") (auto simp: step_defs split: option.splits)
qed (use assms(2) in \<open>auto simp: step_defs split: option.splits\<close>)

lemma region_others: "cf_move N t s s' \<Longrightarrow> u \<noteq> t \<Longrightarrow> region s' u = region s u"
  using move_others [of N t s s' u] by (simp add: region_def)

lemma places_move:
  assumes "cf_inv N s" "cf_move N t s s'"
  shows "places_ok s'"
proof -
  have i: "cf_slots_ok N s" "places_ok s" "writer_ok s" "scan_ok s" using assms(1) by (simp_all add: cf_inv_def)
  note facts = places_okD [OF i(2), of t] my_slot_val [OF i(1), of t] owner_region [OF i(3), of t]
    region_want [OF i(3), of t] region_count [OF i(3), of t]
  have "place_ok (cf_pc s' t) (cf_index s' t \<noteq> None) (cf_shared s' t) (cf_excl s' t) (cf_fallback s' t) \<and>
     (0 < cf_shared s' t \<longrightarrow> cf_index s' t \<noteq> None \<and> cf_excl s' t = 0 \<and> cf_fallback s' t = 0)"
    using assms(2)
  proof (cases rule: move_cases)
    case Next
    then show ?thesis using facts
      by (cases "cf_pc s t") (auto simp: step_defs region_def split: if_splits option.splits)
  next
    case Unregister
    then show ?thesis using facts by (auto simp: step_defs my_slot_def split: if_splits option.splits)
  qed (use facts in \<open>auto simp: step_defs region_def split: if_splits option.splits\<close>)
  then show ?thesis using move_others [OF assms(2)] places_okD [OF i(2)] unfolding places_ok_def by metis
qed

lemma slots_free: "cf_slots_ok N s \<Longrightarrow> (\<And>t. cf_index s t \<noteq> Some i) \<Longrightarrow> cf_slots s i = 0"
  by (simp add: cf_slots_ok_def)

text \<open>The four ways in which a step treats the slots.\<close>

lemma slots_same:
  assumes "cf_slots_ok N s" "cf_move N t s s'" "cf_slots s' = cf_slots s" "cf_index s' t = cf_index s t"
    and "cf_index s t \<noteq> None \<Longrightarrow> int (cf_shared s' t) + tentative (cf_pc s' t) = int (cf_shared s t) + tentative (cf_pc s t)"
    and "\<And>i. cf_pc s' t = S_Cas i \<Longrightarrow> i < N"
  shows "cf_slots_ok N s'"
proof -
  have "cf_index s' = cf_index s" using move_others [OF assms(2)] assms(4) by (metis ext)
  moreover have "cf_slots s i = 1 + int (cf_shared s' u) + tentative (cf_pc s' u)" if "cf_index s u = Some i" for u i
    using that assms(1,5) move_others [OF assms(2), of u] by (cases "u = t") (auto simp: cf_slots_ok_def)
  moreover have "i < N" if "cf_pc s' u = S_Cas i" for u i
    using that assms(1,6) move_others [OF assms(2), of u] by (cases "u = t") (auto simp: cf_slots_ok_def)
  ultimately show ?thesis using assms(1,3) by (simp add: cf_slots_ok_def)
qed

lemma slots_set:
  assumes "cf_slots_ok N s" "cf_move N t s s'" "cf_index s t = Some i" "cf_index s' t = Some i"
    and "cf_slots s' = (cf_slots s)(i := 1 + int (cf_shared s' t) + tentative (cf_pc s' t))"
    and "\<And>i. cf_pc s' t = S_Cas i \<Longrightarrow> i < N"
  shows "cf_slots_ok N s'"
proof -
  have "cf_index s' = cf_index s" using move_others [OF assms(2)] assms(3,4) by (metis ext)
  moreover have "cf_slots s' j = 1 + int (cf_shared s' u) + tentative (cf_pc s' u)" if "cf_index s u = Some j" for u j
    using that assms(1,3,5) move_others [OF assms(2), of u] by (cases "u = t") (auto simp: cf_slots_ok_def)
  moreover have "j < N" if "cf_pc s' u = S_Cas j" for u j
    using that assms(1,6) move_others [OF assms(2), of u] by (cases "u = t") (auto simp: cf_slots_ok_def)
  moreover have "cf_slots s' j = 0" if "\<forall>u. cf_index s u \<noteq> Some j" for j
    using that assms(1,3,5) by (auto simp: cf_slots_ok_def)
  ultimately show ?thesis using assms(1) by (simp add: cf_slots_ok_def)
qed

lemma slots_register:
  assumes "cf_slots_ok N s" "cf_move N t s s'" "cf_slots s i = 0" "i < N" "cf_shared s' t = 0" "cf_pc s' t = S_Load"
    and "cf_index s' = (cf_index s)(t := Some i)" "cf_slots s' = (cf_slots s)(i := 1)" "cf_index s t = None"
  shows "cf_slots_ok N s'"
proof -
  have free: "cf_index s u \<noteq> Some i" for u
    using assms(1,3) tentative_nonneg [of "cf_pc s u"] by (auto simp: cf_slots_ok_def)
  have "cf_slots s' j = 1 + int (cf_shared s' u) + tentative (cf_pc s' u) \<and> (\<forall>v. cf_index s' v = Some j \<longrightarrow> v = u)"
    if "cf_index s' u = Some j" for u j
    using that assms(1,5-8) free move_others [OF assms(2), of u] by (cases "u = t") (auto simp: cf_slots_ok_def)
  moreover have "j < N" if "cf_index s' u = Some j \<or> cf_pc s' u = S_Cas j" for u j
    using that assms(1,4-7) move_others [OF assms(2), of u] by (cases "u = t") (auto simp: cf_slots_ok_def)
  moreover have "cf_slots s' j = 0" if "\<forall>u. cf_index s' u \<noteq> Some j" for j
  proof -
    have "cf_index s u \<noteq> Some j" for u using that assms(7,9) by (cases "u = t") (auto dest!: spec [of _ u])
    moreover have "j \<noteq> i" using that [THEN spec, of t] assms(7) by auto
    ultimately show ?thesis using slots_free [OF assms(1)] assms(8) by simp
  qed
  ultimately show ?thesis unfolding cf_slots_ok_def by blast
qed

lemma slots_unregister:
  assumes "cf_slots_ok N s" "cf_move N t s s'" "cf_index s t = Some i" "cf_pc s' t = Idle"
    and "cf_index s' = (cf_index s)(t := None)" "cf_slots s' = (cf_slots s)(i := 0)"
  shows "cf_slots_ok N s'"
proof -
  have own: "cf_index s u = Some i \<Longrightarrow> u = t" for u using assms(1,3) by (auto simp: cf_slots_ok_def)
  have "cf_slots s' j = 1 + int (cf_shared s' u) + tentative (cf_pc s' u) \<and> (\<forall>v. cf_index s' v = Some j \<longrightarrow> v = u)"
    if "cf_index s' u = Some j" for u j
    using that assms(1,5,6) own [of u] move_others [OF assms(2), of u] by (cases "u = t") (auto simp: cf_slots_ok_def)
  moreover have "j < N" if "cf_index s' u = Some j \<or> cf_pc s' u = S_Cas j" for u j
    using that assms(1,4,5) move_others [OF assms(2), of u] by (cases "u = t") (auto simp: cf_slots_ok_def)
  moreover have "cf_slots s' j = 0" if "\<forall>u. cf_index s' u \<noteq> Some j" for j
  proof (cases "j = i")
    case False
    then have "cf_index s u \<noteq> Some j" for u using that assms(3,5) by (cases "u = t") (auto dest!: spec [of _ u])
    then show ?thesis using False slots_free [OF assms(1)] assms(6) by simp
  qed (simp add: assms(6))
  ultimately show ?thesis unfolding cf_slots_ok_def by blast
qed

lemma slots_move:
  assumes "cf_inv N s" "cf_move N t s s'"
  shows "cf_slots_ok N s'"
proof -
  have i: "cf_slots_ok N s" "places_ok s" using assms(1) by (simp_all add: cf_inv_def)
  note facts = places_okD [OF i(2), of t]
  show ?thesis using assms(2)
  proof (cases rule: move_cases)
    case Next
    show ?thesis
    proof (cases "(\<exists>d. cf_pc s t \<in> {S_Again d, S_Store d, S_Back d, U_Store d}) \<or> (\<exists>j. cf_pc s t = S_Cas j \<and> cf_slots s j = 0)")
      case True
      then show ?thesis
      proof (elim disjE exE)
        fix d assume d: "cf_pc s t \<in> {S_Again d, S_Store d, S_Back d, U_Store d}"
        then obtain k where "cf_index s t = Some k" using facts by auto
        then show ?thesis
          using slots_set [OF i(1) assms(2), of k] facts d Next(2) by (auto simp: step_defs)
      next
        fix j assume j: "cf_pc s t = S_Cas j \<and> cf_slots s j = 0"
        then have "j < N" using i(1) by (auto simp: cf_slots_ok_def)
        then show ?thesis using slots_register [OF i(1) assms(2), of j] facts j Next(2) by (auto simp: step_defs)
      qed
    next
      case False
      then show ?thesis
        by (intro slots_same [OF i(1) assms(2)])
          (use Next facts in \<open>(cases "cf_pc s t"; auto simp: step_defs split: if_splits)+\<close>)
    qed
  next
    case Unregister
    then obtain k where k: "cf_index s t = Some k" by auto
    show ?thesis
    proof (cases "cf_slots s k = 1")
      case True
      then show ?thesis using slots_unregister [OF i(1) assms(2) k] Unregister k by simp
    next
      case False
      then show ?thesis using Unregister k i(1) by simp
    qed
  qed (intro slots_same [OF i(1) assms(2)]; use facts in \<open>auto simp: step_defs split: if_splits\<close>)+
qed

text \<open>Either nobody is in the place of the writer or one thread is.\<close>

definition free_ok :: "contfree_mutex \<Rightarrow> bool" where
  "free_ok s \<longleftrightarrow> \<not> cf_want_x_lock s \<and> cf_owner s = None \<and> cf_recursive_xlock_count s = 0"

definition taken_ok :: "nat \<Rightarrow> contfree_mutex \<Rightarrow> bool" where
  "taken_ok w s \<longleftrightarrow> cf_want_x_lock s \<and> cf_owner s = (if cf_pc s w \<in> {S_Own, X_Own, Z_Want} then None else Some w) \<and>
     cf_recursive_xlock_count s = int (cf_excl s w) + int (cf_fallback s w)"

lemma writer_free: "(\<And>t. \<not> region s t) \<Longrightarrow> free_ok s \<Longrightarrow> writer_ok s"
  by (simp add: writer_ok_def free_ok_def)

lemma writer_taken:
  assumes "region s w" "\<And>u. u \<noteq> w \<Longrightarrow> \<not> region s u" "taken_ok w s"
  shows "writer_ok s"
proof -
  have "region s t \<longleftrightarrow> t = w" for t using assms(1,2) by blast
  then show ?thesis using assms(3) by (auto simp: writer_ok_def taken_ok_def)
qed

lemma writer_cases:
  assumes "writer_ok s"
  obtains (Free) "\<And>t. \<not> region s t" "free_ok s"
  | (Taken) w where "region s w" "\<And>u. u \<noteq> w \<Longrightarrow> \<not> region s u" "taken_ok w s"
proof (cases "\<exists>w. region s w")
  case True
  then obtain w where w: "region s w" by blast
  then have others: "u \<noteq> w \<Longrightarrow> \<not> region s u" for u using assms unfolding writer_ok_def by blast
  moreover have "cf_owner s = None" if "cf_pc s w \<in> {S_Own, X_Own, Z_Want}"
    using owner_region [OF assms] others that by (cases "cf_owner s") auto
  ultimately show ?thesis
    using Taken [OF w] region_want [OF assms w] region_count [OF assms w] owner_region [OF assms, of w] w
    by (auto simp: taken_ok_def)
next
  case False
  then have "cf_owner s = None" using owner_region [OF assms] by (cases "cf_owner s") auto
  then show ?thesis using Free False assms by (auto simp: writer_ok_def free_ok_def)
qed

lemma writer_move_own:
  assumes "places_ok s" "cf_move N t s s'" "region s t" "taken_ok t s"
  shows "region s' t \<and> taken_ok t s' \<or> \<not> region s' t \<and> free_ok s'"
  using assms(2)
proof (cases rule: move_cases)
  case Next
  then show ?thesis using assms(3,4) places_okD [OF assms(1), of t]
    by (cases "cf_pc s t") (auto simp: step_defs region_def taken_ok_def free_ok_def split: if_splits option.splits)
qed (use assms(3,4) places_okD [OF assms(1), of t] in
    \<open>auto simp: step_defs region_def taken_ok_def free_ok_def split: if_splits option.splits\<close>)

lemma writer_move_other:
  assumes "places_ok s" "cf_move N t s s'" "\<not> region s t" "w \<noteq> t" "taken_ok w s"
  shows "\<not> region s' t \<and> taken_ok w s'"
  using assms(2)
proof (cases rule: move_cases)
  case Next
  then show ?thesis using assms(3-5) places_okD [OF assms(1), of t]
    by (cases "cf_pc s t") (auto simp: step_defs region_def taken_ok_def split: if_splits option.splits)
qed (use assms(3-5) places_okD [OF assms(1), of t] in
    \<open>auto simp: step_defs region_def taken_ok_def split: if_splits option.splits\<close>)

lemma writer_move_free:
  assumes "places_ok s" "cf_move N t s s'" "\<not> region s t" "free_ok s"
  shows "region s' t \<and> taken_ok t s' \<or> \<not> region s' t \<and> free_ok s'"
  using assms(2)
proof (cases rule: move_cases)
  case Next
  then show ?thesis using assms(3,4) places_okD [OF assms(1), of t]
    by (cases "cf_pc s t") (auto simp: step_defs region_def taken_ok_def free_ok_def split: if_splits option.splits)
qed (use assms(3,4) places_okD [OF assms(1), of t] in
    \<open>auto simp: step_defs region_def taken_ok_def free_ok_def split: if_splits option.splits\<close>)

lemma writer_move:
  assumes "cf_inv N s" "cf_move N t s s'"
  shows "writer_ok s'"
proof -
  have i: "places_ok s" "writer_ok s" using assms(1) by (simp_all add: cf_inv_def)
  note others = region_others [OF assms(2)]
  show ?thesis using i(2)
  proof (cases rule: writer_cases)
    case Free
    then have "\<not> region s' u" if "u \<noteq> t" for u using others that by simp
    then show ?thesis
      using writer_move_free [OF i(1) assms(2) Free(1,2)] writer_taken [of s' t] writer_free [of s'] by metis
  next
    case (Taken w)
    show ?thesis
    proof (cases "w = t")
      case True
      then have "\<not> region s' u" if "u \<noteq> t" for u using others Taken(2) that by simp
      then show ?thesis
        using writer_move_own [OF i(1) assms(2)] Taken True writer_taken [of s' t] writer_free [of s'] by metis
    next
      case False
      then have "\<not> region s' t" "taken_ok w s'" using writer_move_other [OF i(1) assms(2) _ False] Taken by auto
      moreover have "region s' w" "\<And>u. u \<noteq> w \<Longrightarrow> u \<noteq> t \<Longrightarrow> \<not> region s' u" using others Taken False by auto
      ultimately show ?thesis using writer_taken [of s' w] by metis
    qed
  qed
qed

definition exclusive :: "contfree_mutex \<Rightarrow> nat \<Rightarrow> bool" where
  "exclusive s t \<longleftrightarrow> 0 < cf_excl s t \<or> cf_pc s t = X_Inc"

lemma scan_okI:
  assumes "\<And>t u. exclusive s t \<Longrightarrow> cf_shared s u = 0"
    and "\<And>t j u i. cf_pc s t = X_Scan j \<Longrightarrow> cf_index s u = Some i \<Longrightarrow> i < j \<Longrightarrow> cf_shared s u = 0"
  shows "scan_ok s"
  using assms by (auto simp: scan_ok_def exclusive_def)

lemma scan_okD:
  assumes "scan_ok s"
  shows "exclusive s t \<Longrightarrow> cf_shared s u = 0"
    "cf_pc s t = X_Scan j \<Longrightarrow> cf_index s u = Some i \<Longrightarrow> i < j \<Longrightarrow> cf_shared s u = 0"
  using assms unfolding scan_ok_def exclusive_def by blast+

lemma exclusive_region: "exclusive s t \<Longrightarrow> region s t"
  by (auto simp: exclusive_def region_def)

text \<open>A thread is given a shared lock only when nobody writes or when it has one already.\<close>

lemma shared_grows:
  assumes "cf_inv N s" "cf_move N t s s'" "cf_shared s t < cf_shared s' t"
  shows "cf_pc s' t = Idle \<and> cf_excl s' t = cf_excl s t \<and> cf_index s' t = cf_index s t \<and>
    (0 < cf_shared s t \<or> (\<forall>u. \<not> region s u))"
proof -
  have i: "places_ok s" "writer_ok s" using assms(1) by (simp_all add: cf_inv_def)
  have w: "\<forall>u. \<not> region s u" if "\<not> cf_want_x_lock s" using region_want [OF i(2)] that by blast
  show ?thesis using assms(2)
  proof (cases rule: move_cases)
    case Next
    then show ?thesis using assms(3) places_okD [OF i(1), of t] w
      by (cases "cf_pc s t") (auto simp: step_defs split: if_splits option.splits)
  qed (use assms(3) in \<open>auto simp: step_defs split: if_splits option.splits\<close>)
qed

text \<open>A thread becomes a writer only after its scan.\<close>

lemma exclusive_grows:
  assumes "cf_inv N s" "cf_move N t s s'" "exclusive s' t"
  shows "exclusive s t \<or> cf_pc s t = X_Scan N \<or> (\<exists>j. cf_pc s t = X_Scan j \<and> N \<le> j)"
proof -
  have i: "places_ok s" "writer_ok s" using assms(1) by (simp_all add: cf_inv_def)
  note facts = places_okD [OF i(1), of t] owner_region [OF i(2), of t]
  show ?thesis using assms(2)
  proof (cases rule: move_cases)
    case Next
    then show ?thesis using assms(3) facts
      by (cases "cf_pc s t") (auto simp: step_defs exclusive_def region_def split: if_splits option.splits)
  qed (use assms(3) in \<open>auto simp: step_defs exclusive_def split: if_splits option.splits\<close>)
qed

lemma scan_grows:
  assumes "cf_move N t s s'" "cf_pc s' t = X_Scan j" "places_ok s"
  shows "cf_index s' t = cf_index s t \<and> (j = 0 \<or> cf_pc s t = X_Scan j \<or> (\<exists>k. j = Suc k \<and> cf_pc s t = X_Scan k \<and> cf_slots s k \<le> 1))"
  using assms(1)
proof (cases rule: move_cases)
  case Next
  then show ?thesis using assms(2,3)
    by (cases "cf_pc s t") (auto simp: step_defs split: if_splits option.splits)
qed (use assms(2) in \<open>auto simp: step_defs split: if_splits option.splits\<close>)

lemma scanned_free:
  assumes "cf_inv N s" "cf_index s u = Some k" "cf_slots s k \<le> 1"
  shows "cf_shared s u = 0"
  using assms tentative_nonneg [of "cf_pc s u"] by (auto simp: cf_inv_def cf_slots_ok_def)

lemma unregistered_free: "places_ok s \<Longrightarrow> cf_index s u = None \<Longrightarrow> cf_shared s u = 0"
  using places_okD(2) [of s u] by auto

lemma index_stays:
  assumes "places_ok s" "cf_move N t s s'" "cf_index s' u = Some i"
  shows "cf_index s u = None \<or> cf_index s u = Some i"
proof (cases "u = t")
  case True
  show ?thesis using assms(2)
  proof (cases rule: move_cases)
    case Next
    then show ?thesis using assms(3) True places_okD [OF assms(1), of t]
      by (cases "cf_pc s t") (auto simp: step_defs split: if_splits option.splits)
  qed (use assms(3) True in \<open>auto simp: step_defs split: if_splits option.splits\<close>)
qed (use move_others [OF assms(2)] assms(3) in simp)

lemma scan_move_shrinks:
  assumes "cf_inv N s" "cf_move N t s s'" "\<not> cf_shared s t < cf_shared s' t"
  shows "scan_ok s'"
proof (rule scan_okI)
  have i: "cf_slots_ok N s" "places_ok s" "scan_ok s" using assms(1) by (simp_all add: cf_inv_def)
  have le: "cf_shared s' u \<le> cf_shared s u" for u using assms(3) move_others [OF assms(2), of u] by (cases "u = t") auto
  fix w u assume w: "exclusive s' w"
  have "cf_shared s u = 0"
  proof (cases "exclusive s w")
    case False
    then have "w = t" using w move_others [OF assms(2), of w] by (cases "w = t") (auto simp: exclusive_def)
    then obtain j where j: "cf_pc s t = X_Scan j" "N \<le> j" using exclusive_grows [OF assms(1,2)] w False by auto
    show ?thesis
    proof (cases "cf_index s u")
      case (Some k)
      then have "k < N" using i(1) by (auto simp: cf_slots_ok_def)
      then show ?thesis using scan_okD(2) [OF i(3) j(1) Some] j(2) by simp
    qed (rule unregistered_free [OF i(2)])
  qed (rule scan_okD(1) [OF i(3)])
  then show "cf_shared s' u = 0" using le [of u] by simp
next
  have i: "places_ok s" "scan_ok s" using assms(1) by (simp_all add: cf_inv_def)
  have le: "cf_shared s' u \<le> cf_shared s u" for u using assms(3) move_others [OF assms(2), of u] by (cases "u = t") auto
  fix w j u k assume w: "cf_pc s' w = X_Scan j" and u: "cf_index s' u = Some k" "k < j"
  have "cf_shared s u = 0"
  proof (cases "cf_index s u")
    case (Some k')
    then have k: "cf_index s u = Some k" using index_stays [OF i(1) assms(2) u(1)] by auto
    show ?thesis
    proof (cases "cf_pc s w = X_Scan j")
      case False
      then have "w = t" using w move_others [OF assms(2), of w] by (cases "w = t") auto
      then obtain m where m: "j = Suc m" "cf_pc s t = X_Scan m" "cf_slots s m \<le> 1"
        using scan_grows [OF assms(2) _ i(1), of j] w False u(2) by auto
      show ?thesis
      proof (cases "k = m")
        case True
        then show ?thesis using scanned_free [OF assms(1) k] m(3) by simp
      next
        case False
        then show ?thesis using scan_okD(2) [OF i(2) m(2) k] u(2) m(1) by simp
      qed
    qed (use scan_okD(2) [OF i(2) _ k u(2)] in blast)
  qed (rule unregistered_free [OF i(1)])
  then show "cf_shared s' u = 0" using le [of u] by simp
qed

lemma scan_move_grows:
  assumes "cf_inv N s" "cf_move N t s s'" "cf_shared s t < cf_shared s' t"
  shows "scan_ok s'"
proof (rule scan_okI)
  have i: "scan_ok s" using assms(1) by (simp add: cf_inv_def)
  note g = shared_grows [OF assms]
  have none: "\<not> exclusive s w" for w
    using g scan_okD(1) [OF i, of w t] exclusive_region [of s w] by auto
  fix w u assume "exclusive s' w"
  then have "exclusive s w" using g move_others [OF assms(2), of w] by (cases "w = t") (auto simp: exclusive_def)
  then show "cf_shared s' u = 0" using none by blast
next
  have i: "scan_ok s" using assms(1) by (simp add: cf_inv_def)
  note g = shared_grows [OF assms]
  fix w j u k assume w: "cf_pc s' w = X_Scan j" and u: "cf_index s' u = Some k" "k < j"
  have "w \<noteq> t" using g w by auto
  then have wj: "cf_pc s w = X_Scan j" using w move_others [OF assms(2), of w] by simp
  then have "region s w" by (simp add: region_def)
  then have sh: "0 < cf_shared s t" using g by blast
  show "cf_shared s' u = 0"
  proof (cases "u = t")
    case True
    then have "cf_index s t = Some k" using g u(1) by simp
    then show ?thesis using scan_okD(2) [OF i wj _ u(2)] sh by fastforce
  next
    case False
    then show ?thesis using move_others [OF assms(2) False] scan_okD(2) [OF i wj _ u(2)] u(1) by simp
  qed
qed

lemma cf_inv_step: "cf_step N s s' \<Longrightarrow> cf_inv N s \<Longrightarrow> cf_inv N s'"
  using cf_step_move [of N s s'] slots_move [of N s _ s'] places_move [of N s _ s'] writer_move [of N s _ s']
    scan_move_shrinks [of N s _ s'] scan_move_grows [of N s _ s']
  unfolding cf_inv_def [of N s'] by blast

lemma cf_inv_run: "(cf_step N)\<^sup>*\<^sup>* s s' \<Longrightarrow> cf_inv N s \<Longrightarrow> cf_inv N s'"
  by (induction rule: rtranclp_induct) (auto intro: cf_inv_step)

lemmas cf_inv_reach = cf_inv_run [OF _ cf_inv_new]

subsection \<open>Waiting for oneself\<close>

text \<open>A thread that writes, has a slot, and asks for a shared lock waits for \<open>want_x_lock\<close> to be cleared, which it has set
  itself.\<close>

fun asking_pc :: "cf_pc \<Rightarrow> bool" where
  "asking_pc S_Load \<longleftrightarrow> True"
| "asking_pc (S_Store d) \<longleftrightarrow> True"
| "asking_pc (S_Check d) \<longleftrightarrow> True"
| "asking_pc (S_Back d) \<longleftrightarrow> True"
| "asking_pc (S_Wait d) \<longleftrightarrow> True"
| "asking_pc _ \<longleftrightarrow> False"

definition stuck :: "nat \<Rightarrow> contfree_mutex \<Rightarrow> bool" where
  "stuck t s \<longleftrightarrow> 0 < cf_excl s t \<and> cf_index s t \<noteq> None \<and> asking_pc (cf_pc s t)"

lemma stuck_move:
  assumes "cf_inv N s" "cf_move N u s s'" "stuck t s"
  shows "stuck t s'"
proof (cases "u = t")
  case True
  have i: "cf_slots_ok N s" "places_ok s" "writer_ok s" using assms(1) by (simp_all add: cf_inv_def)
  have "cf_want_x_lock s" using region_want [OF i(3), of t] assms(3) by (simp add: region_def stuck_def)
  moreover have "cf_shared s t = 0" using places_okD(2) [OF i(2), of t] assms(3) by (auto simp: stuck_def)
  moreover have "my_slot t s = 1 + int (cf_shared s t) + tentative (cf_pc s t)"
    using my_slot_val [OF i(1)] assms(3) by (simp add: stuck_def)
  moreover have "cf_pc s t \<noteq> Idle" "s' = cf_next N t (cf_pc s t) s"
    using assms(2,3) True by (auto simp: cf_move_def stuck_def)
  ultimately show ?thesis using assms(3)
    by (cases "cf_pc s t") (auto simp: stuck_def step_defs split: option.splits)
next
  case False
  then show ?thesis using move_others [OF assms(2), of t] assms(3) by (simp add: stuck_def)
qed

lemma stuck_run:
  assumes "(cf_step N)\<^sup>*\<^sup>* s s'" "cf_inv N s" "stuck t s"
  shows "cf_inv N s' \<and> stuck t s'"
  using assms
proof (induction rule: rtranclp_induct)
  case (step s' s'')
  then show ?case using cf_inv_step cf_step_move stuck_move by blast
qed simp

lemma exclusion:
  assumes "cf_inv N s" "0 < cf_excl s t" "u \<noteq> t"
  shows "cf_excl s u = 0" "cf_shared s u = 0" "cf_fallback s u = 0"
proof -
  have i: "writer_ok s" "scan_ok s" using assms(1) by (simp_all add: cf_inv_def)
  have "\<not> region s u" using i(1) assms(2,3) unfolding writer_ok_def region_def by blast
  then show "cf_excl s u = 0" "cf_fallback s u = 0" by (simp_all add: region_def)
  show "cf_shared s u = 0" using scan_okD(1) [OF i(2), of t u] assms(2) by (simp add: exclusive_def)
qed

end
