(* ===== verification/Spin_Locks.thy ===== *)
theory Spin_Locks
  imports Prelude
begin

text \<open>
  The spin locks of \<^verbatim>\<open>src/common/include/safe_ptr.hpp\<close>, \<open>spinlock_t\<close> and \<open>recursive_spinlock_t\<close>. A thread executes one
  operation on the shared variables per step; a step in which it spins goes back to \<open>test_and_set\<close>. The counter of the
  recursive lock is no atomic variable, so it is read and written in two steps.
\<close>

subsection \<open>spinlock\_t\<close>

datatype sl_pc = SL_Out | SL_Try | SL_In

record spinlock =
  sl_flag :: bool
  sl_pc :: "nat \<Rightarrow> sl_pc"

definition new_spinlock :: spinlock where
  "new_spinlock = \<lparr>sl_flag = False, sl_pc = (\<lambda>_. SL_Out)\<rparr>"

text \<open>\<open>lock\<close> repeats \<open>try_lock\<close>, which sets the flag and succeeds when it was clear; \<open>unlock\<close> clears it.\<close>

inductive spin_step :: "spinlock \<Rightarrow> spinlock \<Rightarrow> bool" where
  sl_lock: "sl_pc s t = SL_Out \<Longrightarrow> spin_step s (s\<lparr>sl_pc := (sl_pc s)(t := SL_Try)\<rparr>)"
| sl_try: "sl_pc s t = SL_Try \<Longrightarrow>
    spin_step s (s\<lparr>sl_flag := True, sl_pc := (sl_pc s)(t := if sl_flag s then SL_Try else SL_In)\<rparr>)"
| sl_unlock: "sl_pc s t = SL_In \<Longrightarrow> spin_step s (s\<lparr>sl_flag := False, sl_pc := (sl_pc s)(t := SL_Out)\<rparr>)"

subsection \<open>recursive\_spinlock\_t\<close>

datatype rs_pc =
    RS_Out
  | RS_TestAndSet | RS_StoreOwner | RS_LoadOwner | RS_Inc | RS_IncWrite int
  | RS_Assert | RS_Dec | RS_DecWrite int | RS_ClearOwner | RS_ClearFlag
  | RS_Aborted

text \<open>\<open>rs_depth\<close> counts the locks that a thread has been given and has not returned.\<close>

record recursive_spinlock =
  rs_lock_flag :: bool
  rs_recursive_counter :: int
  rs_owner_thread_id :: "nat option"
  rs_pc :: "nat \<Rightarrow> rs_pc"
  rs_depth :: "nat \<Rightarrow> nat"

definition new_recursive_spinlock :: recursive_spinlock where
  "new_recursive_spinlock = \<lparr>rs_lock_flag = False, rs_recursive_counter = 0, rs_owner_thread_id = None,
     rs_pc = (\<lambda>_. RS_Out), rs_depth = (\<lambda>_. 0)\<rparr>"

definition rs_goto :: "nat \<Rightarrow> rs_pc \<Rightarrow> recursive_spinlock \<Rightarrow> recursive_spinlock" where
  "rs_goto t p s = s\<lparr>rs_pc := (rs_pc s)(t := p)\<rparr>"

fun rs_try_lock :: "nat \<Rightarrow> rs_pc \<Rightarrow> recursive_spinlock \<Rightarrow> recursive_spinlock" where
  "rs_try_lock t RS_TestAndSet s =
     rs_goto t (if rs_lock_flag s then RS_LoadOwner else RS_StoreOwner) (s\<lparr>rs_lock_flag := True\<rparr>)"
| "rs_try_lock t RS_StoreOwner s = rs_goto t RS_Inc (s\<lparr>rs_owner_thread_id := Some t\<rparr>)"
| "rs_try_lock t RS_LoadOwner s = rs_goto t (if rs_owner_thread_id s = Some t then RS_Inc else RS_TestAndSet) s"
| "rs_try_lock t RS_Inc s = rs_goto t (RS_IncWrite (rs_recursive_counter s)) s"
| "rs_try_lock t (RS_IncWrite c) s =
     rs_goto t RS_Out (s\<lparr>rs_recursive_counter := c + 1, rs_depth := (rs_depth s)(t := rs_depth s t + 1)\<rparr>)"
| "rs_try_lock t _ s = s"

fun rs_unlock :: "nat \<Rightarrow> rs_pc \<Rightarrow> recursive_spinlock \<Rightarrow> recursive_spinlock" where
  "rs_unlock t RS_Assert s =
     rs_goto t (if rs_owner_thread_id s = Some t \<and> 0 < rs_recursive_counter s then RS_Dec else RS_Aborted) s"
| "rs_unlock t RS_Dec s = rs_goto t (RS_DecWrite (rs_recursive_counter s)) s"
| "rs_unlock t (RS_DecWrite c) s =
     rs_goto t (if c - 1 = 0 then RS_ClearOwner else RS_Out)
       (s\<lparr>rs_recursive_counter := c - 1, rs_depth := (rs_depth s)(t := rs_depth s t - 1)\<rparr>)"
| "rs_unlock t RS_ClearOwner s = rs_goto t RS_ClearFlag (s\<lparr>rs_owner_thread_id := None\<rparr>)"
| "rs_unlock t RS_ClearFlag s = rs_goto t RS_Out (s\<lparr>rs_lock_flag := False\<rparr>)"
| "rs_unlock t _ s = s"

text \<open>A thread may lock at any time and unlocks only what it has locked.\<close>

inductive rs_step :: "recursive_spinlock \<Rightarrow> recursive_spinlock \<Rightarrow> bool" where
  rs_call_lock: "rs_pc s t = RS_Out \<Longrightarrow> rs_step s (rs_goto t RS_TestAndSet s)"
| rs_call_unlock: "rs_pc s t = RS_Out \<Longrightarrow> 0 < rs_depth s t \<Longrightarrow> rs_step s (rs_goto t RS_Assert s)"
| rs_locking: "rs_step s (rs_try_lock t (rs_pc s t) s)"
| rs_unlocking: "rs_step s (rs_unlock t (rs_pc s t) s)"

subsection \<open>Mutual exclusion\<close>

definition spin_inv :: "spinlock \<Rightarrow> bool" where
  "spin_inv s \<longleftrightarrow> (\<forall>t. sl_pc s t = SL_In \<longrightarrow> sl_flag s \<and> (\<forall>u. sl_pc s u = SL_In \<longrightarrow> u = t))"

lemma spin_step_inv: "spin_step s s' \<Longrightarrow> spin_inv s \<Longrightarrow> spin_inv s'"
  by (induction rule: spin_step.induct) (auto simp: spin_inv_def)

lemma spinlock_excludes:
  assumes "spin_step\<^sup>*\<^sup>* new_spinlock s" "sl_pc s t = SL_In" "sl_pc s u = SL_In"
  shows "t = u"
proof -
  have "spin_inv new_spinlock" by (simp add: spin_inv_def new_spinlock_def)
  with assms(1) have "spin_inv s" by (induction rule: rtranclp_induct) (auto intro: spin_step_inv)
  then show ?thesis using assms(2,3) by (auto simp: spin_inv_def)
qed

text \<open>What the place of a thread says of its locks, and the thread to which the flag belongs.\<close>

fun rs_inside :: "rs_pc \<Rightarrow> bool" where
  "rs_inside RS_Out \<longleftrightarrow> False"
| "rs_inside RS_TestAndSet \<longleftrightarrow> False"
| "rs_inside RS_LoadOwner \<longleftrightarrow> False"
| "rs_inside RS_Aborted \<longleftrightarrow> False"
| "rs_inside _ \<longleftrightarrow> True"

definition rs_holds :: "recursive_spinlock \<Rightarrow> nat \<Rightarrow> bool" where
  "rs_holds s t \<longleftrightarrow> 0 < rs_depth s t \<or> rs_inside (rs_pc s t)"

fun rs_place_ok :: "rs_pc \<Rightarrow> nat \<Rightarrow> int \<Rightarrow> bool" where
  "rs_place_ok RS_StoreOwner d c \<longleftrightarrow> d = 0"
| "rs_place_ok (RS_IncWrite v) d c \<longleftrightarrow> v = c"
| "rs_place_ok RS_Assert d c \<longleftrightarrow> 0 < d"
| "rs_place_ok RS_Dec d c \<longleftrightarrow> 0 < d"
| "rs_place_ok (RS_DecWrite v) d c \<longleftrightarrow> 0 < d \<and> v = c"
| "rs_place_ok RS_ClearOwner d c \<longleftrightarrow> d = 0"
| "rs_place_ok RS_ClearFlag d c \<longleftrightarrow> d = 0"
| "rs_place_ok RS_Aborted d c \<longleftrightarrow> False"
| "rs_place_ok _ d c \<longleftrightarrow> True"

definition rs_free :: "recursive_spinlock \<Rightarrow> bool" where
  "rs_free s \<longleftrightarrow> \<not> rs_lock_flag s \<and> rs_owner_thread_id s = None \<and> rs_recursive_counter s = 0"

definition rs_taken :: "nat \<Rightarrow> recursive_spinlock \<Rightarrow> bool" where
  "rs_taken w s \<longleftrightarrow> rs_lock_flag s \<and>
     rs_owner_thread_id s = (if rs_pc s w \<in> {RS_StoreOwner, RS_ClearFlag} then None else Some w) \<and>
     rs_recursive_counter s = int (rs_depth s w) \<and> rs_place_ok (rs_pc s w) (rs_depth s w) (rs_recursive_counter s)"

definition rs_inv :: "recursive_spinlock \<Rightarrow> bool" where
  "rs_inv s \<longleftrightarrow> (\<forall>t. rs_pc s t \<noteq> RS_Aborted) \<and>
     ((\<forall>t. \<not> rs_holds s t) \<and> rs_free s \<or>
      (\<exists>w. rs_holds s w \<and> (\<forall>u. u \<noteq> w \<longrightarrow> \<not> rs_holds s u) \<and> rs_taken w s))"

lemma rs_invI:
  assumes "\<And>t. rs_pc s t \<noteq> RS_Aborted" "\<And>u. u \<noteq> w \<Longrightarrow> \<not> rs_holds s u" "if rs_holds s w then rs_taken w s else rs_free s"
  shows "rs_inv s"
  using assms unfolding rs_inv_def by (metis (full_types))

definition rs_move :: "nat \<Rightarrow> recursive_spinlock \<Rightarrow> recursive_spinlock \<Rightarrow> bool" where
  "rs_move t s s' \<longleftrightarrow> rs_pc s t = RS_Out \<and> s' = rs_goto t RS_TestAndSet s \<or>
     rs_pc s t = RS_Out \<and> 0 < rs_depth s t \<and> s' = rs_goto t RS_Assert s \<or>
     s' = rs_try_lock t (rs_pc s t) s \<or> s' = rs_unlock t (rs_pc s t) s"

lemma rs_move_others:
  "rs_move t s s' \<Longrightarrow> u \<noteq> t \<Longrightarrow> rs_pc s' u = rs_pc s u \<and> rs_depth s' u = rs_depth s u \<and> rs_holds s' u = rs_holds s u"
  unfolding rs_move_def by (cases "rs_pc s t") (auto simp: rs_goto_def rs_holds_def)

text \<open>A step of the thread that has the lock, of another thread while it is taken, and of a thread while it is free.\<close>

lemma rs_move_own:
  assumes "rs_move t s s'" "rs_holds s t" "rs_taken t s" "rs_pc s t \<noteq> RS_Aborted"
  shows "rs_pc s' t \<noteq> RS_Aborted \<and> (if rs_holds s' t then rs_taken t s' else rs_free s')"
  using assms unfolding rs_move_def
  by (cases "rs_pc s t") (auto simp: rs_goto_def rs_holds_def rs_taken_def rs_free_def split: if_splits)

lemma rs_move_other:
  assumes "rs_move t s s'" "\<not> rs_holds s t" "w \<noteq> t" "rs_taken w s" "rs_pc s t \<noteq> RS_Aborted"
  shows "rs_pc s' t \<noteq> RS_Aborted \<and> \<not> rs_holds s' t \<and> rs_taken w s'"
  using assms unfolding rs_move_def
  by (cases "rs_pc s t") (auto simp: rs_goto_def rs_holds_def rs_taken_def split: if_splits)

lemma rs_move_free:
  assumes "rs_move t s s'" "\<not> rs_holds s t" "rs_free s" "rs_pc s t \<noteq> RS_Aborted"
  shows "rs_pc s' t \<noteq> RS_Aborted \<and> (if rs_holds s' t then rs_taken t s' else rs_free s')"
  using assms unfolding rs_move_def
  by (cases "rs_pc s t") (auto simp: rs_goto_def rs_holds_def rs_taken_def rs_free_def split: if_splits)

lemma rs_move_inv:
  assumes "rs_move t s s'" "rs_inv s"
  shows "rs_inv s'"
proof -
  have na: "rs_pc s u \<noteq> RS_Aborted" for u using assms(2) by (simp add: rs_inv_def)
  note others = rs_move_others [OF assms(1)]
  have ok: "rs_inv s'" if "\<And>u. u \<noteq> t \<Longrightarrow> \<not> rs_holds s u"
      "rs_pc s' t \<noteq> RS_Aborted \<and> (if rs_holds s' t then rs_taken t s' else rs_free s')"
    by (rule rs_invI [where w = t]) (use that others na in metis)+
  consider "\<forall>u. \<not> rs_holds s u" "rs_free s"
    | w where "rs_holds s w" "\<forall>u. u \<noteq> w \<longrightarrow> \<not> rs_holds s u" "rs_taken w s"
    using assms(2) by (auto simp: rs_inv_def)
  then show ?thesis
  proof cases
    case 1
    then show ?thesis using ok rs_move_free [OF assms(1)] na by blast
  next
    case (2 w)
    show ?thesis
    proof (cases "w = t")
      case True
      then show ?thesis using ok rs_move_own [OF assms(1)] 2 na by blast
    next
      case False
      then have "rs_pc s' t \<noteq> RS_Aborted \<and> \<not> rs_holds s' t \<and> rs_taken w s'"
        using rs_move_other [OF assms(1) _ False] 2 na by auto
      then show ?thesis by (intro rs_invI [where w = w]) (use 2 others na False in metis)+
    qed
  qed
qed

lemma rs_step_inv: "rs_step s s' \<Longrightarrow> rs_inv s \<Longrightarrow> rs_inv s'"
  by (induction rule: rs_step.induct) (auto intro: rs_move_inv simp: rs_move_def)

lemma rs_inv_reach:
  assumes "rs_step\<^sup>*\<^sup>* new_recursive_spinlock s"
  shows "rs_inv s"
proof -
  have "rs_inv new_recursive_spinlock" by (simp add: rs_inv_def rs_holds_def rs_free_def new_recursive_spinlock_def)
  with assms show ?thesis by (induction rule: rtranclp_induct) (auto intro: rs_step_inv)
qed

end
