(* ===== verification/Safe_Map.thy ===== *)
theory Safe_Map
  imports Prelude
begin

text \<open>
  The class \<open>safe_map_partitioned_t\<close> of \<^verbatim>\<open>src/common/include/safe_ptr.hpp\<close>: a map cut into parts, each with a mutex of
  its own. An ordered map is the list of its entries in the order of the keys, an iterator is an index into it. Every
  access to a part goes through its safe pointer; the methods here are those of one thread.
\<close>

type_synonym ('k, 'v) ordered_map = "('k \<times> 'v) list"

subsection \<open>std::map\<close>

definition om_lower :: "'k :: linorder \<Rightarrow> ('k, 'v) ordered_map \<Rightarrow> nat" where
  "om_lower k m = length (takeWhile (\<lambda>(x, _). x < k) m)"

definition om_upper :: "'k :: linorder \<Rightarrow> ('k, 'v) ordered_map \<Rightarrow> nat" where
  "om_upper k m = length (takeWhile (\<lambda>(x, _). x \<le> k) m)"

text \<open>The entries between two iterators; a pair that is not a range is undefined.\<close>

definition om_range :: "nat \<Rightarrow> nat \<Rightarrow> ('k, 'v) ordered_map \<Rightarrow> ('k, 'v) ordered_map res" where
  "om_range i j m = (if i \<le> j then Inr (take (j - i) (drop i m)) else Inl IterInvalid)"

definition om_erase_range :: "nat \<Rightarrow> nat \<Rightarrow> ('k, 'v) ordered_map \<Rightarrow> ('k, 'v) ordered_map res" where
  "om_erase_range i j m = (if i \<le> j then Inr (take i m @ drop j m) else Inl IterInvalid)"

fun om_emplace :: "'k :: linorder \<Rightarrow> 'v \<Rightarrow> ('k, 'v) ordered_map \<Rightarrow> ('k, 'v) ordered_map" where
  "om_emplace k v [] = [(k, v)]"
| "om_emplace k v ((x, w) # m) =
     (if k < x then (k, v) # (x, w) # m else if k = x then (x, w) # m else (x, w) # om_emplace k v m)"

definition om_erase :: "'k \<Rightarrow> ('k, 'v) ordered_map \<Rightarrow> ('k, 'v) ordered_map" where
  "om_erase k m = filter (\<lambda>(x, _). x \<noteq> k) m"

subsection \<open>The methods\<close>

type_synonym ('k, 'v) partition = "('k, ('k, 'v) ordered_map) ordered_map"

text \<open>The three constructors; the loop of the second does not end when the step is not positive.\<close>

definition safe_map_default :: "'k \<Rightarrow> ('k, 'v) partition" where
  "safe_map_default k0 = [(k0, [])]"

definition safe_map_of_list :: "'k :: linorder list \<Rightarrow> ('k, 'v) partition" where
  "safe_map_of_list il = fold (\<lambda>i. om_emplace i []) il []"

partial_function (option) safe_map_steps :: "int \<Rightarrow> int \<Rightarrow> int \<Rightarrow> (int, 'v) partition \<Rightarrow> (int, 'v) partition option" where
  "safe_map_steps i finish step p =
     (if i \<le> finish then safe_map_steps (i + step) finish step (om_emplace i [] p) else Some p)"

text \<open>\<open>part_it\<close>: the first part whose key is not below \<open>k\<close>, or the last part.\<close>

definition part_it :: "'k :: linorder \<Rightarrow> ('k, 'v) partition \<Rightarrow> nat res" where
  "part_it k p =
     (let it = om_lower k p
      in if it = length p then if p = [] then Inl IterInvalid else Inr (it - 1) else Inr it)"

definition part :: "'k :: linorder \<Rightarrow> ('k, 'v) partition \<Rightarrow> ('k, 'v) ordered_map res" where
  "part k p = rbind (part_it k p) (\<lambda>i. Inr (snd (p ! i)))"

definition on_part ::
    "(('k, 'v) ordered_map \<Rightarrow> ('k, 'v) ordered_map) \<Rightarrow> 'k :: linorder \<Rightarrow> ('k, 'v) partition \<Rightarrow> ('k, 'v) partition res" where
  "on_part f k p = rbind (part_it k p) (\<lambda>i. Inr (p[i := (fst (p ! i), f (snd (p ! i)))]))"

definition get_range_equal :: "'k :: linorder \<Rightarrow> ('k, 'v) partition \<Rightarrow> ('k, 'v) ordered_map res" where
  "get_range_equal key p = rbind (part key p) (\<lambda>c. om_range (om_lower key c) (om_upper key c) c)"

text \<open>The iterators between which both range methods run.\<close>

definition range_end :: "'k :: linorder \<Rightarrow> ('k, 'v) partition \<Rightarrow> nat" where
  "range_end up p = (let u = om_upper up p in if u = length p then u else u + 1)"

definition get_range_lower_upper :: "'k :: linorder \<Rightarrow> 'k \<Rightarrow> ('k, 'v) partition \<Rightarrow> ('k, 'v) ordered_map res" where
  "get_range_lower_upper low up p =
     rbind (part_it low p) (\<lambda>it.
     rbind (om_range it (range_end up p) p) (\<lambda>parts.
       rfold (\<lambda>result (_, c). rbind (om_range (om_lower low c) (om_upper up c) c) (\<lambda>r. Inr (result @ r))) [] parts))"

definition erase_lower_upper :: "'k :: linorder \<Rightarrow> 'k \<Rightarrow> ('k, 'v) partition \<Rightarrow> ('k, 'v) partition res" where
  "erase_lower_upper low up p =
     rbind (part_it low p) (\<lambda>it.
     rbind (om_range it (range_end up p) p) (\<lambda>parts.
     rbind (rfold (\<lambda>done (b, c). rbind (om_erase_range (om_lower low c) (om_upper up c) c) (\<lambda>c'. Inr (done @ [(b, c')])))
              [] parts) (\<lambda>parts'.
       Inr (take it p @ parts' @ drop (range_end up p) p))))"

definition sm_emplace :: "'k :: linorder \<Rightarrow> 'v \<Rightarrow> ('k, 'v) partition \<Rightarrow> ('k, 'v) partition res" where
  "sm_emplace key v p = on_part (om_emplace key v) key p"

definition sm_size :: "('k, 'v) partition \<Rightarrow> nat" where
  "sm_size p = sum_list (map (\<lambda>(_, c). length c) p)"

definition sm_erase :: "'k :: linorder \<Rightarrow> ('k, 'v) partition \<Rightarrow> (nat \<times> ('k, 'v) partition) res" where
  "sm_erase key p = rbind (part key p) (\<lambda>c. rbind (on_part (om_erase key) key p) (\<lambda>p'.
     Inr (length c - length (om_erase key c), p')))"

definition sm_clear :: "('k, 'v) partition \<Rightarrow> ('k, 'v) partition" where
  "sm_clear p = map (\<lambda>(b, _). (b, [])) p"

end
