(* ===== verification/Safe_Map_Laws.thy ===== *)
theory Safe_Map_Laws
  imports Safe_Map
begin

text \<open>
  The partitioned map behaves as one ordered map, the concatenation of its parts (\<open>flat\<close>): every method finds the
  part that is responsible for a key, and the methods on ranges visit every part that can have a key of the range.
\<close>

subsection \<open>Ordered maps\<close>

abbreviation keys :: "('k \<times> 'v) list \<Rightarrow> 'k list" where
  "keys m \<equiv> map fst m"

abbreviation ordered :: "('k :: linorder \<times> 'v) list \<Rightarrow> bool" where
  "ordered m \<equiv> sorted_wrt (<) (keys m)"

lemma set_om_emplace: "set (keys (om_emplace k v m)) = insert k (set (keys m))"
  by (induction k v m rule: om_emplace.induct) auto

lemma entries_om_emplace: "set (om_emplace k v m) \<subseteq> insert (k, v) (set m)"
  by (induction k v m rule: om_emplace.induct) auto

lemma ordered_om_emplace: "ordered m \<Longrightarrow> ordered (om_emplace k v m)"
proof (induction k v m rule: om_emplace.induct)
  case (2 k v x w m)
  then show ?case using set_om_emplace [of k v m] by (auto simp: image_iff)
qed simp

lemma map_of_om_emplace:
  "ordered m \<Longrightarrow> map_of (om_emplace k v m) = (if k \<in> dom (map_of m) then map_of m else (map_of m)(k \<mapsto> v))"
proof (induction k v m rule: om_emplace.induct)
  case (2 k v x w m)
  have "map_of m k = None" if "k \<le> x" using 2(2) that by (force simp: map_of_eq_None_iff)
  then show ?case using 2 by (cases "k < x"; cases "k = x") (auto simp: fun_eq_iff dom_def)
qed (auto simp: fun_eq_iff)

lemma ordered_filter: "ordered m \<Longrightarrow> ordered (filter P m)"
  by (induction m) auto

lemma map_of_om_erase: "map_of (om_erase k m) = (map_of m)(k := None)"
  by (induction m) (auto simp: om_erase_def fun_eq_iff)

lemma om_erase_count:
  "ordered m \<Longrightarrow> length m = length (om_erase k m) + (if k \<in> dom (map_of m) then 1 else 0)"
proof (induction m)
  case (Cons e m)
  obtain x w where e: "e = (x, w)" by force
  have "map_of m x = None" using Cons(2) by (force simp: e map_of_eq_None_iff)
  then show ?case using Cons by (auto simp: e om_erase_def dom_def)
qed (simp add: om_erase_def)

text \<open>In an ordered list the range of two bounds is what lies between them.\<close>

definition between :: "'k :: linorder \<Rightarrow> 'k \<Rightarrow> 'k \<times> 'v \<Rightarrow> bool" where
  "between low up = (\<lambda>(k, _). low \<le> k \<and> k \<le> up)"

lemma ordered_lower: "ordered m \<Longrightarrow> takeWhile (\<lambda>(x, _). x < k) m = filter (\<lambda>(x, _). x < k) m"
proof (induction m)
  case (Cons e m)
  then have "filter (\<lambda>(x, _). x < k) m = []" if "\<not> fst e < k" using that by (force simp: filter_empty_conv)
  then show ?case using Cons by (cases e) auto
qed simp

lemma ordered_upper: "ordered m \<Longrightarrow> takeWhile (\<lambda>(x, _). x \<le> k) m = filter (\<lambda>(x, _). x \<le> k) m"
proof (induction m)
  case (Cons e m)
  then have "filter (\<lambda>(x, _). x \<le> k) m = []" if "\<not> fst e \<le> k" using that by (force simp: filter_empty_conv)
  then show ?case using Cons by (cases e) auto
qed simp

lemma ordered_split:
  assumes "ordered m" "low \<le> up"
  shows "m = filter (\<lambda>(x, _). x < low) m @ filter (between low up) m @ filter (\<lambda>(x, _). up < x) m"
  using assms(1)
proof (induction m)
  case (Cons e m)
  obtain x v where e: "e = (x, v)" by force
  have gt: "x < y" if "(y, w) \<in> set m" for y w using Cons(2) that by (force simp: e)
  then have "filter (\<lambda>(y, _). y < low) m = []" if "low \<le> x" using that by (force simp: filter_empty_conv)
  moreover have "filter (between low up) m = []" if "up < x" using gt that by (force simp: filter_empty_conv between_def)
  ultimately show ?case using Cons assms(2) by (cases "x < low"; cases "x \<le> up") (auto simp: e between_def)
qed simp

lemma filter_front:
  "m = a @ b @ c \<Longrightarrow> (\<And>e. e \<in> set a \<union> set b \<Longrightarrow> P e) \<Longrightarrow> (\<And>e. e \<in> set c \<Longrightarrow> \<not> P e) \<Longrightarrow> filter P m = a @ b"
  by simp

lemma filter_ends:
  "m = a @ b @ c \<Longrightarrow> (\<And>e. e \<in> set a \<union> set c \<Longrightarrow> P e) \<Longrightarrow> (\<And>e. e \<in> set b \<Longrightarrow> \<not> P e) \<Longrightarrow> filter P m = a @ c"
  by simp

lemma om_lower_upper:
  assumes "ordered m" "low \<le> up"
  shows "om_lower low m = length (filter (\<lambda>(x, _). x < low) m)"
    "om_upper up m = length (filter (\<lambda>(x, _). x < low) m) + length (filter (between low up) m)"
proof -
  show "om_lower low m = length (filter (\<lambda>(x, _). x < low) m)" by (simp add: om_lower_def ordered_lower [OF assms(1)])
  have "filter (\<lambda>(x, _). x \<le> up) m = filter (\<lambda>(x, _). x < low) m @ filter (between low up) m"
    by (rule filter_front [OF ordered_split [OF assms]]) (use assms(2) in \<open>auto simp: between_def\<close>)
  then show "om_upper up m = length (filter (\<lambda>(x, _). x < low) m) + length (filter (between low up) m)"
    by (simp add: om_upper_def ordered_upper [OF assms(1)])
qed

lemma om_bounds_split:
  assumes "ordered m" "low \<le> up"
  obtains a c where "m = a @ filter (between low up) m @ c" "om_lower low m = length a"
    "om_upper up m = length a + length (filter (between low up) m)" "filter (\<lambda>e. \<not> between low up e) m = a @ c"
proof (rule that)
  let ?a = "filter (\<lambda>(x, _). x < low) m" and ?c = "filter (\<lambda>(x, _). up < x) m"
  show split: "m = ?a @ filter (between low up) m @ ?c" by (rule ordered_split [OF assms])
  show "filter (\<lambda>e. \<not> between low up e) m = ?a @ ?c"
    by (rule filter_ends [OF split]) (use assms(2) in \<open>auto simp: between_def\<close>)
qed (rule om_lower_upper [OF assms])+

lemma om_range_between:
  assumes "ordered m" "low \<le> up"
  shows "om_range (om_lower low m) (om_upper up m) m = Inr (filter (between low up) m)"
    "om_erase_range (om_lower low m) (om_upper up m) m = Inr (filter (\<lambda>e. \<not> between low up e) m)"
proof -
  obtain a c where m: "m = a @ filter (between low up) m @ c" and "om_lower low m = length a"
    "om_upper up m = length a + length (filter (between low up) m)" "filter (\<lambda>e. \<not> between low up e) m = a @ c"
    by (rule om_bounds_split [OF assms])
  moreover define b where "b = filter (between low up) m"
  ultimately have m: "m = a @ b @ c" and i: "om_lower low m = length a" "om_upper up m = length a + length b"
    and r: "filter (\<lambda>e. \<not> between low up e) m = a @ c" by simp_all
  have "om_range (length a) (length a + length b) (a @ b @ c) = Inr b"
    "om_erase_range (length a) (length a + length b) (a @ b @ c) = Inr (a @ c)"
    by (simp_all add: om_range_def om_erase_range_def)
  then show "om_range (om_lower low m) (om_upper up m) m = Inr (filter (between low up) m)"
    "om_erase_range (om_lower low m) (om_upper up m) m = Inr (filter (\<lambda>e. \<not> between low up e) m)"
    unfolding i r b_def [symmetric] using m by simp_all
qed

subsection \<open>The parts\<close>

text \<open>Part \<open>j\<close> is responsible for the keys above the key of the part before it, up to its own; the last one for all
  that follow.\<close>

definition responsible :: "('k :: linorder, 'v) partition \<Rightarrow> nat \<Rightarrow> 'k \<Rightarrow> bool" where
  "responsible p j k \<longleftrightarrow> j < length p \<and> (\<forall>i<j. fst (p ! i) < k) \<and> (Suc j < length p \<longrightarrow> k \<le> fst (p ! j))"

definition part_inv :: "('k :: linorder, 'v) partition \<Rightarrow> bool" where
  "part_inv p \<longleftrightarrow> p \<noteq> [] \<and> ordered p \<and>
     (\<forall>j<length p. ordered (snd (p ! j)) \<and> (\<forall>k\<in>set (keys (snd (p ! j))). responsible p j k))"

definition flat :: "('k, 'v) partition \<Rightarrow> ('k \<times> 'v) list" where
  "flat p = concat (map snd p)"

lemma responsible_unique: "responsible p i k \<Longrightarrow> responsible p j k \<Longrightarrow> i = j"
  by (rule linorder_cases [of i j]) (fastforce simp: responsible_def)+

lemma part_it_responsible:
  assumes "p \<noteq> []"
  shows "\<exists>i. part_it k p = Inr i \<and> responsible p i k"
proof -
  let ?n = "om_lower k p"
  have le: "?n \<le> length p" by (simp add: om_lower_def length_takeWhile_le)
  have lt: "fst (p ! i) < k" if "i < ?n" for i
  proof -
    have "takeWhile (\<lambda>(x, _). x < k) p ! i \<in> set (takeWhile (\<lambda>(x, _). x < k) p)" using that by (simp add: om_lower_def)
    then show ?thesis using that takeWhile_nth [of i "\<lambda>(x, _). x < k" p] by (auto simp: om_lower_def dest: set_takeWhileD)
  qed
  have ge: "k \<le> fst (p ! ?n)" if "?n < length p"
    using nth_length_takeWhile [of "\<lambda>(x, _). x < k" p] that by (simp add: om_lower_def split: prod.splits)
  show ?thesis
  proof (cases "?n = length p")
    case True
    then show ?thesis using assms lt by (auto simp: part_it_def responsible_def Let_def)
  next
    case False
    then show ?thesis using le lt ge by (auto simp: part_it_def responsible_def Let_def)
  qed
qed

lemma part_it_eq:
  assumes "responsible p i k"
  shows "part_it k p = Inr i"
proof -
  have "p \<noteq> []" using assms by (auto simp: responsible_def)
  then show ?thesis using part_it_responsible [of p k] responsible_unique [OF assms] by auto
qed

lemma flat_split:
  assumes "i < length p"
  shows "flat p = flat (take i p) @ snd (p ! i) @ flat (drop (Suc i) p)"
proof -
  have "flat p = flat (take i p @ p ! i # drop (Suc i) p)" by (rule arg_cong [OF id_take_nth_drop [OF assms]])
  then show ?thesis by (simp add: flat_def)
qed

lemma in_flat: "k \<in> set (keys (flat p)) \<longleftrightarrow> (\<exists>j<length p. k \<in> set (keys (snd (p ! j))))"
proof -
  have "k \<in> set (keys (flat p)) \<longleftrightarrow> (\<exists>x\<in>set p. k \<in> set (keys (snd x)))" by (auto simp: flat_def)
  also have "\<dots> \<longleftrightarrow> (\<exists>j<length p. k \<in> set (keys (snd (p ! j))))" by (metis in_set_conv_nth)
  finally show ?thesis .
qed

lemma in_flat_part: "e \<in> set (flat p) \<Longrightarrow> \<exists>j<length p. e \<in> set (snd (p ! j))"
proof -
  assume "e \<in> set (flat p)"
  then have "\<exists>x\<in>set p. e \<in> set (snd x)" by (simp add: flat_def)
  then show ?thesis by (metis in_set_conv_nth)
qed

lemma flat_lookup:
  assumes "part_inv p" "responsible p i k"
  shows "map_of (flat p) k = map_of (snd (p ! i)) k"
proof -
  have i: "i < length p" using assms(2) by (simp add: responsible_def)
  have home: "j = i" if "j < length p" "k \<in> set (keys (snd (p ! j)))" for j
    
    using that assms responsible_unique [of p j k i] unfolding part_inv_def by blast
  have "k \<notin> set (keys (flat (take i p)))" 
    unfolding in_flat using home by (auto simp del: set_map)
  moreover have "k \<notin> set (keys (flat (drop (Suc i) p)))"
  proof
    assume "k \<in> set (keys (flat (drop (Suc i) p)))"
    then obtain j where "j < length (drop (Suc i) p)" "k \<in> set (keys (snd (drop (Suc i) p ! j)))" unfolding in_flat by blast
    then have "Suc i + j < length p" "k \<in> set (keys (snd (p ! (Suc i + j))))" by simp_all
    from home [OF this] show False by simp
  qed
  ultimately have "map_of (flat (take i p)) k = None" "map_of (flat (drop (Suc i) p)) k = None"
    by (simp_all add: map_of_eq_None_iff)
  then show ?thesis by (subst flat_split [OF i]) (simp add: map_add_def split: option.splits)
qed

lemma flat_ordered:
  assumes "part_inv p"
  shows "ordered (flat p)"
proof -
  have "n \<le> length p \<Longrightarrow> ordered (flat (take n p))" for n
  proof (induction n)
    case (Suc n)
    have "k < k'" if front: "k \<in> set (keys (flat (take n p)))" and rear: "k' \<in> set (keys (snd (p ! n)))" for k k'
    proof -
      obtain j where j: "j < n" "k \<in> set (keys (snd (p ! j)))" using front Suc(2) unfolding in_flat by (auto simp del: set_map)
      then have "responsible p j k" using assms Suc(2) unfolding part_inv_def by (meson Suc_le_lessD less_trans)
      then have "k \<le> fst (p ! j)" using j(1) Suc(2) by (simp add: responsible_def)
      moreover have "responsible p n k'" using assms rear Suc(2) unfolding part_inv_def by (meson Suc_le_lessD)
      then have "fst (p ! j) < k'" using j(1) by (simp add: responsible_def)
      ultimately show ?thesis by simp
    qed
    moreover have "flat (take (Suc n) p) = flat (take n p) @ snd (p ! n)"
      using Suc(2) by (simp add: flat_def take_Suc_conv_app_nth)
    ultimately show ?case using Suc assms by (auto simp: sorted_wrt_append part_inv_def)
  qed (simp add: flat_def)
  from this [of "length p"] show ?thesis by simp
qed

lemma responsible_cong:
  assumes "keys p' = keys p"
  shows "responsible p' j k = responsible p j k"
proof -
  have "length p' = length p" using arg_cong [OF assms, of length] by simp
  moreover have "fst (p' ! i) = fst (p ! i)" if "i < length p" for i
    using that calculation arg_cong [OF assms, of "\<lambda>xs. xs ! i"] by simp
  ultimately show ?thesis by (auto simp: responsible_def)
qed

lemma keys_update: "i < length p \<Longrightarrow> keys (p[i := (fst (p ! i), c)]) = keys p"
  by (simp add: map_update) (metis list_update_id nth_map)

text \<open>A change of the part that is responsible for a key.\<close>

lemma on_part_inv:
  assumes "part_inv p" "responsible p i k" "ordered c" "set (keys c) \<subseteq> insert k (set (keys (snd (p ! i))))"
  shows "part_inv (p[i := (fst (p ! i), c)])"
proof -
  let ?p = "p[i := (fst (p ! i), c)]"
  have i: "i < length p" using assms(2) by (simp add: responsible_def)
  then have k: "keys ?p = keys p" by (rule keys_update)
  have "ordered (snd (?p ! j)) \<and> (\<forall>k'\<in>set (keys (snd (?p ! j))). responsible ?p j k')" if "j < length p" for j
  proof (cases "j = i")
    case True
    then show ?thesis using i assms unfolding responsible_cong [OF k] part_inv_def by (simp del: set_map) blast
  next
    case False
    then show ?thesis using that assms(1) unfolding responsible_cong [OF k] part_inv_def by simp
  qed
  then show ?thesis using assms(1) k by (simp add: part_inv_def)
qed

lemma on_part_lookup:
  assumes "part_inv p" "responsible p i k" "part_inv (p[i := (fst (p ! i), c)])"
  shows "map_of (flat (p[i := (fst (p ! i), c)])) k' =
    (if responsible p i k' then map_of c k' else map_of (flat p) k')"
proof -
  let ?p = "p[i := (fst (p ! i), c)]"
  have i: "i < length p" using assms(2) by (simp add: responsible_def)
  then have k: "keys ?p = keys p" by (rule keys_update)
  obtain j where j: "responsible p j k'" using part_it_responsible [of p k'] assms(1) by (auto simp: part_inv_def)
  then have "map_of (flat ?p) k' = map_of (snd (?p ! j)) k'"
    using flat_lookup [OF assms(3)] responsible_cong [OF k] by blast
  moreover have "map_of (flat p) k' = map_of (snd (p ! j)) k'" by (rule flat_lookup [OF assms(1) j])
  moreover have "responsible p i k' \<longleftrightarrow> i = j" using j responsible_unique [OF j, of i] by blast
  ultimately show ?thesis using i by (cases "i = j") simp_all
qed

subsection \<open>The methods on the whole map\<close>

lemma part_inv_responsible:
  assumes "part_inv p"
  obtains i where "responsible p i k" "part_it k p = Inr i" "i < length p" "ordered (snd (p ! i))"
  using part_it_responsible [of p k] assms by (auto simp: part_inv_def responsible_def)

lemma sm_emplace_ok:
  assumes "part_inv p"
  shows "\<exists>p'. sm_emplace k v p = Inr p' \<and> part_inv p' \<and>
    map_of (flat p') = (if k \<in> dom (map_of (flat p)) then map_of (flat p) else (map_of (flat p))(k \<mapsto> v))"
proof -
  obtain i where i: "responsible p i k" "part_it k p = Inr i" "ordered (snd (p ! i))"
    by (rule part_inv_responsible [OF assms, of k])
  let ?p = "p[i := (fst (p ! i), om_emplace k v (snd (p ! i)))]"
  have inv: "part_inv ?p"
    by (rule on_part_inv [OF assms i(1) ordered_om_emplace [OF i(3)]]) (simp add: set_om_emplace del: set_map)
  have "map_of (flat ?p) k' =
      (if k \<in> dom (map_of (flat p)) then map_of (flat p) else (map_of (flat p))(k \<mapsto> v)) k'" for k'
    using on_part_lookup [OF assms i(1) inv, of k'] flat_lookup [OF assms i(1)] flat_lookup [OF assms, of i k'] i(1)
    by (auto simp: map_of_om_emplace [OF i(3)] dom_def)
  then have "map_of (flat ?p) = (if k \<in> dom (map_of (flat p)) then map_of (flat p) else (map_of (flat p))(k \<mapsto> v))" ..
  then show ?thesis using inv i(2) by (simp add: sm_emplace_def on_part_def)
qed

lemma sm_erase_ok:
  assumes "part_inv p"
  shows "\<exists>p'. sm_erase k p = Inr (if k \<in> dom (map_of (flat p)) then 1 else 0, p') \<and> part_inv p' \<and>
    map_of (flat p') = (map_of (flat p))(k := None)"
proof -
  obtain i where i: "responsible p i k" "part_it k p = Inr i" "ordered (snd (p ! i))"
    by (rule part_inv_responsible [OF assms, of k])
  let ?p = "p[i := (fst (p ! i), om_erase k (snd (p ! i)))]"
  have "ordered (om_erase k (snd (p ! i)))" using ordered_filter [OF i(3)] by (simp add: om_erase_def)
  then have inv: "part_inv ?p" by (rule on_part_inv [OF assms i(1)]) (auto simp: om_erase_def)
  have "map_of (flat ?p) k' = ((map_of (flat p))(k := None)) k'" for k'
    using on_part_lookup [OF assms i(1) inv, of k'] flat_lookup [OF assms, of i k'] i(1)
    by (auto simp: map_of_om_erase)
  then have "map_of (flat ?p) = (map_of (flat p))(k := None)" ..
  moreover have "length (snd (p ! i)) - length (om_erase k (snd (p ! i))) = (if k \<in> dom (map_of (flat p)) then 1 else 0)"
    using om_erase_count [OF i(3), of k] flat_lookup [OF assms i(1)] by (simp add: dom_def)
  ultimately show ?thesis using inv i(2) by (simp add: sm_erase_def part_def on_part_def)
qed

lemma sm_size_ok:
  assumes "part_inv p"
  shows "sm_size p = card (dom (map_of (flat p)))"
proof -
  have "sm_size p = length (flat p)" by (simp add: sm_size_def flat_def length_concat case_prod_beta' comp_def)
  moreover have "distinct (keys (flat p))"
    using flat_ordered [OF assms] by (simp add: strict_sorted_iff)
  ultimately show ?thesis by (simp add: dom_map_of_conv_image_fst distinct_card flip: set_map)
qed

lemma sm_clear_ok: "part_inv p \<Longrightarrow> part_inv (sm_clear p) \<and> flat (sm_clear p) = []"
  by (auto simp: part_inv_def sm_clear_def flat_def case_prod_beta' comp_def)

lemma get_range_equal_ok:
  assumes "part_inv p"
  shows "get_range_equal k p = Inr (case map_of (flat p) k of None \<Rightarrow> [] | Some v \<Rightarrow> [(k, v)])"
proof -
  obtain i where i: "responsible p i k" "part_it k p = Inr i" "ordered (snd (p ! i))"
    by (rule part_inv_responsible [OF assms, of k])
  have "ordered m \<Longrightarrow> filter (between k k) m = (case map_of m k of None \<Rightarrow> [] | Some v \<Rightarrow> [(k, v)])" for m :: "('a \<times> 'b) list"
  proof (induction m)
    case (Cons e m)
    obtain x w where e: "e = (x, w)" by force
    have "map_of m x = None" using Cons(2) by (force simp: e map_of_eq_None_iff)
    then show ?case using Cons by (auto simp: e between_def)
  qed simp
  then show ?thesis
    using om_range_between(1) [OF i(3), of k k] i(2,3) flat_lookup [OF assms i(1)]
    by (simp add: get_range_equal_def part_def)
qed

text \<open>The parts that a range method visits; the others have no key of the range.\<close>

lemma range_parts:
  assumes "part_inv p" "low \<le> up" "part_it low p = Inr i"
  shows "i \<le> range_end up p" "range_end up p \<le> length p"
    "\<And>j e. j < i \<Longrightarrow> e \<in> set (snd (p ! j)) \<Longrightarrow> \<not> between low up e"
    "\<And>j e. range_end up p \<le> j \<Longrightarrow> j < length p \<Longrightarrow> e \<in> set (snd (p ! j)) \<Longrightarrow> \<not> between low up e"
proof -
  let ?u = "om_upper up p"
  have i: "responsible p i low" using part_it_responsible [of p low] assms(1,3) by (auto simp: part_inv_def)
  have u: "?u \<le> length p" by (simp add: om_upper_def length_takeWhile_le)
  then show "range_end up p \<le> length p" by (auto simp: range_end_def Let_def)
  have gt: "up < fst (p ! ?u)" if "?u < length p"
    using nth_length_takeWhile [of "\<lambda>(x, _). x \<le> up" p] that by (simp add: om_upper_def split: prod.splits)
  have "i \<le> ?u" if "?u < length p"
  proof (rule ccontr)
    assume "\<not> i \<le> ?u"
    then have "fst (p ! ?u) < low" using i by (simp add: responsible_def)
    then show False using gt [OF that] assms(2) by simp
  qed
  then show "i \<le> range_end up p" using i u by (auto simp: range_end_def Let_def responsible_def)
  have home: "responsible p j (fst e)" if "j < length p" "e \<in> set (snd (p ! j))" for j e
    using that assms(1) by (auto simp: part_inv_def)
  show "\<not> between low up e" if "j < i" "e \<in> set (snd (p ! j))" for j e
  proof -
    have "i < length p" "fst (p ! j) < low" using i that(1) by (simp_all add: responsible_def)
    moreover have "fst e \<le> fst (p ! j)" using home [of j e] that calculation(1) by (simp add: responsible_def)
    ultimately show ?thesis by (auto simp: between_def split: prod.splits)
  qed
  show "\<not> between low up e" if "range_end up p \<le> j" "j < length p" "e \<in> set (snd (p ! j))" for j e
  proof -
    have "?u < length p" "?u < j" using that(1,2) u by (auto simp: range_end_def Let_def split: if_splits)
    then show ?thesis using gt home [OF that(2,3)] by (force simp: responsible_def between_def split: prod.splits)
  qed
qed

text \<open>Erasing the range from every part; it changes only the parts that the method visits.\<close>

definition shrink :: "'k :: linorder \<Rightarrow> 'k \<Rightarrow> ('k, 'v) partition \<Rightarrow> ('k, 'v) partition" where
  "shrink low up p = map (\<lambda>(b, c). (b, filter (\<lambda>e. \<not> between low up e) c)) p"

lemma range_split:
  assumes "part_inv p" "low \<le> up" "part_it low p = Inr i"
  obtains mid where "om_range i (range_end up p) p = Inr mid" "p = take i p @ mid @ drop (range_end up p) p"
    "shrink low up p = take i p @ shrink low up mid @ drop (range_end up p) p"
    "filter (between low up) (flat p) = filter (between low up) (flat mid)"
proof (rule that)
  note r = range_parts [OF assms]
  let ?mid = "take (range_end up p - i) (drop i p)"
  show "om_range i (range_end up p) p = Inr ?mid" using r(1) by (simp add: om_range_def)
  have "drop i p = ?mid @ drop (range_end up p) p"
    using append_take_drop_id [of "range_end up p - i" "drop i p"] r(1) by simp
  then show split: "p = take i p @ ?mid @ drop (range_end up p) p" by (metis append_take_drop_id)
  have out1: "\<not> between low up e" if in1: "(b, c) \<in> set (take i p)" and e: "e \<in> set c" for b c e
  proof -
    obtain j where "j < length (take i p)" "take i p ! j = (b, c)" using in1 unfolding in_set_conv_nth by blast
    then show ?thesis using r(3) [of j e] e by simp
  qed
  have out2: "\<not> between low up e" if in2: "(b, c) \<in> set (drop (range_end up p) p)" and e: "e \<in> set c" for b c e
  proof -
    obtain j where "j < length (drop (range_end up p) p)" "drop (range_end up p) p ! j = (b, c)"
      using in2 unfolding in_set_conv_nth by blast
    then show ?thesis using r(4) [of "range_end up p + j" e] e by simp
  qed
  have "shrink low up (take i p) = take i p" "shrink low up (drop (range_end up p) p) = drop (range_end up p) p"
    unfolding shrink_def by (rule map_idI; use out1 out2 in \<open>auto simp: filter_id_conv\<close>)+
  then show "shrink low up p = take i p @ shrink low up ?mid @ drop (range_end up p) p"
    using arg_cong [OF split, of "shrink low up"] by (simp add: shrink_def)
  have "filter (between low up) (flat (take i p)) = []" "filter (between low up) (flat (drop (range_end up p) p)) = []"
    using out1 out2 by (auto simp: flat_def filter_empty_conv)
  then show "filter (between low up) (flat p) = filter (between low up) (flat ?mid)"
    using arg_cong [OF split, of "\<lambda>p. filter (between low up) (flat p)"] by (simp add: flat_def)
qed

lemma collect_parts:
  assumes "\<And>b c. (b, c) \<in> set ps \<Longrightarrow> ordered c" "low \<le> up"
  shows "rfold (\<lambda>result (_, c). rbind (om_range (om_lower low c) (om_upper up c) c) (\<lambda>r. Inr (result @ r))) acc ps =
    Inr (acc @ filter (between low up) (flat ps))"
  using assms(1)
proof (induction ps arbitrary: acc)
  case (Cons q ps)
  then show ?case using om_range_between(1) [OF _ assms(2), of "snd q"] by (cases q) (force simp: flat_def)
qed (simp add: flat_def)

lemma erase_parts:
  assumes "\<And>b c. (b, c) \<in> set ps \<Longrightarrow> ordered c" "low \<le> up"
  shows "rfold (\<lambda>done (b, c). rbind (om_erase_range (om_lower low c) (om_upper up c) c) (\<lambda>c'. Inr (done @ [(b, c')]))) acc ps =
    Inr (acc @ map (\<lambda>(b, c). (b, filter (\<lambda>e. \<not> between low up e) c)) ps)"
  using assms(1)
proof (induction ps arbitrary: acc)
  case (Cons q ps)
  then show ?case using om_range_between(2) [OF _ assms(2), of "snd q"] by (cases q) force
qed simp

lemma part_inv_ordered: "part_inv p \<Longrightarrow> (b, c) \<in> set p \<Longrightarrow> ordered c"
  by (auto simp: part_inv_def in_set_conv_nth)

lemma get_range_ok:
  assumes "part_inv p" "low \<le> up"
  shows "get_range_lower_upper low up p = Inr (filter (between low up) (flat p))"
proof -
  obtain i where i: "part_it low p = Inr i" by (rule part_inv_responsible [OF assms(1)])
  obtain mid where m: "om_range i (range_end up p) p = Inr mid" "p = take i p @ mid @ drop (range_end up p) p"
    "filter (between low up) (flat p) = filter (between low up) (flat mid)"
    by (rule range_split [OF assms i])
  have "ordered c" if "(b, c) \<in> set mid" for b c
    using part_inv_ordered [OF assms(1), of b c] that arg_cong [OF m(2), of set] by auto
  then show ?thesis using collect_parts [of mid low up "[]"] assms(2) i m(1,3) by (simp add: get_range_lower_upper_def)
qed

lemma shrink_ok:
  assumes "part_inv p"
  shows "part_inv (shrink low up p)" "flat (shrink low up p) = filter (\<lambda>e. \<not> between low up e) (flat p)"
proof -
  have k: "keys (shrink low up p) = keys p" by (simp add: shrink_def case_prod_beta' comp_def)
  have c: "snd (shrink low up p ! j) = filter (\<lambda>e. \<not> between low up e) (snd (p ! j))" if "j < length p" for j
    using that by (simp add: shrink_def case_prod_beta')
  have "ordered (snd (shrink low up p ! j)) \<and> (\<forall>k\<in>set (keys (snd (shrink low up p ! j))). responsible p j k)"
    if "j < length p" for j
    using assms that ordered_filter [of "snd (p ! j)"] by (auto simp: part_inv_def c [OF that])
  moreover have "length (shrink low up p) = length p" by (simp add: shrink_def)
  ultimately show "part_inv (shrink low up p)"
    using assms k unfolding part_inv_def responsible_cong [OF k] by (metis length_0_conv)
  show "flat (shrink low up p) = filter (\<lambda>e. \<not> between low up e) (flat p)"
    by (simp add: flat_def shrink_def filter_concat case_prod_beta' comp_def)
qed

lemma erase_range_ok:
  assumes "part_inv p" "low \<le> up"
  shows "erase_lower_upper low up p = Inr (shrink low up p)"
proof -
  obtain i where i: "part_it low p = Inr i" by (rule part_inv_responsible [OF assms(1)])
  obtain mid where m: "om_range i (range_end up p) p = Inr mid" "p = take i p @ mid @ drop (range_end up p) p"
    "shrink low up p = take i p @ shrink low up mid @ drop (range_end up p) p"
    by (rule range_split [OF assms i])
  have "ordered c" if "(b, c) \<in> set mid" for b c
    using part_inv_ordered [OF assms(1), of b c] that arg_cong [OF m(2), of set] by auto
  then have "rfold (\<lambda>done (b, c). rbind (om_erase_range (om_lower low c) (om_upper up c) c) (\<lambda>c'. Inr (done @ [(b, c')]))) [] mid =
      Inr (shrink low up mid)"
    using erase_parts [of mid low up "[]"] assms(2) by (simp add: shrink_def)
  then show ?thesis by (simp add: erase_lower_upper_def i m(1) flip: m(3))
qed

subsection \<open>Constructors\<close>

lemma fresh_parts: "p \<noteq> [] \<Longrightarrow> ordered p \<Longrightarrow> (\<And>b c. (b, c) \<in> set p \<Longrightarrow> c = []) \<Longrightarrow> part_inv p \<and> flat p = []"
proof -
  assume p: "p \<noteq> []" "ordered p" and e: "\<And>b c. (b, c) \<in> set p \<Longrightarrow> c = []"
  have "snd (p ! j) = []" if "j < length p" for j using e [of "fst (p ! j)" "snd (p ! j)"] that by simp
  moreover have "flat p = []" using e by (auto simp: flat_def)
  ultimately show ?thesis using p by (simp add: part_inv_def)
qed

lemma default_ok: "part_inv (safe_map_default k0) \<and> flat (safe_map_default k0) = []"
  by (simp add: part_inv_def flat_def safe_map_default_def)

lemma om_emplace_empty: "(\<And>b c. (b, c) \<in> set p \<Longrightarrow> c = []) \<Longrightarrow> (b, c) \<in> set (om_emplace k [] p) \<Longrightarrow> c = []"
  using entries_om_emplace [of k "[]" p] by auto

lemma steps_ok:
  assumes "0 < step" "ordered p" "\<And>b c. (b, c) \<in> set p \<Longrightarrow> c = []"
  shows "\<exists>p'. safe_map_steps i finish step p = Some p' \<and> ordered p' \<and> (\<forall>(b, c)\<in>set p'. c = []) \<and> (i \<le> finish \<or> p \<noteq> [] \<longrightarrow> p' \<noteq> [])"
  using assms(2,3)
proof (induction "nat (finish + 1 - i)" arbitrary: i p rule: less_induct)
  case less
  show ?case
  proof (cases "i \<le> finish")
    case True
    then have "nat (finish + 1 - (i + step)) < nat (finish + 1 - i)" using assms(1) by simp
    moreover have "c = []" if "(b, c) \<in> set (om_emplace i [] p)" for b c
      by (rule om_emplace_empty [OF _ that]) (rule less(3))
    ultimately obtain p' where "safe_map_steps (i + step) finish step (om_emplace i [] p) = Some p'" "ordered p'"
      "\<forall>(b, c)\<in>set p'. c = []" "om_emplace i [] p \<noteq> [] \<longrightarrow> p' \<noteq> []"
      using less(1) [of "i + step" "om_emplace i [] p"] ordered_om_emplace [OF less(2), of i "[]"] by blast
    moreover have "om_emplace i [] p \<noteq> []" using set_om_emplace [of i "[]" p] by (cases "om_emplace i [] p") auto
    ultimately show ?thesis using True by (subst safe_map_steps.simps) simp
  next
    case False
    then show ?thesis using less(2,3) by (subst safe_map_steps.simps) auto
  qed
qed

end
