(* ===== verification/Lock_Properties.thy ===== *)
theory Lock_Properties
  imports Contfree_Laws Spin_Locks Safe_Map_Laws
begin

text \<open>The properties of the locks and of the partitioned map of \<^verbatim>\<open>src/common/include/safe_ptr.hpp\<close>.\<close>

subsection \<open>Runs for the witnesses\<close>

text \<open>A sequence of calls and steps of threads.\<close>

fun cf_exec :: "nat \<Rightarrow> (nat \<times> cf_call option) list \<Rightarrow> contfree_mutex \<Rightarrow> contfree_mutex option" where
  "cf_exec N [] s = Some s"
| "cf_exec N ((t, Some call) # es) s =
     (if cf_pc s t = Idle \<and> may_call t call s then cf_exec N es (cf_start N t call s) else None)"
| "cf_exec N ((t, None) # es) s = (if cf_pc s t = Idle then None else cf_exec N es (cf_next N t (cf_pc s t) s))"

lemma cf_exec_run: "cf_exec N es s = Some s' \<Longrightarrow> (cf_step N)\<^sup>*\<^sup>* s s'"
proof (induction N es s rule: cf_exec.induct)
  case (2 N t call es s)
  then show ?case by (auto split: if_splits intro: converse_rtranclp_into_rtranclp cf_begin)
next
  case (3 N t es s)
  then show ?case by (auto split: if_splits intro: converse_rtranclp_into_rtranclp cf_go)
qed simp

text \<open>Thread 0 takes and returns a shared lock, which registers it, and then takes the exclusive lock.\<close>

definition take_exclusive :: "(nat \<times> cf_call option) list" where
  "take_exclusive = (0, Some LockShared) # replicate 5 (0, None) @ (0, Some UnlockShared) # replicate 2 (0, None) @
     (0, Some Lock) # replicate 7 (0, None)"

lemma take_exclusive_runs:
  "case cf_exec 1 take_exclusive new_contfree of
     None \<Rightarrow> False | Some s \<Rightarrow> cf_pc s 0 = Idle \<and> cf_excl s 0 = 1 \<and> cf_index s 0 = Some 0"
  by code_simp

lemma take_exclusive_reached:
  obtains s where "(cf_step 1)\<^sup>*\<^sup>* new_contfree s" "cf_pc s 0 = Idle" "cf_excl s 0 = 1" "cf_index s 0 = Some 0"
  using take_exclusive_runs cf_exec_run by (fastforce split: option.splits)

definition rs_steps :: "nat \<Rightarrow> nat \<Rightarrow> recursive_spinlock \<Rightarrow> recursive_spinlock" where
  "rs_steps n t s = ((\<lambda>s. rs_try_lock t (rs_pc s t) s) ^^ n) s"

lemma rs_steps_run: "rs_step\<^sup>*\<^sup>* s (rs_steps n t s)"
  by (induction n) (auto simp: rs_steps_def intro: rtranclp.rtrancl_into_rtrancl rs_locking)

subsection \<open>Properties\<close>

text \<open>C29. The contention-free mutex excludes: while a thread has the exclusive lock, no other thread has an exclusive
  or a shared lock, with any number of threads and slots, however their steps are interleaved; and no assertion of
  its methods fails.\<close>

theorem contfree_excludes:
  assumes "(cf_step N)\<^sup>*\<^sup>* new_contfree s"
  shows "(0 < cf_excl s t \<longrightarrow> u \<noteq> t \<longrightarrow> cf_excl s u = 0 \<and> cf_shared s u = 0 \<and> cf_fallback s u = 0) \<and> cf_pc s u \<noteq> Aborted"
proof -
  have inv: "cf_inv N s" by (rule cf_inv_reach [OF assms])
  then have "cf_pc s u \<noteq> Aborted" using places_okD(1) [of s u] by (auto simp: cf_inv_def)
  then show ?thesis using exclusion [OF inv] by blast
qed

theorem contfree_excludes_witness:
  "\<exists>s. (cf_step 1)\<^sup>*\<^sup>* new_contfree s \<and> cf_excl s 0 = 1 \<and> cf_excl s 7 = 0 \<and> cf_shared s 7 = 0"
proof -
  obtain s where s: "(cf_step 1)\<^sup>*\<^sup>* new_contfree s" "cf_excl s 0 = 1" by (rule take_exclusive_reached)
  then show ?thesis using contfree_excludes [OF s(1), of 0 7] by auto
qed

text \<open>C30. A thread that has the exclusive lock and a slot of its own never gets a shared lock in addition: it waits
  forever for itself, and no other thread gets any lock. The comment of the class promises that an exclusive lock may
  be followed by a shared one.\<close>

theorem writer_waits_for_itself:
  assumes "(cf_step N)\<^sup>*\<^sup>* new_contfree s" "cf_pc s t = Idle" "0 < cf_excl s t" "cf_index s t \<noteq> None"
    and "(cf_step N)\<^sup>*\<^sup>* (cf_start N t LockShared s) s'"
  shows "cf_pc s' t \<noteq> Idle \<and> cf_shared s' t = 0 \<and>
    (u \<noteq> t \<longrightarrow> cf_excl s' u = 0 \<and> cf_shared s' u = 0 \<and> cf_fallback s' u = 0)"
proof -
  let ?s = "cf_start N t LockShared s"
  have "cf_step N s ?s" using assms(2) by (intro cf_begin) simp_all
  then have "cf_inv N ?s" using cf_inv_step cf_inv_reach [OF assms(1)] by blast
  moreover have "stuck t ?s" using assms(3,4) by (simp add: stuck_def goto_def)
  ultimately have s': "cf_inv N s'" "stuck t s'" using stuck_run [OF assms(5)] by auto
  then have "cf_shared s' t = 0" using places_okD(2) [of s' t] by (auto simp: cf_inv_def stuck_def)
  moreover have "cf_pc s' t \<noteq> Idle" using s'(2) by (auto simp: stuck_def)
  ultimately show ?thesis using exclusion [OF s'(1)] s'(2) by (auto simp: stuck_def)
qed

theorem writer_waits_for_itself_witness:
  "\<exists>s. (cf_step 1)\<^sup>*\<^sup>* new_contfree s \<and> cf_excl s 0 = 1 \<and>
     (\<forall>s'. (cf_step 1)\<^sup>*\<^sup>* (cf_start 1 0 LockShared s) s' \<longrightarrow> cf_pc s' 0 \<noteq> Idle)"
proof -
  obtain s where s: "(cf_step 1)\<^sup>*\<^sup>* new_contfree s" "cf_pc s 0 = Idle" "cf_excl s 0 = 1" "cf_index s 0 = Some 0"
    by (rule take_exclusive_reached)
  then show ?thesis using writer_waits_for_itself [OF s(1,2), of _ 0] by auto
qed

text \<open>The recursive spin lock belongs to one thread at a time: two threads that have it are the same, it is
  the recorded owner, the counter is the number of times it has locked the lock, and the assertions of \<open>unlock\<close> hold.\<close>

theorem recursive_spinlock_excludes:
  assumes "rs_step\<^sup>*\<^sup>* new_recursive_spinlock s" "0 < rs_depth s t"
  shows "(u \<noteq> t \<longrightarrow> rs_depth s u = 0) \<and> rs_pc s u \<noteq> RS_Aborted \<and>
    rs_owner_thread_id s = Some t \<and> rs_recursive_counter s = int (rs_depth s t)"
proof -
  have inv: "rs_inv s" by (rule rs_inv_reach [OF assms(1)])
  have "rs_holds s t" using assms(2) by (simp add: rs_holds_def)
  then have "\<forall>u. u \<noteq> t \<longrightarrow> \<not> rs_holds s u" "rs_taken t s" using inv unfolding rs_inv_def by metis+
  moreover have "rs_pc s t \<notin> {RS_StoreOwner, RS_ClearFlag}" using assms(2) calculation(2) by (auto simp: rs_taken_def)
  ultimately show ?thesis using inv by (auto simp: rs_inv_def rs_holds_def rs_taken_def)
qed

theorem recursive_spinlock_excludes_witness:
  "\<exists>s. rs_step\<^sup>*\<^sup>* new_recursive_spinlock s \<and> rs_depth s 3 = 1 \<and> rs_owner_thread_id s = Some 3 \<and> rs_depth s 4 = 0"
proof -
  let ?s = "rs_steps 4 3 (rs_goto 3 RS_TestAndSet new_recursive_spinlock)"
  have "rs_step new_recursive_spinlock (rs_goto 3 RS_TestAndSet new_recursive_spinlock)"
    by (rule rs_call_lock) (simp add: new_recursive_spinlock_def)
  then have r: "rs_step\<^sup>*\<^sup>* new_recursive_spinlock ?s" using rs_steps_run by (rule converse_rtranclp_into_rtranclp)
  have d: "rs_depth ?s 3 = 1" by code_simp
  show ?thesis using recursive_spinlock_excludes [OF r, of 3 4] r d by (intro exI [of _ ?s]) simp
qed

text \<open>A partitioned map is one ordered map: adding, removing, looking up, counting and clearing act on the
  concatenation of the parts as on a single map, the methods on a range see exactly the entries with a key of the range
  in the order of the keys, and every method keeps the parts in order.\<close>

theorem partitioned_map_is_a_map:
  assumes "part_inv p" "low \<le> up"
  shows "ordered (flat p) \<and> sm_size p = card (dom (map_of (flat p))) \<and>
    (\<exists>p'. sm_emplace k v p = Inr p' \<and> part_inv p' \<and>
       map_of (flat p') = (if k \<in> dom (map_of (flat p)) then map_of (flat p) else (map_of (flat p))(k \<mapsto> v))) \<and>
    (\<exists>p'. sm_erase k p = Inr (if k \<in> dom (map_of (flat p)) then 1 else 0, p') \<and> part_inv p' \<and>
       map_of (flat p') = (map_of (flat p))(k := None)) \<and>
    get_range_equal k p = Inr (case map_of (flat p) k of None \<Rightarrow> [] | Some v \<Rightarrow> [(k, v)]) \<and>
    get_range_lower_upper low up p = Inr (filter (between low up) (flat p)) \<and>
    (\<exists>p'. erase_lower_upper low up p = Inr p' \<and> part_inv p' \<and> flat p' = filter (\<lambda>e. \<not> between low up e) (flat p)) \<and>
    part_inv (sm_clear p) \<and> flat (sm_clear p) = []"
  using flat_ordered [OF assms(1)] sm_size_ok [OF assms(1)] sm_emplace_ok [OF assms(1), of k v] sm_erase_ok [OF assms(1), of k]
    get_range_equal_ok [OF assms(1), of k] get_range_ok [OF assms] erase_range_ok [OF assms] shrink_ok [OF assms(1), of low up]
    sm_clear_ok [OF assms(1)]
  by (intro conjI) simp_all

definition two_parts :: "(nat, string) partition" where
  "two_parts = [(10, [(3, ''a'')]), (20, [(15, ''b''), (30, ''c'')])]"

theorem partitioned_map_is_a_map_witness:
  "get_range_lower_upper 4 16 two_parts = Inr [(15, ''b'')] \<and> sm_size two_parts = card (dom (map_of (flat two_parts)))"
proof -
  have "part_inv two_parts"
    by (auto simp: part_inv_def two_parts_def responsible_def less_Suc_eq numeral_2_eq_2)
  moreover have "filter (between 4 16) (flat two_parts) = [(15, ''b'')]"
    by (simp add: two_parts_def flat_def between_def)
  ultimately show ?thesis using partitioned_map_is_a_map [of two_parts 4 16] by auto
qed

text \<open>The constructors give maps on which the methods work; the one with a step ends when the step is positive.\<close>

lemma steps_constructor_ends:
  assumes "0 < step" "start \<le> finish"
  shows "\<exists>p. safe_map_steps start finish step [] = Some p \<and> part_inv p \<and> flat p = []"
  using steps_ok [OF assms(1), of "[]" start finish] fresh_parts assms(2) by fastforce

end
