(* ===== verification/Socket_Cache.thy ===== *)
theory Socket_Cache
  imports Comm_Receive
begin

text \<open>
  How messages leave a process: \<^verbatim>\<open>common/include/zmq/socket_cache.cpp\<close> and \<^verbatim>\<open>common/include/zmq/zmq_util.cpp\<close>. Handlers write
  \<open>pushers[address]\<close> to get the socket of an address and \<open>send_string\<close> to send through it; the other theories list what
  they send as pairs of an address and a message. Here the two are compared.

  The library ZeroMQ is a parameter: a state \<open>'c\<close> of the context, the creation of a connected socket, the sending of a
  message, and the messages that have been accepted for each endpoint. \<open>zmq_ok\<close> says what is used of it: a socket is
  connected to the endpoint given to \<open>connect\<close>, and a message that is sent through it is accepted for this endpoint.
\<close>

datatype zmq_message = Zmq_Message (msg_size: nat) (msg_data: string)

record ('c, 's) zmq_lib =
  zmq_socket :: "int \<Rightarrow> Address \<Rightarrow> 'c \<Rightarrow> 's \<times> 'c"
  zmq_send :: "'s \<Rightarrow> zmq_message \<Rightarrow> 'c \<Rightarrow> 'c"
  zmq_endpoint :: "'s \<Rightarrow> Address"
  zmq_sent :: "'c \<Rightarrow> (Address \<times> zmq_message) list"

definition zmq_ok :: "('c, 's) zmq_lib \<Rightarrow> bool" where
  "zmq_ok lib \<longleftrightarrow>
     (\<forall>ty a c. zmq_endpoint lib (fst (zmq_socket lib ty a c)) = a \<and> zmq_sent lib (snd (zmq_socket lib ty a c)) = zmq_sent lib c) \<and>
     (\<forall>s m c. zmq_sent lib (zmq_send lib s m c) = zmq_sent lib c @ [(zmq_endpoint lib s, m)])"

subsection \<open>zmq\_util.cpp\<close>

definition message_to_string :: "zmq_message \<Rightarrow> string" where
  "message_to_string message = take (msg_size message) (msg_data message)"

text \<open>The message is created with the size of the string and then filled byte by byte.\<close>

definition string_to_message :: "string \<Rightarrow> zmq_message" where
  "string_to_message s = Zmq_Message (length s) (map (\<lambda>i. s ! i) [0..<length s])"

definition send_string :: "('c, 's) zmq_lib \<Rightarrow> string \<Rightarrow> 's \<Rightarrow> 'c \<Rightarrow> 'c" where
  "send_string lib s socket c = zmq_send lib socket (string_to_message s) c"

subsection \<open>socket\_cache.cpp\<close>

record 's SocketCache =
  sc_cache :: "(Address, 's) umap"
  sc_type :: int

definition new_SocketCache :: "int \<Rightarrow> 's SocketCache" where
  "new_SocketCache ty = \<lparr>sc_cache = [], sc_type = ty\<rparr>"

definition socket_At :: "('c, 's) zmq_lib \<Rightarrow> Address \<Rightarrow> 's SocketCache \<times> 'c \<Rightarrow> 's \<times> 's SocketCache \<times> 'c" where
  "socket_At lib addr = (\<lambda>(cache, c).
     case map_of (sc_cache cache) addr of
       Some socket \<Rightarrow> (socket, cache, c)
     | None \<Rightarrow> let (socket, c') = zmq_socket lib (sc_type cache) addr c
               in (socket, cache\<lparr>sc_cache := emplace addr socket (sc_cache cache)\<rparr>, c'))"

definition clear_sockets :: "'s SocketCache \<Rightarrow> 's SocketCache" where
  "clear_sockets cache = cache\<lparr>sc_cache := []\<rparr>"

text \<open>What a process does with its cache: \<open>send_string(s, &pushers[address])\<close>, or \<open>clear_cache\<close>.\<close>

datatype pushers_use = Push_To Address string | Clear_Pushers

fun use_pushers :: "('c, 's) zmq_lib \<Rightarrow> pushers_use \<Rightarrow> 's SocketCache \<times> 'c \<Rightarrow> 's SocketCache \<times> 'c" where
  "use_pushers lib (Push_To address s) st =
     (let (socket, cache, c) = socket_At lib address st in (cache, send_string lib s socket c))"
| "use_pushers lib Clear_Pushers (cache, c) = (clear_sockets cache, c)"

fun pushed :: "pushers_use \<Rightarrow> (Address \<times> string) list" where
  "pushed (Push_To address s) = [(address, s)]"
| "pushed Clear_Pushers = []"

text \<open>The messages accepted so far, as handlers list them.\<close>

definition accepted :: "('c, 's) zmq_lib \<Rightarrow> 'c \<Rightarrow> (Address \<times> string) list" where
  "accepted lib c = map (\<lambda>(a, m). (a, message_to_string m)) (zmq_sent lib c)"

subsection \<open>Laws\<close>

lemma message_roundtrip [simp]: "message_to_string (string_to_message s) = s"
  by (simp add: message_to_string_def string_to_message_def map_nth)

definition sockets_ok :: "('c, 's) zmq_lib \<Rightarrow> 's SocketCache \<Rightarrow> bool" where
  "sockets_ok lib cache \<longleftrightarrow> (\<forall>a s. map_of (sc_cache cache) a = Some s \<longrightarrow> zmq_endpoint lib s = a)"

lemma sockets_ok_new: "sockets_ok lib (new_SocketCache ty)" "sockets_ok lib (clear_sockets cache)"
  by (simp_all add: sockets_ok_def new_SocketCache_def clear_sockets_def)

lemma socket_At_ok:
  assumes "zmq_ok lib" "sockets_ok lib cache" "socket_At lib addr (cache, c) = (socket, cache', c')"
  shows "zmq_endpoint lib socket = addr" "sockets_ok lib cache'" "zmq_sent lib c' = zmq_sent lib c"
    "map_of (sc_cache cache') addr = Some socket"
  using assms
  by (auto simp: socket_At_def zmq_ok_def sockets_ok_def emplace_def split: option.splits prod.splits if_splits)
    (metis fst_conv snd_conv)+

lemma use_pushers_ok:
  assumes "zmq_ok lib" "sockets_ok lib cache" "use_pushers lib u (cache, c) = (cache', c')"
  shows "sockets_ok lib cache' \<and> accepted lib c' = accepted lib c @ pushed u"
proof (cases u)
  case (Push_To a s)
  obtain socket cache1 c1 where at: "socket_At lib a (cache, c) = (socket, cache1, c1)" by (metis prod_cases3)
  note ok = socket_At_ok [OF assms(1,2) at]
  have "cache' = cache1" "c' = send_string lib s socket c1" using assms(3) Push_To at by auto
  then show ?thesis using ok assms(1) Push_To by (simp add: accepted_def send_string_def zmq_ok_def)
next
  case Clear_Pushers
  then show ?thesis using assms(3) sockets_ok_new(2) by auto
qed

lemma pushers_run:
  assumes "zmq_ok lib" "sockets_ok lib cache"
  shows "accepted lib (snd (fold (use_pushers lib) us (cache, c))) = accepted lib c @ concat (map pushed us)"
  using assms(2)
proof (induction us arbitrary: cache c)
  case (Cons u us)
  obtain cache' c' where u: "use_pushers lib u (cache, c) = (cache', c')" by fastforce
  then show ?case using use_pushers_ok [OF assms(1) Cons.prems u] Cons.IH by simp
qed simp

subsection \<open>Property\<close>

text \<open>C31. What a process sends through its sockets is what its handlers list: every message is accepted once, for the
  address it was sent to and in the order of the sends, whichever sockets the cache creates and whenever it is cleared;
  and a cached socket is used again.\<close>

theorem pushers_send_the_list:
  assumes "zmq_ok lib"
  shows "accepted lib (snd (fold (use_pushers lib) us (new_SocketCache ty, c))) = accepted lib c @ concat (map pushed us) \<and>
    (socket_At lib addr st = (socket, st') \<longrightarrow> socket_At lib addr st' = (socket, st'))"
proof -
  have "socket_At lib addr st' = (socket, st')" if "socket_At lib addr st = (socket, st')"
    using that by (auto simp: socket_At_def emplace_def split: option.splits prod.splits if_splits)
  then show ?thesis using pushers_run [OF assms sockets_ok_new(1)] by blast
qed

text \<open>A library whose context is the list of accepted messages.\<close>

definition log_zmq :: "((Address \<times> zmq_message) list, Address) zmq_lib" where
  "log_zmq = \<lparr>zmq_socket = (\<lambda>ty a c. (a, c)), zmq_send = (\<lambda>s m c. c @ [(s, m)]), zmq_endpoint = (\<lambda>s. s), zmq_sent = (\<lambda>c. c)\<rparr>"

theorem pushers_send_the_list_witness:
  "accepted log_zmq (snd (fold (use_pushers log_zmq)
     [Push_To ''a'' ''x'', Push_To ''b'' ''y'', Clear_Pushers, Push_To ''a'' ''z''] (new_SocketCache 8, []))) =
   [(''a'', ''x''), (''b'', ''y''), (''a'', ''z'')]"
proof -
  have "zmq_ok log_zmq" by (simp add: zmq_ok_def log_zmq_def)
  then show ?thesis
    by (subst conjunct1 [OF pushers_send_the_list]) (simp_all add: accepted_def log_zmq_def)
qed

end
