(* ===== verification/Ipc_Pool.thy ===== *)
theory Ipc_Pool
  imports Prelude
begin

text \<open>
  The pool of block numbers for large messages, \<^verbatim>\<open>src/deps/shm-ipc/src/libipc/utility/id_pool.h\<close>:
  a free list threaded through an array of 8-bit links, kept in shared memory and started by
  whoever uses the zeroed memory first. The interface \<open>id_allocator\<close> states what its users
  rely on.
\<close>

definition invalid_value :: nat where
  "invalid_value = 2 ^ 64 - 1"

definition large_msg_cache :: nat where
  "large_msg_cache = 32"

definition max_count :: nat where
  "max_count = min large_msg_cache 255"

record id_pool =
  ip_next :: "8 word list"
  ip_cursor :: "8 word"
  ip_prepared :: bool

definition zero_pool :: id_pool where
  "zero_pool = \<lparr>ip_next = replicate max_count 0, ip_cursor = 0, ip_prepared = False\<rparr>"

lemma link_unat: "i < max_count \<Longrightarrow> unat (of_nat (i + 1) :: 8 word) = i + 1"
  by (simp add: max_count_def large_msg_cache_def unat_of_nat del: of_nat_add of_nat_Suc)

function pool_init :: "nat \<Rightarrow> 8 word list \<Rightarrow> 8 word list" where
  "pool_init i nx =
     (if i < max_count then (let v = of_nat (i + 1) in pool_init (unat (v :: 8 word)) (nx[i := v]))
      else nx)"
  by pat_completeness auto
termination
  by (relation "measure (\<lambda>(i, nx). max_count - i)")
    (auto simp: link_unat [simplified])

definition pool_invalid :: "id_pool \<Rightarrow> bool" where
  "pool_invalid p \<longleftrightarrow> p = zero_pool"

definition pool_prepare :: "id_pool \<Rightarrow> id_pool" where
  "pool_prepare p =
     (let p1 = (if \<not> ip_prepared p \<and> pool_invalid p then p\<lparr>ip_next := pool_init 0 (ip_next p)\<rparr> else p)
      in p1\<lparr>ip_prepared := True\<rparr>)"

definition pool_empty :: "id_pool \<Rightarrow> bool" where
  "pool_empty p \<longleftrightarrow> unat (ip_cursor p) = max_count"

definition pool_acquire :: "id_pool \<Rightarrow> (nat \<times> id_pool) res" where
  "pool_acquire p =
     (if pool_empty p then Inr (invalid_value, p)
      else (let i = unat (ip_cursor p) in
        if i < length (ip_next p) then Inr (i, p\<lparr>ip_cursor := ip_next p ! i\<rparr>) else Inl OutOfRange))"

definition pool_release :: "nat \<Rightarrow> id_pool \<Rightarrow> (bool \<times> id_pool) res" where
  "pool_release i p =
     (if i = invalid_value then Inr (False, p)
      else if i < length (ip_next p)
      then Inr (True, p\<lparr>ip_next := (ip_next p)[i := ip_cursor p], ip_cursor := of_nat i\<rparr>)
      else Inl OutOfRange)"

subsection \<open>The free list\<close>

primrec chain :: "8 word list \<Rightarrow> 8 word \<Rightarrow> nat list \<Rightarrow> bool" where
  "chain nx c [] \<longleftrightarrow> unat c = max_count"
| "chain nx c (i # is) \<longleftrightarrow> unat c = i \<and> i < max_count \<and> chain nx (nx ! i) is"

definition pool_free :: "id_pool \<Rightarrow> nat list \<Rightarrow> bool" where
  "pool_free p is \<longleftrightarrow>
     length (ip_next p) = max_count \<and> distinct is \<and> ip_prepared p \<and> chain (ip_next p) (ip_cursor p) is"

lemma chain_update [simp]: "i \<notin> set is \<Longrightarrow> chain (nx[i := v]) c is = chain nx c is"
  by (induction "is" arbitrary: c) auto

lemma chain_below: "chain nx c is \<Longrightarrow> i \<in> set is \<Longrightarrow> i < max_count"
  by (induction "is" arbitrary: c) auto

lemma max_count_small: "max_count < 256" "max_count \<noteq> invalid_value" "i < max_count \<Longrightarrow> i \<noteq> invalid_value"
  by (simp_all add: max_count_def large_msg_cache_def invalid_value_def)

lemma free_below: "pool_free p is \<Longrightarrow> i \<in> set is \<Longrightarrow> i < max_count"
  by (auto simp: pool_free_def dest: chain_below)

lemma acquire_free:
  assumes "pool_free p is"
  shows "\<exists>p'. pool_acquire p = Inr (case is of [] \<Rightarrow> invalid_value | i # _ \<Rightarrow> i, p') \<and> pool_free p' (tl is)"
  using assms
  by (cases "is") (auto simp: pool_free_def pool_acquire_def pool_empty_def)

lemma release_free:
  assumes "pool_free p is" "i < max_count" "i \<notin> set is"
  shows "\<exists>p'. pool_release i p = Inr (True, p') \<and> pool_free p' (i # is)"
  using assms max_count_small
  by (auto simp: pool_free_def pool_release_def unat_of_nat)

lemma pool_init_nth:
  assumes "length nx = max_count" "i \<le> max_count"
  shows "length (pool_init i nx) = max_count \<and>
    (\<forall>k < max_count. pool_init i nx ! k = (if k < i then nx ! k else of_nat (k + 1)))"
  using assms
proof (induction i nx rule: pool_init.induct)
  case (1 i nx)
  show ?case
  proof (cases "i < max_count")
    case True
    note u = link_unat [OF True]
    have IH: "length (pool_init (i + 1) (nx[i := of_nat (i + 1)])) = max_count \<and>
      (\<forall>k < max_count. pool_init (i + 1) (nx[i := of_nat (i + 1)]) ! k =
        (if k < i + 1 then nx[i := of_nat (i + 1)] ! k else of_nat (k + 1)))"
      using "1.IH" [OF True refl] "1.prems"(1) True unfolding u by simp
    have "pool_init i nx = pool_init (i + 1) (nx[i := of_nat (i + 1)])"
      using True u by (simp add: Let_def del: of_nat_add of_nat_Suc)
    then show ?thesis
      using IH "1.prems"(1) True by (auto simp: nth_list_update less_Suc_eq simp del: pool_init.simps)
  next
    case False
    then have "pool_init i nx = nx" by simp
    then show ?thesis using "1.prems" False by (simp del: pool_init.simps)
  qed
qed

lemma chain_init:
  assumes "\<forall>k < max_count. nx ! k = of_nat (k + 1)" "i \<le> max_count"
  shows "chain nx (of_nat i) [i..<max_count]"
  using assms(2)
proof (induction "max_count - i" arbitrary: i)
  case 0
  then show ?case using max_count_small(1) by (simp add: unat_of_nat)
next
  case (Suc m)
  then have "i < max_count" by simp
  then show ?case
    using Suc.hyps(1) [of "i + 1"] Suc.hyps(2) assms(1) max_count_small(1)
    by (simp add: upt_conv_Cons unat_of_nat)
qed

lemma prepare_zero: "pool_free (pool_prepare zero_pool) [0..<max_count]"
  using pool_init_nth [of "replicate max_count 0" 0] chain_init [of "pool_init 0 (replicate max_count 0)" 0]
  by (simp add: pool_free_def pool_prepare_def pool_invalid_def zero_pool_def del: pool_init.simps)

lemma prepare_free: "pool_free p is \<Longrightarrow> pool_prepare p = p"
  by (simp add: pool_free_def pool_prepare_def)

subsection \<open>The interface\<close>

locale id_allocator =
  fixes acquire :: "'p \<Rightarrow> (nat \<times> 'p) res"
    and release :: "nat \<Rightarrow> 'p \<Rightarrow> (bool \<times> 'p) res"
    and free :: "'p \<Rightarrow> nat list \<Rightarrow> bool"
    and none bound :: nat
  assumes acquire_law: "free p is \<Longrightarrow>
      \<exists>p'. acquire p = Inr (case is of [] \<Rightarrow> none | i # _ \<Rightarrow> i, p') \<and> free p' (tl is)"
    and release_law: "free p is \<Longrightarrow> i < bound \<Longrightarrow> i \<notin> set is \<Longrightarrow>
      \<exists>p'. release i p = Inr (True, p') \<and> free p' (i # is)"
    and distinct_law: "free p is \<Longrightarrow> distinct is"
    and bound_law: "free p is \<Longrightarrow> set is \<subseteq> {..<bound}"
    and none_law: "bound \<le> none"
begin

fun acquire_many :: "nat \<Rightarrow> 'p \<Rightarrow> (nat list \<times> 'p) res" where
  "acquire_many 0 p = Inr ([], p)"
| "acquire_many (Suc k) p =
     rbind (acquire p) (\<lambda>(i, p1). rbind (acquire_many k p1) (\<lambda>(is, p2). Inr (i # is, p2)))"

lemma acquire_many_free:
  "free p is \<Longrightarrow> k \<le> length is \<Longrightarrow> \<exists>p'. acquire_many k p = Inr (take k is, p') \<and> free p' (drop k is)"
proof (induction k arbitrary: p "is")
  case (Suc k)
  then obtain i js where c: "is = i # js" by (cases "is") auto
  obtain p1 where p1: "acquire p = Inr (i, p1)" "free p1 js"
    using acquire_law [OF Suc.prems(1)] c by auto
  from Suc.IH [OF p1(2)] Suc.prems(2) c show ?case
    using p1(1) by auto
qed simp

lemma acquired_distinct:
  assumes "free p is" "k \<le> length is" "acquire_many k p = Inr (js, p')"
  shows "distinct js" "set js \<subseteq> {..<bound}" "length js = k"
  using acquire_many_free [OF assms(1,2)] assms(3) distinct_law [OF assms(1)] bound_law [OF assms(1)]
    assms(2) set_take_subset [of k "is"] by auto

lemma acquire_release:
  assumes "free p (i # is)"
  shows "\<exists>p' p''. acquire p = Inr (i, p') \<and> release i p' = Inr (True, p'') \<and> free p'' (i # is)"
proof -
  obtain p' where p': "acquire p = Inr (i, p')" "free p' is"
    using acquire_law [OF assms] by auto
  then show ?thesis
    using release_law [OF p'(2), of i] distinct_law [OF assms] bound_law [OF assms] by auto
qed

end

interpretation pool: id_allocator pool_acquire pool_release pool_free invalid_value max_count
proof unfold_locales
  show "max_count \<le> invalid_value"
    by (simp add: max_count_def large_msg_cache_def invalid_value_def)
qed (use acquire_free release_free free_below in \<open>auto simp: pool_free_def\<close>)

end
