(* ===== verification/Ipc_Storage.thy ===== *)
theory Ipc_Storage
  imports Ipc_Pool
begin

text \<open>
  Blocks of shared memory for large messages, \<open>apply_storage\<close> to \<open>clear_storage\<close> of
  \<^verbatim>\<open>src/deps/shm-ipc/src/ipc.cpp\<close>. For every size class there is a pool of block numbers and, per
  block, its bytes and a counter of the receivers that have not read it yet.

  \<^item> \<open>cls_mem\<close> is the shared memory of a class; fresh shared memory is zero.
  \<^item> \<open>cls_shm\<close> is one process's table of the objects it has mapped. Whether the operating
    system maps an object is the parameter \<open>os\<close> (class, block number or pool).
  \<^item> The pool is used under its lock and the counters are atomic; an operation is one step.
\<close>

type_synonym byte_t = "8 word"

definition data_length :: nat where
  "data_length = 64"

definition large_msg_limit :: nat where
  "large_msg_limit = data_length"

record cls_mem =
  cm_pool :: id_pool
  cm_cc :: "nat \<Rightarrow> 32 word"
  cm_block :: "nat \<Rightarrow> byte_t list"

record cls_shm =
  cs_info :: "nat \<Rightarrow> bool"
  cs_mems :: "nat \<Rightarrow> nat \<Rightarrow> bool"

type_synonym storages = "nat \<Rightarrow> cls_mem"
type_synonym shm_os = "nat \<Rightarrow> nat option \<Rightarrow> bool"

definition calc_cls_size :: "nat \<Rightarrow> nat" where
  "calc_cls_size sz =
     ((((sz + 2 ^ 64 - 1) mod 2 ^ 64) div large_msg_limit + 1) * large_msg_limit) mod 2 ^ 64"

definition cls_storage_info :: "shm_os \<Rightarrow> nat \<Rightarrow> cls_shm \<Rightarrow> bool \<times> cls_shm" where
  "cls_storage_info os cls l =
     (if \<not> cs_info l cls \<and> \<not> os cls None then (False, l)
      else (True, l\<lparr>cs_info := (cs_info l)(cls := True)\<rparr>))"

definition cls_storage_mem :: "shm_os \<Rightarrow> nat \<Rightarrow> nat \<Rightarrow> cls_shm \<Rightarrow> (bool \<times> cls_shm) res" where
  "cls_storage_mem os cls i l =
     (if i = invalid_value then Inr (False, l)
      else if \<not> i < max_count then Inl OutOfRange
      else if \<not> cs_mems l cls i \<and> \<not> os cls (Some i) then Inr (False, l)
      else Inr (True, l\<lparr>cs_mems := (cs_mems l)(cls := (cs_mems l cls)(i := True))\<rparr>))"

definition set_cc :: "nat \<Rightarrow> 32 word \<Rightarrow> cls_mem \<Rightarrow> cls_mem" where
  "set_cc i n c = c\<lparr>cm_cc := (cm_cc c)(i := n)\<rparr>"

definition apply_storage :: "shm_os \<Rightarrow> nat \<Rightarrow> nat \<Rightarrow> cls_shm \<times> storages \<Rightarrow>
    ((nat \<times> bool) \<times> cls_shm \<times> storages) res" where
  "apply_storage os conn_count sz = (\<lambda>(l, m).
     if conn_count = 0 then Inr ((0, False), l, m)
     else (let cls = calc_cls_size sz; (info, l1) = cls_storage_info os cls l in
       if \<not> info then Inr ((0, False), l1, m)
       else rbind (pool_acquire (pool_prepare (cm_pool (m cls)))) (\<lambda>(i, p).
         let m1 = m(cls := (m cls)\<lparr>cm_pool := p\<rparr>) in
         rbind (cls_storage_mem os cls i l1) (\<lambda>(ptr, l2).
           if \<not> ptr then Inr ((0, False), l2, m1)
           else Inr ((i, True), l2, m1(cls := set_cc i (of_nat conn_count) (m1 cls)))))))"

definition find_storage :: "shm_os \<Rightarrow> nat \<Rightarrow> nat \<Rightarrow> cls_shm \<times> storages \<Rightarrow>
    (bool \<times> cls_shm \<times> storages) res" where
  "find_storage os i sz = (\<lambda>(l, m).
     let cls = calc_cls_size sz in
     rbind (cls_storage_mem os cls i l) (\<lambda>(ptr, l1).
       if \<not> ptr then Inr (False, l1, m) else Inr (cm_cc (m cls) i \<noteq> 0, l1, m)))"

definition release_id :: "shm_os \<Rightarrow> nat \<Rightarrow> nat \<Rightarrow> cls_shm \<times> storages \<Rightarrow> (cls_shm \<times> storages) res" where
  "release_id os cls i = (\<lambda>(l, m).
     let (info, l1) = cls_storage_info os cls l in
     if \<not> info then Inr (l1, m)
     else rbind (pool_release i (cm_pool (m cls))) (\<lambda>(b, p). Inr (l1, m(cls := (m cls)\<lparr>cm_pool := p\<rparr>))))"

definition recycle_storage :: "shm_os \<Rightarrow> nat \<Rightarrow> nat \<Rightarrow> cls_shm \<times> storages \<Rightarrow> (cls_shm \<times> storages) res" where
  "recycle_storage os i sz = (\<lambda>(l, m).
     if i = invalid_value then Inr (l, m)
     else if \<not> i < max_count then Inl OutOfRange
     else (let cls = calc_cls_size sz in
       if \<not> cs_mems l cls i then Inr (l, m)
       else (let cc = cm_cc (m cls) i; m1 = m(cls := set_cc i (cc - 1) (m cls)) in
         if cc > 1 then Inr (l, m1) else release_id os cls i (l, m1))))"

definition clear_storage :: "shm_os \<Rightarrow> nat \<Rightarrow> nat \<Rightarrow> cls_shm \<times> storages \<Rightarrow> (cls_shm \<times> storages) res" where
  "clear_storage os i sz = (\<lambda>(l, m).
     if i = invalid_value then Inr (l, m)
     else (let cls = calc_cls_size sz in
       rbind (cls_storage_mem os cls i l) (\<lambda>(ptr, l1).
         if \<not> ptr then Inr (l1, m)
         else if cm_cc (m cls) i = 0 then Inr (l1, m)
         else release_id os cls i (l1, m(cls := set_cc i 0 (m cls))))))"

definition zero_cls :: cls_mem where
  "zero_cls = \<lparr>cm_pool = zero_pool, cm_cc = (\<lambda>i. 0), cm_block = (\<lambda>i. [])\<rparr>"

subsection \<open>The blocks in use\<close>

text \<open>\<open>live i = Some n\<close>: block \<open>i\<close> is in use and \<open>n\<close> receivers have not read it.\<close>

definition cls_ok :: "cls_mem \<Rightarrow> (nat \<rightharpoonup> nat) \<Rightarrow> bool" where
  "cls_ok c live \<longleftrightarrow>
     dom live \<subseteq> {..<max_count} \<and>
     (\<exists>is. pool_free (pool_prepare (cm_pool c)) is \<and> set is = {..<max_count} - dom live) \<and>
     (live \<noteq> Map.empty \<longrightarrow> ip_prepared (cm_pool c)) \<and>
     (\<forall>i n. live i = Some n \<longrightarrow> 0 < n \<and> n < 2 ^ 32 \<and> cm_cc c i = of_nat n) \<and>
     (\<forall>i < max_count. live i = None \<longrightarrow> cm_cc c i = 0)"

definition read_once :: "nat \<Rightarrow> (nat \<rightharpoonup> nat) \<Rightarrow> (nat \<rightharpoonup> nat)" where
  "read_once i live = (case live i of None \<Rightarrow> live
     | Some n \<Rightarrow> if 1 < n then live(i \<mapsto> n - 1) else live(i := None))"

lemma cls_ok_zero: "cls_ok zero_cls Map.empty"
  using prepare_zero by (auto simp: cls_ok_def zero_cls_def intro!: exI [of _ "[0..<max_count]"])

lemma cls_okD:
  assumes "cls_ok c live" "live i = Some n"
  shows "i < max_count" "0 < n" "n < 2 ^ 32" "cm_cc c i = of_nat n" "ip_prepared (cm_pool c)"
  using assms unfolding cls_ok_def by blast+

lemma prepare_prepared: "ip_prepared p \<Longrightarrow> pool_prepare p = p"
  by (simp add: pool_prepare_def)

definition opens :: "shm_os \<Rightarrow> bool" where
  "opens os \<longleftrightarrow> (\<forall>cls x. os cls x)"

lemma opens_info: "opens os \<Longrightarrow> cls_storage_info os cls l = (True, l\<lparr>cs_info := (cs_info l)(cls := True)\<rparr>)"
  by (simp add: opens_def cls_storage_info_def)

lemma opens_mem: "opens os \<Longrightarrow> i < max_count \<Longrightarrow>
    cls_storage_mem os cls i l = Inr (True, l\<lparr>cs_mems := (cs_mems l)(cls := (cs_mems l cls)(i := True))\<rparr>)"
  using max_count_small(3) [of i] by (simp add: opens_def cls_storage_mem_def)

lemma apply_storage_live:
  assumes os: "opens os" and ok: "cls_ok (m cls) live" and cls: "cls = calc_cls_size sz"
    and n: "0 < n" "n < 2 ^ 32" and room: "\<not> {..<max_count} \<subseteq> dom live"
  shows "\<exists>i l' m'. apply_storage os n sz (l, m) = Inr ((i, True), l', m') \<and>
    i < max_count \<and> live i = None \<and> cls_ok (m' cls) (live(i \<mapsto> n)) \<and>
    cs_mems l' cls i \<and> (\<forall>d. d \<noteq> cls \<longrightarrow> m' d = m d) \<and> cm_block (m' cls) = cm_block (m cls)"
proof -
  obtain ids where ids: "pool_free (pool_prepare (cm_pool (m cls))) ids" "set ids = {..<max_count} - dom live"
    using ok by (auto simp: cls_ok_def)
  then obtain i js where c: "ids = i # js" using room by (cases ids) auto
  obtain p where p: "pool_acquire (pool_prepare (cm_pool (m cls))) = Inr (i, p)" "pool_free p js"
    using pool.acquire_law [OF ids(1)] c by auto
  have i: "i < max_count" "live i = None" "i \<notin> set js" "set js = {..<max_count} - insert i (dom live)"
    using ids c pool.distinct_law [OF ids(1)] by auto
  define c' where "c' = (m cls)\<lparr>cm_pool := p, cm_cc := (cm_cc (m cls))(i := of_nat n)\<rparr>"
  have pp: "pool_prepare p = p" "ip_prepared p"
    using prepare_free [OF p(2)] p(2) by (auto simp: pool_free_def)
  have "cls_ok c' (live(i \<mapsto> n))"
    using ok n i p(2) pp by (auto simp: cls_ok_def c'_def)
  then show ?thesis
    using p(1) n(1) i(1,2) os
    by (simp add: apply_storage_def Let_def cls opens_info opens_mem set_cc_def c'_def)
qed

lemma cls_ok_pool:
  assumes "cls_ok c live" "pool_free p ids" "set ids = {..<max_count} - dom live"
  shows "cls_ok (c\<lparr>cm_pool := p\<rparr>) live"
proof -
  have "ip_prepared p" "pool_free (pool_prepare p) ids"
    using prepare_free [OF assms(2)] assms(2) by (simp_all add: pool_free_def)
  then show ?thesis
    using assms(1,3) unfolding cls_ok_def by fastforce
qed

lemma apply_storage_full:
  assumes os: "opens os" and ok: "cls_ok (m cls) live" and cls: "cls = calc_cls_size sz"
    and full: "{..<max_count} \<subseteq> dom live"
  shows "\<exists>l' m'. apply_storage os n sz (l, m) = Inr ((0, False), l', m') \<and>
    cls_ok (m' cls) live \<and> (\<forall>d. d \<noteq> cls \<longrightarrow> m' d = m d) \<and> cm_block (m' cls) = cm_block (m cls)"
proof -
  obtain ids where ids: "pool_free (pool_prepare (cm_pool (m cls))) ids" "set ids = {..<max_count} - dom live"
    using ok by (auto simp: cls_ok_def)
  have none: "ids = []"
    using ids(2) full by (simp only: Diff_eq_empty_iff [THEN iffD2] set_empty)
  obtain p where p: "pool_acquire (pool_prepare (cm_pool (m cls))) = Inr (invalid_value, p)" "pool_free p []"
    using pool.acquire_law [OF ids(1)] none by (simp only: list.case list.sel) blast
  have "cls_ok ((m cls)\<lparr>cm_pool := p\<rparr>) live"
    by (rule cls_ok_pool [OF ok p(2)]) (use ids(2) none in simp)
  then show ?thesis
    using p(1) os ok
    by (cases "n = 0") (simp_all add: apply_storage_def Let_def cls opens_info cls_storage_mem_def)
qed

lemma find_storage_live:
  assumes "opens os" "cls_ok (m cls) live" "cls = calc_cls_size sz" "live i = Some n"
  shows "\<exists>l'. find_storage os i sz (l, m) = Inr (True, l', m) \<and> cs_mems l' cls i"
proof -
  note c = cls_okD [OF assms(2,4)]
  have "(of_nat n :: 32 word) \<noteq> 0"
    using c(2,3) by (simp add: word_of_nat_eq_0_iff nat_dvd_not_less)
  then show ?thesis
    using assms c by (simp add: find_storage_def Let_def opens_mem)
qed

lemma release_id_live:
  assumes os: "opens os" and p: "pool_free (cm_pool (m cls)) ids" and i: "i < max_count" "i \<notin> set ids"
  shows "\<exists>l' p. release_id os cls i (l, m) = Inr (l', m(cls := (m cls)\<lparr>cm_pool := p\<rparr>)) \<and> pool_free p (i # ids)"
proof -
  obtain p' where "pool_release i (cm_pool (m cls)) = Inr (True, p')" "pool_free p' (i # ids)"
    using pool.release_law [OF p i] by blast
  then show ?thesis
    using os by (auto simp: release_id_def opens_info)
qed

text \<open>Once its last reader is done, or the block is cleared, its number goes back to the pool.\<close>

lemma release_live:
  assumes os: "opens os" and ok: "cls_ok (m cls) live" and i: "live i = Some n"
  shows "\<exists>l' m'. release_id os cls i (l, m(cls := set_cc i 0 (m cls))) = Inr (l', m') \<and>
    cls_ok (m' cls) (live(i := None)) \<and> (\<forall>d. d \<noteq> cls \<longrightarrow> m' d = m d) \<and> cm_block (m' cls) = cm_block (m cls)"
proof -
  note c = cls_okD [OF ok i]
  define m1 where "m1 = m(cls := set_cc i 0 (m cls))"
  obtain ids where ids: "pool_free (cm_pool (m cls)) ids" "set ids = {..<max_count} - dom live"
    using ok c(5) by (auto simp: cls_ok_def prepare_prepared)
  have "pool_free (cm_pool (m1 cls)) ids" "i \<notin> set ids"
    using ids i by (auto simp: m1_def set_cc_def)
  from release_id_live [where m = m1 and cls = cls, OF os this(1) c(1) this(2)] obtain l' p where p:
    "release_id os cls i (l, m1) = Inr (l', m1(cls := (m1 cls)\<lparr>cm_pool := p\<rparr>))" "pool_free p (i # ids)"
    by blast
  have "ip_prepared p" "pool_prepare p = p"
    using p(2) prepare_free [OF p(2)] by (auto simp: pool_free_def)
  moreover have "set (i # ids) = {..<max_count} - dom (live(i := None))"
    using ids(2) c(1) by auto
  ultimately have "cls_ok ((m1 cls)\<lparr>cm_pool := p\<rparr>) (live(i := None))"
    using ok p(2) unfolding cls_ok_def m1_def set_cc_def by (auto intro!: exI [of _ "i # ids"])
  then show ?thesis
    using p(1) unfolding m1_def by (auto simp: set_cc_def)
qed

lemma recycle_storage_live:
  assumes os: "opens os" and ok: "cls_ok (m cls) live" and cls: "cls = calc_cls_size sz"
    and i: "live i = Some n" and l: "cs_mems l cls i"
  shows "\<exists>l' m'. recycle_storage os i sz (l, m) = Inr (l', m') \<and>
    cls_ok (m' cls) (read_once i live) \<and> (\<forall>d. d \<noteq> cls \<longrightarrow> m' d = m d) \<and> cm_block (m' cls) = cm_block (m cls)"
proof -
  note c = cls_okD [OF ok i]
  have inv: "i \<noteq> invalid_value" using max_count_small(3) [OF c(1)] .
  have u: "unat (of_nat n :: 32 word) = n" using c(3) by (simp add: unat_of_nat)
  show ?thesis
  proof (cases "1 < n")
    case True
    define m' where "m' = m(cls := set_cc i (of_nat n - 1) (m cls))"
    have "1 < (of_nat n :: 32 word)" using True u by (simp add: word_less_nat_alt)
    then have "recycle_storage os i sz (l, m) = Inr (l, m')"
      using c(1,4) inv cls l by (simp add: recycle_storage_def Let_def m'_def)
    moreover have "cls_ok (m' cls) (live(i \<mapsto> n - 1))"
      using ok i True c insert_absorb [OF domI [of live, OF i]] less_imp_diff_less [OF c(3), of "Suc 0"]
      by (auto simp: cls_ok_def m'_def set_cc_def of_nat_diff)
    ultimately show ?thesis
      using True i by (auto simp: read_once_def m'_def set_cc_def)
  next
    case False
    then have n: "n = 1" using c(2) by simp
    from release_live [where m = m and cls = cls, OF os ok i, of l] obtain l' m' where r:
      "release_id os cls i (l, m(cls := set_cc i 0 (m cls))) = Inr (l', m')"
      "cls_ok (m' cls) (live(i := None))" "\<forall>d. d \<noteq> cls \<longrightarrow> m' d = m d" "cm_block (m' cls) = cm_block (m cls)"
      by blast
    have "recycle_storage os i sz (l, m) = Inr (l', m')"
      using c(1,4) inv cls l n r(1) by (simp add: recycle_storage_def Let_def)
    then show ?thesis
      using r(2-4) i n by (simp add: read_once_def)
  qed
qed

lemma clear_storage_live:
  assumes os: "opens os" and ok: "cls_ok (m cls) live" and cls: "cls = calc_cls_size sz" and i: "i < max_count"
  shows "\<exists>l' m'. clear_storage os i sz (l, m) = Inr (l', m') \<and>
    cls_ok (m' cls) (live(i := None)) \<and> (\<forall>d. d \<noteq> cls \<longrightarrow> m' d = m d) \<and> cm_block (m' cls) = cm_block (m cls)"
proof -
  have inv: "i \<noteq> invalid_value" using max_count_small(3) [OF i] .
  show ?thesis
  proof (cases "live i")
    case None
    then have "cm_cc (m cls) i = 0" "live(i := None) = live" using ok i by (auto simp: cls_ok_def)
    then show ?thesis
      using os ok cls i inv by (simp add: clear_storage_def Let_def opens_mem)
  next
    case (Some n)
    note c = cls_okD [OF ok Some]
    have "cm_cc (m cls) i \<noteq> 0"
      using c(2-4) by (simp add: word_of_nat_eq_0_iff nat_dvd_not_less)
    then show ?thesis
      using release_live [where m = m and cls = cls, OF os ok Some] os cls i inv by (simp add: clear_storage_def Let_def opens_mem)
  qed
qed

end
