(* ===== verification/Ipc_Ring.thy ===== *)
theory Ipc_Ring
  imports Prelude
begin

text \<open>
  The lock-free ring behind every shared-memory channel: \<open>prod_cons_impl\<close> of
  \<^verbatim>\<open>src/deps/shm-ipc/src/libipc/prod_cons.h\<close> for several producers, several consumers and
  unicast, the policy of \<open>shm_chan_t\<close>.

  \<^item> One \<open>mm_pc\<close> constructor per program point between two accesses to shared memory, with
    the local variables that are live there; one equation of \<open>mm_step\<close> per access. Bytes
    are copied one at a time, so a consumer may read a slot while a producer writes it. The flag
    of a step says whether a weak compare-and-exchange may succeed. Memory is sequentially
    consistent.
  \<^item> The step is written over the type of the counters. \<open>word_step\<close> is the program: 32-bit
    counters that wrap, 8-bit slot numbers, 64-bit commit flags. \<open>nat_step\<close> is the same code
    with counters that never wrap; it is the specification against which the wrap-around is
    measured.
\<close>

unbundle bit_operations_syntax

type_synonym u1_t = "8 word"
type_synonym u2_t = "32 word"
type_synonym flag_t = "64 word"

definition circ_index_of :: "u2_t \<Rightarrow> u1_t" where
  "circ_index_of c = ucast c"

record ('c, 'f, 'b) ring =
  rg_rd :: 'c
  rg_wt :: 'c
  rg_ct :: 'c
  rg_flag :: "u1_t \<Rightarrow> 'f"
  rg_data :: "u1_t \<Rightarrow> 'b list"

datatype ('c, 'f, 'b) mm_pc =
    Idle
  | PushLoad "'b list"
  | PushFull "'b list" 'c
  | PushCas "'b list" 'c
  | PushWrite "'b list" 'c nat
  | PushSee 'c
  | PushTest 'c 'f
  | PushClear 'c 'f
  | PushMove 'c
  | Pushed bool
  | PopLoad
  | PopWt 'c
  | PopFlag 'c
  | PopClear 'c 'f
  | PopMove 'c
  | PopCopy 'c "'b list"
  | Popped "'b list option"

definition write_byte :: "u1_t \<Rightarrow> nat \<Rightarrow> 'b \<Rightarrow> ('c, 'f, 'b) ring \<Rightarrow> ('c, 'f, 'b) ring" where
  "write_byte i k b r = r\<lparr>rg_data := (rg_data r)(i := (rg_data r i)[k := b])\<rparr>"

definition store_flag :: "u1_t \<Rightarrow> 'f \<Rightarrow> ('c, 'f, 'b) ring \<Rightarrow> ('c, 'f, 'b) ring" where
  "store_flag i f r = r\<lparr>rg_flag := (rg_flag r)(i := f)\<rparr>"

fun mm_push_step :: "('c::{one,plus} \<Rightarrow> u1_t) \<Rightarrow> ('c \<Rightarrow> 'f) \<Rightarrow> 'f \<Rightarrow> bool \<Rightarrow>
    ('c, 'f, 'b) mm_pc \<Rightarrow> ('c, 'f, 'b) ring \<Rightarrow> ('c, 'f, 'b) mm_pc \<times> ('c, 'f, 'b) ring" where
  "mm_push_step idx fl z ok (PushLoad v) r = (PushFull v (rg_ct r), r)"
| "mm_push_step idx fl z ok (PushFull v cur_ct) r =
     (if idx (cur_ct + 1) = idx (rg_rd r) then (Pushed False, r) else (PushCas v cur_ct, r))"
| "mm_push_step idx fl z ok (PushCas v cur_ct) r =
     (if ok \<and> rg_ct r = cur_ct then (PushWrite v cur_ct 0, r\<lparr>rg_ct := cur_ct + 1\<rparr>)
      else (PushLoad v, r))"
| "mm_push_step idx fl z ok (PushWrite v cur_ct k) r =
     (if k < length v then (PushWrite v cur_ct (Suc k), write_byte (idx cur_ct) k (v ! k) r)
      else (PushSee cur_ct, store_flag (idx cur_ct) (fl cur_ct) r))"
| "mm_push_step idx fl z ok (PushSee cur_ct) r = (PushTest cur_ct (rg_flag r (idx cur_ct)), r)"
| "mm_push_step idx fl z ok (PushTest cur_ct cac_ct) r =
     (if cur_ct \<noteq> rg_wt r then (Pushed True, r)
      else if cac_ct \<noteq> fl cur_ct then (Pushed True, r)
      else (PushClear cur_ct cac_ct, r))"
| "mm_push_step idx fl z ok (PushClear cur_ct cac_ct) r =
     (if rg_flag r (idx cur_ct) \<noteq> cac_ct then (Pushed True, r)
      else (PushMove cur_ct, store_flag (idx cur_ct) z r))"
| "mm_push_step idx fl z ok (PushMove cur_ct) r =
     (PushSee (cur_ct + 1), r\<lparr>rg_wt := cur_ct + 1\<rparr>)"
| "mm_push_step idx fl z ok p r = (p, r)"

fun mm_pop_step :: "('c::{one,plus} \<Rightarrow> u1_t) \<Rightarrow> ('c \<Rightarrow> 'f) \<Rightarrow> 'f \<Rightarrow> bool \<Rightarrow>
    ('c, 'f, 'b) mm_pc \<Rightarrow> ('c, 'f, 'b) ring \<Rightarrow> ('c, 'f, 'b) mm_pc \<times> ('c, 'f, 'b) ring" where
  "mm_pop_step idx fl z ok PopLoad r = (PopWt (rg_rd r), r)"
| "mm_pop_step idx fl z ok (PopWt cur_rd) r =
     (if idx cur_rd = idx (rg_wt r) then (PopFlag (rg_wt r), r) else (PopCopy cur_rd [], r))"
| "mm_pop_step idx fl z ok (PopFlag cur_wt) r =
     (let cac_ct = rg_flag r (idx cur_wt) in
      if cac_ct \<noteq> fl cur_wt then (Popped None, r) else (PopClear cur_wt cac_ct, r))"
| "mm_pop_step idx fl z ok (PopClear cur_wt cac_ct) r =
     (if ok \<and> rg_flag r (idx cur_wt) = cac_ct then (PopMove cur_wt, store_flag (idx cur_wt) z r)
      else (PopLoad, r))"
| "mm_pop_step idx fl z ok (PopMove cur_wt) r = (PopLoad, r\<lparr>rg_wt := cur_wt + 1\<rparr>)"
| "mm_pop_step idx fl z ok (PopCopy cur_rd buff) r =
     (let d = rg_data r (idx cur_rd) in
      if length buff < length d then (PopCopy cur_rd (buff @ [d ! length buff]), r)
      else if ok \<and> rg_rd r = cur_rd then (Popped (Some buff), r\<lparr>rg_rd := cur_rd + 1\<rparr>)
      else (PopLoad, r))"
| "mm_pop_step idx fl z ok p r = (p, r)"

fun in_push :: "('c, 'f, 'b) mm_pc \<Rightarrow> bool" where
  "in_push (PushLoad v) = True"
| "in_push (PushFull v c) = True"
| "in_push (PushCas v c) = True"
| "in_push (PushWrite v c k) = True"
| "in_push (PushSee c) = True"
| "in_push (PushTest c f) = True"
| "in_push (PushClear c f) = True"
| "in_push (PushMove c) = True"
| "in_push _ = False"

fun has_returned :: "('c, 'f, 'b) mm_pc \<Rightarrow> bool" where
  "has_returned Idle = True"
| "has_returned (Pushed b) = True"
| "has_returned (Popped m) = True"
| "has_returned _ = False"

definition mm_step :: "('c::{one,plus} \<Rightarrow> u1_t) \<Rightarrow> ('c \<Rightarrow> 'f) \<Rightarrow> 'f \<Rightarrow> bool \<Rightarrow>
    ('c, 'f, 'b) mm_pc \<Rightarrow> ('c, 'f, 'b) ring \<Rightarrow> ('c, 'f, 'b) mm_pc \<times> ('c, 'f, 'b) ring" where
  "mm_step idx fl z ok p r =
     (if in_push p then mm_push_step idx fl z ok p r else mm_pop_step idx fl z ok p r)"

subsection \<open>Several threads on one ring\<close>

text \<open>
  The threads call \<open>push\<close> and \<open>pop\<close> and run in any order. The history records the
  values in the order in which producers win their slot (\<open>Reserve\<close>) and consumers win an
  element (\<open>Take\<close>).
\<close>

datatype 'b call = CallPush nat "'b list" | CallPop nat | Run nat bool

datatype 'b ring_event = Reserve "'b list" | Take "'b list"

record ('c, 'f, 'b) mm_sys =
  mm_ring :: "('c, 'f, 'b) ring"
  mm_pcs :: "('c, 'f, 'b) mm_pc list"

definition mm_event :: "('c, 'f, 'b) mm_pc \<Rightarrow> ('c, 'f, 'b) mm_pc \<Rightarrow> 'b ring_event list" where
  "mm_event p q =
     (case p of
        PushCas v c \<Rightarrow> (case q of PushWrite w d k \<Rightarrow> [Reserve v] | _ \<Rightarrow> [])
      | PopCopy c buff \<Rightarrow> (case q of Popped m \<Rightarrow> (case m of Some b \<Rightarrow> [Take b] | None \<Rightarrow> []) | _ \<Rightarrow> [])
      | _ \<Rightarrow> [])"

fun sys_step :: "('c::{one,plus} \<Rightarrow> u1_t) \<Rightarrow> ('c \<Rightarrow> 'f) \<Rightarrow> 'f \<Rightarrow> nat \<Rightarrow> 'b call \<Rightarrow>
    ('c, 'f, 'b) mm_sys \<Rightarrow> 'b ring_event list \<times> ('c, 'f, 'b) mm_sys" where
  "sys_step idx fl z n (CallPush t v) s =
     ([], if t < length (mm_pcs s) \<and> has_returned (mm_pcs s ! t) \<and> length v = n
          then s\<lparr>mm_pcs := (mm_pcs s)[t := PushLoad v]\<rparr> else s)"
| "sys_step idx fl z n (CallPop t) s =
     ([], if t < length (mm_pcs s) \<and> has_returned (mm_pcs s ! t)
          then s\<lparr>mm_pcs := (mm_pcs s)[t := PopLoad]\<rparr> else s)"
| "sys_step idx fl z n (Run t ok) s =
     (if t < length (mm_pcs s) then
        (let (p, r) = mm_step idx fl z ok (mm_pcs s ! t) (mm_ring s) in
         (mm_event (mm_pcs s ! t) p, s\<lparr>mm_ring := r, mm_pcs := (mm_pcs s)[t := p]\<rparr>))
      else ([], s))"

fun sys_run :: "('c::{one,plus} \<Rightarrow> u1_t) \<Rightarrow> ('c \<Rightarrow> 'f) \<Rightarrow> 'f \<Rightarrow> nat \<Rightarrow> 'b call list \<Rightarrow>
    ('c, 'f, 'b) mm_sys \<Rightarrow> 'b ring_event list \<times> ('c, 'f, 'b) mm_sys" where
  "sys_run idx fl z n [] s = ([], s)"
| "sys_run idx fl z n (l # ls) s =
     (let (e, s1) = sys_step idx fl z n l s; (es, s2) = sys_run idx fl z n ls s1 in (e @ es, s2))"

definition flag_of :: "u2_t \<Rightarrow> flag_t" where
  "flag_of c = NOT (ucast c)"

abbreviation "nat_step \<equiv> sys_step (of_nat :: nat \<Rightarrow> u1_t) Some None"
abbreviation "nat_run \<equiv> sys_run (of_nat :: nat \<Rightarrow> u1_t) Some None"
abbreviation "word_step \<equiv> sys_step circ_index_of flag_of 0"
abbreviation "word_run \<equiv> sys_run circ_index_of flag_of 0"

definition mm_init :: "'f \<Rightarrow> 'b list \<Rightarrow> nat \<Rightarrow> ('c::zero, 'f, 'b) mm_sys" where
  "mm_init z d ts =
     \<lparr>mm_ring = \<lparr>rg_rd = 0, rg_wt = 0, rg_ct = 0, rg_flag = (\<lambda>i. z), rg_data = (\<lambda>i. d)\<rparr>,
      mm_pcs = replicate ts Idle\<rparr>"

fun reserves :: "'b ring_event list \<Rightarrow> 'b list list" where
  "reserves [] = []"
| "reserves (Reserve v # es) = v # reserves es"
| "reserves (Take v # es) = reserves es"

fun takes :: "'b ring_event list \<Rightarrow> 'b list list" where
  "takes [] = []"
| "takes (Reserve v # es) = takes es"
| "takes (Take v # es) = v # takes es"

end
