(* ===== verification/Ipc_Ring_Laws.thy ===== *)
theory Ipc_Ring_Laws
  imports Ipc_Ring
begin

text \<open>
  The ring over counters that never wrap: the invariant of the shared memory and of every
  program point, and that each step keeps it. The history \<open>H\<close> lists the values in the order
  in which the producers reserved their slots; the counter of a slot is its ticket.
\<close>

type_synonym 'b npc = "(nat, nat option, 'b) mm_pc"
type_synonym 'b nring = "(nat, nat option, 'b) ring"
type_synonym 'b nsys = "(nat, nat option, 'b) mm_sys"

abbreviation slot :: "nat \<Rightarrow> u1_t" where
  "slot \<equiv> of_nat"

lemma slot_eq:
  assumes "a \<le> c" "c \<le> a + 255" "a \<le> d" "d \<le> a + 255"
  shows "slot c = slot d \<longleftrightarrow> c = d"
proof -
  have le: "c = d" if "d \<le> c" "slot c = slot d" "c - d \<le> 255" for c d
  proof -
    have "c mod 256 = d mod 256"
      using arg_cong [OF that(2), of unat] by (simp add: unat_of_nat)
    then have "256 dvd c - d"
      using that(1) by (simp add: mod_eq_dvd_iff_nat)
    then show ?thesis
      using that nat_dvd_not_less [of "c - d" 256] by fastforce
  qed
  have "c - d \<le> 255" "d - c \<le> 255"
    using assms by linarith+
  then show ?thesis
    using le [of d c] le [of c d] by (cases "d \<le> c") auto
qed

fun ticket_of :: "'b npc \<Rightarrow> nat option" where
  "ticket_of (PushWrite v c k) = Some c"
| "ticket_of (PushMove c) = Some c"
| "ticket_of (PopMove c) = Some c"
| "ticket_of p = None"

definition ring_ok :: "nat \<Rightarrow> 'b list list \<Rightarrow> 'b nring \<Rightarrow> bool" where
  "ring_ok n H r \<longleftrightarrow>
     rg_ct r = length H \<and> rg_rd r \<le> rg_wt r \<and> rg_wt r \<le> rg_ct r \<and> rg_ct r \<le> rg_rd r + 255 \<and>
     (\<forall>v\<in>set H. length v = n) \<and> (\<forall>i. length (rg_data r i) = n) \<and>
     (\<forall>c. rg_rd r \<le> c \<and> c < rg_wt r \<longrightarrow> rg_data r (slot c) = H ! c) \<and>
     (\<forall>i c. rg_flag r i = Some c \<longrightarrow>
        i = slot c \<and> rg_wt r \<le> c \<and> c < rg_ct r \<and> rg_data r i = H ! c)"

fun pc_ok :: "nat \<Rightarrow> 'b list list \<Rightarrow> 'b nring \<Rightarrow> 'b npc \<Rightarrow> bool" where
  "pc_ok n H r (PushLoad v) = (length v = n)"
| "pc_ok n H r (PushFull v c) = (length v = n \<and> c \<le> rg_ct r)"
| "pc_ok n H r (PushCas v c) =
     (length v = n \<and> c \<le> rg_ct r \<and> (c = rg_ct r \<longrightarrow> c \<le> rg_rd r + 254))"
| "pc_ok n H r (PushWrite v c k) =
     (length v = n \<and> rg_wt r \<le> c \<and> c < rg_ct r \<and> H ! c = v \<and> k \<le> n \<and>
      take k (rg_data r (slot c)) = take k v)"
| "pc_ok n H r (PushSee c) = (c \<le> rg_ct r)"
| "pc_ok n H r (PushTest c f) = (c \<le> rg_ct r \<and> (\<forall>d. f = Some d \<longrightarrow> d < rg_ct r))"
| "pc_ok n H r (PushClear c f) = (f = Some c \<and> c \<le> rg_wt r \<and> c < rg_ct r)"
| "pc_ok n H r (PushMove c) = (c = rg_wt r \<and> c < rg_ct r \<and> rg_data r (slot c) = H ! c)"
| "pc_ok n H r (PopWt c) = (c \<le> rg_rd r)"
| "pc_ok n H r (PopFlag c) = (c \<le> rg_wt r)"
| "pc_ok n H r (PopClear c f) = (f = Some c \<and> c \<le> rg_wt r \<and> c < rg_ct r)"
| "pc_ok n H r (PopMove c) = (c = rg_wt r \<and> c < rg_ct r \<and> rg_data r (slot c) = H ! c)"
| "pc_ok n H r (PopCopy c b) =
     (c \<le> rg_rd r \<and> length b \<le> n \<and>
      (c = rg_rd r \<longrightarrow> c < rg_wt r \<and> b = take (length b) (H ! c)))"
| "pc_ok n H r p = True"

definition sys_ok :: "nat \<Rightarrow> 'b list list \<Rightarrow> 'b nsys \<Rightarrow> bool" where
  "sys_ok n H s \<longleftrightarrow>
     ring_ok n H (mm_ring s) \<and>
     (\<forall>t < length (mm_pcs s). pc_ok n H (mm_ring s) (mm_pcs s ! t)) \<and>
     (\<forall>t < length (mm_pcs s). \<forall>u < length (mm_pcs s). \<forall>c.
        ticket_of (mm_pcs s ! t) = Some c \<and> ticket_of (mm_pcs s ! u) = Some c \<longrightarrow> t = u) \<and>
     (\<forall>t < length (mm_pcs s). \<forall>c.
        ticket_of (mm_pcs s ! t) = Some c \<longrightarrow> rg_flag (mm_ring s) (slot c) \<noteq> Some c) \<and>
     (\<forall>c. rg_wt (mm_ring s) \<le> c \<and> c < rg_ct (mm_ring s) \<longrightarrow>
        rg_flag (mm_ring s) (slot c) = Some c \<or>
        (\<exists>t < length (mm_pcs s). ticket_of (mm_pcs s ! t) = Some c))"

subsection \<open>What a step of one thread leaves to the others\<close>

lemma ring_okD:
  assumes "ring_ok n H r"
  shows "rg_ct r = length H" "rg_rd r \<le> rg_wt r" "rg_wt r \<le> rg_ct r" "rg_ct r \<le> rg_rd r + 255"
    "length (rg_data r i) = n" "v \<in> set H \<Longrightarrow> length v = n"
    "rg_rd r \<le> c \<Longrightarrow> c < rg_wt r \<Longrightarrow> rg_data r (slot c) = H ! c"
    "rg_flag r i = Some c \<Longrightarrow> i = slot c \<and> rg_wt r \<le> c \<and> c < rg_ct r \<and> rg_data r i = H ! c"
  using assms by (auto simp: ring_ok_def)

lemma ring_slot_eq:
  assumes "ring_ok n H r" "rg_rd r \<le> c" "c < rg_ct r" "rg_rd r \<le> d" "d < rg_ct r"
  shows "slot c = slot d \<longleftrightarrow> c = d"
  by (rule slot_eq [of "rg_rd r"]) (use assms ring_okD(4) [OF assms(1)] in auto)

lemma pc_ok_reserve:
  assumes "pc_ok n H r p" "ring_ok n H r"
  shows "pc_ok n (H @ [v]) (r\<lparr>rg_ct := Suc (rg_ct r)\<rparr>) p"
  using assms(1) ring_okD(1-4) [OF assms(2)] by (cases p) (auto simp: nth_append)

lemma pc_ok_write:
  assumes "pc_ok n H r p" "ring_ok n H r" "ticket_of p \<noteq> Some c" "rg_wt r \<le> c" "c < rg_ct r"
  shows "pc_ok n H (write_byte (slot c) k b r) p"
  using assms(1,3-5) ring_okD(1-4) [OF assms(2)] ring_slot_eq [OF assms(2), of _ c]
  by (cases p) (auto simp: write_byte_def)

lemma pc_ok_flag:
  assumes "pc_ok n H r p"
  shows "pc_ok n H (store_flag i f r) p"
  using assms by (cases p) (auto simp: store_flag_def)

lemma pc_ok_move:
  assumes "pc_ok n H r p" "ring_ok n H r" "ticket_of p \<noteq> Some (rg_wt r)" "rg_wt r < rg_ct r"
  shows "pc_ok n H (r\<lparr>rg_wt := Suc (rg_wt r)\<rparr>) p"
  using assms(1,3,4) by (cases p) (auto simp: le_less Suc_le_eq)

lemma pc_ok_take:
  assumes "pc_ok n H r p"
  shows "pc_ok n H (r\<lparr>rg_rd := Suc (rg_rd r)\<rparr>) p"
  using assms by (cases p) auto

text \<open>A step of thread \<open>t\<close> keeps the invariant if it keeps the shared part, establishes its
  own next program point, disturbs no other thread, and hands its ticket on consistently.\<close>

lemma sys_ok_update:
  assumes ok: "sys_ok n H s" and t: "t < length (mm_pcs s)" and q: "q = mm_pcs s ! t"
    and ring: "ring_ok n H' r"
    and own: "pc_ok n H' r p"
    and other: "\<And>p'. pc_ok n H (mm_ring s) p' \<Longrightarrow> ticket_of q = None \<or> ticket_of p' \<noteq> ticket_of q \<Longrightarrow>
      pc_ok n H' r p'"
    and fresh: "\<And>c. ticket_of p = Some c \<Longrightarrow> rg_flag r (slot c) \<noteq> Some c \<and>
      (ticket_of q = Some c \<or> rg_flag (mm_ring s) (slot c) = Some c \<or> rg_ct (mm_ring s) \<le> c)"
    and flags: "\<And>c. rg_flag r (slot c) = Some c \<Longrightarrow>
      rg_flag (mm_ring s) (slot c) = Some c \<or> ticket_of q = Some c"
    and cover: "\<And>c. rg_wt r \<le> c \<Longrightarrow> c < rg_ct r \<Longrightarrow>
      rg_flag r (slot c) = Some c \<or> ticket_of p = Some c \<or>
      ticket_of q \<noteq> Some c \<and> rg_wt (mm_ring s) \<le> c \<and> c < rg_ct (mm_ring s) \<and>
      rg_flag (mm_ring s) (slot c) \<noteq> Some c"
  shows "sys_ok n H' (s\<lparr>mm_ring := r, mm_pcs := (mm_pcs s)[t := p]\<rparr>)"
proof -
  have pcs: "\<And>u. u < length (mm_pcs s) \<Longrightarrow> pc_ok n H (mm_ring s) (mm_pcs s ! u)"
    and uniq: "\<And>u w c. u < length (mm_pcs s) \<Longrightarrow> w < length (mm_pcs s) \<Longrightarrow>
      ticket_of (mm_pcs s ! u) = Some c \<Longrightarrow> ticket_of (mm_pcs s ! w) = Some c \<Longrightarrow> u = w"
    and unflagged: "\<And>u c. u < length (mm_pcs s) \<Longrightarrow> ticket_of (mm_pcs s ! u) = Some c \<Longrightarrow>
      rg_flag (mm_ring s) (slot c) \<noteq> Some c"
    and covered: "\<And>c. rg_wt (mm_ring s) \<le> c \<Longrightarrow> c < rg_ct (mm_ring s) \<Longrightarrow>
      rg_flag (mm_ring s) (slot c) = Some c \<or>
      (\<exists>u < length (mm_pcs s). ticket_of (mm_pcs s ! u) = Some c)"
    using ok by (auto simp: sys_ok_def)
  have below: "c < rg_ct (mm_ring s)" if "u < length (mm_pcs s)" "ticket_of (mm_pcs s ! u) = Some c" for u c
    using pcs [OF that(1)] that(2) by (cases "mm_pcs s ! u") auto
  have mine: "u = t" if "u < length (mm_pcs s)" "ticket_of (mm_pcs s ! u) = Some c" "ticket_of p = Some c" for u c
    using fresh [OF that(3)] unflagged [OF that(1,2)] below [OF that(1,2)] uniq [OF that(1) t that(2)] q by auto
  have A: "pc_ok n H' r ((mm_pcs s)[t := p] ! u)" if "u < length (mm_pcs s)" for u
  proof (cases "u = t")
    case False
    have "ticket_of q = None \<or> ticket_of (mm_pcs s ! u) \<noteq> ticket_of q"
      using uniq [OF that t] False q by (cases "ticket_of q") auto
    then show ?thesis using other [OF pcs [OF that]] False by simp
  qed (use own t in simp)
  have B: "u = w" if "u < length (mm_pcs s)" "w < length (mm_pcs s)"
      "ticket_of ((mm_pcs s)[t := p] ! u) = Some c" "ticket_of ((mm_pcs s)[t := p] ! w) = Some c" for u w c
  proof (rule ccontr)
    assume ne: "u \<noteq> w"
    have "u = t \<Longrightarrow> ticket_of p = Some c \<and> ticket_of (mm_pcs s ! w) = Some c"
      "w = t \<Longrightarrow> ticket_of p = Some c \<and> ticket_of (mm_pcs s ! u) = Some c"
      "u \<noteq> t \<Longrightarrow> w \<noteq> t \<Longrightarrow> ticket_of (mm_pcs s ! u) = Some c \<and> ticket_of (mm_pcs s ! w) = Some c"
      using that(3,4) ne t by auto
    then show False
      using mine [OF that(1), of c] mine [OF that(2), of c] uniq [OF that(1,2), of c] ne by blast
  qed
  have D: "rg_flag r (slot c) \<noteq> Some c"
    if "u < length (mm_pcs s)" "ticket_of ((mm_pcs s)[t := p] ! u) = Some c" for u c
  proof (cases "u = t")
    case True then show ?thesis using fresh that t by simp
  next
    case False
    then have "ticket_of (mm_pcs s ! u) = Some c" using that by simp
    then show ?thesis
      using flags unflagged [OF that(1)] uniq [OF that(1) t] False q by blast
  qed
  have E: "rg_flag r (slot c) = Some c \<or> (\<exists>u < length (mm_pcs s). ticket_of ((mm_pcs s)[t := p] ! u) = Some c)"
    if c: "rg_wt r \<le> c" "c < rg_ct r" for c
    using cover [OF c]
  proof (elim disjE conjE)
    assume "ticket_of p = Some c"
    then have "ticket_of ((mm_pcs s)[t := p] ! t) = Some c" using t by simp
    then show ?thesis using t by blast
  next
    assume a: "ticket_of q \<noteq> Some c" "rg_wt (mm_ring s) \<le> c" "c < rg_ct (mm_ring s)"
      "rg_flag (mm_ring s) (slot c) \<noteq> Some c"
    then obtain u where u: "u < length (mm_pcs s)" "ticket_of (mm_pcs s ! u) = Some c"
      using covered by blast
    have "u \<noteq> t" using u a q by auto
    then have "ticket_of ((mm_pcs s)[t := p] ! u) = Some c" using u(2) by simp
    then show ?thesis using u(1) by blast
  qed simp
  have sel: "mm_ring (s\<lparr>mm_ring := r, mm_pcs := (mm_pcs s)[t := p]\<rparr>) = r"
    "mm_pcs (s\<lparr>mm_ring := r, mm_pcs := (mm_pcs s)[t := p]\<rparr>) = (mm_pcs s)[t := p]"
    "length ((mm_pcs s)[t := p]) = length (mm_pcs s)"
    by simp_all
  show ?thesis
    unfolding sys_ok_def sel using ring A B D E by blast
qed

end
