(* ===== verification/Ipc_Ring_Steps.thy ===== *)
theory Ipc_Ring_Steps
  imports Ipc_Ring_Laws
begin

text \<open>
  Every step of every thread keeps the invariant of the ring over unbounded counters, and a
  consumer that wins takes the value with its ticket.
\<close>

lemma ring_ok_reserve:
  assumes "ring_ok n H r" "rg_ct r \<le> rg_rd r + 254" "length v = n"
  shows "ring_ok n (H @ [v]) (r\<lparr>rg_ct := Suc (rg_ct r)\<rparr>)"
  using assms unfolding ring_ok_def by (auto simp: nth_append dest: less_SucI)

lemma ring_ok_write:
  assumes "ring_ok n H r" "rg_wt r \<le> c" "c < rg_ct r" "rg_flag r (slot c) \<noteq> Some c"
  shows "ring_ok n H (write_byte (slot c) k b r)"
proof -
  note D = ring_okD [OF assms(1)]
  have other: "slot d \<noteq> slot c" if "rg_rd r \<le> d" "d < rg_ct r" "d \<noteq> c" for d
    using ring_slot_eq [OF assms(1) that(1,2), of c] assms(2,3) D(2) that(3) by simp
  have flag: "slot d \<noteq> slot c" if "rg_flag r (slot d) = Some d" for d
    using other [of d] D(2) D(8) [OF that] assms(4) that by fastforce
  have "rg_flag r i = Some d \<Longrightarrow> i = slot d \<and> slot d \<noteq> slot c" for i d
    using D(8) flag by blast
  then show ?thesis
    using assms(1-3) other unfolding ring_ok_def write_byte_def by auto
qed

lemma ring_ok_set:
  assumes "ring_ok n H r" "rg_wt r \<le> c" "c < rg_ct r" "rg_data r (slot c) = H ! c"
  shows "ring_ok n H (store_flag (slot c) (Some c) r)"
  using assms unfolding ring_ok_def store_flag_def by auto

lemma ring_ok_clear:
  assumes "ring_ok n H r"
  shows "ring_ok n H (store_flag i None r)"
  using assms unfolding ring_ok_def store_flag_def by auto

lemma ring_ok_move:
  assumes "ring_ok n H r" "rg_wt r < rg_ct r" "rg_flag r (slot (rg_wt r)) \<noteq> Some (rg_wt r)"
    "rg_data r (slot (rg_wt r)) = H ! rg_wt r"
  shows "ring_ok n H (r\<lparr>rg_wt := Suc (rg_wt r)\<rparr>)"
proof -
  have "Suc (rg_wt r) \<le> c" if "rg_flag r i = Some c" for i c
    using ring_okD(8) [OF assms(1) that] assms(3) that by (cases "c = rg_wt r") auto
  then show ?thesis
    using assms unfolding ring_ok_def by (auto simp: less_Suc_eq)
qed

lemma ring_ok_take:
  assumes "ring_ok n H r" "rg_rd r < rg_wt r"
  shows "ring_ok n H (r\<lparr>rg_rd := Suc (rg_rd r)\<rparr>)"
  using assms unfolding ring_ok_def by auto

text \<open>The invariant read for one thread.\<close>

lemma sys_okD:
  assumes "sys_ok n H s"
  shows "ring_ok n H (mm_ring s)"
    "t < length (mm_pcs s) \<Longrightarrow> pc_ok n H (mm_ring s) (mm_pcs s ! t)"
    "t < length (mm_pcs s) \<Longrightarrow> ticket_of (mm_pcs s ! t) = Some c \<Longrightarrow>
       rg_flag (mm_ring s) (slot c) \<noteq> Some c"
    "rg_wt (mm_ring s) \<le> c \<Longrightarrow> c < rg_ct (mm_ring s) \<Longrightarrow>
       rg_flag (mm_ring s) (slot c) = Some c \<or>
       (\<exists>t < length (mm_pcs s). ticket_of (mm_pcs s ! t) = Some c)"
  using assms unfolding sys_ok_def by blast+

lemma sys_ok_quiet:
  assumes "sys_ok n H s" "t < length (mm_pcs s)" "ticket_of (mm_pcs s ! t) = None" "ticket_of p = None"
    "pc_ok n H (mm_ring s) p"
  shows "sys_ok n H (s\<lparr>mm_ring := mm_ring s, mm_pcs := (mm_pcs s)[t := p]\<rparr>)"
  by (rule sys_ok_update [OF assms(1,2) refl sys_okD(1) [OF assms(1)] assms(5)])
    (use assms(3,4) in auto)

lemma sys_ok_reserve:
  assumes ok: "sys_ok n H s" and t: "t < length (mm_pcs s)"
    and p: "mm_pcs s ! t = PushCas v (rg_ct (mm_ring s))"
  shows "sys_ok n (H @ [v]) (s\<lparr>mm_ring := (mm_ring s)\<lparr>rg_ct := Suc (rg_ct (mm_ring s))\<rparr>,
    mm_pcs := (mm_pcs s)[t := PushWrite v (rg_ct (mm_ring s)) 0]\<rparr>)"
proof -
  note R = sys_okD(1) [OF ok]
  have v: "length v = n" "rg_ct (mm_ring s) \<le> rg_rd (mm_ring s) + 254"
    using sys_okD(2) [OF ok t] p by auto
  have noflag: "rg_flag (mm_ring s) i \<noteq> Some (rg_ct (mm_ring s))" for i
    using ring_okD(8) [OF R, of i] by blast
  show ?thesis
  proof (rule sys_ok_update [OF ok t refl ring_ok_reserve [OF R v(2,1)]], goal_cases)
    case (2 p') then show ?case by (intro pc_ok_reserve [OF _ R])
  qed (use p v ring_okD(1,3) [OF R] noflag in \<open>auto simp: nth_append less_Suc_eq\<close>)
qed

lemma sys_ok_write:
  assumes ok: "sys_ok n H s" and t: "t < length (mm_pcs s)"
    and p: "mm_pcs s ! t = PushWrite v c k" and k: "k < length v"
  shows "sys_ok n H (s\<lparr>mm_ring := write_byte (slot c) k (v ! k) (mm_ring s),
    mm_pcs := (mm_pcs s)[t := PushWrite v c (Suc k)]\<rparr>)"
proof -
  note R = sys_okD(1) [OF ok]
  have v: "length v = n" "rg_wt (mm_ring s) \<le> c" "c < rg_ct (mm_ring s)" "H ! c = v"
      "take k (rg_data (mm_ring s) (slot c)) = take k v"
    using sys_okD(2) [OF ok t] p by auto
  have f: "rg_flag (mm_ring s) (slot c) \<noteq> Some c"
    using sys_okD(3) [OF ok t] p by simp
  have own: "pc_ok n H (write_byte (slot c) k (v ! k) (mm_ring s)) (PushWrite v c (Suc k))"
    using v(1-4) k ring_okD(5) [OF R, of "slot c"] arg_cong [OF v(5), of "\<lambda>x. x @ [v ! k]"]
    by (simp add: write_byte_def take_Suc_conv_app_nth)
  show ?thesis
  proof (rule sys_ok_update [OF ok t refl ring_ok_write [OF R v(2,3) f] own], goal_cases)
    case (1 p') then show ?case using p v(2,3) by (intro pc_ok_write [OF _ R]) auto
  qed (use p v f in \<open>auto simp: write_byte_def\<close>)
qed

lemma sys_ok_commit:
  assumes ok: "sys_ok n H s" and t: "t < length (mm_pcs s)"
    and p: "mm_pcs s ! t = PushWrite v c k" and k: "\<not> k < length v"
  shows "sys_ok n H (s\<lparr>mm_ring := store_flag (slot c) (Some c) (mm_ring s),
    mm_pcs := (mm_pcs s)[t := PushSee c]\<rparr>)"
proof -
  note R = sys_okD(1) [OF ok]
  have v: "rg_wt (mm_ring s) \<le> c" "c < rg_ct (mm_ring s)" "H ! c = v" "length v = n" "k = n"
      "take k (rg_data (mm_ring s) (slot c)) = take k v"
    using sys_okD(2) [OF ok t] p k by auto
  have d: "rg_data (mm_ring s) (slot c) = H ! c"
    using v ring_okD(5) [OF R, of "slot c"] by simp
  have other: "slot c' \<noteq> slot c" if "rg_wt (mm_ring s) \<le> c'" "c' < rg_ct (mm_ring s)" "c' \<noteq> c" for c'
    using ring_slot_eq [OF R, of c' c] ring_okD(2) [OF R] that v by auto
  show ?thesis
  proof (rule sys_ok_update [OF ok t refl ring_ok_set [OF R v(1,2) d]], goal_cases)
    case (2 p') then show ?case by (intro pc_ok_flag)
  next
    case (5 c')
    then show ?case using p other [of c'] by (cases "c' = c") (simp_all add: store_flag_def)
  qed (use p v(1,2) in \<open>simp_all add: store_flag_def split: if_splits\<close>)
qed

lemma sys_ok_clear:
  assumes ok: "sys_ok n H s" and t: "t < length (mm_pcs s)"
    and q: "ticket_of (mm_pcs s ! t) = None"
    and f: "rg_flag (mm_ring s) (slot c) = Some c" and c: "c \<le> rg_wt (mm_ring s)"
    and p: "p = PushMove c \<or> p = PopMove c"
  shows "sys_ok n H (s\<lparr>mm_ring := store_flag (slot c) None (mm_ring s),
    mm_pcs := (mm_pcs s)[t := p]\<rparr>)"
proof -
  note R = sys_okD(1) [OF ok]
  have w: "c = rg_wt (mm_ring s)" "c < rg_ct (mm_ring s)" "rg_data (mm_ring s) (slot c) = H ! c"
    using ring_okD(8) [OF R f] c by auto
  have other: "slot c' \<noteq> slot c" if "rg_wt (mm_ring s) \<le> c'" "c' < rg_ct (mm_ring s)" "c' \<noteq> c" for c'
    using ring_slot_eq [OF R, of c' c] ring_okD(2) [OF R] that w by auto
  have own: "pc_ok n H (store_flag (slot c) None (mm_ring s)) p" "ticket_of p = Some c"
    using p w by (auto simp: store_flag_def)
  show ?thesis
  proof (rule sys_ok_update [OF ok t refl ring_ok_clear [OF R] own(1)], goal_cases)
    case (1 p') then show ?case by (intro pc_ok_flag)
  next
    case (4 c')
    then show ?case using q own(2) other [of c'] w(1)
      by (cases "c' = c") (simp_all add: store_flag_def)
  qed (use q own f in \<open>auto simp: store_flag_def split: if_splits\<close>)
qed

lemma sys_ok_move:
  assumes ok: "sys_ok n H s" and t: "t < length (mm_pcs s)"
    and q: "mm_pcs s ! t = PushMove c \<or> mm_pcs s ! t = PopMove c"
    and p: "p = PushSee (Suc c) \<or> p = PopLoad"
  shows "sys_ok n H (s\<lparr>mm_ring := (mm_ring s)\<lparr>rg_wt := Suc c\<rparr>, mm_pcs := (mm_pcs s)[t := p]\<rparr>)"
proof -
  note R = sys_okD(1) [OF ok]
  have w: "c = rg_wt (mm_ring s)" "c < rg_ct (mm_ring s)" "rg_data (mm_ring s) (slot c) = H ! c"
    using sys_okD(2) [OF ok t] q by auto
  have tk: "ticket_of (mm_pcs s ! t) = Some c" "ticket_of p = None"
    using p q by auto
  have f: "rg_flag (mm_ring s) (slot c) \<noteq> Some c"
    by (rule sys_okD(3) [OF ok t tk(1)])
  have ring: "ring_ok n H ((mm_ring s)\<lparr>rg_wt := Suc c\<rparr>)"
    using ring_ok_move [OF R] w f by simp
  have own: "pc_ok n H ((mm_ring s)\<lparr>rg_wt := Suc c\<rparr>) p"
    using p w by auto
  show ?thesis
  proof (rule sys_ok_update [OF ok t refl ring own], goal_cases)
    case (1 p')
    then show ?case using pc_ok_move [OF _ R] w tk(1) by simp
  next
    case (4 c')
    then show ?case using tk w by (auto simp: Suc_le_eq)
  qed (use tk in auto)
qed

lemma sys_ok_take:
  assumes ok: "sys_ok n H s" and t: "t < length (mm_pcs s)"
    and p: "mm_pcs s ! t = PopCopy (rg_rd (mm_ring s)) b" and b: "length b = n"
  shows "b = H ! rg_rd (mm_ring s)"
    "sys_ok n H (s\<lparr>mm_ring := (mm_ring s)\<lparr>rg_rd := Suc (rg_rd (mm_ring s))\<rparr>,
       mm_pcs := (mm_pcs s)[t := Popped (Some b)]\<rparr>)"
proof -
  note R = sys_okD(1) [OF ok]
  have w: "rg_rd (mm_ring s) < rg_wt (mm_ring s)" "b = take (length b) (H ! rg_rd (mm_ring s))"
    using sys_okD(2) [OF ok t] p by auto
  have "length (H ! rg_rd (mm_ring s)) = n"
    using ring_okD(1-3) [OF R] w(1) by (intro ring_okD(6) [OF R]) simp
  then show "b = H ! rg_rd (mm_ring s)"
    using w(2) b by simp
  show "sys_ok n H (s\<lparr>mm_ring := (mm_ring s)\<lparr>rg_rd := Suc (rg_rd (mm_ring s))\<rparr>,
       mm_pcs := (mm_pcs s)[t := Popped (Some b)]\<rparr>)"
  proof (rule sys_ok_update [OF ok t refl ring_ok_take [OF R w(1)]], goal_cases)
    case (2 p') then show ?case by (intro pc_ok_take)
  qed (use p in auto)
qed

subsection \<open>Steps and runs\<close>

lemma push_full_ok:
  assumes R: "ring_ok n H r" and p: "pc_ok n H r (PushFull v c)"
    and free: "slot (c + 1) \<noteq> slot (rg_rd r)"
  shows "pc_ok n H r (PushCas v c)"
proof -
  have "c \<noteq> rg_rd r + 255"
  proof
    assume "c = rg_rd r + 255"
    then have "slot (c + 1) = slot (rg_rd r) + 256"
      by (metis (no_types) add.assoc of_nat_add of_nat_numeral numeral_plus_one semiring_norm(5)
        semiring_norm(8) semiring_norm(2))
    then show False using free by simp
  qed
  then show ?thesis using p ring_okD(4) [OF R] by auto
qed

lemma pop_wt_ok:
  assumes R: "ring_ok n H r" and p: "pc_ok n H r (PopWt c)" and ne: "slot c \<noteq> slot (rg_wt r)"
  shows "pc_ok n H r (PopCopy c [])"
  using p ne ring_okD(2) [OF R] by (cases "c = rg_wt r") auto

lemma sys_ok_push:
  assumes ok: "sys_ok n H s" and t: "t < length (mm_pcs s)" and q: "mm_pcs s ! t = q" "in_push q"
    and step: "mm_push_step slot Some None b q (mm_ring s) = (p, r)"
  shows "sys_ok n (H @ reserves (mm_event q p)) (s\<lparr>mm_ring := r, mm_pcs := (mm_pcs s)[t := p]\<rparr>)"
    "rg_rd r = rg_rd (mm_ring s)" "takes (mm_event q p) = []"
proof -
  note R = sys_okD(1) [OF ok] and P = sys_okD(2) [OF ok t]
  note Q = sys_ok_quiet [OF ok t]
  show "sys_ok n (H @ reserves (mm_event q p)) (s\<lparr>mm_ring := r, mm_pcs := (mm_pcs s)[t := p]\<rparr>)"
  proof (cases q)
    case (PushLoad v)
    then show ?thesis
      using step P q Q by (auto simp: mm_event_def)
  next
    case (PushFull v c)
    then show ?thesis
      using step P q Q push_full_ok [OF R, of v c] by (auto simp: mm_event_def split: if_splits)
  next
    case (PushCas v c)
    then show ?thesis
      using step P q Q sys_ok_reserve [OF ok t] by (auto simp: mm_event_def split: if_splits)
  next
    case (PushWrite v c k)
    then show ?thesis
      using step q sys_ok_write [OF ok t, of v c k] sys_ok_commit [OF ok t, of v c k]
      by (auto simp: mm_event_def split: if_splits)
  next
    case (PushSee c)
    then show ?thesis
      using step P q Q ring_okD(8) [OF R] by (auto simp: mm_event_def)
  next
    case (PushTest c f)
    then show ?thesis
      using step P q Q by (auto simp: mm_event_def split: if_splits)
  next
    case (PushClear c f)
    then show ?thesis
      using step P q Q sys_ok_clear [OF ok t, of c "PushMove c"]
      by (auto simp: mm_event_def split: if_splits)
  next
    case (PushMove c)
    then show ?thesis
      using step q sys_ok_move [OF ok t, of c "PushSee (Suc c)"] by (auto simp: mm_event_def)
  qed (use q(2) in simp_all)
  show "rg_rd r = rg_rd (mm_ring s)"
    using step by (cases q) (auto simp: write_byte_def store_flag_def split: if_splits)
  show "takes (mm_event q p) = []"
    using step q(2) by (cases q) (auto simp: mm_event_def split: if_splits)
qed

lemma sys_ok_pop:
  assumes ok: "sys_ok n H s" and t: "t < length (mm_pcs s)" and q: "mm_pcs s ! t = q" "\<not> in_push q"
    and step: "mm_pop_step slot Some None b q (mm_ring s) = (p, r)"
  shows "sys_ok n H (s\<lparr>mm_ring := r, mm_pcs := (mm_pcs s)[t := p]\<rparr>)"
    "reserves (mm_event q p) = []"
    "rg_rd r = rg_rd (mm_ring s) \<and> takes (mm_event q p) = [] \<or>
     rg_rd r = Suc (rg_rd (mm_ring s)) \<and> takes (mm_event q p) = [H ! rg_rd (mm_ring s)]"
proof -
  note R = sys_okD(1) [OF ok] and P = sys_okD(2) [OF ok t]
  note Q = sys_ok_quiet [OF ok t]
  have stay: "p = q \<and> r = mm_ring s \<and> mm_event q q = []" if "has_returned q"
    using that step by (cases q) (auto simp: mm_event_def)
  have same: "s\<lparr>mm_ring := mm_ring s, mm_pcs := (mm_pcs s)[t := q]\<rparr> = s"
    using q by auto
  have "sys_ok n H (s\<lparr>mm_ring := r, mm_pcs := (mm_pcs s)[t := p]\<rparr>) \<and>
    reserves (mm_event q p) = [] \<and>
    (rg_rd r = rg_rd (mm_ring s) \<and> takes (mm_event q p) = [] \<or>
     rg_rd r = Suc (rg_rd (mm_ring s)) \<and> takes (mm_event q p) = [H ! rg_rd (mm_ring s)])"
  proof (cases q)
    case PopLoad
    then show ?thesis
      using step q Q by (auto simp: mm_event_def)
  next
    case (PopWt c)
    then show ?thesis
      using step P q Q pop_wt_ok [OF R, of c] by (auto simp: mm_event_def split: if_splits)
  next
    case (PopFlag c)
    then show ?thesis
      using step P q Q ring_okD(8) [OF R, of "slot c" c]
      by (auto simp: mm_event_def Let_def split: if_splits)
  next
    case (PopClear c f)
    then show ?thesis
      using step P q Q sys_ok_clear [OF ok t, of c "PopMove c"]
      by (auto simp: mm_event_def store_flag_def split: if_splits)
  next
    case (PopMove c)
    then show ?thesis
      using step q sys_ok_move [OF ok t, of c PopLoad] by (auto simp: mm_event_def)
  next
    case (PopCopy c buff)
    have n: "length (rg_data (mm_ring s) (slot c)) = n" by (rule ring_okD(5) [OF R])
    have b: "c \<le> rg_rd (mm_ring s)" "length buff \<le> n"
        "c = rg_rd (mm_ring s) \<Longrightarrow> c < rg_wt (mm_ring s) \<and> buff = take (length buff) (H ! c)"
      using P PopCopy q by auto
    consider "length buff < n" | "length buff = n" "b" "c = rg_rd (mm_ring s)"
      | "length buff = n" "\<not> (b \<and> rg_rd (mm_ring s) = c)"
      using b(2) by force
    then show ?thesis
    proof cases
      case 1
      have "rg_data (mm_ring s) (slot c) = H ! c" if "c = rg_rd (mm_ring s)"
        using ring_okD(7) [OF R, of c] b(3) that by simp
      then have "pc_ok n H (mm_ring s) (PopCopy c (buff @ [rg_data (mm_ring s) (slot c) ! length buff]))"
        using b 1 n take_Suc_conv_app_nth [of "length buff" "H ! c"] by auto
      from Q [OF _ _ this] show ?thesis
        using step PopCopy 1 n q by (auto simp: mm_event_def)
    next
      case 2
      then show ?thesis
        using step PopCopy n q sys_ok_take [OF ok t, of buff] by (auto simp: mm_event_def)
    next
      case 3
      then show ?thesis
        using step PopCopy n q Q by (auto simp: mm_event_def)
    qed
  qed (use stay same ok q(2) in simp_all)
  then show "sys_ok n H (s\<lparr>mm_ring := r, mm_pcs := (mm_pcs s)[t := p]\<rparr>)"
    "reserves (mm_event q p) = []"
    "rg_rd r = rg_rd (mm_ring s) \<and> takes (mm_event q p) = [] \<or>
     rg_rd r = Suc (rg_rd (mm_ring s)) \<and> takes (mm_event q p) = [H ! rg_rd (mm_ring s)]"
    by blast+
qed

text \<open>The history up to a state: what was reserved explains the ring, and what was taken is
  its beginning, up to the read counter.\<close>

definition hist_ok :: "nat \<Rightarrow> 'b ring_event list \<Rightarrow> 'b nsys \<Rightarrow> bool" where
  "hist_ok n es s \<longleftrightarrow>
     sys_ok n (reserves es) s \<and> takes es = take (rg_rd (mm_ring s)) (reserves es)"

lemma reserves_append [simp]: "reserves (xs @ ys) = reserves xs @ reserves ys"
  by (induction xs rule: reserves.induct) auto

lemma takes_append [simp]: "takes (xs @ ys) = takes xs @ takes ys"
  by (induction xs rule: takes.induct) auto

lemma sys_ok_rd: "sys_ok n H s \<Longrightarrow> rg_rd (mm_ring s) \<le> length H"
  using ring_okD(1-3) [OF sys_okD(1)] by (metis le_trans)

lemma hist_ok_run:
  assumes ok: "hist_ok n es s" and t: "t < length (mm_pcs s)"
    and step: "mm_step slot Some None b (mm_pcs s ! t) (mm_ring s) = (p, r)"
  shows "hist_ok n (es @ mm_event (mm_pcs s ! t) p) (s\<lparr>mm_ring := r, mm_pcs := (mm_pcs s)[t := p]\<rparr>)"
proof -
  have H: "sys_ok n (reserves es) s" "takes es = take (rg_rd (mm_ring s)) (reserves es)"
    using ok by (auto simp: hist_ok_def)
  show ?thesis
  proof (cases "in_push (mm_pcs s ! t)")
    case True
    then have "mm_push_step slot Some None b (mm_pcs s ! t) (mm_ring s) = (p, r)"
      using step by (simp add: mm_step_def)
    from sys_ok_push [OF H(1) t refl True this] show ?thesis
      using H(2) sys_ok_rd [OF H(1)] by (simp add: hist_ok_def)
  next
    case False
    then have "mm_pop_step slot Some None b (mm_pcs s ! t) (mm_ring s) = (p, r)"
      using step by (simp add: mm_step_def)
    note P = sys_ok_pop [OF H(1) t refl False this]
    have "rg_rd r \<le> length (reserves es)"
      using sys_ok_rd [OF P(1)] by simp
    then show ?thesis
      using P H(2) by (auto simp: hist_ok_def take_Suc_conv_app_nth)
  qed
qed

lemma hist_ok_step:
  assumes ok: "hist_ok n es s" and step: "nat_step n l s = (e, s')"
  shows "hist_ok n (es @ e) s'"
proof (cases l)
  case (CallPush t v)
  have "ticket_of (mm_pcs s ! t) = None" if "has_returned (mm_pcs s ! t)"
    using that by (cases "mm_pcs s ! t") auto
  then show ?thesis
    using step ok CallPush sys_ok_quiet [of n "reserves es" s t "PushLoad v"]
    by (auto simp: hist_ok_def)
next
  case (CallPop t)
  have "ticket_of (mm_pcs s ! t) = None" if "has_returned (mm_pcs s ! t)"
    using that by (cases "mm_pcs s ! t") auto
  then show ?thesis
    using step ok CallPop sys_ok_quiet [of n "reserves es" s t PopLoad]
    by (auto simp: hist_ok_def)
next
  case (Run t b)
  then show ?thesis
    using step ok hist_ok_run [OF ok, of t b]
    by (cases "t < length (mm_pcs s)") (auto split: prod.splits)
qed

lemma hist_ok_runs:
  "hist_ok n es s \<Longrightarrow> nat_run n ls s = (e, s') \<Longrightarrow> hist_ok n (es @ e) s'"
proof (induction ls arbitrary: es s e)
  case (Cons l ls)
  obtain e1 s1 e2 where *: "nat_step n l s = (e1, s1)" "nat_run n ls s1 = (e2, s')" "e = e1 @ e2"
    using Cons.prems(2) by (auto split: prod.splits)
  show ?case
    using Cons.IH [OF hist_ok_step [OF Cons.prems(1) *(1)] *(2)] *(3) by simp
qed simp

lemma hist_ok_init:
  assumes "length d = n"
  shows "hist_ok n [] (mm_init None d ts)"
  using assms by (auto simp: hist_ok_def sys_ok_def ring_ok_def mm_init_def)

end
