(* ===== verification/Ipc_Ring_Words.thy ===== *)
theory Ipc_Ring_Words
  imports Ipc_Ring_Steps "HOL-Library.Sublist"
begin

text \<open>
  The ring with the program's 32-bit counters. It takes the steps of the ring over unbounded
  counters as long as no thread sleeps between two accesses while \<open>2 ^ 32\<close> further values are
  pushed (\<open>unlapped\<close>); a run of any length may wrap the counters.
\<close>

type_synonym 'b wpc = "(u2_t, flag_t, 'b) mm_pc"
type_synonym 'b wring = "(u2_t, flag_t, 'b) ring"
type_synonym 'b wsys = "(u2_t, flag_t, 'b) mm_sys"

definition wflag :: "nat option \<Rightarrow> flag_t" where
  "wflag f = (case f of None \<Rightarrow> 0 | Some c \<Rightarrow> flag_of (of_nat c))"

definition wpc :: "'b npc \<Rightarrow> 'b wpc" where
  "wpc = map_mm_pc of_nat wflag id"

definition wring :: "'b nring \<Rightarrow> 'b wring" where
  "wring r = \<lparr>rg_rd = of_nat (rg_rd r), rg_wt = of_nat (rg_wt r), rg_ct = of_nat (rg_ct r),
     rg_flag = (\<lambda>i. wflag (rg_flag r i)), rg_data = rg_data r\<rparr>"

definition wsys :: "'b nsys \<Rightarrow> 'b wsys" where
  "wsys s = \<lparr>mm_ring = wring (mm_ring s), mm_pcs = map wpc (mm_pcs s)\<rparr>"

text \<open>The counters a thread holds in its local variables.\<close>

fun held :: "'b npc \<Rightarrow> nat list" where
  "held (PushFull v c) = [c]"
| "held (PushCas v c) = [c]"
| "held (PushWrite v c k) = [c]"
| "held (PushSee c) = [c]"
| "held (PushTest c f) = c # (case f of None \<Rightarrow> [] | Some d \<Rightarrow> [d])"
| "held (PushClear c f) = [c]"
| "held (PushMove c) = [c]"
| "held (PopWt c) = [c]"
| "held (PopFlag c) = [c]"
| "held (PopClear c f) = [c]"
| "held (PopMove c) = [c]"
| "held (PopCopy c b) = [c]"
| "held p = []"

definition near :: "'b nsys \<Rightarrow> bool" where
  "near s \<longleftrightarrow> list_all (\<lambda>p. list_all (\<lambda>c. rg_ct (mm_ring s) < c + 2 ^ 32) (held p)) (mm_pcs s)"

fun unlapped :: "nat \<Rightarrow> 'b call list \<Rightarrow> 'b nsys \<Rightarrow> bool" where
  "unlapped n [] s \<longleftrightarrow> True"
| "unlapped n (l # ls) s \<longleftrightarrow> near s \<and> unlapped n ls (snd (nat_step n l s))"

subsection \<open>Equal words are equal counters\<close>

definition close :: "nat \<Rightarrow> nat \<Rightarrow> bool" where
  "close C c \<longleftrightarrow> c \<le> C \<and> C < c + 2 ^ 32"

lemma close_eq:
  assumes "close C c" "close C d"
  shows "(of_nat c :: u2_t) = of_nat d \<longleftrightarrow> c = d"
proof -
  have le: "c = d" if "d \<le> c" "(of_nat c :: u2_t) = of_nat d" "c - d < 2 ^ 32" for c d :: nat
  proof -
    have "c mod 2 ^ 32 = d mod 2 ^ 32"
      using arg_cong [OF that(2), of unat] by (simp add: unat_of_nat)
    then have "2 ^ 32 dvd c - d"
      using that(1) by (simp add: mod_eq_dvd_iff_nat)
    then show ?thesis
      using that nat_dvd_not_less [of "c - d" "2 ^ 32"] by fastforce
  qed
  have "c - d < 2 ^ 32" "d - c < 2 ^ 32"
    using assms unfolding close_def by linarith+
  then show ?thesis
    using le [of d c] le [of c d] by (cases "d \<le> c") auto
qed

lemma circ_index_of_nat [simp]: "circ_index_of (of_nat c) = slot c"
  by (rule bit_word_eqI) (simp add: circ_index_of_def bit_simps)

lemma circ_index_of_next [simp]: "circ_index_of (of_nat c + 1) = 1 + slot c"
  using circ_index_of_nat [of "Suc c"] by (simp add: add.commute)

lemma flag_of_inject: "flag_of x = flag_of y \<longleftrightarrow> x = y"
proof -
  have "z = ucast (NOT (flag_of z))" for z
    by (rule bit_word_eqI) (simp add: flag_of_def bit_simps)
  then show ?thesis by metis
qed

lemma flag_of_nonzero: "flag_of x \<noteq> 0"
proof
  assume "flag_of x = 0"
  then have "bit (flag_of x) 63 = bit (0 :: flag_t) 63" by simp
  then show False by (auto simp: flag_of_def bit_simps dest: bit_imp_le_length)
qed

definition close_flag :: "nat \<Rightarrow> nat option \<Rightarrow> bool" where
  "close_flag C f \<longleftrightarrow> (\<forall>c. f = Some c \<longrightarrow> close C c)"

lemma wflag_eq:
  assumes "close_flag C f" "close_flag C g"
  shows "wflag f = wflag g \<longleftrightarrow> f = g"
  using assms close_eq [of C] flag_of_nonzero
  by (cases f; cases g) (auto simp: wflag_def close_flag_def flag_of_inject)

lemma flag_of_nat: "flag_of (of_nat c) = wflag (Some c)"
  by (simp add: wflag_def)

subsection \<open>The words follow the counters\<close>

lemma wring_simps [simp]:
  "rg_rd (wring r) = of_nat (rg_rd r)" "rg_wt (wring r) = of_nat (rg_wt r)"
  "rg_ct (wring r) = of_nat (rg_ct r)" "rg_flag (wring r) i = wflag (rg_flag r i)"
  "rg_data (wring r) = rg_data r"
  by (simp_all add: wring_def)

lemma wring_updates:
  "wring (r\<lparr>rg_ct := c\<rparr>) = (wring r)\<lparr>rg_ct := of_nat c\<rparr>"
  "wring (r\<lparr>rg_wt := c\<rparr>) = (wring r)\<lparr>rg_wt := of_nat c\<rparr>"
  "wring (r\<lparr>rg_rd := c\<rparr>) = (wring r)\<lparr>rg_rd := of_nat c\<rparr>"
  "wring (store_flag i f r) = store_flag i (wflag f) (wring r)"
  "wring (write_byte i k b r) = write_byte i k b (wring r)"
  by (auto simp: wring_def store_flag_def write_byte_def)

lemma close_ring:
  assumes "ring_ok n H r"
  shows "close (rg_ct r) (rg_rd r)" "close (rg_ct r) (rg_wt r)" "close (rg_ct r) (rg_ct r)"
    "close_flag (rg_ct r) (rg_flag r i)"
  using ring_okD(1-4) [OF assms] ring_okD(8) [OF assms, of i]
  by (auto simp: close_def close_flag_def)

lemma close_held:
  assumes "pc_ok n H r p" "ring_ok n H r" "list_all (\<lambda>c. rg_ct r < c + 2 ^ 32) (held p)" "c \<in> set (held p)"
  shows "close (rg_ct r) c"
  using assms(1,3,4) ring_okD(1-4) [OF assms(2)]
  by (cases p) (auto simp: close_def split: option.splits)

lemma word_thread_step:
  assumes p: "pc_ok n H r p" and r: "ring_ok n H r"
    and c: "list_all (\<lambda>c. rg_ct r < c + 2 ^ 32) (held p)"
  shows "mm_step circ_index_of flag_of 0 b (wpc p) (wring r) =
    map_prod wpc wring (mm_step slot Some None b p r)"
proof -
  note close = close_held [OF p r c] and C = close_ring [OF r]
  have eq: "(of_nat x :: u2_t) = of_nat y \<longleftrightarrow> x = y"
    if "x \<in> set (held p) \<union> {rg_rd r, rg_wt r, rg_ct r}" "y \<in> set (held p) \<union> {rg_rd r, rg_wt r, rg_ct r}" for x y
    using close_eq [of "rg_ct r" x y] close C that by blast
  have feq: "wflag (rg_flag r i) = wflag (Some x) \<longleftrightarrow> rg_flag r i = Some x" if "x \<in> set (held p)" for x i
    using wflag_eq [OF C(4)] close [OF that] by (simp add: close_flag_def)
  show ?thesis
  proof (cases p)
    case (PushTest x f)
    have "wflag f = wflag (Some x) \<longleftrightarrow> f = Some x"
      by (rule wflag_eq) (use close PushTest in \<open>auto simp: close_flag_def\<close>)
    then show ?thesis
      using eq [of x "rg_wt r"] PushTest
      by (auto simp: mm_step_def wpc_def flag_of_nat)
  next
    case (PushClear x f)
    then show ?thesis
      using feq [of x] p
      by (simp add: mm_step_def wpc_def wring_updates wflag_def [of None])
  next
    case (PopFlag x)
    then show ?thesis
      using feq [of x]
      by (simp add: mm_step_def wpc_def flag_of_nat Let_def)
  next
    case (PopClear x f)
    then show ?thesis
      using feq [of x] p
      by (simp add: mm_step_def wpc_def wring_updates wflag_def [of None])
  next
    case (PopCopy x buff)
    then show ?thesis
      using eq [of "rg_rd r" x] by (simp add: mm_step_def wpc_def wring_updates Let_def)
  next
    case (PushCas v x)
    then show ?thesis
      using eq [of "rg_ct r" x] by (simp add: mm_step_def wpc_def wring_updates)
  qed (simp_all add: mm_step_def wpc_def wring_updates flag_of_nat)
qed

lemma wsys_simps [simp]:
  "mm_ring (wsys s) = wring (mm_ring s)" "mm_pcs (wsys s) = map wpc (mm_pcs s)"
  by (simp_all add: wsys_def)

lemma wsys_update:
  "wsys (s\<lparr>mm_ring := r, mm_pcs := (mm_pcs s)[t := p]\<rparr>) =
   (wsys s)\<lparr>mm_ring := wring r, mm_pcs := (map wpc (mm_pcs s))[t := wpc p]\<rparr>"
  "wsys (s\<lparr>mm_pcs := (mm_pcs s)[t := p]\<rparr>) = (wsys s)\<lparr>mm_pcs := (map wpc (mm_pcs s))[t := wpc p]\<rparr>"
  by (simp_all add: wsys_def map_update)

lemma returned_wpc [simp]: "has_returned (wpc p) = has_returned p"
  by (cases p) (simp_all add: wpc_def)

lemma wpc_calls: "wpc (PushLoad v) = PushLoad v" "wpc PopLoad = PopLoad" "wpc Idle = Idle"
  by (simp_all add: wpc_def)

lemma mm_event_wpc: "mm_event (wpc p) (wpc q) = mm_event p q"
  by (cases p; cases q) (auto simp: mm_event_def wpc_def split: option.splits)

lemma word_step_follows:
  assumes "sys_ok n H s" "near s"
  shows "word_step n l (wsys s) = apsnd wsys (nat_step n l s)"
proof (cases l)
  case (Run t b)
  show ?thesis
  proof (cases "t < length (mm_pcs s)")
    case True
    obtain p r where pr: "mm_step slot Some None b (mm_pcs s ! t) (mm_ring s) = (p, r)"
      by fastforce
    have "list_all (\<lambda>c. rg_ct (mm_ring s) < c + 2 ^ 32) (held (mm_pcs s ! t))"
      using assms(2) True by (simp add: near_def list_all_length)
    from word_thread_step [OF sys_okD(2) [OF assms(1) True] sys_okD(1) [OF assms(1)] this, of b] pr
    have "mm_step circ_index_of flag_of 0 b (wpc (mm_pcs s ! t)) (wring (mm_ring s)) = (wpc p, wring r)"
      by simp
    then show ?thesis
      using Run True pr by (simp add: mm_event_wpc wsys_update)
  qed (use Run in simp)
qed (auto simp: wsys_update wpc_calls)

lemma word_run_follows:
  assumes "hist_ok n es s" "unlapped n ls s"
  shows "word_run n ls (wsys s) = apsnd wsys (nat_run n ls s)"
  using assms
proof (induction ls arbitrary: es s)
  case (Cons l ls)
  obtain e s1 where e: "nat_step n l s = (e, s1)" by fastforce
  have "word_step n l (wsys s) = (e, wsys s1)"
    using word_step_follows [of n "reserves es" s l] Cons.prems e by (simp add: hist_ok_def)
  moreover have "word_run n ls (wsys s1) = apsnd wsys (nat_run n ls s1)"
    using Cons.IH [OF hist_ok_step [OF Cons.prems(1) e]] Cons.prems(2) e by simp
  ultimately show ?case
    using e by (simp split: prod.splits)
qed simp

lemma wsys_init: "wsys (mm_init None d ts) = mm_init 0 d ts"
  by (simp add: wsys_def mm_init_def wring_def wflag_def wpc_calls)

end
