(* ===== verification/Ipc_Ring_Fifo.thy ===== *)
theory Ipc_Ring_Fifo
  imports Ipc_Ring_Words
begin

text \<open>
  The ring between two calls. \<open>ring_push\<close> and \<open>ring_pop\<close> run one call to its end while
  no other thread moves; whatever calls were interleaved before, the ring then is a bounded
  queue: \<open>ring_holds\<close> gives its contents, and the two calls are the operations of a queue
  of capacity 255.
\<close>

fun mm_until :: "('c::{one,plus} \<Rightarrow> u1_t) \<Rightarrow> ('c \<Rightarrow> 'f) \<Rightarrow> 'f \<Rightarrow> nat \<Rightarrow>
    ('c, 'f, 'b) mm_pc \<Rightarrow> ('c, 'f, 'b) ring \<Rightarrow> (('c, 'f, 'b) mm_pc \<times> ('c, 'f, 'b) ring) option" where
  "mm_until idx fl z 0 p r = (if has_returned p then Some (p, r) else None)"
| "mm_until idx fl z (Suc k) p r =
     (if has_returned p then Some (p, r)
      else (let (p', r') = mm_step idx fl z True p r in mm_until idx fl z k p' r'))"

lemma until_returned [simp]: "has_returned p \<Longrightarrow> mm_until idx fl z k p r = Some (p, r)"
  by (cases k) simp_all

abbreviation "nat_until \<equiv> mm_until slot Some None"
abbreviation "word_until \<equiv> mm_until circ_index_of flag_of 0"

definition ring_push :: "'b list \<Rightarrow> 'b wring \<Rightarrow> (bool \<times> 'b wring) res" where
  "ring_push v r =
     (case word_until (length v + 10) (PushLoad v) r of
        Some (Pushed b, r') \<Rightarrow> Inr (b, r')
      | _ \<Rightarrow> Inl NoReturn)"

definition ring_pop :: "'b wring \<Rightarrow> ('b list option \<times> 'b wring) res" where
  "ring_pop r =
     (case word_until (length (rg_data r 0) + 10) PopLoad r of
        Some (Popped m, r') \<Rightarrow> Inr (m, r')
      | _ \<Rightarrow> Inl NoReturn)"

definition committed :: "'b nring \<Rightarrow> bool" where
  "committed r \<longleftrightarrow> (\<forall>c. rg_wt r \<le> c \<and> c < rg_ct r \<longrightarrow> rg_flag r (slot c) = Some c)"

definition ring_holds :: "nat \<Rightarrow> 'b list list \<Rightarrow> 'b wring \<Rightarrow> bool" where
  "ring_holds n q r \<longleftrightarrow>
     (\<exists>nr H. ring_ok n H nr \<and> committed nr \<and> r = wring nr \<and> q = drop (rg_rd nr) H)"

subsection \<open>One thread alone\<close>

definition recent :: "'b nring \<Rightarrow> 'b npc \<Rightarrow> bool" where
  "recent r p \<longleftrightarrow> (\<forall>c\<in>set (held p). rg_rd r \<le> c)"

lemma recent_near:
  assumes "ring_ok n H r" "recent r p"
  shows "list_all (\<lambda>c. rg_ct r < c + 2 ^ 32) (held p)"
  using assms(2) ring_okD(4) [OF assms(1)] by (fastforce simp: recent_def list_all_iff)

lemma recent_step:
  assumes "ring_ok n H r" "recent r p" "mm_step slot Some None b p r = (p', r')"
  shows "recent r' p'"
proof -
  have f: "rg_flag r i = Some d \<Longrightarrow> rg_rd r \<le> d" for i d
    using ring_okD(2,8) [OF assms(1)] by fastforce
  show ?thesis
    using assms(2,3) ring_okD(2,3) [OF assms(1)] f
    by (cases p) (auto simp: recent_def mm_step_def store_flag_def write_byte_def Let_def
      split: if_splits option.splits)
qed

definition alone :: "'b nring \<Rightarrow> 'b npc \<Rightarrow> 'b nsys" where
  "alone r p = \<lparr>mm_ring = r, mm_pcs = [p]\<rparr>"

lemma alone_step:
  assumes "sys_ok n H (alone r p)" "mm_step slot Some None b p r = (p', r')"
  shows "sys_ok n (H @ reserves (mm_event p p')) (alone r' p')"
proof (cases "in_push p")
  case True
  then show ?thesis
    using sys_ok_push(1) [OF assms(1), of 0 p b p' r'] assms(2)
    by (simp add: alone_def mm_step_def)
next
  case False
  then show ?thesis
    using sys_ok_pop(1,2) [OF assms(1), of 0 p b p' r'] assms(2)
    by (simp add: alone_def mm_step_def)
qed

lemma alone_until:
  assumes "sys_ok n H (alone r p)" "recent r p"
  shows "word_until k (wpc p) (wring r) = map_option (map_prod wpc wring) (nat_until k p r)"
  using assms
proof (induction k arbitrary: H r p)
  case (Suc k)
  obtain p' r' where step: "mm_step slot Some None True p r = (p', r')" by fastforce
  have ok: "pc_ok n H r p" "ring_ok n H r"
    using sys_okD(2) [OF Suc.prems(1), of 0] sys_okD(1) [OF Suc.prems(1)] by (simp_all add: alone_def)
  have "mm_step circ_index_of flag_of 0 True (wpc p) (wring r) = (wpc p', wring r')"
    using word_thread_step [OF ok recent_near [OF ok(2) Suc.prems(2)], of True] step by simp
  then show ?case
    using Suc.IH [OF alone_step [OF Suc.prems(1) step] recent_step [OF ok(2) Suc.prems(2) step]] step
    by simp
qed simp

lemma alone_start:
  assumes "ring_ok n H r" "committed r" "pc_ok n H r p" "ticket_of p = None"
  shows "sys_ok n H (alone r p)"
  using assms by (simp add: sys_ok_def alone_def committed_def)

lemma alone_end:
  assumes "sys_ok n H (alone r p)" "has_returned p"
  shows "ring_ok n H r" "committed r"
proof -
  have "ticket_of p = None" using assms(2) by (cases p) auto
  then show "ring_ok n H r" "committed r"
    using assms(1) by (auto simp: sys_ok_def alone_def committed_def)
qed

lemma aloneD:
  assumes "sys_ok n H (alone r p)"
  shows "ring_ok n H r" "pc_ok n H r p"
  using sys_okD(1) [OF assms] sys_okD(2) [OF assms, of 0] by (simp_all add: alone_def)

lemma until_step:
  assumes "\<not> has_returned p" "mm_step idx fl z True p r = (p', r')"
  shows "mm_until idx fl z (Suc k) p r = mm_until idx fl z k p' r'"
  using assms by simp

text \<open>The producer alone: it copies its bytes and publishes its own slot, or leaves it to the
  next consumer if slots before it are committed and not yet published.\<close>

lemma write_until:
  assumes "sys_ok n H (alone r (PushWrite v c k))" "k \<le> length v"
  shows "\<exists>r'. nat_until (length v - k + j) (PushWrite v c k) r = nat_until j (PushWrite v c (length v)) r' \<and>
    sys_ok n H (alone r' (PushWrite v c (length v))) \<and> rg_rd r' = rg_rd r \<and> rg_ct r' = rg_ct r"
  using assms
proof (induction "length v - k" arbitrary: r k)
  case (Suc m)
  define r1 where "r1 = write_byte (slot c) k (v ! k) r"
  have k: "k < length v" "m = length v - Suc k" using Suc.hyps(2) by auto
  have step: "mm_step slot Some None True (PushWrite v c k) r = (PushWrite v c (Suc k), r1)"
    using k by (simp add: mm_step_def r1_def)
  have "sys_ok n H (alone r1 (PushWrite v c (Suc k)))"
    using alone_step [OF Suc.prems(1) step] by (simp add: mm_event_def)
  from Suc.hyps(1) [OF k(2) this] k(1) obtain r' where r':
    "nat_until (m + j) (PushWrite v c (Suc k)) r1 = nat_until j (PushWrite v c (length v)) r'"
    "sys_ok n H (alone r' (PushWrite v c (length v)))" "rg_rd r' = rg_rd r1" "rg_ct r' = rg_ct r1"
    using k(2) by auto
  have "nat_until (length v - k + j) (PushWrite v c k) r = nat_until (m + j) (PushWrite v c (Suc k)) r1"
    using step by (simp add: Suc.hyps(2) [symmetric])
  then show ?case
    using r' by (intro exI [of _ r']) (simp add: r1_def write_byte_def)
qed auto

lemma publish_until:
  assumes ok: "sys_ok n H (alone r (PushSee c))" and c: "Suc c = rg_ct r"
    and f: "rg_flag r (slot c) = Some c"
  shows "\<exists>r'. nat_until (6 + j) (PushSee c) r = Some (Pushed True, r') \<and>
    sys_ok n H (alone r' (Pushed True)) \<and> rg_rd r' = rg_rd r"
proof -
  have s1: "mm_step slot Some None True (PushSee c) r = (PushTest c (Some c), r)"
    using f by (simp add: mm_step_def)
  note ok1 = alone_step [OF ok s1]
  show ?thesis
  proof (cases "c = rg_wt r")
    case False
    then have s2: "mm_step slot Some None True (PushTest c (Some c)) r = (Pushed True, r)"
      by (simp add: mm_step_def)
    have "nat_until (6 + j) (PushSee c) r = Some (Pushed True, r)"
      using s1 s2 by (simp add: numeral_eq_Suc)
    then show ?thesis
      using alone_step [OF ok1 s2] by (auto simp: mm_event_def)
  next
    case True
    define r1 where "r1 = store_flag (slot c) None r"
    define r2 where "r2 = r1\<lparr>rg_wt := Suc c\<rparr>"
    have s2: "mm_step slot Some None True (PushTest c (Some c)) r = (PushClear c (Some c), r)"
      and s3: "mm_step slot Some None True (PushClear c (Some c)) r = (PushMove c, r1)"
      and s4: "mm_step slot Some None True (PushMove c) r1 = (PushSee (Suc c), r2)"
      using True f by (simp_all add: mm_step_def r1_def r2_def)
    note ok4 = alone_step [OF alone_step [OF alone_step [OF ok1 s2] s3] s4]
    define f2 where "f2 = rg_flag r2 (slot (Suc c))"
    have s5: "mm_step slot Some None True (PushSee (Suc c)) r2 = (PushTest (Suc c) f2, r2)"
      by (simp add: mm_step_def f2_def)
    have "f2 \<noteq> Some (Suc c)"
      using ring_okD(8) [OF aloneD(1) [OF ok4], of "slot (Suc c)" "Suc c"] c
      by (auto simp: f2_def r2_def r1_def store_flag_def)
    then have s6: "mm_step slot Some None True (PushTest (Suc c) f2) r2 = (Pushed True, r2)"
      by (auto simp: mm_step_def)
    have "nat_until (6 + j) (PushSee c) r = Some (Pushed True, r2)"
      using s1 s2 s3 s4 s5 s6 by (simp add: numeral_eq_Suc)
    moreover have "rg_rd r2 = rg_rd r"
      by (simp add: r2_def r1_def store_flag_def)
    ultimately show ?thesis
      using alone_step [OF alone_step [OF ok4 s5] s6] by (auto simp: mm_event_def)
  qed
qed

lemma push_until:
  assumes R: "ring_ok n H r" "committed r" and v: "length v = n"
  shows "\<exists>r'. nat_until (length v + 10) (PushLoad v) r = Some (Pushed (rg_ct r < rg_rd r + 255), r') \<and>
    rg_rd r' = rg_rd r \<and> committed r' \<and> (rg_ct r < rg_rd r + 255 \<or> r' = r) \<and>
    ring_ok n (if rg_ct r < rg_rd r + 255 then H @ [v] else H) r'"
proof -
  have ok0: "sys_ok n H (alone r (PushLoad v))"
    by (rule alone_start) (use R v in auto)
  have s1: "mm_step slot Some None True (PushLoad v) r = (PushFull v (rg_ct r), r)"
    by (simp add: mm_step_def)
  note ok1 = alone_step [OF ok0 s1]
  show ?thesis
  proof (cases "rg_ct r < rg_rd r + 255")
    case False
    then have "rg_ct r + 1 = rg_rd r + 256" using ring_okD(4) [OF R(1)] by simp
    then have "slot (rg_ct r + 1) = slot (rg_rd r) + 256" by (metis of_nat_add of_nat_numeral)
    then have s2: "mm_step slot Some None True (PushFull v (rg_ct r)) r = (Pushed False, r)"
      by (simp add: mm_step_def)
    have "nat_until (length v + 10) (PushLoad v) r = Some (Pushed False, r)"
      using s1 s2 by (simp add: numeral_eq_Suc)
    then show ?thesis using R False by auto
  next
    case True
    define r1 where "r1 = r\<lparr>rg_ct := Suc (rg_ct r)\<rparr>"
    have "slot (rg_ct r + 1) \<noteq> slot (rg_rd r)"
      using slot_eq [of "rg_rd r" "rg_ct r + 1" "rg_rd r"] True ring_okD(2,3) [OF R(1)] by simp
    then have s2: "mm_step slot Some None True (PushFull v (rg_ct r)) r = (PushCas v (rg_ct r), r)"
      by (simp add: mm_step_def)
    have s3: "mm_step slot Some None True (PushCas v (rg_ct r)) r = (PushWrite v (rg_ct r) 0, r1)"
      by (simp add: mm_step_def r1_def)
    have "sys_ok n (H @ [v]) (alone r1 (PushWrite v (rg_ct r) 0))"
      using alone_step [OF alone_step [OF ok1 s2] s3] by (simp add: mm_event_def)
    from write_until [OF this, of 7] obtain r2 where r2:
      "nat_until (length v + 7) (PushWrite v (rg_ct r) 0) r1 = nat_until 7 (PushWrite v (rg_ct r) (length v)) r2"
      "sys_ok n (H @ [v]) (alone r2 (PushWrite v (rg_ct r) (length v)))"
      "rg_rd r2 = rg_rd r" "rg_ct r2 = Suc (rg_ct r)"
      by (auto simp: r1_def)
    define r3 where "r3 = store_flag (slot (rg_ct r)) (Some (rg_ct r)) r2"
    have s4: "mm_step slot Some None True (PushWrite v (rg_ct r) (length v)) r2 = (PushSee (rg_ct r), r3)"
      by (simp add: mm_step_def r3_def)
    have "sys_ok n (H @ [v]) (alone r3 (PushSee (rg_ct r)))"
      using alone_step [OF r2(2) s4] by (simp add: mm_event_def)
    from publish_until [OF this, of 0] obtain r4 where r4:
      "nat_until 6 (PushSee (rg_ct r)) r3 = Some (Pushed True, r4)"
      "sys_ok n (H @ [v]) (alone r4 (Pushed True))" "rg_rd r4 = rg_rd r3"
      using r2(4) by (auto simp: r3_def store_flag_def)
    have "nat_until (length v + 10) (PushLoad v) r = nat_until (length v + 7) (PushWrite v (rg_ct r) 0) r1"
      using s1 s2 s3 by (simp add: numeral_eq_Suc)
    also have "\<dots> = nat_until 6 (PushSee (rg_ct r)) r3"
      using r2(1) until_step [OF _ s4, of 6] by simp
    finally show ?thesis
      using r4 r2(3) True alone_end [OF r4(2)] by (auto simp: r3_def store_flag_def)
  qed
qed

text \<open>The consumer alone: it publishes the committed slot it stands on, if it must, and takes
  the oldest value.\<close>

lemma copy_until:
  assumes "sys_ok n H (alone r (PopCopy (rg_rd r) b))"
  shows "\<exists>r'. nat_until (n - length b + Suc j) (PopCopy (rg_rd r) b) r = Some (Popped (Some (H ! rg_rd r)), r') \<and>
    sys_ok n H (alone r' (Popped (Some (H ! rg_rd r)))) \<and> rg_rd r' = Suc (rg_rd r)"
  using assms
proof (induction "n - length b" arbitrary: b)
  case (Suc m)
  have n: "length (rg_data r (slot (rg_rd r))) = n" by (rule ring_okD(5) [OF aloneD(1) [OF Suc.prems]])
  define b1 where "b1 = b @ [rg_data r (slot (rg_rd r)) ! length b]"
  have step: "mm_step slot Some None True (PopCopy (rg_rd r) b) r = (PopCopy (rg_rd r) b1, r)"
    using Suc.hyps(2) n by (simp add: mm_step_def b1_def Let_def)
  have m: "m = n - length b1" using Suc.hyps(2) by (simp add: b1_def)
  have "sys_ok n H (alone r (PopCopy (rg_rd r) b1))"
    using alone_step [OF Suc.prems step] by (simp add: mm_event_def)
  note IH = Suc.hyps(1) [OF m this, folded m]
  have "nat_until (n - length b + Suc j) (PopCopy (rg_rd r) b) r = nat_until (m + Suc j) (PopCopy (rg_rd r) b1) r"
    using step by (simp add: Suc.hyps(2) [symmetric])
  with IH show ?case by simp
next
  case 0
  have n: "length (rg_data r (slot (rg_rd r))) = n" by (rule ring_okD(5) [OF aloneD(1) [OF "0.prems"]])
  have b: "length b = n" using aloneD(2) [OF "0.prems"] 0 by simp
  have take: "b = H ! rg_rd r"
    using sys_ok_take(1) [OF "0.prems", of 0 b] b by (simp add: alone_def)
  have step: "mm_step slot Some None True (PopCopy (rg_rd r) b) r = (Popped (Some b), r\<lparr>rg_rd := Suc (rg_rd r)\<rparr>)"
    using b n by (simp add: mm_step_def Let_def)
  have "nat_until (n - length b + Suc j) (PopCopy (rg_rd r) b) r =
      nat_until j (Popped (Some b)) (r\<lparr>rg_rd := Suc (rg_rd r)\<rparr>)"
    using until_step [OF _ step, of j] b by simp
  also have "\<dots> = Some (Popped (Some b), r\<lparr>rg_rd := Suc (rg_rd r)\<rparr>)"
    by simp
  finally show ?case
    using alone_step [OF "0.prems" step] take by (auto simp: mm_event_def)
qed

lemma take_until:
  assumes ok: "sys_ok n H (alone r PopLoad)" and lt: "rg_rd r < rg_wt r" and m: "n + 3 \<le> m"
  shows "\<exists>r'. nat_until m PopLoad r = Some (Popped (Some (H ! rg_rd r)), r') \<and>
    sys_ok n H (alone r' (Popped (Some (H ! rg_rd r)))) \<and> rg_rd r' = Suc (rg_rd r)"
proof -
  have s1: "mm_step slot Some None True PopLoad r = (PopWt (rg_rd r), r)"
    by (simp add: mm_step_def)
  have "slot (rg_rd r) \<noteq> slot (rg_wt r)"
    using slot_eq [of "rg_rd r" "rg_rd r" "rg_wt r"] lt ring_okD(2-4) [OF aloneD(1) [OF ok]] by simp
  then have s2: "mm_step slot Some None True (PopWt (rg_rd r)) r = (PopCopy (rg_rd r) [], r)"
    by (simp add: mm_step_def)
  have "sys_ok n H (alone r (PopCopy (rg_rd r) []))"
    using alone_step [OF alone_step [OF ok s1] s2] by (simp add: mm_event_def)
  note copy = copy_until [OF this, simplified]
  obtain j where j: "m = n + 3 + j" using m le_Suc_ex by blast
  have "nat_until m PopLoad r = nat_until (n + Suc j) (PopCopy (rg_rd r) []) r"
    using s1 s2 by (simp add: j numeral_eq_Suc)
  then show ?thesis using copy [of j] by simp
qed

lemma pop_until:
  assumes R: "ring_ok n H r" "committed r"
  shows "\<exists>r'. nat_until (n + 10) PopLoad r =
      Some (Popped (if rg_rd r < rg_ct r then Some (H ! rg_rd r) else None), r') \<and>
    rg_rd r' = (if rg_rd r < rg_ct r then Suc (rg_rd r) else rg_rd r) \<and>
    committed r' \<and> ring_ok n H r'"
proof -
  have ok0: "sys_ok n H (alone r PopLoad)"
    by (rule alone_start) (use R in auto)
  show ?thesis
  proof (cases "rg_rd r < rg_wt r")
    case True
    then have lt: "rg_rd r < rg_ct r" using ring_okD(3) [OF R(1)] by simp
    from take_until [OF ok0 True, of "n + 10"] obtain r' where r':
      "nat_until (n + 10) PopLoad r = Some (Popped (Some (H ! rg_rd r)), r')"
      "sys_ok n H (alone r' (Popped (Some (H ! rg_rd r))))" "rg_rd r' = Suc (rg_rd r)"
      by auto
    then show ?thesis
      using lt alone_end [OF r'(2)] by simp
  next
    case False
    then have wt: "rg_wt r = rg_rd r" using ring_okD(2) [OF R(1)] by simp
    have s1: "mm_step slot Some None True PopLoad r = (PopWt (rg_rd r), r)"
      and s2: "mm_step slot Some None True (PopWt (rg_rd r)) r = (PopFlag (rg_rd r), r)"
      by (simp_all add: mm_step_def wt)
    note ok2 = alone_step [OF alone_step [OF ok0 s1] s2]
    show ?thesis
    proof (cases "rg_rd r < rg_ct r")
      case False
      then have "rg_flag r (slot (rg_rd r)) \<noteq> Some (rg_rd r)"
        using ring_okD(8) [OF R(1), of "slot (rg_rd r)" "rg_rd r"] by auto
      then have s3: "mm_step slot Some None True (PopFlag (rg_rd r)) r = (Popped None, r)"
        by (simp add: mm_step_def Let_def)
      show ?thesis
        using s1 s2 s3 R False by (simp add: numeral_eq_Suc)
    next
      case True
      define c where "c = rg_rd r"
      define r1 where "r1 = store_flag (slot c) None r"
      define r2 where "r2 = r1\<lparr>rg_wt := Suc c\<rparr>"
      have f: "rg_flag r (slot c) = Some c"
        using R(2) True wt by (simp add: committed_def c_def)
      have s3: "mm_step slot Some None True (PopFlag c) r = (PopClear c (Some c), r)"
        and s4: "mm_step slot Some None True (PopClear c (Some c)) r = (PopMove c, r1)"
        and s5: "mm_step slot Some None True (PopMove c) r1 = (PopLoad, r2)"
        using f by (simp_all add: mm_step_def Let_def r1_def r2_def)
      have "sys_ok n H (alone r2 PopLoad)"
        using alone_step [OF alone_step [OF alone_step [OF ok2 [folded c_def] s3] s4] s5]
        by (simp add: mm_event_def)
      from take_until [OF this, of "n + 5"] obtain r' where r':
        "nat_until (n + 5) PopLoad r2 = Some (Popped (Some (H ! c)), r')"
        "sys_ok n H (alone r' (Popped (Some (H ! c))))" "rg_rd r' = Suc c"
        by (auto simp: r2_def r1_def store_flag_def c_def)
      have "nat_until (n + 10) PopLoad r = nat_until (n + 5) PopLoad r2"
        using s1 s2 s3 s4 s5 by (simp add: numeral_eq_Suc c_def)
      then show ?thesis
        using r' True alone_end [OF r'(2)] by (simp add: c_def)
    qed
  qed
qed

subsection \<open>The bounded queue\<close>

lemma ring_holds_length: "ring_holds n q r \<Longrightarrow> length q \<le> 255"
  by (auto simp: ring_holds_def ring_ok_def)

lemma ring_push_holds:
  assumes q: "ring_holds n q r" and v: "length v = n"
  shows "\<exists>r'. ring_push v r = Inr (length q < 255, r') \<and>
    (length q < 255 \<or> r' = r) \<and> ring_holds n (if length q < 255 then q @ [v] else q) r'"
proof -
  obtain nr H where nr: "ring_ok n H nr" "committed nr" "r = wring nr" "q = drop (rg_rd nr) H"
    using q by (auto simp: ring_holds_def)
  have len: "length q < 255 \<longleftrightarrow> rg_ct nr < rg_rd nr + 255" "rg_rd nr \<le> length H"
    using nr(4) ring_okD(1-4) [OF nr(1)] by auto
  from push_until [OF nr(1,2) v] obtain r' where r':
    "nat_until (length v + 10) (PushLoad v) nr = Some (Pushed (length q < 255), r')"
    "rg_rd r' = rg_rd nr" "committed r'" "ring_ok n (if length q < 255 then H @ [v] else H) r'"
    "length q < 255 \<or> r' = nr"
    using len(1) by auto
  have "sys_ok n H (alone nr (PushLoad v))"
    by (rule alone_start) (use nr v in auto)
  from alone_until [OF this] have
    "word_until (length v + 10) (PushLoad v) r = Some (Pushed (length q < 255), wring r')"
    using r'(1) nr(3) by (simp add: recent_def wpc_def)
  moreover have "ring_holds n (if length q < 255 then q @ [v] else q) (wring r')"
    using r'(2-4) nr(4) len(2)
    by (auto simp: ring_holds_def intro!: exI [of _ r'] exI [of _ "if length q < 255 then H @ [v] else H"])
  ultimately show ?thesis
    using r'(5) nr(3) by (auto simp: ring_push_def)
qed

lemma ring_pop_holds:
  assumes q: "ring_holds n q r"
  shows "\<exists>r'. ring_pop r = Inr (case q of [] \<Rightarrow> None | v # q' \<Rightarrow> Some v, r') \<and> ring_holds n (tl q) r'"
proof -
  obtain nr H where nr: "ring_ok n H nr" "committed nr" "r = wring nr" "q = drop (rg_rd nr) H"
    using q by (auto simp: ring_holds_def)
  have ct: "rg_ct nr = length H" by (rule ring_okD(1) [OF nr(1)])
  have hd: "(if rg_rd nr < rg_ct nr then Some (H ! rg_rd nr) else None) = (case q of [] \<Rightarrow> None | v # q' \<Rightarrow> Some v)"
    using nr(4) ct by (auto simp: Cons_nth_drop_Suc [symmetric])
  from pop_until [OF nr(1,2)] obtain r' where r':
    "nat_until (n + 10) PopLoad nr = Some (Popped (case q of [] \<Rightarrow> None | v # q' \<Rightarrow> Some v), r')"
    "rg_rd r' = (if rg_rd nr < rg_ct nr then Suc (rg_rd nr) else rg_rd nr)" "committed r'" "ring_ok n H r'"
    using hd by auto
  have "sys_ok n H (alone nr PopLoad)"
    by (rule alone_start) (use nr in auto)
  from alone_until [OF this] have
    "word_until (n + 10) PopLoad r = Some (Popped (case q of [] \<Rightarrow> None | v # q' \<Rightarrow> Some v), wring r')"
    using r'(1) nr(3) by (simp add: recent_def wpc_def option.map_id list.map_id option.map_id0)
  moreover have "tl q = drop (rg_rd r') H"
    using r'(2) nr(4) ct by (auto simp: drop_Suc tl_drop)
  then have "ring_holds n (tl q) (wring r')"
    using r'(3,4) by (auto simp: ring_holds_def)
  moreover have "length (rg_data r 0) = n"
    using nr(3) ring_okD(5) [OF nr(1)] by simp
  ultimately show ?thesis
    by (simp add: ring_pop_def)
qed

end
