(* ===== verification/Ipc_Channel.thy ===== *)
theory Ipc_Channel
  imports Ipc_Storage Ipc_Ring_Fifo
begin

text \<open>
  The channel of \<^verbatim>\<open>src/deps/shm-ipc/src/ipc.cpp\<close> for the policy of \<open>shm_chan_t\<close> (several
  producers, several consumers, unicast): a message is split into elements of 64 bytes, or
  copied to a block of shared memory when it is larger and a block is free; the receiver puts
  the fragments together again.

  \<^item> \<open>chan\<close> is the shared part: the ring, the counter of connected receivers, the counter of
    message numbers and the blocks. \<open>conn_info\<close> is the part of one handle.
  \<^item> A call that waits (\<open>wait_for\<close>) tries again after each of the given changes that others
    make to the channel meanwhile, and gives up after the last.
  \<^item> Bytes that were never written are \<open>None\<close> in a buffer.
\<close>

record msg_t =
  mg_conn :: "32 word"
  mg_id :: "32 word"
  mg_remain :: int
  mg_storage :: bool
  mg_data :: "byte_t list"

record cache_t =
  ca_fill :: nat
  ca_buff :: "byte_t option list"

datatype buff_t = NoBuff | HeapBuff "byte_t option list" | StoreBuff nat nat

record conn_info =
  ci_cc_id :: "32 word"
  ci_acc :: bool
  ci_elems :: bool
  ci_connected :: "32 word"
  ci_sender :: bool
  ci_cache :: "(32 word \<times> cache_t) list"
  ci_shm :: cls_shm

record chan =
  cn_ring :: "msg_t wring"
  cn_cc :: "32 word"
  cn_acc :: "32 word"
  cn_store :: storages

primrec le_bytes :: "nat \<Rightarrow> nat \<Rightarrow> byte_t list" where
  "le_bytes 0 n = []"
| "le_bytes (Suc k) n = of_nat n # le_bytes k (n div 256)"

primrec of_le_bytes :: "byte_t list \<Rightarrow> nat" where
  "of_le_bytes [] = 0"
| "of_le_bytes (b # bs) = unat b + 256 * of_le_bytes bs"

definition pad_data :: "byte_t list \<Rightarrow> byte_t list" where
  "pad_data d = d @ replicate (data_length - length d) 0"

definition msg_new :: "32 word \<Rightarrow> 32 word \<Rightarrow> int \<Rightarrow> byte_t list \<Rightarrow> nat \<Rightarrow> msg_t" where
  "msg_new c i r d s =
     \<lparr>mg_conn = c, mg_id = i, mg_remain = r, mg_storage = (s = 0),
      mg_data = pad_data (take (if s = 0 then 8 else s) d)\<rparr>"

definition make_cache :: "byte_t list \<Rightarrow> nat \<Rightarrow> byte_t option list" where
  "make_cache d n = map Some (take n d) @ replicate (n - length d) None"

text \<open>The bytes past the 64 of an element, which a copy of more would read, are unknown (\<open>None\<close>), like those of a fresh
  buffer in \<open>make_cache\<close>.\<close>

definition cache_append :: "byte_t list \<Rightarrow> nat \<Rightarrow> cache_t \<Rightarrow> cache_t" where
  "cache_append d n c =
     (if ca_fill c \<ge> length (ca_buff c) \<or> n = 0 then c
      else (let new_fill = min (ca_fill c + n) (length (ca_buff c)) in
        c\<lparr>ca_buff := take (ca_fill c) (ca_buff c) @ make_cache d (new_fill - ca_fill c)
            @ drop new_fill (ca_buff c),
          ca_fill := new_fill\<rparr>))"

subsection \<open>Connections\<close>

definition cc_connect :: "32 word \<Rightarrow> 32 word \<times> 32 word" where
  "cc_connect cc = (cc + 1, cc + 1)"

definition cc_disconnect :: "32 word \<Rightarrow> 32 word \<Rightarrow> 32 word \<times> 32 word" where
  "cc_disconnect cc_id cc = (if cc_id = - 1 then (0, 0) else (cc - 1, cc - 1))"

definition que_connect :: "conn_info \<Rightarrow> chan \<Rightarrow> bool \<times> conn_info \<times> chan" where
  "que_connect h c =
     (if \<not> ci_elems h then (False, h, c)
      else if ci_connected h \<noteq> 0 then (True, h, c)
      else (let (i, cc) = cc_connect (cn_cc c) in
        (i \<noteq> 0, h\<lparr>ci_connected := i\<rparr>, c\<lparr>cn_cc := cc\<rparr>)))"

definition que_disconnect :: "conn_info \<Rightarrow> chan \<Rightarrow> bool \<times> conn_info \<times> chan" where
  "que_disconnect h c =
     (if \<not> ci_elems h \<or> ci_connected h = 0 then (False, h, c)
      else (True, h\<lparr>ci_connected := 0\<rparr>, c\<lparr>cn_cc := snd (cc_disconnect (ci_connected h) (cn_cc c))\<rparr>))"

definition ready_sending :: "conn_info \<Rightarrow> bool \<times> conn_info" where
  "ready_sending h = (if \<not> ci_elems h then (False, h) else (True, h\<lparr>ci_sender := True\<rparr>))"

definition disconnect_receiver :: "conn_info \<Rightarrow> chan \<Rightarrow> conn_info \<times> chan" where
  "disconnect_receiver h c =
     (let (dis, h1, c1) = que_disconnect h c in (if dis then h1\<lparr>ci_cache := []\<rparr> else h1, c1))"

definition chan_reconnect :: "bool \<Rightarrow> conn_info \<Rightarrow> chan \<Rightarrow> bool \<times> conn_info \<times> chan" where
  "chan_reconnect start_to_recv h c =
     (if start_to_recv then que_connect h c
      else (let (h1, c1) = (if ci_connected h \<noteq> 0 then disconnect_receiver h c else (h, c));
                (b, h2) = ready_sending h1 in (b, h2, c1)))"

definition chan_disconnect :: "conn_info option \<Rightarrow> chan \<Rightarrow> conn_info option \<times> chan" where
  "chan_disconnect ho c =
     (case ho of None \<Rightarrow> (None, c) | Some h \<Rightarrow> let (h1, c1) = disconnect_receiver h c in (Some h1, c1))"

definition conn_info_new :: "bool \<Rightarrow> bool \<Rightarrow> 32 word option \<Rightarrow> cls_shm \<Rightarrow> conn_info \<times> 32 word option" where
  "conn_info_new elems acc cc_acc l =
     (\<lparr>ci_cc_id = (case cc_acc of None \<Rightarrow> 0 | Some n \<Rightarrow> n), ci_acc = acc, ci_elems = elems,
       ci_connected = 0, ci_sender = False, ci_cache = [], ci_shm = l\<rparr>,
      map_option (\<lambda>n. n + 1) cc_acc)"

definition chan_connect :: "conn_info \<Rightarrow> conn_info option \<Rightarrow> bool \<Rightarrow> chan \<Rightarrow> bool \<times> conn_info \<times> chan" where
  "chan_connect fresh ho start_to_recv c =
     chan_reconnect start_to_recv (case ho of None \<Rightarrow> fresh | Some h \<Rightarrow> h) c"

record chan_wrapper =
  cw_h :: "conn_info option"
  cw_mode :: bool
  cw_connected :: bool

definition wrapper_connect :: "string \<Rightarrow> bool \<Rightarrow> conn_info \<Rightarrow> chan_wrapper \<Rightarrow> chan \<Rightarrow>
    bool \<times> chan_wrapper \<times> chan" where
  "wrapper_connect name mode fresh w c =
     (if name = [] then (False, w, c)
      else (let (h1, c1) = chan_disconnect (cw_h w) c;
                (b, h2, c2) = chan_connect fresh h1 mode c1
            in (b, \<lparr>cw_h = Some h2, cw_mode = mode, cw_connected = b\<rparr>, c2)))"

definition wrapper_reconnect :: "bool \<Rightarrow> chan_wrapper \<Rightarrow> chan \<Rightarrow> bool \<times> chan_wrapper \<times> chan" where
  "wrapper_reconnect mode w c =
     (case cw_h w of None \<Rightarrow> (False, w, c) | Some h \<Rightarrow>
      if cw_connected w \<and> cw_mode w = mode then (True, w, c)
      else (let (b, h1, c1) = chan_reconnect mode h c
            in (b, \<lparr>cw_h = Some h1, cw_mode = mode, cw_connected = b\<rparr>, c1)))"

definition wrapper_disconnect :: "chan_wrapper \<Rightarrow> chan \<Rightarrow> chan_wrapper \<times> chan" where
  "wrapper_disconnect w c =
     (case cw_h w of None \<Rightarrow> (w, c) | Some h \<Rightarrow>
      let (h1, c1) = chan_disconnect (Some h) c in (w\<lparr>cw_h := h1, cw_connected := False\<rparr>, c1))"

definition recv_count :: "conn_info \<Rightarrow> chan \<Rightarrow> nat" where
  "recv_count h c = (if \<not> ci_elems h then invalid_value else unat (cn_cc c))"

subsection \<open>Waiting\<close>

fun wait_for :: "('s \<Rightarrow> (bool \<times> 's) res) \<Rightarrow> ('s \<Rightarrow> 's) list \<Rightarrow> 's \<Rightarrow> (bool \<times> 's) res" where
  "wait_for attempt [] s = attempt s"
| "wait_for attempt (e # es) s =
     rbind (attempt s) (\<lambda>(b, s1). if b then Inr (True, s1) else wait_for attempt es (e s1))"

definition wait_for_recv :: "nat \<Rightarrow> (chan \<Rightarrow> chan) list \<Rightarrow> conn_info \<Rightarrow> chan \<Rightarrow> (bool \<times> chan) res" where
  "wait_for_recv r_count es h c =
     wait_for (\<lambda>c. Inr (\<not> recv_count h c < r_count, c)) es c"

definition que_push :: "msg_t \<Rightarrow> chan \<Rightarrow> (bool \<times> chan) res" where
  "que_push m c = rbind (ring_push [m] (cn_ring c)) (\<lambda>(b, r). Inr (b, c\<lparr>cn_ring := r\<rparr>))"

definition que_force_push :: "chan \<Rightarrow> bool \<times> chan" where
  "que_force_push c = (False, c\<lparr>cn_cc := snd (cc_disconnect 1 (cn_cc c))\<rparr>)"

definition que_pop :: "chan \<times> msg_t option \<Rightarrow> (bool \<times> chan \<times> msg_t option) res" where
  "que_pop = (\<lambda>(c, m). rbind (ring_pop (cn_ring c)) (\<lambda>(v, r).
     case v of
       None \<Rightarrow> Inr (False, c\<lparr>cn_ring := r\<rparr>, m)
     | Some bs \<Rightarrow> Inr (True, c\<lparr>cn_ring := r\<rparr>, Some (hd bs))))"

subsection \<open>Sending\<close>

type_synonym try_push = "nat \<Rightarrow> msg_t \<Rightarrow> chan \<Rightarrow> (bool \<times> chan) res"

definition env_at :: "'e list list \<Rightarrow> nat \<Rightarrow> 'e list" where
  "env_at es i = (if i < length es then es ! i else [])"

definition push_or_force :: "(chan \<Rightarrow> chan) list list \<Rightarrow> try_push" where
  "push_or_force es i m c =
     rbind (wait_for (que_push m) (env_at es i) c)
       (\<lambda>(b, c1). if b then Inr (True, c1) else Inr (que_force_push c1))"

definition push_or_fail :: "(chan \<Rightarrow> chan) list list \<Rightarrow> try_push" where
  "push_or_fail es i m c = wait_for (que_push m) (env_at es i) c"

definition int32 :: "int \<Rightarrow> int" where
  "int32 x = sint (word_of_int x :: 32 word)"

definition in_int32 :: "int \<Rightarrow> int res" where
  "in_int32 x = (if - (2 ^ 31) \<le> x \<and> x < 2 ^ 31 then Inr x else Inl Overflow)"

primrec send_full :: "nat \<Rightarrow> try_push \<Rightarrow> 32 word \<Rightarrow> 32 word \<Rightarrow> byte_t list \<Rightarrow> nat \<Rightarrow> int \<Rightarrow> chan \<Rightarrow>
    (bool \<times> int \<times> chan) res" where
  "send_full 0 push cc_id msg_id data i offset c = Inr (True, offset, c)"
| "send_full (Suc k) push cc_id msg_id data i offset c =
     rbind (in_int32 (int32 (int (length data)) - offset)) (\<lambda>rest.
     rbind (in_int32 (rest - int data_length)) (\<lambda>remain.
     rbind (push i (msg_new cc_id msg_id remain (drop (nat offset) data) data_length) c) (\<lambda>(b, c1).
       if \<not> b then Inr (False, offset, c1)
       else rbind (in_int32 (offset + int data_length)) (\<lambda>offset1.
         send_full k push cc_id msg_id data (Suc i) offset1 c1))))"

definition send_fragments :: "try_push \<Rightarrow> 32 word \<Rightarrow> 32 word \<Rightarrow> byte_t list \<Rightarrow> chan \<Rightarrow> (bool \<times> chan) res" where
  "send_fragments push cc_id msg_id data c =
     (let k = nat (int32 (int (length data div data_length))) in
      rbind (send_full k push cc_id msg_id data 0 0 c) (\<lambda>(b, offset, c1).
        if \<not> b then Inr (False, c1)
        else rbind (in_int32 (int32 (int (length data)) - offset)) (\<lambda>remain.
          if remain > 0 then
            push k (msg_new cc_id msg_id (remain - int data_length) (drop (nat offset) data) (nat remain)) c1
          else Inr (True, c1))))"

definition write_block :: "nat \<Rightarrow> nat \<Rightarrow> byte_t list \<Rightarrow> storages \<Rightarrow> storages" where
  "write_block cls i d m =
     m(cls := (m cls)\<lparr>cm_block := (cm_block (m cls))(i := d @ drop (length d) (cm_block (m cls) i))\<rparr>)"

definition send_with :: "shm_os \<Rightarrow> try_push \<Rightarrow> byte_t list option \<Rightarrow> conn_info option \<Rightarrow> chan \<Rightarrow>
    (bool \<times> conn_info option \<times> chan) res" where
  "send_with os push d ho c =
     (case d of None \<Rightarrow> Inr (False, ho, c) | Some data \<Rightarrow>
      if data = [] then Inr (False, ho, c)
      else case ho of None \<Rightarrow> Inr (False, None, c) | Some h0 \<Rightarrow>
        if \<not> ci_elems h0 then Inr (False, ho, c)
        else let (ready, h) = ready_sending h0 in
        if \<not> ready then Inr (False, Some h, c)
        else if cn_cc c = 0 then Inr (False, Some h, c)
        else if \<not> ci_acc h then Inr (False, Some h, c)
        else let msg_id = cn_acc c; c1 = c\<lparr>cn_acc := msg_id + 1\<rparr> in
        if length data > large_msg_limit then
          rbind (apply_storage os (recv_count h c1) (length data) (ci_shm h, cn_store c1))
            (\<lambda>((i, buf), l, st). let h1 = h\<lparr>ci_shm := l\<rparr>; c2 = c1\<lparr>cn_store := st\<rparr> in
              if buf then
                rbind (in_int32 (int32 (int (length data)) - int data_length)) (\<lambda>remain.
                rbind (push 0 (msg_new (ci_cc_id h1) msg_id remain (le_bytes 8 i) 0)
                    (c2\<lparr>cn_store := write_block (calc_cls_size (length data)) i data st\<rparr>))
                  (\<lambda>(b, c3). Inr (b, Some h1, c3)))
              else rbind (send_fragments push (ci_cc_id h1) msg_id data c2) (\<lambda>(b, c3). Inr (b, Some h1, c3)))
        else rbind (send_fragments push (ci_cc_id h) msg_id data c1) (\<lambda>(b, c3). Inr (b, Some h, c3)))"

definition ipc_send :: "shm_os \<Rightarrow> (chan \<Rightarrow> chan) list list \<Rightarrow> byte_t list option \<Rightarrow> conn_info option \<Rightarrow>
    chan \<Rightarrow> (bool \<times> conn_info option \<times> chan) res" where
  "ipc_send os es = send_with os (push_or_force es)"

definition ipc_try_send :: "shm_os \<Rightarrow> (chan \<Rightarrow> chan) list list \<Rightarrow> byte_t list option \<Rightarrow> conn_info option \<Rightarrow>
    chan \<Rightarrow> (bool \<times> conn_info option \<times> chan) res" where
  "ipc_try_send os es = send_with os (push_or_fail es)"

subsection \<open>Receiving\<close>

definition cache_gc :: "32 word \<Rightarrow> (32 word \<times> cache_t) list \<Rightarrow> (32 word \<times> cache_t) list" where
  "cache_gc i rc =
     (if length rc > 1024 then filter (\<lambda>(j, _). \<not> max i j - min i j > 8192) rc else rc)"

definition recv_msg :: "shm_os \<Rightarrow> msg_t \<Rightarrow> conn_info \<Rightarrow> storages \<Rightarrow>
    (buff_t option \<times> conn_info \<times> storages) res" where
  "recv_msg os m h st =
     (if ci_acc h \<and> mg_conn m = ci_cc_id h then Inr (None, h, st)
      else rbind (in_int32 (int data_length + mg_remain m)) (\<lambda>r.
      let remain = nat (r mod 2 ^ 64); rc = ci_cache h in
      case map_of rc (mg_id m) of
        None \<Rightarrow>
          if remain \<le> data_length then Inr (Some (HeapBuff (make_cache (mg_data m) remain)), h, st)
          else let i = of_le_bytes (take 8 (mg_data m)) in
          rbind (if mg_storage m then find_storage os i remain (ci_shm h, st) else Inr (False, ci_shm h, st))
            (\<lambda>(buf, l, st1). let h1 = h\<lparr>ci_shm := l\<rparr> in
              if buf then Inr (Some (StoreBuff i remain), h1, st1)
              else Inr (None, h1\<lparr>ci_cache := um_put (mg_id m)
                \<lparr>ca_fill = data_length, ca_buff = make_cache (mg_data m) remain\<rparr>
                (cache_gc (mg_id m) rc)\<rparr>, st1))
      | Some cac \<Rightarrow>
          if mg_remain m \<le> 0 then
            Inr (Some (HeapBuff (ca_buff (cache_append (mg_data m) remain cac))),
              h\<lparr>ci_cache := um_erase (mg_id m) rc\<rparr>, st)
          else Inr (None, h\<lparr>ci_cache := um_put (mg_id m)
              (cache_append (mg_data m) data_length cac) rc\<rparr>, st)))"

partial_function (option) recv_loop :: "shm_os \<Rightarrow> (chan \<Rightarrow> chan) list list \<Rightarrow>
    conn_info \<Rightarrow> chan \<Rightarrow> (buff_t \<times> conn_info \<times> chan) res option" where
  "recv_loop os es h c =
     (case wait_for que_pop (map apfst (env_at es 0)) (c, None) of
        Inl e \<Rightarrow> Some (Inl e)
      | Inr (b, c1, mo) \<Rightarrow>
          if \<not> b then Some (Inr (NoBuff, h, c1))
          else (case recv_msg os (the mo) h (cn_store c1) of
            Inl e \<Rightarrow> Some (Inl e)
          | Inr (Some buf, h1, st) \<Rightarrow> Some (Inr (buf, h1, c1\<lparr>cn_store := st\<rparr>))
          | Inr (None, h1, st) \<Rightarrow> recv_loop os (drop 1 es) h1 (c1\<lparr>cn_store := st\<rparr>)))"

definition chan_recv_buff :: "shm_os \<Rightarrow> (chan \<Rightarrow> chan) list list \<Rightarrow>
    conn_info option \<Rightarrow> chan \<Rightarrow> (buff_t \<times> conn_info option \<times> chan) res option" where
  "chan_recv_buff os es ho c =
     (case ho of None \<Rightarrow> Some (Inr (NoBuff, None, c)) | Some h \<Rightarrow>
      if ci_connected h = 0 then Some (Inr (NoBuff, ho, c))
      else map_option (\<lambda>r. rbind r (\<lambda>(b, h1, c1). Inr (b, Some h1, c1))) (recv_loop os es h c))"

definition chan_try_recv :: "shm_os \<Rightarrow> conn_info option \<Rightarrow> chan \<Rightarrow>
    (buff_t \<times> conn_info option \<times> chan) res option" where
  "chan_try_recv os = chan_recv_buff os []"

definition buff_data :: "storages \<Rightarrow> buff_t \<Rightarrow> byte_t option list" where
  "buff_data st b = (case b of NoBuff \<Rightarrow> [] | HeapBuff bs \<Rightarrow> bs
     | StoreBuff i n \<Rightarrow> map Some (take n (cm_block (st (calc_cls_size n)) i)))"

definition buff_free :: "shm_os \<Rightarrow> buff_t \<Rightarrow> cls_shm \<times> storages \<Rightarrow> (cls_shm \<times> storages) res" where
  "buff_free os b s = (case b of StoreBuff i n \<Rightarrow> recycle_storage os i n s | _ \<Rightarrow> Inr s)"

end
