(* ===== verification/Ipc_Channel_Laws.thy ===== *)
theory Ipc_Channel_Laws
  imports Ipc_Channel
begin

text \<open>
  What a channel call does to the messages in flight: the elements a send puts on the ring
  (\<open>fragments\<close>, or one element that names a block), and the progress of a receiver through
  the fragments of one message (\<open>partial\<close>).
\<close>

definition fragments :: "32 word \<Rightarrow> 32 word \<Rightarrow> byte_t list \<Rightarrow> msg_t list" where
  "fragments cc_id msg_id data =
     map (\<lambda>i. msg_new cc_id msg_id (int (length data) - int (i * data_length) - int data_length)
         (drop (i * data_length) data) (min data_length (length data - i * data_length)))
       [0..<(length data + data_length - 1) div data_length]"

definition chan_holds :: "msg_t list \<Rightarrow> chan \<Rightarrow> bool" where
  "chan_holds q c \<longleftrightarrow> ring_holds 1 (map (\<lambda>m. [m]) q) (cn_ring c)"

subsection \<open>The queue of a channel\<close>

lemma que_push_holds:
  assumes "chan_holds q c"
  shows "\<exists>r. que_push m c = Inr (length q < 255, c\<lparr>cn_ring := r\<rparr>) \<and>
    chan_holds (if length q < 255 then q @ [m] else q) (c\<lparr>cn_ring := r\<rparr>)"
proof -
  obtain r where "ring_push [m] (cn_ring c) = Inr (length q < 255, r)"
      "ring_holds 1 (map (\<lambda>m. [m]) (if length q < 255 then q @ [m] else q)) r"
    using ring_push_holds [of 1 "map (\<lambda>m. [m]) q" "cn_ring c" "[m]"] assms
    by (auto simp: chan_holds_def split: if_splits)
  then show ?thesis
    by (intro exI [of _ r]) (simp add: que_push_def chan_holds_def)
qed

lemma que_push_full:
  assumes "chan_holds q c" "length q = 255"
  shows "que_push m c = Inr (False, c)"
  using ring_push_holds [of 1 "map (\<lambda>m. [m]) q" "cn_ring c" "[m]"] assms
  by (auto simp: que_push_def chan_holds_def)

lemma que_pop_holds:
  assumes "chan_holds q c"
  shows "\<exists>r. que_pop (c, x) = Inr (q \<noteq> [], c\<lparr>cn_ring := r\<rparr>, case q of [] \<Rightarrow> x | m # _ \<Rightarrow> Some m) \<and>
    chan_holds (tl q) (c\<lparr>cn_ring := r\<rparr>)"
  using ring_pop_holds [of 1 "map (\<lambda>m. [m]) q" "cn_ring c"] assms
  by (cases q) (auto simp: que_pop_def chan_holds_def)

lemma push_at_once:
  assumes "chan_holds q c" "length q < 255"
  shows "\<exists>r. wait_for (que_push m) es c = Inr (True, c\<lparr>cn_ring := r\<rparr>) \<and>
    chan_holds (q @ [m]) (c\<lparr>cn_ring := r\<rparr>)"
  using que_push_holds [OF assms(1), of m] assms(2) by (cases es) auto

text \<open>The two ways to push agree while there is room.\<close>

definition pushes :: "try_push \<Rightarrow> bool" where
  "pushes push \<longleftrightarrow> (\<forall>q c i m. chan_holds q c \<longrightarrow> length q < 255 \<longrightarrow>
     (\<exists>r. push i m c = Inr (True, c\<lparr>cn_ring := r\<rparr>) \<and> chan_holds (q @ [m]) (c\<lparr>cn_ring := r\<rparr>)))"

lemma pushes_force: "pushes (push_or_force es)"
  unfolding pushes_def
proof (intro allI impI)
  fix q c i m
  assume q: "chan_holds q c" "length q < 255"
  from push_at_once [OF q, of m "env_at es i"]
  show "\<exists>r. push_or_force es i m c = Inr (True, c\<lparr>cn_ring := r\<rparr>) \<and> chan_holds (q @ [m]) (c\<lparr>cn_ring := r\<rparr>)"
    by (auto simp: push_or_force_def)
qed

lemma pushes_fail: "pushes (push_or_fail es)"
  unfolding pushes_def push_or_fail_def using push_at_once by blast

subsection \<open>The fragments of a message\<close>

lemma int32_id: "0 \<le> x \<Longrightarrow> x < 2 ^ 31 \<Longrightarrow> int32 x = x"
  by (simp add: int32_def signed_of_int signed_take_bit_int_eq_self)

lemma in_int32_ok: "- (2 ^ 31) \<le> x \<Longrightarrow> x < 2 ^ 31 \<Longrightarrow> in_int32 x = Inr x"
  by (simp add: in_int32_def)

lemma send_full_pushes:
  assumes push: "pushes push" and len: "length data < 2 ^ 31"
    and k: "(i + k) * data_length \<le> length data"
    and q: "chan_holds q c" "length q + k \<le> 255"
  shows "\<exists>r. send_full k push cc_id msg_id data i (int (i * data_length)) c =
      Inr (True, int ((i + k) * data_length), c\<lparr>cn_ring := r\<rparr>) \<and>
    chan_holds (q @ map (\<lambda>j. msg_new cc_id msg_id (int (length data) - int (j * data_length) - int data_length)
      (drop (j * data_length) data) data_length) [i..<i + k]) (c\<lparr>cn_ring := r\<rparr>)"
  using k q
proof (induction k arbitrary: i q c)
  case (Suc k)
  define m where "m = msg_new cc_id msg_id (int (length data) - int (i * data_length) - int data_length)
      (drop (i * data_length) data) data_length"
  have "length q < 255" using Suc.prems(3) by simp
  then obtain r where r: "push i m c = Inr (True, c\<lparr>cn_ring := r\<rparr>)" "chan_holds (q @ [m]) (c\<lparr>cn_ring := r\<rparr>)"
    using push [unfolded pushes_def, rule_format, OF Suc.prems(2)] by blast
  have le: "i * data_length + data_length \<le> length data"
    using Suc.prems(1) by (simp add: algebra_simps)
  have in32: "in_int32 (int32 (int (length data)) - int (i * data_length)) = Inr (int (length data) - int (i * data_length))"
    "in_int32 (int (length data) - int (i * data_length) - int data_length) =
       Inr (int (length data) - int (i * data_length) - int data_length)"
    "in_int32 (int (i * data_length) + int data_length) = Inr (int (Suc i * data_length))"
    using le len by (auto simp: int32_id in_int32_def data_length_def)
  from Suc.IH [of "Suc i" "q @ [m]" "c\<lparr>cn_ring := r\<rparr>"] r(2) Suc.prems obtain r2 where r2:
    "send_full k push cc_id msg_id data (Suc i) (int (Suc i * data_length)) (c\<lparr>cn_ring := r\<rparr>) =
      Inr (True, int ((Suc i + k) * data_length), c\<lparr>cn_ring := r2\<rparr>)"
    "chan_holds ((q @ [m]) @ map (\<lambda>j. msg_new cc_id msg_id (int (length data) - int (j * data_length) - int data_length)
      (drop (j * data_length) data) data_length) [Suc i..<Suc i + k]) (c\<lparr>cn_ring := r2\<rparr>)"
    by auto
  have "send_full (Suc k) push cc_id msg_id data i (int (i * data_length)) c =
    Inr (True, int ((i + Suc k) * data_length), c\<lparr>cn_ring := r2\<rparr>)"
    using r(1) r2(1) by (simp add: in32 m_def [symmetric] del: of_nat_mult mult_Suc)
  moreover have "[i..<i + Suc k] = i # [Suc i..<Suc i + k]"
    by (subst upt_conv_Cons) simp_all
  ultimately show ?case
    using r2(2) m_def by (intro exI [of _ r2]) (simp del: upt_Suc)
next
  case 0
  then show ?case by (intro exI [of _ "cn_ring c"]) simp
qed

lemma fragments_split:
  "fragments cc_id msg_id data =
     map (\<lambda>j. msg_new cc_id msg_id (int (length data) - int (j * data_length) - int data_length)
         (drop (j * data_length) data) data_length) [0..<length data div data_length] @
     (if length data mod data_length = 0 then []
      else [msg_new cc_id msg_id (int (length data mod data_length) - int data_length)
         (drop (length data div data_length * data_length) data) (length data mod data_length)])"
proof -
  define n where "n = length data"
  define k where "k = n div data_length"
  have n: "n = k * data_length + n mod data_length" by (simp add: k_def)
  have count: "(n + data_length - 1) div data_length = (if n mod data_length = 0 then k else Suc k)"
  proof (cases "n mod data_length = 0")
    case True
    have "(n + data_length - 1) div data_length = (k * data_length + 63) div data_length"
      using n True by (simp add: data_length_def)
    then show ?thesis using True by (simp add: data_length_def)
  next
    case False
    have "n + data_length - 1 = Suc k * data_length + (n mod data_length - 1)"
      using n False by (simp add: data_length_def)
    moreover have "n mod data_length - 1 < data_length" by (simp add: data_length_def less_imp_diff_less)
    ultimately show ?thesis using False by (simp add: data_length_def)
  qed
  have full: "min data_length (n - j * data_length) = data_length" if "j < k" for j
  proof -
    have "Suc j * data_length \<le> k * data_length" using that by (intro mult_le_mono1) simp
    then show ?thesis using n by simp
  qed
  have "int n - int (k * data_length) = int (n mod data_length)" "n - k * data_length = n mod data_length"
      "min data_length (n mod data_length) = n mod data_length"
    using n by (linarith, linarith, simp add: data_length_def)
  then show ?thesis
    using full
    by (simp add: fragments_def n_def [symmetric] count [simplified] k_def [symmetric] del: of_nat_mult)
qed

lemma send_fragments_pushes:
  assumes push: "pushes push" and len: "length data < 2 ^ 31"
    and q: "chan_holds q c" "length q + length (fragments cc_id msg_id data) \<le> 255"
  shows "\<exists>r. send_fragments push cc_id msg_id data c = Inr (True, c\<lparr>cn_ring := r\<rparr>) \<and>
    chan_holds (q @ fragments cc_id msg_id data) (c\<lparr>cn_ring := r\<rparr>)"
proof -
  define k where "k = length data div data_length"
  have "k < 2 ^ 31"
    using len div_le_dividend [of "length data" data_length] unfolding k_def by linarith
  then have k: "nat (int32 (int k)) = k"
    by (simp add: int32_id)
  have n: "length data = k * data_length + length data mod data_length" by (simp add: k_def)
  have "length q + k \<le> 255"
    using q(2) by (auto simp: fragments_split k_def split: if_splits)
  moreover have "(0 + k) * data_length \<le> length data" using n by simp
  ultimately obtain r where r:
    "send_full k push cc_id msg_id data 0 0 c = Inr (True, int (k * data_length), c\<lparr>cn_ring := r\<rparr>)"
    "chan_holds (q @ map (\<lambda>j. msg_new cc_id msg_id (int (length data) - int (j * data_length) - int data_length)
      (drop (j * data_length) data) data_length) [0..<k]) (c\<lparr>cn_ring := r\<rparr>)"
    using send_full_pushes [OF push len, of 0 k q c cc_id msg_id] q(1) by auto
  have "int (length data) - int (k * data_length) = int (length data mod data_length)"
      "length data mod data_length < 2 ^ 31"
    using n len mod_less_eq_dividend [of "length data" data_length] by linarith+
  then have rest: "in_int32 (int32 (int (length data)) - int (k * data_length)) = Inr (int (length data mod data_length))"
    using len by (simp add: int32_id in_int32_def del: of_nat_mult of_nat_mod)
  show ?thesis
  proof (cases "length data mod data_length = 0")
    case True
    then show ?thesis
      using r rest
      by (intro exI [of _ r]) (simp add: send_fragments_def k Let_def fragments_split k_def [symmetric]
        del: of_nat_mult)
  next
    case False
    define m where "m = msg_new cc_id msg_id (int (length data mod data_length) - int data_length)
         (drop (k * data_length) data) (length data mod data_length)"
    have "length (q @ map (\<lambda>j. msg_new cc_id msg_id (int (length data) - int (j * data_length) - int data_length)
      (drop (j * data_length) data) data_length) [0..<k]) < 255"
      using q(2) False by (simp add: fragments_split k_def)
    then obtain r2 where r2: "push k m (c\<lparr>cn_ring := r\<rparr>) = Inr (True, c\<lparr>cn_ring := r2\<rparr>)"
      "chan_holds ((q @ map (\<lambda>j. msg_new cc_id msg_id (int (length data) - int (j * data_length) - int data_length)
      (drop (j * data_length) data) data_length) [0..<k]) @ [m]) (c\<lparr>cn_ring := r2\<rparr>)"
      using push [unfolded pushes_def, rule_format, OF r(2), of k m] by auto
    then show ?thesis
      using r(1) rest False r2
      by (intro exI [of _ r2]) (simp add: send_fragments_def k Let_def fragments_split k_def [symmetric]
        m_def [symmetric] del: of_nat_mult of_nat_mod)
  qed
qed

end
