(* ===== verification/Ipc_Receive.thy ===== *)
theory Ipc_Receive
  imports Ipc_Channel_Laws
begin

text \<open>
  The receiver: each message is put together from its fragments, whatever other messages'
  fragments lie between them, and no byte of the result is uninitialised.
\<close>

definition partial_msg :: "byte_t list \<Rightarrow> nat \<Rightarrow> cache_t" where
  "partial_msg data k =
     \<lparr>ca_fill = k * data_length,
      ca_buff = map Some (take (k * data_length) data) @ replicate (length data - k * data_length) None\<rparr>"

lemma fragments_length: "length (fragments cc_id msg_id data) = (length data + data_length - 1) div data_length"
  by (simp add: fragments_def)

lemma fragments_nth:
  assumes "i < length (fragments cc_id msg_id data)"
  shows "fragments cc_id msg_id data ! i =
      msg_new cc_id msg_id (int (length data) - int (i * data_length) - int data_length)
         (drop (i * data_length) data) (min data_length (length data - i * data_length))"
    "i * data_length < length data"
    "Suc i = length (fragments cc_id msg_id data) \<longleftrightarrow> length data \<le> Suc i * data_length"
proof -
  define n where "n = (length data + data_length - 1) div data_length"
  have i: "i < n" using assms by (simp add: fragments_length n_def)
  show "fragments cc_id msg_id data ! i =
      msg_new cc_id msg_id (int (length data) - int (i * data_length) - int data_length)
         (drop (i * data_length) data) (min data_length (length data - i * data_length))"
    using i by (simp add: fragments_def n_def)
  have "Suc j \<le> n \<longleftrightarrow> j * data_length < length data" for j
    unfolding n_def by (auto simp: less_eq_div_iff_mult_less_eq data_length_def)
  from this [of i] this [of "Suc i"]
  show "i * data_length < length data" "Suc i = length (fragments cc_id msg_id data) \<longleftrightarrow> length data \<le> Suc i * data_length"
    using i by (auto simp: fragments_length n_def [simplified, symmetric])
qed

lemma pad_data_take: "n \<le> length d \<Longrightarrow> take n (pad_data d) = take n d"
  by (simp add: pad_data_def)

lemma pad_data_length: "length d \<le> data_length \<Longrightarrow> length (pad_data d) = data_length"
  by (simp add: pad_data_def)

lemma cache_append_short:
  assumes "n \<le> length d"
  shows "cache_append d n c =
     (if ca_fill c \<ge> length (ca_buff c) \<or> n = 0 then c
      else (let new_fill = min (ca_fill c + n) (length (ca_buff c)) in
        c\<lparr>ca_buff := take (ca_fill c) (ca_buff c) @ map Some (take (new_fill - ca_fill c) d) @ drop new_fill (ca_buff c),
          ca_fill := new_fill\<rparr>))"
  using assms by (simp add: cache_append_def make_cache_def Let_def min_def)

lemma partial_last:
  assumes "length data \<le> Suc i * data_length" "i * data_length < length data"
  shows "ca_buff (cache_append (pad_data (take (length data - i * data_length) (drop (i * data_length) data)))
      (length data - i * data_length) (partial_msg data i)) = map Some data"
proof -
  have "take (length data - i * data_length) (pad_data (take (length data - i * data_length) (drop (i * data_length) data))) =
      drop (i * data_length) data"
    using assms by (simp add: pad_data_take)
  moreover have "length data - i * data_length
      \<le> length (pad_data (take (length data - i * data_length) (drop (i * data_length) data)))"
    using assms by (simp add: pad_data_length)
  ultimately show ?thesis
    using assms append_take_drop_id [of "i * data_length" data]
    by (auto simp: cache_append_short partial_msg_def Let_def simp flip: map_append)
qed

lemma partial_next:
  assumes "Suc i * data_length < length data"
  shows "cache_append (pad_data (take data_length (drop (i * data_length) data))) data_length (partial_msg data i) =
      partial_msg data (Suc i)"
proof -
  have "take data_length (pad_data (take data_length (drop (i * data_length) data))) = take data_length (drop (i * data_length) data)"
    using assms by (simp add: pad_data_take)
  moreover have "take (i * data_length) data @ take data_length (drop (i * data_length) data) = take (Suc i * data_length) data"
    by (simp add: take_add [symmetric] add.commute)
  moreover have "data_length \<noteq> 0" by (simp add: data_length_def)
  ultimately show ?thesis
    using assms by (auto simp: cache_append_short pad_data_length partial_msg_def Let_def min_def add.commute simp flip: map_append)
qed

lemma partial_first:
  assumes "data_length < length data"
  shows "make_cache (pad_data (take data_length data)) (length data) = ca_buff (partial_msg data 1)"
    "ca_fill (partial_msg data 1) = data_length"
  using assms by (simp_all add: make_cache_def partial_msg_def pad_data_def)

lemma recv_frag:
  assumes i: "i < length (fragments cc_id msg_id data)" and len: "length data < 2 ^ 31"
    and other: "cc_id \<noteq> ci_cc_id h" and small: "length (ci_cache h) \<le> 1024"
    and cache: "map_of (ci_cache h) msg_id = (if i = 0 then None else Some (partial_msg data i))"
    and dist: "distinct (map fst (ci_cache h))"
  shows "\<exists>rc. recv_msg os (fragments cc_id msg_id data ! i) h st =
      Inr (if Suc i = length (fragments cc_id msg_id data) then Some (HeapBuff (map Some data)) else None,
        h\<lparr>ci_cache := rc\<rparr>, st) \<and>
    map_of rc = (map_of (ci_cache h))(msg_id :=
      if Suc i = length (fragments cc_id msg_id data) then None else Some (partial_msg data (Suc i))) \<and>
    distinct (map fst rc)"
proof -
  define m where "m = fragments cc_id msg_id data ! i"
  note f = fragments_nth [OF i]
  have m: "mg_conn m = cc_id" "mg_id m = msg_id" "\<not> mg_storage m"
      "mg_remain m = int (length data) - int (i * data_length) - int data_length"
      "mg_data m = pad_data (take (min data_length (length data - i * data_length)) (drop (i * data_length) data))"
    using f(1,2) by (auto simp: m_def msg_new_def data_length_def)
  define r where "r = length data - i * data_length"
  have r: "int data_length + mg_remain m = int r" "r < 2 ^ 31" "0 < r"
    using f(2) len m(4) by (auto simp: r_def)
  have remain: "in_int32 (int data_length + mg_remain m) = Inr (int r)" "nat (int r mod 2 ^ 64) = r"
    using r by (simp_all add: in_int32_def)
  have last: "Suc i = length (fragments cc_id msg_id data) \<longleftrightarrow> r \<le> data_length"
    using f(2,3) by (auto simp: r_def)
  have sign: "mg_remain m \<le> 0 \<longleftrightarrow> r \<le> data_length"
    using r(1) by linarith
  have "\<exists>rc. recv_msg os m h st =
      Inr (if r \<le> data_length then Some (HeapBuff (map Some data)) else None, h\<lparr>ci_cache := rc\<rparr>, st) \<and>
    map_of rc = (map_of (ci_cache h))(msg_id :=
      if r \<le> data_length then None else Some (partial_msg data (Suc i))) \<and>
    distinct (map fst rc)"
  proof -
  consider (single) "i = 0" "r \<le> data_length" | (first) "i = 0" "data_length < r"
    | (final) "0 < i" "r \<le> data_length" | (more) "0 < i" "data_length < r"
    by linarith
  then show ?thesis
  proof cases
    case single
    have "make_cache (mg_data m) r = map Some data"
      using single m(5) by (simp add: make_cache_def r_def pad_data_take min_def pad_data_def)
    then show ?thesis
      using single other cache m remain dist fun_upd_idem [of "map_of (ci_cache h)" msg_id None]
      by (intro exI [of _ "ci_cache h"]) (simp add: recv_msg_def Let_def)
  next
    case first
    have "make_cache (mg_data m) r = ca_buff (partial_msg data 1)" "ca_fill (partial_msg data 1) = data_length"
      using first m(5) partial_first [of data] by (auto simp: r_def min_def)
    then have p: "\<lparr>ca_fill = data_length, ca_buff = make_cache (mg_data m) r\<rparr> = partial_msg data 1"
      by (metis cache_t.surjective old.unit.exhaust)
    then show ?thesis
      using first other cache m remain dist p small
      by (intro exI [of _ "um_put msg_id (partial_msg data 1) (ci_cache h)"])
        (simp add: recv_msg_def Let_def cache_gc_def distinct_update)
  next
    case final
    have "ca_buff (cache_append (mg_data m) r (partial_msg data i)) = map Some data"
      using final m(5) f(2) partial_last [of data i] by (auto simp: r_def min_def)
    then show ?thesis
      using final other cache m remain sign dist
      by (intro exI [of _ "um_erase msg_id (ci_cache h)"])
        (simp add: recv_msg_def Let_def distinct_delete)
  next
    case more
    have "cache_append (mg_data m) data_length (partial_msg data i) = partial_msg data (Suc i)"
      using more m(5) partial_next [of i data] by (auto simp: r_def min_def)
    then show ?thesis
      using more other cache m remain sign dist
      by (intro exI [of _ "um_put msg_id (partial_msg data (Suc i)) (ci_cache h)"])
        (simp add: recv_msg_def Let_def distinct_update)
  qed
  qed
  then show ?thesis
    by (simp only: m_def [symmetric] last)
qed

subsection \<open>Several messages at once\<close>

text \<open>The elements as a receiver pops them, and the buffers it returns.\<close>

fun receive_elems :: "shm_os \<Rightarrow> msg_t list \<Rightarrow> conn_info \<Rightarrow> storages \<Rightarrow> (buff_t list \<times> conn_info \<times> storages) res" where
  "receive_elems os [] h st = Inr ([], h, st)"
| "receive_elems os (m # q) h st =
     rbind (recv_msg os m h st) (\<lambda>(b, h1, st1).
     rbind (receive_elems os q h1 st1) (\<lambda>(bs, h2, st2).
       Inr ((case b of None \<Rightarrow> bs | Some x \<Rightarrow> x # bs), h2, st2)))"

definition mixed :: "32 word list \<Rightarrow> (32 word \<Rightarrow> 32 word) \<Rightarrow> (32 word \<Rightarrow> byte_t list) \<Rightarrow> msg_t list \<Rightarrow> bool" where
  "mixed ids conn dat q \<longleftrightarrow>
     list_all (\<lambda>m. mg_id m \<in> set ids) q \<and>
     list_all (\<lambda>i. filter (\<lambda>m. mg_id m = i) q = fragments (conn i) i (dat i)) ids"

lemma fragment_last:
  assumes "i < length (fragments cc_id msg_id data)"
  shows "mg_remain (fragments cc_id msg_id data ! i) \<le> 0 \<longleftrightarrow> Suc i = length (fragments cc_id msg_id data)"
  using fragments_nth(1,3) [OF assms] by (simp add: msg_new_def data_length_def) linarith

lemma cache_small:
  assumes "distinct (map fst rc)" "\<And>i. map_of rc i \<noteq> None \<Longrightarrow> i \<in> set ids" "length ids \<le> n"
  shows "length rc \<le> n"
proof -
  have "set (map fst rc) \<subseteq> set ids"
    using assms(2) by (force simp: map_of_eq_None_iff)
  then have "card (set (map fst rc)) \<le> card (set ids)"
    by (intro card_mono) auto
  then show ?thesis
    using assms(1,3) card_length [of ids] by (simp add: distinct_card del: set_map)
qed

lemma receive_mixed:
  assumes "length ids \<le> 1024"
    and "\<And>i. i \<in> set ids \<Longrightarrow> length (dat i) < 2 ^ 31 \<and> conn i \<noteq> ci_cc_id h"
    and "\<And>m. m \<in> set q \<Longrightarrow> mg_id m \<in> set ids"
    and "\<And>i. i \<in> set ids \<Longrightarrow> filter (\<lambda>m. mg_id m = i) q = drop (k i) (fragments (conn i) i (dat i))"
    and "\<And>i. map_of (ci_cache h) i =
      (if i \<in> set ids \<and> 0 < k i \<and> k i < length (fragments (conn i) i (dat i)) then Some (partial_msg (dat i) (k i)) else None)"
    and "distinct (map fst (ci_cache h))"
  shows "receive_elems os q h st =
    Inr (map (\<lambda>m. HeapBuff (map Some (dat (mg_id m)))) (filter (\<lambda>m. mg_remain m \<le> 0) q), h\<lparr>ci_cache := []\<rparr>, st)"
  using assms(2-)
proof (induction q arbitrary: h k)
  case Nil
  have "map_of (ci_cache h) i = None" for i
    using Nil.prems(3) [of i] Nil.prems(4) [of i] by auto
  then have "ci_cache h = []"
    using map_of_eq_empty_iff [of "ci_cache h"] by blast
  then have "h\<lparr>ci_cache := []\<rparr> = h" by simp
  then show ?case by simp
next
  case (Cons m q)
  define i where "i = mg_id m"
  define fs where "fs = fragments (conn i) i (dat i)"
  have i: "i \<in> set ids" using Cons.prems(2) [of m] by (simp add: i_def)
  have "m # filter (\<lambda>m. mg_id m = i) q = drop (k i) fs"
    using Cons.prems(3) [OF i] by (simp add: i_def fs_def)
  then have ki: "k i < length fs" "m = fs ! k i" "filter (\<lambda>m. mg_id m = i) q = drop (Suc (k i)) fs"
    by (metis drop_all list.discI not_less, metis drop_all list.discI list.sel(1) hd_drop_conv_nth not_less,
        metis drop_Suc list.sel(3) tl_drop)
  have small: "length (ci_cache h) \<le> 1024"
    by (rule cache_small [OF Cons.prems(5) _ assms(1)]) (use Cons.prems(4) in \<open>auto split: if_splits\<close>)
  have "map_of (ci_cache h) i = (if k i = 0 then None else Some (partial_msg (dat i) (k i)))"
    using Cons.prems(4) [of i] i ki(1) by (simp add: fs_def)
  from recv_frag [OF ki(1) [unfolded fs_def] _ _ small this Cons.prems(5), of os st] Cons.prems(1) [OF i]
  obtain rc where rc:
    "recv_msg os m h st = Inr (if Suc (k i) = length fs then Some (HeapBuff (map Some (dat i))) else None, h\<lparr>ci_cache := rc\<rparr>, st)"
    "map_of rc = (map_of (ci_cache h))(i := if Suc (k i) = length fs then None else Some (partial_msg (dat i) (Suc (k i))))"
    "distinct (map fst rc)"
    using ki(2) by (auto simp: fs_def)
  have "receive_elems os q (h\<lparr>ci_cache := rc\<rparr>) st =
    Inr (map (\<lambda>m. HeapBuff (map Some (dat (mg_id m)))) (filter (\<lambda>m. mg_remain m \<le> 0) q), (h\<lparr>ci_cache := rc\<rparr>)\<lparr>ci_cache := []\<rparr>, st)"
  proof (rule Cons.IH [of _ "k(i := Suc (k i))"])
    show "map_of (ci_cache (h\<lparr>ci_cache := rc\<rparr>)) j =
      (if j \<in> set ids \<and> 0 < (k(i := Suc (k i))) j \<and> (k(i := Suc (k i))) j < length (fragments (conn j) j (dat j))
       then Some (partial_msg (dat j) ((k(i := Suc (k i))) j)) else None)" for j
      using rc(2) Cons.prems(4) [of j] i ki(1) by (auto simp: fs_def)
    show "filter (\<lambda>m. mg_id m = j) q = drop ((k(i := Suc (k i))) j) (fragments (conn j) j (dat j))" if "j \<in> set ids" for j
      using Cons.prems(3) [OF that] ki(3) by (auto simp: fs_def i_def)
  qed (use Cons.prems(1,2) rc(3) in auto)
  moreover have "mg_remain m \<le> 0 \<longleftrightarrow> Suc (k i) = length fs"
    using fragment_last [OF ki(1) [unfolded fs_def]] ki(2) by (simp add: fs_def)
  ultimately show ?case
    using rc(1) by (simp add: i_def)
qed

lemma receive_elems_mixed:
  assumes "mixed ids conn dat q" "length ids \<le> 1024"
    "\<And>i. i \<in> set ids \<Longrightarrow> length (dat i) < 2 ^ 31 \<and> conn i \<noteq> ci_cc_id h" "ci_cache h = []"
  shows "receive_elems os q h st =
    Inr (map (\<lambda>m. HeapBuff (map Some (dat (mg_id m)))) (filter (\<lambda>m. mg_remain m \<le> 0) q), h\<lparr>ci_cache := []\<rparr>, st)"
  by (rule receive_mixed [where k = "\<lambda>i. 0" and ids = ids and conn = conn])
    (use assms in \<open>auto simp: mixed_def list_all_iff\<close>)

end
