(* ===== verification/Ipc_Calls.thy ===== *)
theory Ipc_Calls
  imports Ipc_Receive
begin

text \<open>
  Whole calls on a channel: what a send leaves on the ring and in the blocks on each of its
  branches, and what the receives that follow return.
\<close>

subsection \<open>Receives that do not wait\<close>

lemma recv_loop_receives:
  assumes "chan_holds q c" "receive_elems os q h (cn_store c) = Inr (bs, h', st')"
  shows "\<exists>h1 c1 q2. recv_loop os [] h c = Some (Inr (case bs of [] \<Rightarrow> NoBuff | b # _ \<Rightarrow> b, h1, c1)) \<and>
    chan_holds q2 c1 \<and> receive_elems os q2 h1 (cn_store c1) = Inr (tl bs, h', st') \<and> (bs = [] \<longrightarrow> q2 = [])"
  using assms
proof (induction q arbitrary: c h)
  case Nil
  obtain r where r: "que_pop (c, None) = Inr (False, c\<lparr>cn_ring := r\<rparr>, None)" "chan_holds [] (c\<lparr>cn_ring := r\<rparr>)"
    using que_pop_holds [OF Nil.prems(1), of None] by auto
  then have "recv_loop os [] h c = Some (Inr (NoBuff, h, c\<lparr>cn_ring := r\<rparr>))"
    by (subst recv_loop.simps) (simp add: env_at_def)
  then show ?case
    using r(2) Nil.prems(2) by auto
next
  case (Cons m q)
  obtain r where r: "que_pop (c, None) = Inr (True, c\<lparr>cn_ring := r\<rparr>, Some m)" "chan_holds q (c\<lparr>cn_ring := r\<rparr>)"
    using que_pop_holds [OF Cons.prems(1), of None] by auto
  obtain b h1 st1 bs1 where m: "recv_msg os m h (cn_store c) = Inr (b, h1, st1)"
      "receive_elems os q h1 st1 = Inr (bs1, h', st')" "bs = (case b of None \<Rightarrow> bs1 | Some x \<Rightarrow> x # bs1)"
    using Cons.prems(2) by (auto simp: rbind_eq_Inr)
  define c1 where "c1 = c\<lparr>cn_ring := r, cn_store := st1\<rparr>"
  have c1: "chan_holds q c1" "cn_store c1 = st1"
    using r(2) by (simp_all add: c1_def chan_holds_def)
  have loop: "recv_loop os [] h c = (case b of None \<Rightarrow> recv_loop os [] h1 c1 | Some x \<Rightarrow> Some (Inr (x, h1, c1)))"
    using r(1) m(1) by (subst recv_loop.simps) (simp add: env_at_def c1_def split: option.splits)
  show ?case
  proof (cases b)
    case None
    then show ?thesis
      using Cons.IH [OF c1(1), of h1] m c1(2) loop by auto
  next
    case (Some x)
    then show ?thesis
      using m c1 loop by auto
  qed
qed

fun recv_many :: "shm_os \<Rightarrow> nat \<Rightarrow> conn_info option \<Rightarrow> chan \<Rightarrow> (buff_t list \<times> conn_info option \<times> chan) res option" where
  "recv_many os 0 ho c = Some (Inr ([], ho, c))"
| "recv_many os (Suc n) ho c =
     (case chan_try_recv os ho c of
        None \<Rightarrow> None
      | Some (Inl e) \<Rightarrow> Some (Inl e)
      | Some (Inr (b, ho1, c1)) \<Rightarrow>
          map_option (\<lambda>r. rbind r (\<lambda>(bs, ho2, c2). Inr (b # bs, ho2, c2))) (recv_many os n ho1 c1))"

lemma recv_msg_connected:
  assumes "recv_msg os m h st = Inr (b, h1, st1)"
  shows "ci_connected h1 = ci_connected h \<and> ci_cc_id h1 = ci_cc_id h"
proof -
  have "ci_connected (h\<lparr>ci_shm := l\<rparr>) = ci_connected h" for l by simp
  then show ?thesis
    using assms by (auto simp: recv_msg_def Let_def rbind_eq_Inr split: if_splits option.splits)
qed

lemma receive_elems_connected:
  "receive_elems os q h st = Inr (bs, h1, st1) \<Longrightarrow> ci_connected h1 = ci_connected h"
proof (induction q arbitrary: h st bs)
  case (Cons m q)
  then show ?case
    using recv_msg_connected by (fastforce simp: rbind_eq_Inr)
qed simp

lemma recv_many_receives:
  assumes "chan_holds q c" "receive_elems os q h (cn_store c) = Inr (bs, h', st')" "ci_connected h \<noteq> 0"
  shows "\<exists>h1 c1 q1. recv_many os (length bs) (Some h) c = Some (Inr (bs, Some h1, c1)) \<and>
    chan_holds q1 c1 \<and> receive_elems os q1 h1 (cn_store c1) = Inr ([], h', st') \<and> ci_connected h1 \<noteq> 0"
  using assms
proof (induction bs arbitrary: q c h)
  case (Cons b bs)
  from recv_loop_receives [OF Cons.prems(1,2)] obtain h1 c1 q2 where l:
    "recv_loop os [] h c = Some (Inr (b, h1, c1))" "chan_holds q2 c1"
    "receive_elems os q2 h1 (cn_store c1) = Inr (bs, h', st')"
    by auto
  have "ci_connected h1 \<noteq> 0"
    using receive_elems_connected [OF l(3)] receive_elems_connected [OF Cons.prems(2)] Cons.prems(3) by simp
  from Cons.IH [OF l(2,3) this] show ?case
    using l(1) Cons.prems(3) by (auto simp: chan_try_recv_def chan_recv_buff_def)
qed auto

subsection \<open>Sends\<close>

lemma le_bytes_length [simp]: "length (le_bytes k n) = k"
  by (induction k arbitrary: n) auto

lemma of_le_bytes_le_bytes: "n < 256 ^ k \<Longrightarrow> of_le_bytes (le_bytes k n) = n"
proof (induction k arbitrary: n)
  case (Suc k)
  then have "n div 256 < 256 ^ k" by (simp add: less_mult_imp_div_less mult.commute)
  then show ?case using Suc.IH by (simp add: unat_of_nat)
qed simp

definition can_send :: "byte_t list \<Rightarrow> conn_info \<Rightarrow> chan \<Rightarrow> bool" where
  "can_send data h c \<longleftrightarrow> data \<noteq> [] \<and> length data < 2 ^ 31 \<and> ci_elems h \<and> ci_acc h \<and> cn_cc c \<noteq> 0"

definition peer_kept :: "conn_info \<Rightarrow> conn_info \<Rightarrow> bool" where
  "peer_kept h h' \<longleftrightarrow> ci_cc_id h' = ci_cc_id h \<and> ci_elems h' = ci_elems h \<and> ci_acc h' = ci_acc h \<and>
     ci_connected h' = ci_connected h \<and> ci_cache h' = ci_cache h"

text \<open>Up to 64 bytes go into one element.\<close>

lemma send_small:
  assumes push: "pushes push" and ok: "can_send data h c" "length data \<le> data_length"
    and q: "chan_holds q c" "length q < 255"
  shows "\<exists>r. send_with os push (Some data) (Some h) c =
      Inr (True, Some (h\<lparr>ci_sender := True\<rparr>), c\<lparr>cn_acc := cn_acc c + 1, cn_ring := r\<rparr>) \<and>
    chan_holds (q @ fragments (ci_cc_id h) (cn_acc c) data) (c\<lparr>cn_acc := cn_acc c + 1, cn_ring := r\<rparr>)"
proof -
  define c1 where "c1 = c\<lparr>cn_acc := cn_acc c + 1\<rparr>"
  have "length (fragments (ci_cc_id h) (cn_acc c) data) = 1"
    using ok by (cases data) (auto simp: can_send_def fragments_length data_length_def)
  then obtain r where
    "send_fragments push (ci_cc_id h) (cn_acc c) data c1 = Inr (True, c1\<lparr>cn_ring := r\<rparr>)"
    "chan_holds (q @ fragments (ci_cc_id h) (cn_acc c) data) (c1\<lparr>cn_ring := r\<rparr>)"
    using send_fragments_pushes [OF push, of data q c1 "ci_cc_id h" "cn_acc c"] ok q
    by (auto simp: can_send_def c1_def chan_holds_def)
  then show ?thesis
    using ok by (auto simp: send_with_def can_send_def ready_sending_def large_msg_limit_def c1_def Let_def)
qed

text \<open>A larger message goes into fragments if no block is free.\<close>

lemma send_fallback:
  assumes push: "pushes push" and ok: "can_send data h c" "data_length < length data"
    and blocks: "opens os" "cls_ok (cn_store c (calc_cls_size (length data))) live" "{..<max_count} \<subseteq> dom live"
    and q: "chan_holds q c" "length q + length (fragments (ci_cc_id h) (cn_acc c) data) \<le> 255"
  shows "\<exists>h' c'. send_with os push (Some data) (Some h) c = Inr (True, Some h', c') \<and>
    chan_holds (q @ fragments (ci_cc_id h) (cn_acc c) data) c' \<and> cn_acc c' = cn_acc c + 1 \<and>
    cn_cc c' = cn_cc c \<and> peer_kept h h' \<and> cls_ok (cn_store c' (calc_cls_size (length data))) live \<and>
    (\<forall>d. d \<noteq> calc_cls_size (length data) \<longrightarrow> cn_store c' d = cn_store c d) \<and>
    cm_block (cn_store c' (calc_cls_size (length data))) = cm_block (cn_store c (calc_cls_size (length data)))"
proof -
  define h1 where "h1 = h\<lparr>ci_sender := True\<rparr>"
  define c1 where "c1 = c\<lparr>cn_acc := cn_acc c + 1\<rparr>"
  define cls where "cls = calc_cls_size (length data)"
  from apply_storage_full [where m = "cn_store c", OF blocks(1,2) refl blocks(3), of "recv_count h1 c1" "ci_shm h1"]
  obtain l st where st:
    "apply_storage os (recv_count h1 c1) (length data) (ci_shm h1, cn_store c1) = Inr ((0, False), l, st)"
    "cls_ok (st cls) live" "\<forall>d. d \<noteq> cls \<longrightarrow> st d = cn_store c d" "cm_block (st cls) = cm_block (cn_store c cls)"
    by (auto simp: cls_def c1_def)
  define c2 where "c2 = c1\<lparr>cn_store := st\<rparr>"
  obtain r where
    "send_fragments push (ci_cc_id h) (cn_acc c) data c2 = Inr (True, c2\<lparr>cn_ring := r\<rparr>)"
    "chan_holds (q @ fragments (ci_cc_id h) (cn_acc c) data) (c2\<lparr>cn_ring := r\<rparr>)"
    using send_fragments_pushes [OF push, of data q c2 "ci_cc_id h" "cn_acc c"] ok q
    by (auto simp: can_send_def c1_def c2_def chan_holds_def)
  then show ?thesis
    using ok st unfolding cls_def by (auto simp: send_with_def can_send_def ready_sending_def large_msg_limit_def
      c2_def c1_def h1_def Let_def peer_kept_def)
qed

text \<open>Otherwise it goes into a block, and one element names the block.\<close>

definition block_msg :: "32 word \<Rightarrow> 32 word \<Rightarrow> nat \<Rightarrow> nat \<Rightarrow> msg_t" where
  "block_msg cc_id msg_id i n = msg_new cc_id msg_id (int n - int data_length) (le_bytes 8 i) 0"

lemma send_large:
  assumes push: "pushes push" and ok: "can_send data h c" "data_length < length data"
    and blocks: "opens os" "cls_ok (cn_store c cls) live" "\<not> {..<max_count} \<subseteq> dom live"
    and cls: "cls = calc_cls_size (length data)"
    and q: "chan_holds q c" "length q < 255"
  shows "\<exists>i h' c'. send_with os push (Some data) (Some h) c = Inr (True, Some h', c') \<and>
    chan_holds (q @ [block_msg (ci_cc_id h) (cn_acc c) i (length data)]) c' \<and>
    i < max_count \<and> live i = None \<and> cls_ok (cn_store c' cls) (live(i \<mapsto> unat (cn_cc c))) \<and>
    take (length data) (cm_block (cn_store c' cls) i) = data \<and> cn_acc c' = cn_acc c + 1 \<and> cn_cc c' = cn_cc c \<and>
    peer_kept h h' \<and> (\<forall>d. d \<noteq> cls \<longrightarrow> cn_store c' d = cn_store c d) \<and>
    (\<forall>j. j \<noteq> i \<longrightarrow> cm_block (cn_store c' cls) j = cm_block (cn_store c cls) j)"
proof -
  define h1 where "h1 = h\<lparr>ci_sender := True\<rparr>"
  define c1 where "c1 = c\<lparr>cn_acc := cn_acc c + 1\<rparr>"
  have n: "0 < unat (cn_cc c)" "unat (cn_cc c) < 2 ^ 32"
    using ok(1) unsigned_less [of "cn_cc c"] by (simp_all add: can_send_def unat_gt_0)
  from apply_storage_live [where m = "cn_store c", OF blocks(1,2) cls n blocks(3), of "ci_shm h1"]
  obtain i l st where st:
    "apply_storage os (recv_count h1 c1) (length data) (ci_shm h1, cn_store c1) = Inr ((i, True), l, st)"
    "i < max_count" "live i = None" "cls_ok (st cls) (live(i \<mapsto> unat (cn_cc c)))"
    "\<forall>d. d \<noteq> cls \<longrightarrow> st d = cn_store c d" "cm_block (st cls) = cm_block (cn_store c cls)"
    using ok(1) by (auto simp: c1_def h1_def recv_count_def can_send_def)
  define st2 where "st2 = write_block cls i data st"
  define c2 where "c2 = c1\<lparr>cn_store := st2\<rparr>"
  define m where "m = block_msg (ci_cc_id h) (cn_acc c) i (length data)"
  have "chan_holds q c2" using q(1) by (simp add: c2_def c1_def chan_holds_def)
  then obtain r where r: "push 0 m c2 = Inr (True, c2\<lparr>cn_ring := r\<rparr>)" "chan_holds (q @ [m]) (c2\<lparr>cn_ring := r\<rparr>)"
    using push [unfolded pushes_def, rule_format, of q c2 0 m] q(2) by blast
  have r32: "in_int32 (int32 (int (length data)) - int data_length) = Inr (int (length data) - int data_length)"
    using ok by (simp add: can_send_def int32_id in_int32_def data_length_def)
  have "send_with os push (Some data) (Some h) c = Inr (True, Some (h1\<lparr>ci_shm := l\<rparr>), c2\<lparr>cn_ring := r\<rparr>)"
    using ok st(1) r(1) r32
    by (simp add: send_with_def can_send_def ready_sending_def large_msg_limit_def Let_def h1_def
      c1_def cls st2_def c2_def m_def block_msg_def)
  moreover have "cls_ok (st2 cls) (live(i \<mapsto> unat (cn_cc c)))" "take (length data) (cm_block (st2 cls) i) = data"
    using st(4) by (simp_all add: st2_def write_block_def cls_ok_def)
  moreover have "\<forall>d. d \<noteq> cls \<longrightarrow> st2 d = cn_store c d" "\<forall>j. j \<noteq> i \<longrightarrow> cm_block (st2 cls) j = cm_block (cn_store c cls) j"
    using st(5,6) by (simp_all add: st2_def write_block_def)
  ultimately show ?thesis
    using r(2) st(2,3) by (auto simp: m_def c2_def c1_def h1_def peer_kept_def)
qed

lemma recv_block:
  assumes blocks: "opens os" "cls_ok (st cls) live" "live i = Some n" and cls: "cls = calc_cls_size len"
    and len: "data_length < len" "len < 2 ^ 31"
    and other: "cc_id \<noteq> ci_cc_id h" "map_of (ci_cache h) msg_id = None"
  shows "\<exists>l. recv_msg os (block_msg cc_id msg_id i len) h st = Inr (Some (StoreBuff i len), h\<lparr>ci_shm := l\<rparr>, st) \<and>
    cs_mems l cls i"
proof -
  define m where "m = block_msg cc_id msg_id i len"
  have i: "i < max_count" by (rule cls_okD(1) [OF blocks(2,3)])
  have "i < 256 ^ 8" using i max_count_small(1) by simp
  then have "of_le_bytes (take 8 (mg_data m)) = i"
    by (simp add: m_def block_msg_def msg_new_def pad_data_take of_le_bytes_le_bytes)
  moreover have "mg_conn m = cc_id" "mg_id m = msg_id" "mg_storage m" "int data_length + mg_remain m = int len"
    by (simp_all add: m_def block_msg_def msg_new_def)
  moreover have "in_int32 (int len) = Inr (int len)" "nat (int len mod 2 ^ 64) = len"
    using len by (simp_all add: in_int32_def)
  moreover obtain l where l: "find_storage os i len (ci_shm h, st) = Inr (True, l, st)" "cs_mems l cls i"
    using find_storage_live [where m = st, OF blocks(1,2) cls blocks(3)] by blast
  ultimately show ?thesis
    using other len(1) by (intro exI [of _ l]) (simp add: recv_msg_def Let_def m_def [symmetric])
qed

lemma recv_one:
  assumes "chan_holds (m # q) c" "recv_msg os m h (cn_store c) = Inr (Some b, h1, st)" "ci_connected h \<noteq> 0"
  shows "\<exists>r. chan_try_recv os (Some h) c = Some (Inr (b, Some h1, c\<lparr>cn_ring := r, cn_store := st\<rparr>)) \<and>
    chan_holds q (c\<lparr>cn_ring := r, cn_store := st\<rparr>)"
proof -
  obtain r where r: "que_pop (c, None) = Inr (True, c\<lparr>cn_ring := r\<rparr>, Some m)" "chan_holds q (c\<lparr>cn_ring := r\<rparr>)"
    using que_pop_holds [OF assms(1), of None] by auto
  then have "recv_loop os [] h c = Some (Inr (b, h1, c\<lparr>cn_ring := r, cn_store := st\<rparr>))"
    using assms(2) by (subst recv_loop.simps) (simp add: env_at_def)
  then show ?thesis
    using r(2) assms(3) by (auto simp: chan_try_recv_def chan_recv_buff_def chan_holds_def)
qed

end
