(* ===== verification/Ipc_Queue.thy ===== *)
theory Ipc_Queue
  imports Ipc_Calls
begin

text \<open>
  A channel with one receiver as a queue of messages, whatever their sizes: a pending message is
  a run of fragments or a block with the element that names it (\<open>pending\<close>); \<open>chan_queue\<close>
  relates the channel to the list of pending messages, with the blocks in use in every class.
\<close>

datatype pending = Frags "32 word" "32 word" "byte_t list" | Block "32 word" "32 word" nat "byte_t list"

fun pend_elems :: "pending \<Rightarrow> msg_t list" where
  "pend_elems (Frags cc_id msg_id d) = fragments cc_id msg_id d"
| "pend_elems (Block cc_id msg_id i d) = [block_msg cc_id msg_id i (length d)]"

fun pend_data :: "pending \<Rightarrow> byte_t list" where
  "pend_data (Frags cc_id msg_id d) = d"
| "pend_data (Block cc_id msg_id i d) = d"

fun pend_conn :: "pending \<Rightarrow> 32 word" where
  "pend_conn (Frags cc_id msg_id d) = cc_id"
| "pend_conn (Block cc_id msg_id i d) = cc_id"

fun pend_block :: "pending \<Rightarrow> (nat \<times> nat) list" where
  "pend_block (Frags cc_id msg_id d) = []"
| "pend_block (Block cc_id msg_id i d) = [(calc_cls_size (length d), i)]"

fun pend_ok :: "(nat \<Rightarrow> nat \<rightharpoonup> nat) \<Rightarrow> storages \<Rightarrow> pending \<Rightarrow> bool" where
  "pend_ok live st (Frags cc_id msg_id d) \<longleftrightarrow> d \<noteq> [] \<and> length d < 2 ^ 31"
| "pend_ok live st (Block cc_id msg_id i d) \<longleftrightarrow>
     data_length < length d \<and> length d < 2 ^ 31 \<and> live (calc_cls_size (length d)) i = Some 1 \<and>
     take (length d) (cm_block (st (calc_cls_size (length d))) i) = d"

definition chan_queue :: "(nat \<Rightarrow> nat \<rightharpoonup> nat) \<Rightarrow> pending list \<Rightarrow> chan \<Rightarrow> bool" where
  "chan_queue live ps c \<longleftrightarrow>
     chan_holds (concat (map pend_elems ps)) c \<and> (\<forall>cls. cls_ok (cn_store c cls) (live cls)) \<and>
     (\<forall>p\<in>set ps. pend_ok live (cn_store c) p) \<and> distinct (concat (map pend_block ps)) \<and>
     (\<forall>cls i. live cls i \<noteq> None \<longrightarrow> (cls, i) \<in> set (concat (map pend_block ps)))"

subsection \<open>Receiving the first message\<close>

lemma recv_loop_fragments:
  assumes "i < length (fragments cc_id msg_id d)" "length d < 2 ^ 31" "cc_id \<noteq> ci_cc_id h"
    and "map_of (ci_cache h) = (if i = 0 then Map.empty else [msg_id \<mapsto> partial_msg d i])" "distinct (map fst (ci_cache h))"
    and "chan_holds (drop i (fragments cc_id msg_id d) @ q) c"
  shows "\<exists>r. recv_loop os [] h c = Some (Inr (HeapBuff (map Some d), h\<lparr>ci_cache := []\<rparr>, c\<lparr>cn_ring := r\<rparr>)) \<and>
    chan_holds q (c\<lparr>cn_ring := r\<rparr>)"
  using assms
proof (induction "length (fragments cc_id msg_id d) - i" arbitrary: i h c)
  case (Suc k)
  define fs where "fs = fragments cc_id msg_id d"
  have i: "i < length fs" using Suc.prems(1) by (simp add: fs_def)
  have "chan_holds (fs ! i # (drop (Suc i) fs @ q)) c"
    using Suc.prems(6) Cons_nth_drop_Suc [OF i, symmetric] by (simp add: fs_def)
  from que_pop_holds [OF this, of None] obtain r where r:
    "que_pop (c, None) = Inr (True, c\<lparr>cn_ring := r\<rparr>, Some (fs ! i))" "chan_holds (drop (Suc i) fs @ q) (c\<lparr>cn_ring := r\<rparr>)"
    by auto
  have "length (ci_cache h) \<le> 1024"
    by (rule cache_small [OF Suc.prems(5), of "[msg_id]"]) (use Suc.prems(4) in \<open>auto split: if_splits\<close>)
  moreover have "map_of (ci_cache h) msg_id = (if i = 0 then None else Some (partial_msg d i))"
    using Suc.prems(4) by simp
  ultimately obtain rc where rc:
    "recv_msg os (fs ! i) h (cn_store c) =
      Inr (if Suc i = length fs then Some (HeapBuff (map Some d)) else None, h\<lparr>ci_cache := rc\<rparr>, cn_store c)"
    "map_of rc = (map_of (ci_cache h))(msg_id := if Suc i = length fs then None else Some (partial_msg d (Suc i)))"
    "distinct (map fst rc)"
    using recv_frag [OF Suc.prems(1-3) _ _ Suc.prems(5), of os "cn_store c"] unfolding fs_def by blast
  have loop: "recv_loop os [] h c = (if Suc i = length fs then Some (Inr (HeapBuff (map Some d), h\<lparr>ci_cache := rc\<rparr>, c\<lparr>cn_ring := r\<rparr>))
      else recv_loop os [] (h\<lparr>ci_cache := rc\<rparr>) (c\<lparr>cn_ring := r\<rparr>))"
    using r(1) rc(1) by (subst recv_loop.simps) (simp add: env_at_def)
  show ?case
  proof (cases "Suc i = length fs")
    case True
    have "map_of rc = Map.empty"
      using rc(2) True Suc.prems(4) by (auto split: if_splits)
    then have "rc = []" by (simp only: map_of_eq_empty_iff)
    then show ?thesis
      using loop True r(2) by auto
  next
    case False
    have "\<exists>r'. recv_loop os [] (h\<lparr>ci_cache := rc\<rparr>) (c\<lparr>cn_ring := r\<rparr>) =
        Some (Inr (HeapBuff (map Some d), (h\<lparr>ci_cache := rc\<rparr>)\<lparr>ci_cache := []\<rparr>, (c\<lparr>cn_ring := r\<rparr>)\<lparr>cn_ring := r'\<rparr>)) \<and>
      chan_holds q ((c\<lparr>cn_ring := r\<rparr>)\<lparr>cn_ring := r'\<rparr>)"
      by (rule Suc.hyps(1) [of "Suc i"])
        (use Suc.hyps(2) Suc.prems(2-4) i False rc(2,3) r(2) in \<open>auto simp: fs_def split: if_splits\<close>)
    then show ?thesis
      using loop False by simp
  qed
qed simp

lemma fragments_nonempty: "d \<noteq> [] \<Longrightarrow> 0 < length (fragments cc_id msg_id d)"
  by (cases d) (simp_all add: fragments_length data_length_def)

text \<open>Using another block, or giving one back, leaves the pending messages as they are.\<close>

lemma queue_blocks_kept:
  assumes "\<forall>p\<in>set ps. pend_ok live st p" "(cls, i) \<notin> set (concat (map pend_block ps))"
    and "\<forall>d. d \<noteq> cls \<longrightarrow> st' d = st d" "\<forall>j. j \<noteq> i \<longrightarrow> cm_block (st' cls) j = cm_block (st cls) j"
  shows "\<forall>p\<in>set ps. pend_ok (live(cls := (live cls)(i := n))) st' p"
proof
  fix p
  assume p: "p \<in> set ps"
  show "pend_ok (live(cls := (live cls)(i := n))) st' p"
  proof (cases p)
    case (Block cc_id msg_id j d)
    then have "(calc_cls_size (length d), j) \<noteq> (cls, i)"
      using assms(2) p by force
    then have st': "cm_block (st' (calc_cls_size (length d))) j = cm_block (st (calc_cls_size (length d))) j"
        "(live(cls := (live cls)(i := n))) (calc_cls_size (length d)) j = live (calc_cls_size (length d)) j"
      using assms(3,4) by (cases "calc_cls_size (length d) = cls"; simp)+
    have "pend_ok live st p" using assms(1) p by blast
    then show ?thesis unfolding Block pend_ok.simps st' .
  next
    case (Frags cc_id msg_id d)
    have "pend_ok live st p" using assms(1) p by blast
    then show ?thesis unfolding Frags pend_ok.simps .
  qed
qed

lemma chan_queue_Cons:
  assumes "chan_queue live (p # ps) c"
  shows "chan_holds (pend_elems p @ concat (map pend_elems ps)) c" "\<And>cls. cls_ok (cn_store c cls) (live cls)"
    "pend_ok live (cn_store c) p" "\<forall>p\<in>set ps. pend_ok live (cn_store c) p" "distinct (concat (map pend_block ps))"
    "set (pend_block p) \<inter> set (concat (map pend_block ps)) = {}"
    "\<And>cls i. live cls i \<noteq> None \<Longrightarrow> (cls, i) \<in> set (pend_block p) \<union> set (concat (map pend_block ps))"
  using assms by (auto simp: chan_queue_def)

text \<open>A receive takes the message \<open>d\<close> and, with its buffer freed, leaves \<open>ps\<close>.\<close>

definition takes_first :: "shm_os \<Rightarrow> conn_info \<Rightarrow> byte_t list \<Rightarrow> pending list \<Rightarrow> chan \<Rightarrow> bool" where
  "takes_first os h d ps c \<longleftrightarrow>
     (\<exists>b h' c'. chan_try_recv os (Some h) c = Some (Inr (b, Some h', c')) \<and>
        buff_data (cn_store c') b = map Some d \<and> peer_kept h h' \<and> cn_cc c' = cn_cc c \<and>
        (\<exists>l st live'. buff_free os b (ci_shm h', cn_store c') = Inr (l, st) \<and> chan_queue live' ps (c'\<lparr>cn_store := st\<rparr>)))"

lemma queue_recv_frags:
  assumes os: "opens os" and q: "chan_queue live (Frags cc_id msg_id d # ps) c"
    and h: "ci_connected h \<noteq> 0" "ci_cache h = []" "cc_id \<noteq> ci_cc_id h"
  shows "takes_first os h d ps c"
proof -
  note c = chan_queue_Cons [OF q]
  have "\<exists>r. recv_loop os [] h c = Some (Inr (HeapBuff (map Some d), h\<lparr>ci_cache := []\<rparr>, c\<lparr>cn_ring := r\<rparr>)) \<and>
      chan_holds (concat (map pend_elems ps)) (c\<lparr>cn_ring := r\<rparr>)"
    by (rule recv_loop_fragments [where i = 0])
      (use c(1,3) h(2,3) fragments_nonempty in auto)
  then obtain r where r: "recv_loop os [] h c = Some (Inr (HeapBuff (map Some d), h\<lparr>ci_cache := []\<rparr>, c\<lparr>cn_ring := r\<rparr>))"
      "chan_holds (concat (map pend_elems ps)) (c\<lparr>cn_ring := r\<rparr>)" by blast
  have "chan_queue live ps ((c\<lparr>cn_ring := r\<rparr>)\<lparr>cn_store := cn_store c\<rparr>)"
    using r(2) c(2,4,5) c(7) by (simp add: chan_queue_def chan_holds_def)
  moreover have "chan_try_recv os (Some h) c = Some (Inr (HeapBuff (map Some d), Some (h\<lparr>ci_cache := []\<rparr>), c\<lparr>cn_ring := r\<rparr>))"
    using r(1) h by (simp add: chan_try_recv_def chan_recv_buff_def)
  ultimately show ?thesis unfolding takes_first_def
    using h(2)
    by (intro exI [of _ "HeapBuff (map Some d)"] exI [of _ "h\<lparr>ci_cache := []\<rparr>"] exI [of _ "c\<lparr>cn_ring := r\<rparr>"]
        exI [of _ "ci_shm h"] exI [of _ "cn_store c"] exI [of _ live] conjI)
      (simp_all add: buff_data_def buff_free_def peer_kept_def)
qed

lemma queue_recv_block:
  assumes os: "opens os" and q: "chan_queue live (Block cc_id msg_id i d # ps) c"
    and h: "ci_connected h \<noteq> 0" "ci_cache h = []" "cc_id \<noteq> ci_cc_id h"
  shows "takes_first os h d ps c"
proof -
  note c = chan_queue_Cons [OF q]
  define cls where "cls = calc_cls_size (length d)"
  have b: "data_length < length d" "length d < 2 ^ 31" "live cls i = Some 1"
      "take (length d) (cm_block (cn_store c cls) i) = d"
    using c(3) by (auto simp: cls_def)
  from recv_block [where st = "cn_store c" and live = "live cls", OF os c(2) b(3) cls_def b(1,2), of cc_id h msg_id] h
  obtain l where l: "recv_msg os (block_msg cc_id msg_id i (length d)) h (cn_store c) =
      Inr (Some (StoreBuff i (length d)), h\<lparr>ci_shm := l\<rparr>, cn_store c)" "cs_mems l cls i"
    by auto
  from recycle_storage_live [where m = "cn_store c", OF os c(2) cls_def b(3) l(2)] obtain l2 st where f:
    "recycle_storage os i (length d) (l, cn_store c) = Inr (l2, st)" "cls_ok (st cls) ((live cls)(i := None))"
    "\<forall>d. d \<noteq> cls \<longrightarrow> st d = cn_store c d" "cm_block (st cls) = cm_block (cn_store c cls)"
    using b(3) by (auto simp: read_once_def)
  have "(cls, i) \<notin> set (concat (map pend_block ps))"
    using c(6) by (simp add: cls_def)
  from queue_blocks_kept [OF c(4) this f(3)] f(4)
  have kept: "\<forall>p\<in>set ps. pend_ok (live(cls := (live cls)(i := None))) st p" by simp
  have used: "(k, j) \<in> set (concat (map pend_block ps))"
    if "(live(cls := (live cls)(i := None))) k j \<noteq> None" for k j
  proof -
    have "(k, j) \<noteq> (cls, i)" "live k j \<noteq> None" using that by (auto split: if_splits)
    then show ?thesis using c(7) [of k j] by (auto simp: cls_def)
  qed
  from recv_one [of "block_msg cc_id msg_id i (length d)", OF _ l(1) h(1)] c(1) obtain r where
    "chan_try_recv os (Some h) c = Some (Inr (StoreBuff i (length d), Some (h\<lparr>ci_shm := l\<rparr>), c\<lparr>cn_ring := r, cn_store := cn_store c\<rparr>))"
    "chan_holds (concat (map pend_elems ps)) (c\<lparr>cn_ring := r, cn_store := cn_store c\<rparr>)"
    by auto
  then show ?thesis unfolding takes_first_def
    using h c(2,5) b(4) f kept used
    by (intro exI [of _ "StoreBuff i (length d)"] exI [of _ "h\<lparr>ci_shm := l\<rparr>"]
        exI [of _ "c\<lparr>cn_ring := r, cn_store := cn_store c\<rparr>"] exI [of _ l2] exI [of _ st]
        exI [of _ "live(cls := (live cls)(i := None))"] conjI)
      (auto simp: buff_data_def buff_free_def chan_queue_def chan_holds_def cls_def peer_kept_def)
qed

lemma queue_recv:
  assumes "opens os" "chan_queue live (p # ps) c" "ci_connected h \<noteq> 0" "ci_cache h = []" "pend_conn p \<noteq> ci_cc_id h"
  shows "takes_first os h (pend_data p) ps c"
  using assms queue_recv_frags queue_recv_block by (cases p) auto

lemma queue_recv_empty:
  assumes "chan_queue live [] c" "ci_connected h \<noteq> 0"
  shows "\<exists>c'. chan_try_recv os (Some h) c = Some (Inr (NoBuff, Some h, c')) \<and> chan_queue live [] c' \<and> cn_cc c' = cn_cc c"
proof -
  obtain r where r: "que_pop (c, None) = Inr (False, c\<lparr>cn_ring := r\<rparr>, None)" "chan_holds [] (c\<lparr>cn_ring := r\<rparr>)"
    using que_pop_holds [of "[]" c None] assms(1) by (auto simp: chan_queue_def)
  then have "recv_loop os [] h c = Some (Inr (NoBuff, h, c\<lparr>cn_ring := r\<rparr>))"
    by (subst recv_loop.simps) (simp add: env_at_def)
  then show ?thesis
    using r(2) assms by (auto simp: chan_try_recv_def chan_recv_buff_def chan_queue_def)
qed

subsection \<open>Sending a message\<close>

text \<open>The elements of the ring that a message of a length takes at most.\<close>

definition elems_of :: "byte_t list \<Rightarrow> nat" where
  "elems_of d = (length d + data_length - 1) div data_length"

lemma pend_elems_le:
  assumes "pend_ok live st p"
  shows "length (pend_elems p) \<le> elems_of (pend_data p)"
  using assms by (cases p) (auto simp: fragments_length elems_of_def data_length_def)

lemma queue_elems_le:
  assumes "chan_queue live ps c"
  shows "length (concat (map pend_elems ps)) \<le> (\<Sum>p\<leftarrow>ps. elems_of (pend_data p))"
  unfolding length_concat map_map
  by (rule sum_list_mono) (use assms pend_elems_le in \<open>auto simp: chan_queue_def\<close>)

lemma chan_queue_snoc:
  assumes q: "chan_queue live ps c" and holds: "chan_holds (concat (map pend_elems ps) @ pend_elems p) c'"
    and ok: "\<And>cls. cls_ok (cn_store c' cls) (live cls)" and p: "pend_ok live (cn_store c') p" "pend_block p = []"
    and st: "\<And>cls. cm_block (cn_store c' cls) = cm_block (cn_store c cls)"
  shows "chan_queue live (ps @ [p]) c'"
proof -
  have "pend_ok live (cn_store c') p'" if "p' \<in> set ps" for p'
    using q that st by (cases p') (force simp: chan_queue_def)+
  then show ?thesis
    using assms by (auto simp: chan_queue_def)
qed

lemma chan_queue_snoc_block:
  assumes q: "chan_queue live ps c" and holds: "chan_holds (concat (map pend_elems ps) @ [block_msg cc_id msg_id i (length d)]) c'"
    and cls: "cls = calc_cls_size (length d)" and free: "live cls i = None"
    and ok: "cls_ok (cn_store c' cls) ((live cls)(i \<mapsto> 1))" "take (length d) (cm_block (cn_store c' cls) i) = d"
    and len: "data_length < length d" "length d < 2 ^ 31"
    and st: "\<forall>k. k \<noteq> cls \<longrightarrow> cn_store c' k = cn_store c k" "\<forall>j. j \<noteq> i \<longrightarrow> cm_block (cn_store c' cls) j = cm_block (cn_store c cls) j"
  shows "chan_queue (live(cls := (live cls)(i \<mapsto> 1))) (ps @ [Block cc_id msg_id i d]) c'"
proof -
  have old: "\<forall>p\<in>set ps. pend_ok live (cn_store c) p" "distinct (concat (map pend_block ps))"
      "\<And>k. cls_ok (cn_store c k) (live k)" "\<And>k j. live k j \<noteq> None \<Longrightarrow> (k, j) \<in> set (concat (map pend_block ps))"
    using q by (simp_all add: chan_queue_def)
  have new: "(cls, i) \<notin> set (concat (map pend_block ps))"
  proof
    assume "(cls, i) \<in> set (concat (map pend_block ps))"
    then obtain p where p: "p \<in> set ps" "(cls, i) \<in> set (pend_block p)" by auto
    then have "pend_ok live (cn_store c) p" using old(1) by blast
    then show False using p(2) free by (cases p) (simp_all add: cls)
  qed
  note kept = queue_blocks_kept [OF old(1) new st, of "Some 1"]
  have "cls_ok (cn_store c' k) ((live(cls := (live cls)(i \<mapsto> 1))) k)" for k
    using ok(1) old(3) [of k] st(1) by (cases "k = cls") simp_all
  moreover have "(k, j) \<in> set (concat (map pend_block (ps @ [Block cc_id msg_id i d])))"
    if "(live(cls := (live cls)(i \<mapsto> 1))) k j \<noteq> None" for k j
    using that old(4) [of k j] by (cases "(k, j) = (cls, i)") (auto simp: cls split: if_splits)
  moreover have "pend_ok (live(cls := (live cls)(i \<mapsto> 1))) (cn_store c') (Block cc_id msg_id i d)"
    using len ok(2) by (simp add: cls)
  ultimately show ?thesis
    using kept holds old(2) new unfolding chan_queue_def by (simp add: cls)
qed

lemma queue_send:
  assumes os: "opens os" "pushes push" and q: "chan_queue live ps c" and ok: "can_send data h c" "cn_cc c = 1"
    and room: "(\<Sum>d\<leftarrow>map pend_data ps @ [data]. elems_of d) \<le> 255"
  shows "\<exists>h' c' p live'. send_with os push (Some data) (Some h) c = Inr (True, Some h', c') \<and>
    chan_queue live' (ps @ [p]) c' \<and> pend_data p = data \<and> pend_conn p = ci_cc_id h \<and> peer_kept h h' \<and> cn_cc c' = 1"
proof -
  define cls where "cls = calc_cls_size (length data)"
  have data: "data \<noteq> []" "length data < 2 ^ 31" using ok(1) by (simp_all add: can_send_def)
  then have one: "1 \<le> elems_of data" by (cases data) (simp_all add: elems_of_def data_length_def)
  have free: "length (concat (map pend_elems ps)) + elems_of data \<le> 255"
    using queue_elems_le [OF q] room by (simp add: comp_def)
  then have less: "length (concat (map pend_elems ps)) < 255" using one by linarith
  have c: "chan_holds (concat (map pend_elems ps)) c" "\<And>cls. cls_ok (cn_store c cls) (live cls)"
    using q by (simp_all add: chan_queue_def)
  consider "length data \<le> data_length" | "data_length < length data" "{..<max_count} \<subseteq> dom (live cls)"
    | "data_length < length data" "\<not> {..<max_count} \<subseteq> dom (live cls)" by linarith
  then show ?thesis
  proof cases
    case 1
    from send_small [OF os(2) ok(1) 1 c(1) less, of os] obtain r where r:
      "send_with os push (Some data) (Some h) c = Inr (True, Some (h\<lparr>ci_sender := True\<rparr>), c\<lparr>cn_acc := cn_acc c + 1, cn_ring := r\<rparr>)"
      "chan_holds (concat (map pend_elems ps) @ fragments (ci_cc_id h) (cn_acc c) data) (c\<lparr>cn_acc := cn_acc c + 1, cn_ring := r\<rparr>)"
      by blast
    have "chan_queue live (ps @ [Frags (ci_cc_id h) (cn_acc c) data]) (c\<lparr>cn_acc := cn_acc c + 1, cn_ring := r\<rparr>)"
      by (rule chan_queue_snoc [OF q]) (use r(2) c(2) data in simp_all)
    then show ?thesis
      using r(1) ok(2) by (intro exI conjI) (assumption | simp add: peer_kept_def)+
  next
    case 2
    from send_fallback [OF os(2) ok(1) 2(1) os(1) c(2) 2(2) [unfolded cls_def] c(1)] free obtain h' c' where s:
      "send_with os push (Some data) (Some h) c = Inr (True, Some h', c')"
      "chan_holds (concat (map pend_elems ps) @ fragments (ci_cc_id h) (cn_acc c) data) c'"
      "cn_cc c' = cn_cc c" "peer_kept h h'" "cls_ok (cn_store c' cls) (live cls)"
      "\<forall>d. d \<noteq> cls \<longrightarrow> cn_store c' d = cn_store c d" "cm_block (cn_store c' cls) = cm_block (cn_store c cls)"
      by (auto simp: fragments_length elems_of_def cls_def)
    have ok': "cls_ok (cn_store c' k) (live k)" "cm_block (cn_store c' k) = cm_block (cn_store c k)" for k
      using s(5-7) c(2) [of k] by (cases "k = cls"; simp)+
    have "chan_queue live (ps @ [Frags (ci_cc_id h) (cn_acc c) data]) c'"
      by (rule chan_queue_snoc [OF q]) (use s(2) ok' data in simp_all)
    then show ?thesis
      using s(1,3,4) ok(2) by (intro exI conjI) (assumption | simp)+
  next
    case 3
    from send_large [OF os(2) ok(1) 3(1) os(1) c(2) 3(2) cls_def c(1) less] ok(2) obtain i h' c' where s:
      "send_with os push (Some data) (Some h) c = Inr (True, Some h', c')"
      "chan_holds (concat (map pend_elems ps) @ [block_msg (ci_cc_id h) (cn_acc c) i (length data)]) c'"
      "live cls i = None" "cls_ok (cn_store c' cls) ((live cls)(i \<mapsto> 1))"
      "take (length data) (cm_block (cn_store c' cls) i) = data" "cn_cc c' = 1" "peer_kept h h'"
      "\<forall>d. d \<noteq> cls \<longrightarrow> cn_store c' d = cn_store c d" "\<forall>j. j \<noteq> i \<longrightarrow> cm_block (cn_store c' cls) j = cm_block (cn_store c cls) j"
      by auto
    from chan_queue_snoc_block [OF q s(2) cls_def s(3-5) 3(1) data(2) s(8,9)] show ?thesis
      using s(1,6,7) by (intro exI conjI) (assumption | simp)+
  qed
qed

subsection \<open>Sequences of calls\<close>

text \<open>Calls of several sending processes, each with its own handle, and of one receiver, which reads the bytes of what it
  gets and frees the buffer before its next call.\<close>

datatype chan_call = SendCall nat "byte_t list" | RecvCall

datatype chan_ret = Sent bool | Got "byte_t option list"

type_synonym peers = "(nat \<Rightarrow> conn_info option) \<times> conn_info option \<times> chan"

definition recv_and_free :: "shm_os \<Rightarrow> conn_info option \<Rightarrow> chan \<Rightarrow> (byte_t option list \<times> conn_info option \<times> chan) res option" where
  "recv_and_free os go c =
     map_option (\<lambda>r. rbind r (\<lambda>(b, go', c').
       (case go' of None \<Rightarrow> Inr (buff_data (cn_store c') b, None, c')
        | Some g \<Rightarrow> rbind (buff_free os b (ci_shm g, cn_store c')) (\<lambda>(l, st).
            Inr (buff_data (cn_store c') b, Some (g\<lparr>ci_shm := l\<rparr>), c'\<lparr>cn_store := st\<rparr>))))) (chan_try_recv os go c)"

fun do_call :: "shm_os \<Rightarrow> (chan \<Rightarrow> chan) list list \<Rightarrow> chan_call \<Rightarrow> peers \<Rightarrow> (chan_ret \<times> peers) res option" where
  "do_call os es (SendCall k data) (hs, g, c) =
     Some (rbind (ipc_send os es (Some data) (hs k) c) (\<lambda>(ok, h', c'). Inr (Sent ok, hs(k := h'), g, c')))"
| "do_call os es RecvCall (hs, g, c) =
     map_option (\<lambda>r. rbind r (\<lambda>(bytes, g', c'). Inr (Got bytes, hs, g', c'))) (recv_and_free os g c)"

fun chan_calls :: "shm_os \<Rightarrow> (chan \<Rightarrow> chan) list list \<Rightarrow> chan_call list \<Rightarrow> peers \<Rightarrow> (chan_ret list \<times> peers) res option" where
  "chan_calls os es [] s = Some (Inr ([], s))"
| "chan_calls os es (x # xs) s =
     (case do_call os es x s of None \<Rightarrow> None | Some (Inl e) \<Rightarrow> Some (Inl e)
      | Some (Inr (r, s')) \<Rightarrow> map_option (\<lambda>rs. rbind rs (\<lambda>(rs, s''). Inr (r # rs, s''))) (chan_calls os es xs s'))"

text \<open>The specification: a queue of messages.\<close>

fun queue_call :: "chan_call \<Rightarrow> byte_t list list \<Rightarrow> chan_ret \<times> byte_t list list" where
  "queue_call (SendCall k data) q = (Sent True, q @ [data])"
| "queue_call RecvCall [] = (Got [], [])"
| "queue_call RecvCall (d # q) = (Got (map Some d), q)"

fun queue_calls :: "chan_call list \<Rightarrow> byte_t list list \<Rightarrow> chan_ret list \<times> byte_t list list" where
  "queue_calls [] q = ([], q)"
| "queue_calls (x # xs) q = (let (r, q') = queue_call x q; (rs, q'') = queue_calls xs q' in (r # rs, q''))"

text \<open>Every message has some bytes and fits into the ring with those before it.\<close>

fun call_fits_ring :: "chan_call \<Rightarrow> byte_t list list \<Rightarrow> bool" where
  "call_fits_ring (SendCall k data) q \<longleftrightarrow> data \<noteq> [] \<and> length data < 2 ^ 31 \<and> (\<Sum>d\<leftarrow>q @ [data]. elems_of d) \<le> 255"
| "call_fits_ring RecvCall q \<longleftrightarrow> True"

fun calls_fit :: "chan_call list \<Rightarrow> byte_t list list \<Rightarrow> bool" where
  "calls_fit [] q \<longleftrightarrow> True"
| "calls_fit (x # xs) q \<longleftrightarrow> call_fits_ring x q \<and> calls_fit xs (snd (queue_call x q))"

text \<open>The handles: senders have the ring and the counter mapped and another id than the receiver, the receiver is
  connected and has no half message in its cache.\<close>

definition sender_of :: "32 word \<Rightarrow> conn_info option \<Rightarrow> bool" where
  "sender_of cc_id ho \<longleftrightarrow> (case ho of None \<Rightarrow> False | Some h \<Rightarrow> ci_elems h \<and> ci_acc h \<and> ci_cc_id h \<noteq> cc_id)"

definition receiver_of :: "32 word \<Rightarrow> conn_info option \<Rightarrow> bool" where
  "receiver_of cc_id go \<longleftrightarrow>
     (case go of None \<Rightarrow> False | Some g \<Rightarrow> ci_cc_id g = cc_id \<and> ci_connected g \<noteq> 0 \<and> ci_cache g = [])"

definition peers_ok :: "32 word \<Rightarrow> byte_t list list \<Rightarrow> peers \<Rightarrow> bool" where
  "peers_ok cc_id q s \<longleftrightarrow>
     (case s of (hs, g, c) \<Rightarrow> (\<forall>k. sender_of cc_id (hs k)) \<and> receiver_of cc_id g \<and> cn_cc c = 1 \<and>
        (\<exists>live ps. chan_queue live ps c \<and> map pend_data ps = q \<and> (\<forall>p\<in>set ps. pend_conn p \<noteq> cc_id)))"

lemma send_call:
  assumes os: "opens os" and ok: "peers_ok cc_id q s" and fits: "call_fits_ring (SendCall k data) q"
  shows "\<exists>s'. do_call os es (SendCall k data) s = Some (Inr (Sent True, s')) \<and> peers_ok cc_id (q @ [data]) s'"
proof -
  obtain hs g c live ps where s: "s = (hs, g, c)" "chan_queue live ps c" "map pend_data ps = q" "cn_cc c = 1"
      "\<forall>p\<in>set ps. pend_conn p \<noteq> cc_id" "receiver_of cc_id g" "\<And>k. sender_of cc_id (hs k)"
    using ok by (cases s) (auto simp: peers_ok_def)
  obtain h where h: "ci_elems h" "ci_acc h" "ci_cc_id h \<noteq> cc_id" "hs k = Some h"
    using s(7) [of k] by (auto simp: sender_of_def split: option.splits)
  have can: "can_send data h c" using h(1,2) fits s(4) by (simp add: can_send_def)
  from queue_send [OF os pushes_force [of es] s(2) can s(4)] fits s(3) obtain h' c' p live' where
    send: "send_with os (push_or_force es) (Some data) (Some h) c = Inr (True, Some h', c')" and
    new: "chan_queue live' (ps @ [p]) c'" "pend_data p = data" "pend_conn p = ci_cc_id h" "peer_kept h h'" "cn_cc c' = 1"
    by auto
  have "peers_ok cc_id (q @ [data]) (hs(k := Some h'), g, c')"
    unfolding peers_ok_def prod.case
    using s(3,5-7) h new by (auto simp: sender_of_def peer_kept_def intro!: exI [of _ live'] exI [of _ "ps @ [p]"])
  then show ?thesis using send s(1) h(4) by (simp add: ipc_send_def)
qed

lemma recv_call:
  assumes os: "opens os" and ok: "peers_ok cc_id q s"
  shows "\<exists>s'. do_call os es RecvCall s = Some (Inr (fst (queue_call RecvCall q), s')) \<and>
    peers_ok cc_id (snd (queue_call RecvCall q)) s'"
proof -
  obtain hs g c live ps where s: "s = (hs, Some g, c)" "chan_queue live ps c" "map pend_data ps = q" "cn_cc c = 1"
      "\<forall>p\<in>set ps. pend_conn p \<noteq> cc_id" "\<And>k. sender_of cc_id (hs k)"
      "ci_cc_id g = cc_id" "ci_connected g \<noteq> 0" "ci_cache g = []"
    using ok by (cases s) (auto simp: peers_ok_def receiver_of_def split: option.splits)
  show ?thesis
  proof (cases ps)
    case Nil
    from queue_recv_empty [OF s(2) [unfolded Nil] s(8), of os] obtain c' where
      "chan_try_recv os (Some g) c = Some (Inr (NoBuff, Some g, c'))" "chan_queue live [] c'" "cn_cc c' = 1"
      using s(4) by auto
    moreover have "g\<lparr>ci_shm := ci_shm g\<rparr> = g" "c'\<lparr>cn_store := cn_store c'\<rparr> = c'" by simp_all
    ultimately show ?thesis
      using s Nil by (auto simp: recv_and_free_def buff_data_def buff_free_def peers_ok_def receiver_of_def)
  next
    case (Cons p ps')
    have "pend_conn p \<noteq> ci_cc_id g" using s(5,7) Cons by simp
    from queue_recv [OF os s(2) [unfolded Cons] s(8,9) this] obtain b g' c' l st live' where r:
      "chan_try_recv os (Some g) c = Some (Inr (b, Some g', c'))" "buff_data (cn_store c') b = map Some (pend_data p)"
      "peer_kept g g'" "cn_cc c' = 1" "buff_free os b (ci_shm g', cn_store c') = Inr (l, st)"
      "chan_queue live' ps' (c'\<lparr>cn_store := st\<rparr>)"
      using s(4) by (auto simp: takes_first_def)
    have "peers_ok cc_id (map pend_data ps') (hs, Some (g'\<lparr>ci_shm := l\<rparr>), c'\<lparr>cn_store := st\<rparr>)"
      unfolding peers_ok_def prod.case
      using s(5-9) r(3,4,6) Cons by (auto simp: receiver_of_def peer_kept_def intro!: exI [of _ live'] exI [of _ ps'])
    moreover have "q = pend_data p # map pend_data ps'" using s(3) Cons by simp
    ultimately show ?thesis using s(1) r(1,2,5) by (simp add: recv_and_free_def)
  qed
qed

lemma one_call:
  assumes "opens os" "peers_ok cc_id q s" "call_fits_ring x q"
  shows "\<exists>s'. do_call os es x s = Some (Inr (fst (queue_call x q), s')) \<and> peers_ok cc_id (snd (queue_call x q)) s'"
proof (cases x)
  case (SendCall k data)
  then show ?thesis using send_call [OF assms(1,2) assms(3) [unfolded SendCall]] by simp
next
  case RecvCall
  then show ?thesis using recv_call [OF assms(1,2)] by simp
qed

lemma calls_refine_queue:
  assumes "opens os" "peers_ok cc_id q s" "calls_fit xs q"
  shows "\<exists>s'. chan_calls os es xs s = Some (Inr (fst (queue_calls xs q), s')) \<and> peers_ok cc_id (snd (queue_calls xs q)) s'"
  using assms(2,3)
proof (induction xs arbitrary: q s)
  case (Cons x xs)
  obtain s1 where 1: "do_call os es x s = Some (Inr (fst (queue_call x q), s1))" "peers_ok cc_id (snd (queue_call x q)) s1"
    using one_call [OF assms(1) Cons.prems(1), of x es] Cons.prems(2) by force
  obtain s2 where "chan_calls os es xs s1 = Some (Inr (fst (queue_calls xs (snd (queue_call x q))), s2))"
      "peers_ok cc_id (snd (queue_calls xs (snd (queue_call x q)))) s2"
    using Cons.IH [OF 1(2)] Cons.prems(2) by auto
  then show ?case using 1(1) by (simp add: case_prod_beta Let_def)
qed simp

end
