(* ===== verification/Ipc_Properties.thy ===== *)
theory Ipc_Properties
  imports Ipc_Queue
begin

text \<open>
  The shared-memory channels as their users see them: the ring under any interleaving and as a
  bounded queue, fragments put together, large messages and their blocks, a channel as a queue of
  messages, and what a send that times out does to the channel.
\<close>

lemma quiescent_holds:
  assumes "hist_ok n es s" "list_all has_returned (mm_pcs s)"
  shows "ring_holds n (drop (length (takes es)) (reserves es)) (wring (mm_ring s))"
proof -
  have ok: "sys_ok n (reserves es) s" "takes es = take (rg_rd (mm_ring s)) (reserves es)"
    using assms(1) by (auto simp: hist_ok_def)
  have "ticket_of (mm_pcs s ! t) = None" if "t < length (mm_pcs s)" for t
    using assms(2) that by (cases "mm_pcs s ! t") (auto simp: list_all_length)
  then have "committed (mm_ring s)"
    using sys_okD(4) [OF ok(1)] by (fastforce simp: committed_def)
  moreover have "length (takes es) = rg_rd (mm_ring s)"
    using ok(2) sys_ok_rd [OF ok(1)] by simp
  ultimately show ?thesis
    using sys_okD(1) [OF ok(1)] by (auto simp: ring_holds_def)
qed

lemma step_ct:
  assumes "nat_step n l s = (e, s')"
  shows "rg_ct (mm_ring s') \<le> Suc (rg_ct (mm_ring s))"
proof (cases l)
  case (Run t b)
  have "rg_ct r' \<le> Suc (rg_ct r)" if "mm_step slot Some None b p r = (p', r')" for p p' :: "'a npc" and r r'
    using that by (cases p) (auto simp: mm_step_def store_flag_def write_byte_def Let_def split: if_splits)
  then show ?thesis
    using assms Run by (auto split: if_splits prod.splits)
qed (use assms in \<open>auto split: if_splits\<close>)

text \<open>Runs shorter than the counters' range need no further assumption.\<close>

lemma short_unlapped: "rg_ct (mm_ring s) + length ls < 2 ^ 32 \<Longrightarrow> unlapped n ls s"
proof (induction ls arbitrary: s)
  case (Cons l ls)
  obtain e s' where s': "nat_step n l s = (e, s')" by fastforce
  have "near s" using Cons.prems by (auto simp: near_def list_all_iff)
  moreover have "unlapped n ls s'"
    using Cons.IH [of s'] step_ct [OF s'] Cons.prems by simp
  ultimately show ?case using s' by simp
qed simp

text \<open>C5. However the steps of any number of producers and consumers interleave, the values the
  consumers take are, in order and each once, the values the producers reserved slots for: a
  slot is never read half written, overwritten or read twice. When all calls have returned,
  the ring holds exactly the values not taken yet. The only assumption is that no thread sleeps
  between two accesses while \<open>2 ^ 32\<close> values are pushed.\<close>

theorem ring_is_fifo:
  assumes "unlapped n ls (mm_init None d ts)" "length d = n"
    and "word_run n ls (mm_init 0 d ts) = (es, s)"
  shows "prefix (takes es) (reserves es) \<and>
    (list_all has_returned (mm_pcs s) \<longrightarrow> ring_holds n (drop (length (takes es)) (reserves es)) (mm_ring s))"
proof -
  obtain s' where s': "nat_run n ls (mm_init None d ts) = (es, s')" "s = wsys s'"
    using word_run_follows [OF hist_ok_init [OF assms(2)] assms(1)] assms(3)
    by (cases "nat_run n ls (mm_init None d ts)") (auto simp: wsys_init)
  have h: "hist_ok n es s'"
    using hist_ok_runs [OF hist_ok_init [OF assms(2)] s'(1)] by simp
  then have "prefix (takes es) (reserves es)"
    by (simp add: hist_ok_def take_is_prefix)
  then show ?thesis
    using quiescent_holds [OF h] s'(2) by (simp add: list_all_length)
qed


definition two_producers :: "nat call list" where
  "two_producers = [CallPush 0 [7, 8], CallPush 1 [9, 10], CallPop 2] @
     concat (replicate 8 [Run 0 True, Run 1 True]) @
     concat (replicate 8 [Run 0 True, Run 2 True, Run 1 True])"

theorem ring_is_fifo_witness:
  "takes (fst (word_run 2 two_producers (mm_init 0 [0, 0] 3))) = [[7, 8]] \<and>
   reserves (fst (word_run 2 two_producers (mm_init 0 [0, 0] 3))) = [[7, 8], [9, 10]] \<and>
   prefix (takes (fst (word_run 2 two_producers (mm_init 0 [0, 0] 3))))
     (reserves (fst (word_run 2 two_producers (mm_init 0 [0, 0] 3))))"
proof -
  have "unlapped 2 two_producers (mm_init None [0, 0 :: nat] 3)"
    by (rule short_unlapped) (simp add: mm_init_def two_producers_def length_concat sum_list_replicate)
  from ring_is_fifo [OF this _ surjective_pairing]
  have "prefix (takes (fst (word_run 2 two_producers (mm_init 0 [0, 0] 3))))
     (reserves (fst (word_run 2 two_producers (mm_init 0 [0, 0] 3))))"
    by simp
  moreover have "fst (word_run 2 two_producers (mm_init 0 [0, 0] 3)) = [Reserve [7, 8], Reserve [9, 10], Take [7, 8]]"
    by code_simp
  ultimately show ?thesis by simp
qed

text \<open>C24. Between calls the ring is a queue of capacity 255: a push appends its value and returns
  true, or returns false on a full queue; a pop returns the oldest value, or nothing on an empty
  queue; both return.\<close>

theorem ring_bounded_queue:
  assumes "ring_holds n q r" "length v = n"
  shows "(\<exists>r'. ring_push v r = Inr (length q < 255, r') \<and>
      ring_holds n (if length q < 255 then q @ [v] else q) r' \<and> (length q < 255 \<or> r' = r)) \<and>
    (\<exists>r'. ring_pop r = Inr (case q of [] \<Rightarrow> None | x # _ \<Rightarrow> Some x, r') \<and> ring_holds n (tl q) r')"
  using ring_push_holds [OF assms] ring_pop_holds [OF assms(1)] by blast

definition empty_ring :: "'b list \<Rightarrow> 'b wring" where
  "empty_ring d = mm_ring (mm_init 0 d 0)"

lemma empty_ring_holds: "ring_holds (length d) [] (empty_ring d)"
proof -
  have "ring_ok (length d) [] (mm_ring (mm_init None d 0))" "committed (mm_ring (mm_init None d 0))"
    using hist_ok_init [of d "length d" 0] by (auto simp: hist_ok_def sys_ok_def committed_def mm_init_def)
  moreover have "empty_ring d = wring (mm_ring (mm_init None d 0))"
    using arg_cong [OF wsys_init [of d 0], of mm_ring] by (simp add: empty_ring_def)
  ultimately show ?thesis
    unfolding ring_holds_def by (intro exI [of _ "mm_ring (mm_init None d 0)"] exI [of _ "[]"]) simp
qed

theorem ring_bounded_queue_witness:
  "\<exists>r. ring_push [5 :: nat] (empty_ring [0]) = Inr (True, r) \<and> ring_holds 1 [[5]] r \<and>
     (\<exists>r'. ring_pop (empty_ring [0 :: nat]) = Inr (None, r') \<and> ring_holds 1 [] r')"
  using ring_bounded_queue [OF empty_ring_holds, of "[5]" "[0 :: nat]"] by simp

text \<open>C6. The fragments of up to 1024 messages, pushed by any senders and interleaved in any way
  on the channel, are put together again: the receiver returns each message once, with exactly
  its bytes and in the order in which the messages end, and then finds the channel empty.\<close>

theorem messages_reassembled:
  assumes "chan_holds q c" "mixed ids conn dat q" "length ids \<le> 1024"
    and "list_all (\<lambda>i. length (dat i) < 2 ^ 31 \<and> conn i \<noteq> ci_cc_id h) ids"
    and "ci_cache h = []" "ci_connected h \<noteq> 0"
  shows "\<exists>h1 c1 h2 c2.
    recv_many os (length (filter (\<lambda>m. mg_remain m \<le> 0) q)) (Some h) c =
      Some (Inr (map (\<lambda>m. HeapBuff (map Some (dat (mg_id m)))) (filter (\<lambda>m. mg_remain m \<le> 0) q), Some h1, c1)) \<and>
    chan_try_recv os (Some h1) c1 = Some (Inr (NoBuff, Some h2, c2)) \<and> chan_holds [] c2"
proof -
  define bs where "bs = map (\<lambda>m. HeapBuff (map Some (dat (mg_id m)))) (filter (\<lambda>m. mg_remain m \<le> 0) q)"
  have r: "receive_elems os q h (cn_store c) = Inr (bs, h\<lparr>ci_cache := []\<rparr>, cn_store c)"
    unfolding bs_def by (rule receive_elems_mixed [OF assms(2,3) _ assms(5)]) (use assms(4) in \<open>auto simp: list_all_iff\<close>)
  from recv_many_receives [OF assms(1) r assms(6)] obtain h1 c1 q1 where m:
    "recv_many os (length bs) (Some h) c = Some (Inr (bs, Some h1, c1))" "chan_holds q1 c1"
    "receive_elems os q1 h1 (cn_store c1) = Inr ([], h\<lparr>ci_cache := []\<rparr>, cn_store c)" "ci_connected h1 \<noteq> 0"
    by blast
  from recv_loop_receives [OF m(2,3)] obtain h2 c2 where
    "recv_loop os [] h1 c1 = Some (Inr (NoBuff, h2, c2))" "chan_holds [] c2"
    by auto
  then have "chan_try_recv os (Some h1) c1 = Some (Inr (NoBuff, Some h2, c2))" "chan_holds [] c2"
    using m(4) by (simp_all add: chan_try_recv_def chan_recv_buff_def)
  then show ?thesis
    using m(1) unfolding bs_def by auto
qed

definition zero_msg :: msg_t where
  "zero_msg = \<lparr>mg_conn = 0, mg_id = 0, mg_remain = 0, mg_storage = False, mg_data = replicate data_length 0\<rparr>"

definition new_chan :: "32 word \<Rightarrow> chan" where
  "new_chan cc = \<lparr>cn_ring = empty_ring [zero_msg], cn_cc = cc, cn_acc = 0, cn_store = (\<lambda>cls. zero_cls)\<rparr>"

lemma new_chan_holds: "chan_holds [] (new_chan cc)"
  using empty_ring_holds [of "[zero_msg]"] by (simp add: chan_holds_def new_chan_def)

lemma some_chan: "length q \<le> 255 \<Longrightarrow> \<exists>r. chan_holds q ((new_chan cc)\<lparr>cn_ring := r\<rparr>)"
proof (induction q rule: rev_induct)
  case Nil
  show ?case
    using new_chan_holds [of cc] by (intro exI [of _ "cn_ring (new_chan cc)"]) simp
next
  case (snoc m q)
  then obtain r where "chan_holds q ((new_chan cc)\<lparr>cn_ring := r\<rparr>)" by auto
  from que_push_holds [OF this, of m] snoc.prems show ?case by auto
qed

definition a_peer :: "32 word \<Rightarrow> 32 word \<Rightarrow> conn_info" where
  "a_peer cc_id connected =
     \<lparr>ci_cc_id = cc_id, ci_acc = True, ci_elems = True, ci_connected = connected, ci_sender = False,
      ci_cache = [], ci_shm = \<lparr>cs_info = (\<lambda>cls. False), cs_mems = (\<lambda>cls i. False)\<rparr>\<rparr>"

definition two_messages :: "32 word \<Rightarrow> byte_t list" where
  "two_messages i = (if i = 3 then replicate 70 1 else replicate 66 2)"

definition mixed_fragments :: "msg_t list" where
  "mixed_fragments = [fragments 1 3 (two_messages 3) ! 0, fragments 2 4 (two_messages 4) ! 0,
     fragments 2 4 (two_messages 4) ! 1, fragments 1 3 (two_messages 3) ! 1]"

lemma mixed_fragments_mixed: "mixed [3, 4] (\<lambda>i. if i = 3 then 1 else 2) two_messages mixed_fragments"
  by code_simp

theorem messages_reassembled_witness:
  "\<exists>c h1 c1. chan_holds mixed_fragments c \<and>
     recv_many (\<lambda>cls x. True) 2 (Some (a_peer 9 1)) c =
       Some (Inr ([HeapBuff (map Some (replicate 66 2)), HeapBuff (map Some (replicate 70 1))], Some h1, c1))"
proof -
  obtain c where c: "chan_holds mixed_fragments c"
    using some_chan [of mixed_fragments 1] by (auto simp: mixed_fragments_def)
  have last: "filter (\<lambda>m. mg_remain m \<le> 0) mixed_fragments = [fragments 2 4 (two_messages 4) ! 1, fragments 1 3 (two_messages 3) ! 1]"
    "map (\<lambda>m. two_messages (mg_id m)) [fragments 2 4 (two_messages 4) ! 1, fragments 1 3 (two_messages 3) ! 1] =
      [replicate 66 2, replicate 70 1]"
    by code_simp+
  have "list_all (\<lambda>i. length (two_messages i) < 2 ^ 31 \<and> (if i = 3 then 1 else 2) \<noteq> ci_cc_id (a_peer 9 1)) [3, 4]"
    by (simp add: two_messages_def a_peer_def)
  moreover have "ci_cache (a_peer 9 1) = []" "ci_connected (a_peer 9 1) \<noteq> 0"
    by (simp_all add: a_peer_def)
  ultimately obtain h1 c1 where
    "recv_many (\<lambda>cls x. True) (length (filter (\<lambda>m. mg_remain m \<le> 0) mixed_fragments)) (Some (a_peer 9 1)) c =
      Some (Inr (map (\<lambda>m. HeapBuff (map Some (two_messages (mg_id m))))
        (filter (\<lambda>m. mg_remain m \<le> 0) mixed_fragments), Some h1, c1))"
    using messages_reassembled [OF c mixed_fragments_mixed, of "a_peer 9 1" "\<lambda>cls x. True"] by auto
  then show ?thesis
    using c last(2) unfolding last(1) by (auto simp del: recv_many.simps simp: numeral_2_eq_2)
qed

text \<open>C7. A message of more than 64 bytes, sent while a block of its size class is free, arrives
  with exactly its bytes in that block, and freeing the received buffer gives the block back to
  the pool if one receiver is connected. With more receivers connected the block stays in use
  after the only receiver that gets the message has freed it.\<close>

theorem large_message_roundtrip:
  assumes "can_send data h c" "data_length < length data" "chan_holds [] c"
    and "opens os" "cls_ok (cn_store c cls) live" "\<not> {..<max_count} \<subseteq> dom live" "cls = calc_cls_size (length data)"
    and "ci_cc_id h \<noteq> ci_cc_id g" "ci_connected g \<noteq> 0" "map_of (ci_cache g) (cn_acc c) = None"
  shows "\<exists>i h' c' g' c'' l st.
    ipc_send os es (Some data) (Some h) c = Inr (True, Some h', c') \<and>
    chan_try_recv os (Some g) c' = Some (Inr (StoreBuff i (length data), Some g', c'')) \<and>
    buff_data (cn_store c'') (StoreBuff i (length data)) = map Some data \<and>
    buff_free os (StoreBuff i (length data)) (ci_shm g', cn_store c'') = Inr (l, st) \<and>
    cls_ok (st cls) (if cn_cc c = 1 then live else live(i \<mapsto> unat (cn_cc c) - 1))"
proof -
  from send_large [OF pushes_force assms(1,2,4-7,3), of es] obtain i h' c' where s:
    "ipc_send os es (Some data) (Some h) c = Inr (True, Some h', c')"
    "chan_holds [block_msg (ci_cc_id h) (cn_acc c) i (length data)] c'" "live i = None"
    "cls_ok (cn_store c' cls) (live(i \<mapsto> unat (cn_cc c)))"
    "take (length data) (cm_block (cn_store c' cls) i) = data"
    by (auto simp: ipc_send_def)
  have len: "length data < 2 ^ 31" "0 < unat (cn_cc c)"
    using assms(1) by (simp_all add: can_send_def unat_gt_0)
  from recv_block [where st = "cn_store c'", OF assms(4) s(4) fun_upd_same assms(7,2) len(1) assms(8,10)] obtain l where l:
    "recv_msg os (block_msg (ci_cc_id h) (cn_acc c) i (length data)) g (cn_store c') =
      Inr (Some (StoreBuff i (length data)), g\<lparr>ci_shm := l\<rparr>, cn_store c')" "cs_mems l cls i"
    by auto
  from recv_one [OF s(2) l(1) assms(9)] obtain r where r:
    "chan_try_recv os (Some g) c' =
      Some (Inr (StoreBuff i (length data), Some (g\<lparr>ci_shm := l\<rparr>), c'\<lparr>cn_ring := r, cn_store := cn_store c'\<rparr>))"
    by blast
  from recycle_storage_live [where m = "cn_store c'", OF assms(4) s(4) assms(7) fun_upd_same l(2)] obtain l2 st where f:
    "recycle_storage os i (length data) (l, cn_store c') = Inr (l2, st)"
    "cls_ok (st cls) (read_once i (live(i \<mapsto> unat (cn_cc c))))"
    by blast
  have "read_once i (live(i \<mapsto> unat (cn_cc c))) = (if cn_cc c = 1 then live else live(i \<mapsto> unat (cn_cc c) - 1))"
    using len(2) fun_upd_triv [of live i] by (auto simp: read_once_def word_unat_eq_iff s(3))
  then show ?thesis
    using s(1,5) r f assms(7)
    by (intro exI [of _ i] exI [of _ h'] exI [of _ c'] exI [of _ "g\<lparr>ci_shm := l\<rparr>"]
        exI [of _ "c'\<lparr>cn_ring := r, cn_store := cn_store c'\<rparr>"] exI [of _ l2] exI [of _ st])
      (simp add: buff_data_def buff_free_def)
qed

theorem large_message_roundtrip_witness:
  "\<exists>i h' c' g' c'' l st.
    ipc_send (\<lambda>cls x. True) [] (Some (replicate 100 7)) (Some (a_peer 1 0)) (new_chan 1) = Inr (True, Some h', c') \<and>
    chan_try_recv (\<lambda>cls x. True) (Some (a_peer 2 1)) c' = Some (Inr (StoreBuff i 100, Some g', c'')) \<and>
    buff_data (cn_store c'') (StoreBuff i 100) = replicate 100 (Some 7) \<and>
    buff_free (\<lambda>cls x. True) (StoreBuff i 100) (ci_shm g', cn_store c'') = Inr (l, st) \<and>
    cls_ok (st 128) Map.empty"
proof -
  have 1: "can_send (replicate 100 7) (a_peer 1 0) (new_chan 1)" "data_length < length (replicate 100 (7 :: byte_t))"
    by (simp_all add: can_send_def a_peer_def new_chan_def data_length_def)
  have 2: "opens (\<lambda>cls x. True)" "cls_ok (cn_store (new_chan 1) 128) Map.empty"
      "\<not> {..<max_count} \<subseteq> dom (Map.empty :: nat \<rightharpoonup> nat)" "128 = calc_cls_size (length (replicate 100 (7 :: byte_t)))"
    using cls_ok_zero by (simp_all add: opens_def new_chan_def max_count_def large_msg_cache_def lessThan_empty_iff
      calc_cls_size_def large_msg_limit_def data_length_def)
  have 3: "ci_cc_id (a_peer 1 0) \<noteq> ci_cc_id (a_peer 2 1)" "ci_connected (a_peer 2 1) \<noteq> 0"
      "map_of (ci_cache (a_peer 2 1)) (cn_acc (new_chan 1)) = None" "cn_cc (new_chan 1) = 1"
    by (simp_all add: a_peer_def new_chan_def)
  show ?thesis
    using large_message_roundtrip [OF 1 new_chan_holds 2 3(1-3), of "[]"] unfolding 3(4) by (simp only: length_replicate
      map_replicate if_True simp_thms)
qed

text \<open>C17. A channel with one receiver is a queue of messages of any size. Whatever the order in which any number of
  processes send and the receiver takes messages and frees them, the calls return what the calls of a queue return: every
  send succeeds and every receive gets the bytes of the oldest message, or nothing if there is none. This holds for short
  messages, for messages in blocks and for those that are cut into fragments because no block is free. When all messages
  are received, every block is back in its pool. The messages are not empty and those under way fit into the ring.\<close>

theorem chan_is_message_queue:
  assumes "opens os" and "chan_holds [] c" "\<And>cls. cls_ok (cn_store c cls) Map.empty" "cn_cc c = 1"
    and "\<And>k. sender_of cc_id (hs k)" "receiver_of cc_id g" and "calls_fit xs []"
  shows "\<exists>hs' g' c'. chan_calls os es xs (hs, g, c) = Some (Inr (fst (queue_calls xs []), hs', g', c')) \<and>
    (snd (queue_calls xs []) = [] \<longrightarrow> chan_holds [] c' \<and> (\<forall>cls. cls_ok (cn_store c' cls) Map.empty))"
proof -
  have "chan_queue (\<lambda>_. Map.empty) [] c" using assms(2,3) by (simp add: chan_queue_def)
  then have "peers_ok cc_id [] (hs, g, c)"
    using assms(4-6) by (auto simp: peers_ok_def)
  from calls_refine_queue [OF assms(1) this assms(7), of es] obtain hs' g' c' where
    "chan_calls os es xs (hs, g, c) = Some (Inr (fst (queue_calls xs []), hs', g', c'))"
    "peers_ok cc_id (snd (queue_calls xs [])) (hs', g', c')" by auto
  moreover have "chan_holds [] c' \<and> (\<forall>cls. cls_ok (cn_store c' cls) Map.empty)" if empty: "peers_ok cc_id [] (hs', g', c')"
  proof -
    obtain live where live: "chan_queue live [] c'" using empty by (auto simp: peers_ok_def)
    then have "live cls = Map.empty" for cls by (auto simp: chan_queue_def)
    then show ?thesis using live by (simp add: chan_queue_def)
  qed
  ultimately show ?thesis by auto
qed

definition some_calls :: "chan_call list" where
  "some_calls = [SendCall 0 [1, 2], SendCall 1 (replicate 100 7), RecvCall, SendCall 0 (replicate 70 3), RecvCall, RecvCall, RecvCall]"

theorem chan_is_message_queue_witness:
  "\<exists>hs' g' c'. chan_calls (\<lambda>cls x. True) [] some_calls (\<lambda>k. Some (a_peer (if k = 0 then 1 else 2) 0), Some (a_peer 9 1), new_chan 1) =
      Some (Inr ([Sent True, Sent True, Got [Some 1, Some 2], Sent True, Got (replicate 100 (Some 7)),
        Got (replicate 70 (Some 3)), Got []], hs', g', c')) \<and>
    chan_holds [] c' \<and> cls_ok (cn_store c' 128) Map.empty"
proof -
  have 1: "opens (\<lambda>cls x. True)" "cn_cc (new_chan 1) = 1" "\<And>cls. cls_ok (cn_store (new_chan 1) cls) Map.empty"
    using cls_ok_zero by (simp_all add: opens_def new_chan_def)
  have 2: "sender_of 9 (Some (a_peer (if k = 0 then 1 else 2) 0))" for k
    by (simp add: sender_of_def a_peer_def)
  have 3: "receiver_of 9 (Some (a_peer 9 1))" by (simp add: receiver_of_def a_peer_def)
  have 4: "calls_fit some_calls []" by (simp add: some_calls_def elems_of_def data_length_def)
  have 5: "queue_calls some_calls [] = ([Sent True, Sent True, Got [Some 1, Some 2], Sent True, Got (replicate 100 (Some 7)),
        Got (replicate 70 (Some 3)), Got []], [])"
    by (simp add: some_calls_def)
  show ?thesis
    using chan_is_message_queue [where hs = "\<lambda>k. Some (a_peer (if k = 0 then 1 else 2) 0)", OF 1(1) new_chan_holds 1(3,2) 2 3 4, of "[]"]
    unfolding 5 fst_conv snd_conv by blast
qed

lemma send_fragments_fails:
  assumes "data \<noteq> []" "length data < 2 ^ 31" "\<And>m. push 0 m c = Inr (False, c')"
  shows "send_fragments push cc_id msg_id data c = Inr (False, c')"
proof -
  have len: "0 < length data" "int32 (int (length data)) = int (length data)"
    using assms(1,2) by (simp_all add: int32_id)
  define k where "k = length data div data_length"
  have "k < 2 ^ 31"
    using assms(2) div_le_dividend [of "length data" data_length] unfolding k_def by linarith
  then have k: "nat (int32 (int k)) = k" by (simp add: int32_id)
  have in32: "in_int32 (int (length data)) = Inr (int (length data))"
      "in_int32 (int (length data) - int data_length) = Inr (int (length data) - int data_length)"
    using assms(2) by (simp_all add: in_int32_def data_length_def)
  show ?thesis
  proof (cases k)
    case 0
    then show ?thesis
      using len assms(3) in32 k by (simp add: send_fragments_def k_def [symmetric])
  next
    case (Suc j)
    then show ?thesis
      using len assms(3) in32 k by (simp add: send_fragments_def k_def [symmetric])
  qed
qed

text \<open>C23. A send that finds the ring full until its time is up does not send: it takes the
  receiver off the channel. With one receiver the count of receivers is then zero, so every
  further send of every process fails, waiting for a receiver never succeeds, and connecting
  again as the receiver returns true and changes nothing.\<close>

theorem timed_out_send_closes_channel:
  assumes "can_send data h c" "length data \<le> data_length" "chan_holds q c" "length q = 255" "cn_cc c = 1"
    and "cw_h w = Some g" "cw_connected w" "cw_mode w"
  shows "\<exists>h' c'. ipc_send os [] (Some data) (Some h) c = Inr (False, Some h', c') \<and>
    chan_holds q c' \<and> cn_cc c' = 0 \<and>
    (\<forall>es d ho. \<exists>ho'. ipc_send os es d ho c' = Inr (False, ho', c')) \<and>
    (\<forall>n. ci_elems h' \<and> wait_for_recv 1 (replicate n id) h' c' = Inr (False, c')) \<and>
    wrapper_reconnect True w c' = (True, w, c')"
proof -
  define c1 where "c1 = c\<lparr>cn_acc := cn_acc c + 1\<rparr>"
  define c' where "c' = c1\<lparr>cn_cc := 0\<rparr>"
  define h' where "h' = h\<lparr>ci_sender := True\<rparr>"
  have "chan_holds q c1" using assms(3) by (simp add: c1_def chan_holds_def)
  note full = que_push_full [OF this assms(4)]
  have "push_or_force [] i m c1 = Inr (False, c')" for i m
    using full assms(5)
    by (simp add: push_or_force_def env_at_def que_force_push_def cc_disconnect_def c'_def c1_def)
  then have "send_fragments (push_or_force []) (ci_cc_id h) (cn_acc c) data c1 = Inr (False, c')"
    using assms(1) by (intro send_fragments_fails) (auto simp: can_send_def)
  then have sent: "ipc_send os [] (Some data) (Some h) c = Inr (False, Some h', c')"
    using assms(1,2)
    by (simp add: ipc_send_def send_with_def can_send_def ready_sending_def large_msg_limit_def Let_def c1_def h'_def)
  have state: "chan_holds q c'" "cn_cc c' = 0" "ci_elems h'"
    using assms(1,3) by (simp_all add: c'_def c1_def chan_holds_def can_send_def h'_def)
  have later: "\<exists>ho'. ipc_send os es d ho c' = Inr (False, ho', c')" for es d ho
    using state(2) by (auto simp: ipc_send_def send_with_def ready_sending_def split: option.splits)
  have wait: "wait_for_recv 1 (replicate n id) h' c' = Inr (False, c')" for n
    using state(2,3) by (induction n) (simp_all add: wait_for_recv_def recv_count_def)
  have "wrapper_reconnect True w c' = (True, w, c')"
    using assms(6-8) by (simp add: wrapper_reconnect_def)
  then show ?thesis
    using sent state later wait by (intro exI [of _ h'] exI [of _ c'] conjI allI) auto
qed

theorem timed_out_send_closes_channel_witness:
  "\<exists>c h' c'. chan_holds (replicate 255 zero_msg) c \<and> cn_cc c = 1 \<and>
     ipc_send (\<lambda>cls x. True) [] (Some [5]) (Some (a_peer 1 0)) c = Inr (False, Some h', c') \<and> cn_cc c' = 0 \<and>
     (\<exists>ho'. ipc_send (\<lambda>cls x. True) [] (Some [6]) (Some (a_peer 4 0)) c' = Inr (False, ho', c'))"
proof -
  obtain r where r: "chan_holds (replicate 255 zero_msg) ((new_chan 1)\<lparr>cn_ring := r\<rparr>)"
    using some_chan [of "replicate 255 zero_msg" 1] by auto
  define c where "c = (new_chan 1)\<lparr>cn_ring := r\<rparr>"
  define w where "w = \<lparr>cw_h = Some (a_peer 2 1), cw_mode = True, cw_connected = True\<rparr>"
  have "can_send [5] (a_peer 1 0) c" "cn_cc c = 1" "length [5 :: byte_t] \<le> data_length"
      "cw_h w = Some (a_peer 2 1)" "cw_connected w" "cw_mode w" "length (replicate 255 zero_msg) = 255"
    by (simp_all add: can_send_def a_peer_def c_def new_chan_def data_length_def w_def)
  from timed_out_send_closes_channel [OF this(1,3) r [folded c_def] this(7,2,4-6), of "\<lambda>cls x. True"]
  show ?thesis
    using r \<open>cn_cc c = 1\<close> unfolding c_def by blast
qed

end
