(* ===== verification/Spec2Isabelle.thy ===== *)
theory Spec2Isabelle
  imports Chain_Properties Kvs_Properties Trigger_Properties Lattice_Properties Common_Properties Thread_Queues Lock_Properties Socket_Cache Ipc_Properties
begin

text \<open>
  \<^bold>\<open>A model of SPheromone.\<close> The program is a serverless platform in which functions are triggered by the data
  that other functions write. Its processes, under \<^verbatim>\<open>src/\<close>, are

    \<^item> the \<^emph>\<open>manager\<close> (\<^verbatim>\<open>src/manager\<close>), which assigns every application to a coordinator thread;
    \<^item> \<^emph>\<open>coordinators\<close> (\<^verbatim>\<open>src/coordinator\<close>), which keep buckets, triggers and the addresses of objects, schedule the
      calls of clients and run the triggers of objects they are notified of;
    \<^item> on every worker node a \<^emph>\<open>scheduler\<close> (\<^verbatim>\<open>src/scheduler\<close>), which runs the local triggers and hands calls to
      executors, fetches and serves data, and forwards what it cannot run;
    \<^item> on every worker node several \<^emph>\<open>executors\<close> (\<^verbatim>\<open>src/executor\<close>), which load and run user functions;
    \<^item> \<^emph>\<open>clients\<close> (\<^verbatim>\<open>include/pheromone_client.h\<close>), which register applications and call functions;
    \<^item> an external key-value store, reached through the class of \<^verbatim>\<open>common/include/anna_client\<close>.

  \<^bold>\<open>How the code is rendered.\<close> A process is a record of its variables. A handler is a function from the message and
  the state to the new state and the messages it sends (\<open>sends\<close>, pairs of an address and a message), and a sequence of
  events is run by \<^const>\<open>run_events\<close>. \<^verbatim>\<open>unordered_map\<close> and \<^verbatim>\<open>unordered_set\<close> are lists with distinct keys
  (\<open>umap\<close>, \<open>uset\<close>), whose order stands for the unspecified iteration order. Every failure of the C++ code that
  ends or corrupts a process (a failed \<open>at\<close>, an index out of range, a null or invalid pointer or iterator, a division
  by zero, an uncaught exception, an uninitialised variable) is a value \<open>Inl\<close> of the type \<open>'a res\<close>. Fixed-width
  integers are words where they wrap or are cut; counts and options, which are \<open>int\<close> in the code, are integers that are
  taken to stay within 32 bits. Clocks and random numbers are arguments. Triggers that a worker node
  reaches from several places are indices into a store.

  \<^bold>\<open>Parameters.\<close> The wire format of protocol buffers is a pair of encoding and decoding functions; what is used of it
  is that decoding inverts encoding (\<^const>\<open>codec_ok\<close>). \<open>Sample_Codec\<close> instantiates it. Random numbers are a function of
  the seed (\<open>rng\<close>). The functions an executor can load are a parameter; a function is a program over the operations of
  the library (\<open>prog\<close>). In the processes the channels of the shared-memory library are lists of messages; the \<open>Ipc\<close> theories
  model the library itself.

  \<^bold>\<open>Theories, in the order of the code.\<close>

    \<^item> \<open>Prelude\<close>: failures, maps and sets, strings and numbers, the interfaces \<open>roundtrip\<close> and \<open>step_system\<close>.
      \<open>Messages\<close>: \<^verbatim>\<open>common/proto/*.proto\<close>. \<open>Common\<close>: \<^verbatim>\<open>common/include/common.hpp\<close>. \<open>Threads\<close>:
      \<^verbatim>\<open>anna_threads.hpp\<close>, \<^verbatim>\<open>kvs_threads.hpp\<close>, \<^verbatim>\<open>op_threads.hpp\<close>. \<open>Requests\<close>: \<^verbatim>\<open>requests.hpp\<close>.
      \<open>Common_Properties\<close>: names and splits of keys are inverse, the timestamp loop ends, sockets do not clash.
    \<^item> \<open>Triggers\<close>: \<^verbatim>\<open>common/include/trigger.hpp\<close>, one record per subclass and one function per method, with the
      dispatch of the virtual methods on the datatype \<open>TriggerPtr\<close>. \<open>Trigger_Laws\<close>, \<open>Trigger_Specs\<close>,
      \<open>Trigger_Properties\<close>: each kind of trigger fires with the right objects, none is lost or taken twice, triggers
      survive the trip from coordinator to node, the methods keep them well formed. The set trigger refines an abstract
      step on sets of prepared keys.
    \<^item> \<open>Anna_Lattices\<close>, \<open>Lattice_Serialization\<close>, \<open>Lattice_Properties\<close>: \<^verbatim>\<open>common/include/lattices\<close>. The merges are
      instances of the interfaces \<open>merge_lattice\<close> and \<open>value_lattice\<close>, so replicas converge.
    \<^item> \<open>Kvs_Client\<close>, \<open>Kvs_Client_Laws\<close>, \<open>Kvs_Timeouts\<close>, \<open>Kvs_Properties\<close>: \<^verbatim>\<open>anna_client/kvs_client.hpp\<close>. No request
      is forgotten, every request is answered at the latest by a timeout, identifiers do not repeat.
    \<^item> \<open>Coord_State\<close>, \<open>Coord_Triggers\<close>, \<open>Coord_Calls\<close>, \<open>Coord_Notify\<close>, \<open>Coordinator\<close>: the coordinator, one theory
      per group of handlers and the event loop. \<open>Coord_Call_Laws\<close>, \<open>Coord_Laws\<close>, \<open>Coord_Notify_Laws\<close>,
      \<open>Coord_Workers\<close>, \<open>Coord_Properties\<close>, \<open>Coord_Op_Properties\<close>: the invariant of a coordinator thread is kept by every
      handler; notifications do not fail; batches are dealt out completely; addresses are not lost; executors on the
      books are conserved.
    \<^item> \<open>Sched_State\<close>, \<open>Comm_Helper\<close>, \<open>Comm_Receive\<close>, \<open>Sched_Calls\<close>, \<open>Sched_Messages\<close>, \<open>Scheduler\<close>: the worker node,
      \<^verbatim>\<open>comm_helper.hpp\<close>, \<^verbatim>\<open>object_handlers.cpp\<close> and \<^verbatim>\<open>scheduler.cpp\<close>. A round of the main loop and a round of an
      input-output thread are the steps. \<open>Sched_Frames\<close>, \<open>Sched_Relations\<close>, \<open>Sched_Rounds\<close>: the interface
      \<open>node_relation\<close>, a relation that every elementary change satisfies and therefore every round; it is interpreted
      for the calls handed to executors (\<open>Sched_Invariants\<close>) and for the status of executors, which follows their
      reports and calls (\<open>Sched_Status\<close>). \<open>Sched_Call_Laws\<close>, \<open>Sched_Laws\<close>, \<open>Sched_Properties\<close>: outcome of
      scheduling, end of the loop over the rerun checks, the data protocol.
    \<^item> \<open>Function_Lib\<close>, \<open>Executor\<close>, \<open>Executor_Laws\<close>: the executor; its messages follow the protocol of reports.
      \<open>Node_Properties\<close>: scheduler and executor together, in both directions, also for data that the text format of
      their messages cuts or drops.
    \<^item> \<open>Manager\<close>, \<open>Client_Library\<close>, \<open>System_Properties\<close>: manager and client, and the properties across processes.
    \<^item> \<open>Socket_Cache\<close>: \<^verbatim>\<open>common/include/zmq\<close>; what a process sends through its cached sockets is the list of sends of its
      handlers.
    \<^item> \<open>Safe_Ptr\<close>, \<open>Thread_Queues\<close>: \<^verbatim>\<open>common/include/safe_ptr.hpp\<close>, class \<open>safe_ptr\<close>, and what the threads of a node do with
      the objects they share through it. Threads are programs (codata) whose steps are interleaved. The interface
      \<open>recursive_lock\<close> is interpreted for the recursive mutex: accesses are atomic and do not deadlock, so a round of an
      input-output thread may be taken as a step; queues are handled in order, a lookup fails only if some thread clears the cache.
    \<^item> \<open>Contention_Free\<close>, \<open>Contfree_Laws\<close>, \<open>Spin_Locks\<close>, \<open>Safe_Map\<close>, \<open>Safe_Map_Laws\<close>, \<open>Lock_Properties\<close>: the locks and the
      partitioned map of the same file, one atomic operation of a thread per step. The locks exclude, a writer that asks
      for a shared lock waits for itself, the partitioned map is one ordered map.
    \<^item> \<open>Chain_Payload\<close>, \<open>Chain_App\<close>, \<open>Chain_Node\<close>, \<open>Chain_Properties\<close>: the sample application \<^verbatim>\<open>benchmarks/00\<close>, its functions
      as programs over the library. All processes together: a client registers and calls the application, and the chain
      of calls runs to its end on a node with one executor.
    \<^item> \<open>Ipc_Ring\<close>: \<^verbatim>\<open>deps/shm-ipc/src/libipc/prod_cons.h\<close>, the lock-free ring under the channels between scheduler and
      executors, one step per access to shared memory and byte. \<open>Ipc_Ring_Laws\<close>, \<open>Ipc_Ring_Steps\<close>: its invariant, over
      counters that never wrap. \<open>Ipc_Ring_Words\<close>: the 32-bit counters simulate them. \<open>Ipc_Ring_Fifo\<close>: between calls the
      ring is a bounded queue.
    \<^item> \<open>Ipc_Pool\<close>, \<open>Ipc_Storage\<close>: \<^verbatim>\<open>id_pool.h\<close> and the blocks for large messages of \<^verbatim>\<open>deps/shm-ipc/src/ipc.cpp\<close>; the
      interface \<open>id_allocator\<close> is interpreted for the pool. \<open>Ipc_Channel\<close>: connections, sending and receiving.
      \<open>Ipc_Channel_Laws\<close>, \<open>Ipc_Receive\<close>, \<open>Ipc_Calls\<close>, \<open>Ipc_Queue\<close>, \<open>Ipc_Properties\<close>: messages arrive as they were
      sent, also when their fragments are mixed; blocks return to the pool; a channel with one receiver refines a queue of
      messages; what a send that times out does.
  \<^bold>\<open>Loops and fuel.\<close> Only \<open>ring_push\<close> and \<open>ring_pop\<close> use fuel: ten steps more than there are bytes to copy, and
  \<open>ring_push_holds\<close> and \<open>ring_pop_holds\<close> show that the calls then return. Loops over containers are folds or structural recursion. The search
  for the next node of a batch (\<open>next_node\<close>), the loop of the timestamp (\<open>timestamp_pow\<close>) and the loop over the rerun
  checks (\<open>rerun_checks\<close>) can diverge, and so can the constructor of the partitioned map with a step (\<open>safe_map_steps\<close>) and the receive loop of
  a channel (\<open>recv_loop\<close>); they are partial functions of the option type and are proved to return a result under the conditions the code
  establishes. A thread that spins on a lock makes steps that leave the state as it is.

  \<^bold>\<open>Not modelled.\<close> Reading the configuration files, log output and the start of processes and threads (\<open>main\<close>). In \<^verbatim>\<open>safe_ptr.hpp\<close>,
  the classes the program does not use and that add no protocol of their own (\<open>safe_obj\<close>, the hidden and locked
  variants, \<open>link_safe_ptrs\<close>, \<open>lock_timed_any\<close>). The transport of ZeroMQ, of which only the effect on messages appears. Of the shared-memory
  library the policies other than that of \<open>shm_chan_t\<close>, the waiters and the segments, of which only the contents appear. The parsers and serialisers that the protocol buffer compiler generates
  (\<^verbatim>\<open>src-gen/\<close>). The third-party libraries under \<^verbatim>\<open>deps/\<close> and the other sample applications under
  \<^verbatim>\<open>benchmarks/\<close>, which are user functions with clients of databases and not part of the platform. The weak memory model of C++: atomic operations are interleaved.
\<close>

end
